(* ===== verification/Prelude.thy ===== *)
theory Prelude
  imports Main "HOL-Library.Word"
begin

text \<open>
  Shared vocabulary of the development: the machine integers of the i386 kernel, the result type of
  kernel routines, its sequencing operator, bounded loops, and the proof rules (collected under
  \<open>kwp\<close>) by which the component theories reason about routines.
\<close>

unbundle bit_operations_syntax

section \<open>Machine integers\<close>

type_synonym u8 = "8 word"
type_synonym u16 = "16 word"
type_synonym u32 = "32 word"

text \<open>
  A C \<open>int\<close>/\<open>long\<close> is kept as an \<^typ>\<open>int\<close>; \<open>s32\<close> writes the two's complement wrap-around out
  where the arithmetic of the source can leave the 32-bit range.
\<close>

definition s32 :: "int \<Rightarrow> int" where
  "s32 x = (x + 2147483648) mod 4294967296 - 2147483648"

lemma s32_id [simp]: "- 2147483648 \<le> x \<Longrightarrow> x < 2147483648 \<Longrightarrow> s32 x = x"
  by (simp add: s32_def)

lemma s32_range: "- 2147483648 \<le> s32 x" "s32 x < 2147483648"
  by (simp_all add: s32_def)

lemma s32_idem [simp]: "s32 (s32 x) = s32 x"
  using s32_range [of x] by simp

lemma sint_u32: "sint (x :: u32) = s32 (uint x)"
  by (simp add: sint_uint s32_def signed_take_bit_eq_take_bit_shift take_bit_eq_mod)

lemma s32_upper:
  assumes "2147483648 \<le> u" "u < 4294967296"
  shows "s32 u = u - 4294967296"
proof -
  have "u + 2147483648 = (u - 2147483648) + 4294967296"
    by simp
  then have "(u + 2147483648) mod 4294967296 = (u - 2147483648) mod 4294967296"
    by (metis mod_add_self2)
  then show ?thesis
    using assms by (simp add: s32_def)
qed

lemma sint_u32_cases:
  "sint (x :: u32) = (if uint x < 2147483648 then uint x else uint x - 4294967296)"
proof (cases "uint x < 2147483648")
  case True
  moreover have "- 2147483648 \<le> uint x"
    using uint_ge_0 [of x] by linarith
  ultimately show ?thesis
    by (simp add: sint_u32)
next
  case False
  then show ?thesis
    using uint_lt2p [of x] by (simp add: sint_u32 s32_upper)
qed

lemma sint_nonneg: "0 \<le> sint (x :: u32) \<Longrightarrow> sint x = int (unat x)"
  using uint_lt2p [of x] by (simp add: sint_u32_cases split: if_splits)

lemma sint_negative: "sint (x :: u32) < 0 \<Longrightarrow> int (unat (- x)) = - sint x"
proof -
  assume "sint x < 0"
  then have "2147483648 \<le> uint x" "uint x < 4294967296" "uint x \<noteq> 0"
    using uint_lt2p [of x] by (simp_all add: sint_u32_cases split: if_splits)
  then show ?thesis
    by (simp add: sint_u32_cases uint_word_ariths zmod_zminus1_eq_if mod_pos_pos_trivial)
qed

lemma word_nonzero_bit: "(w :: 'a::len word) \<noteq> 0 \<longleftrightarrow> (\<exists>n. n < LENGTH('a) \<and> bit w n)"
  by (auto simp: bit_eq_iff dest: bit_imp_le_length)

section \<open>Results of kernel routines\<close>

text \<open>
  A routine either returns a value and a new state, or does not return to its caller:
  \<^item> \<open>Panic msg\<close>: it called \<open>panic(msg)\<close>, which never returns;
  \<^item> \<open>Exit code s\<close>: it called \<open>do_exit(code)\<close> in state \<open>s\<close>, which does not return to it;
  \<^item> \<open>Blocked s\<close>: it went to sleep in state \<open>s\<close>, or loops there without end;
  \<^item> \<open>Fault s\<close>: it reads or writes through a null pointer in state \<open>s\<close>.
\<close>

datatype 's kerr = Panic string | Exit int 's | Blocked 's | Fault 's

type_synonym ('a, 's) kres = "'s kerr + 'a \<times> 's"

definition ret :: "'a \<Rightarrow> 's \<Rightarrow> ('a, 's) kres" where
  "ret x s = Inr (x, s)"

definition panic :: "string \<Rightarrow> ('a, 's) kres" where
  "panic msg = Inl (Panic msg)"

definition bindK :: "('a, 's) kres \<Rightarrow> ('a \<Rightarrow> 's \<Rightarrow> ('b, 's) kres) \<Rightarrow> ('b, 's) kres" where
  "bindK m f = (case m of Inl e \<Rightarrow> Inl e | Inr (x, s) \<Rightarrow> f x s)"

text \<open>A bounded \<open>for\<close> loop over a list of index values.\<close>

fun forK :: "'i list \<Rightarrow> ('i \<Rightarrow> 's \<Rightarrow> (unit, 's) kres) \<Rightarrow> 's \<Rightarrow> (unit, 's) kres" where
  "forK [] body s = ret () s"
| "forK (i # is) body s = bindK (body i s) (\<lambda>_ s. forK is body s)"

lemma bindK_ret [simp]: "bindK (ret x s) f = f x s"
  by (simp add: bindK_def ret_def)

lemma bindK_Inr [simp]: "bindK (Inr (x, s)) f = f x s"
  by (simp add: bindK_def)

lemma bindK_Inl [simp]: "bindK (Inl e) f = Inl e"
  by (simp add: bindK_def)

lemma bindK_panic [simp]: "bindK (panic m) f = panic m"
  by (simp add: bindK_def panic_def)

lemma bindK_assoc: "bindK (bindK m f) g = bindK m (\<lambda>x s. bindK (f x s) g)"
  by (simp add: bindK_def split: sum.splits)

lemma bindK_eq_Inr:
  "bindK m f = Inr y \<longleftrightarrow> (\<exists>x s. m = Inr (x, s) \<and> f x s = Inr y)"
  by (auto simp: bindK_def split: sum.splits)

lemma ret_eq_Inr [simp]: "ret x s = Inr y \<longleftrightarrow> y = (x, s)"
  by (auto simp: ret_def)

lemma panic_eq_Inr [simp]: "panic m = Inr y \<longleftrightarrow> False"
  by (simp add: panic_def)

lemma ret_inject [simp]: "ret x s = ret y t \<longleftrightarrow> x = y \<and> s = t"
  by (auto simp: ret_def)

lemma bindK_cong [fundef_cong]:
  "m = m' \<Longrightarrow> (\<And>x s. m' = Inr (x, s) \<Longrightarrow> f x s = f' x s) \<Longrightarrow> bindK m f = bindK m' f'"
  by (auto simp: bindK_def split: sum.splits)

section \<open>Partial and total correctness of a routine\<close>

text \<open>
  \<open>okK Q m\<close>: if \<open>m\<close> returns, \<open>Q\<close> holds of its value and state (partial correctness).
  \<open>totK Q m\<close>: \<open>m\<close> returns, and \<open>Q\<close> holds (total correctness).
\<close>

definition okK :: "('a \<Rightarrow> 's \<Rightarrow> bool) \<Rightarrow> ('a, 's) kres \<Rightarrow> bool" where
  "okK Q m = (case m of Inl e \<Rightarrow> True | Inr (x, s) \<Rightarrow> Q x s)"

definition totK :: "('a \<Rightarrow> 's \<Rightarrow> bool) \<Rightarrow> ('a, 's) kres \<Rightarrow> bool" where
  "totK Q m = (case m of Inl e \<Rightarrow> False | Inr (x, s) \<Rightarrow> Q x s)"

named_theorems kwp \<open>rules computing okK and totK through the sequencing operators\<close>

lemma okK_ret [kwp]: "okK Q (ret x s) = Q x s"
  by (simp add: okK_def ret_def)

lemma okK_panic [kwp]: "okK Q (panic m) = True"
  by (simp add: okK_def panic_def)

lemma okK_bindK [kwp]: "okK Q (bindK m f) = okK (\<lambda>x s. okK Q (f x s)) m"
  by (auto simp: okK_def bindK_def split: sum.splits)

lemma totK_ret [kwp]: "totK Q (ret x s) = Q x s"
  by (simp add: totK_def ret_def)

lemma totK_panic [kwp]: "totK Q (panic m) = False"
  by (simp add: totK_def panic_def)

lemma totK_bindK [kwp]: "totK Q (bindK m f) = totK (\<lambda>x s. totK Q (f x s)) m"
  by (auto simp: totK_def bindK_def split: sum.splits)

lemma okK_Inl [kwp]: "okK Q (Inl e) = True"
  by (simp add: okK_def)

lemma totK_Inl [kwp]: "totK Q (Inl e) = False"
  by (simp add: totK_def)

lemma okK_Inr [kwp]: "okK Q (Inr (x, s)) = Q x s"
  by (simp add: okK_def)

lemma totK_Inr [kwp]: "totK Q (Inr (x, s)) = Q x s"
  by (simp add: totK_def)

lemma okK_mono: "okK Q m \<Longrightarrow> (\<And>x s. Q x s \<Longrightarrow> R x s) \<Longrightarrow> okK R m"
  by (auto simp: okK_def split: sum.splits)

lemma totK_mono: "totK Q m \<Longrightarrow> (\<And>x s. Q x s \<Longrightarrow> R x s) \<Longrightarrow> totK R m"
  by (auto simp: totK_def split: sum.splits)

lemma okK_seq: "okK (\<lambda>_. I) m \<Longrightarrow> (\<And>x t. I t \<Longrightarrow> okK Q (f x t)) \<Longrightarrow> okK Q (bindK m f)"
  unfolding okK_bindK by (rule okK_mono)

lemma okKD: "okK Q m \<Longrightarrow> m = Inr (x, s) \<Longrightarrow> Q x s"
  by (simp add: okK_def)

lemma okKI: "(\<And>x s. m = Inr (x, s) \<Longrightarrow> Q x s) \<Longrightarrow> okK Q m"
  by (auto simp: okK_def split: sum.splits)

lemma totK_okK: "totK Q m \<Longrightarrow> okK Q m"
  by (auto simp: okK_def totK_def split: sum.splits)

lemma totK_iff: "totK Q m \<longleftrightarrow> (\<exists>x s. m = Inr (x, s) \<and> Q x s)"
  by (auto simp: totK_def split: sum.splits)

lemma okK_conj: "okK P m \<Longrightarrow> okK Q m \<Longrightarrow> okK (\<lambda>x s. P x s \<and> Q x s) m"
  by (auto simp: okK_def split: sum.splits)

lemma okK_True [simp]: "okK (\<lambda>_ _. True) m"
  by (auto simp: okK_def split: sum.splits)

text \<open>Loop rules: an invariant indexed by the iterations still to come.\<close>

lemma okK_forK:
  assumes step: "\<And>i s. i \<in> set is \<Longrightarrow> I s \<Longrightarrow> okK (\<lambda>_. I) (body i s)"
    and init: "I s"
  shows "okK (\<lambda>_. I) (forK is body s)"
  using assms
proof (induction "is" arbitrary: s)
  case Nil
  then show ?case by (simp add: kwp)
next
  case (Cons i is')
  have "okK (\<lambda>_. I) (body i s)"
    using Cons.prems by simp
  then show ?case
    unfolding forK.simps okK_bindK
    by (rule okK_mono) (rule Cons.IH, use Cons.prems(1) in auto)
qed

lemma totK_forK:
  assumes step: "\<And>i s. i \<in> set is \<Longrightarrow> I s \<Longrightarrow> totK (\<lambda>_. I) (body i s)"
    and init: "I s"
  shows "totK (\<lambda>_. I) (forK is body s)"
  using assms
proof (induction "is" arbitrary: s)
  case Nil
  then show ?case by (simp add: kwp)
next
  case (Cons i is')
  have "totK (\<lambda>_. I) (body i s)"
    using Cons.prems by simp
  then show ?case
    unfolding forK.simps totK_bindK
    by (rule totK_mono) (rule Cons.IH, use Cons.prems(1) in auto)
qed

lemma forK_append: "forK (xs @ ys) body s = bindK (forK xs body s) (\<lambda>_ s. forK ys body s)"
  by (induction xs arbitrary: s) (auto simp: bindK_assoc intro!: bindK_cong)

end
