(* ===== verification/Mktime.thy ===== *)
theory Mktime
  imports Prelude "HOL-Library.Signed_Division"
begin

text \<open>
  \<open>kernel/mktime.c\<close>: the conversion of a broken-down time (read from the CMOS clock at boot) to
  seconds since the epoch, and its agreement with the Gregorian calendar.
\<close>

section \<open>The code\<close>

record tm =
  tm_sec :: int
  tm_min :: int
  tm_hour :: int
  tm_mday :: int
  tm_mon :: int
  tm_year :: int

definition MINUTE :: int where "MINUTE = 60"
definition HOUR :: int where "HOUR = 60 * MINUTE"
definition DAY :: int where "DAY = 24 * HOUR"
definition YEAR :: int where "YEAR = 365 * DAY"

definition month :: "int list" where
  "month =
    [0,
     DAY * 31,
     DAY * (31+29),
     DAY * (31+29+31),
     DAY * (31+29+31+30),
     DAY * (31+29+31+30+31),
     DAY * (31+29+31+30+31+30),
     DAY * (31+29+31+30+31+30+31),
     DAY * (31+29+31+30+31+30+31+31),
     DAY * (31+29+31+30+31+30+31+31+30),
     DAY * (31+29+31+30+31+30+31+31+30+31),
     DAY * (31+29+31+30+31+30+31+31+30+31+30)]"

text \<open>
  \<open>None\<close> is a read outside the \<open>month\<close> table. The sums are ring operations on a 32-bit \<open>long\<close>,
  so wrapping once at the end is the wrap of every step.
\<close>

definition kernel_mktime :: "tm \<Rightarrow> int option" where
  "kernel_mktime t =
    (let year = tm_year t - 70;
         res = YEAR * year + DAY * ((year + 1) sdiv 4)
     in if tm_mon t < 0 \<or> tm_mon t \<ge> 12 then None
        else
          let res = res + month ! nat (tm_mon t);
              res = (if tm_mon t > 1 \<and> (year + 2) smod 4 \<noteq> 0 then res - DAY else res);
              res = res + DAY * (tm_mday t - 1);
              res = res + HOUR * tm_hour t;
              res = res + MINUTE * tm_min t;
              res = res + tm_sec t
          in Some (s32 res))"

section \<open>The calendar\<close>

definition leap_year :: "int \<Rightarrow> bool" where
  "leap_year y \<longleftrightarrow> 4 dvd y \<and> (\<not> 100 dvd y \<or> 400 dvd y)"

definition year_days :: "int \<Rightarrow> int" where
  "year_days y = (if leap_year y then 366 else 365)"

definition month_days :: "int \<Rightarrow> int list" where
  "month_days y = [31, if leap_year y then 29 else 28, 31, 30, 31, 30, 31, 31, 30, 31, 30, 31]"

text \<open>Days from 1 January 1970 to the first day of month \<open>m\<close> (from 0) of the year \<open>1970 + n\<close>.\<close>

definition epoch_days :: "nat \<Rightarrow> nat \<Rightarrow> int" where
  "epoch_days n m =
    sum_list (map (\<lambda>k. year_days (1970 + int k)) [0..<n])
      + sum_list (take m (month_days (1970 + int n)))"

definition calendar_seconds :: "tm \<Rightarrow> int" where
  "calendar_seconds t =
    86400 * (epoch_days (nat (tm_year t - 70)) (nat (tm_mon t)) + (tm_mday t - 1))
      + 3600 * tm_hour t + 60 * tm_min t + tm_sec t"

definition valid_tm :: "tm \<Rightarrow> bool" where
  "valid_tm t \<longleftrightarrow>
    70 \<le> tm_year t \<and> tm_year t < 138 \<and> 0 \<le> tm_mon t \<and> tm_mon t < 12
    \<and> 1 \<le> tm_mday t \<and> tm_mday t \<le> 31 \<and> 0 \<le> tm_hour t \<and> tm_hour t < 24
    \<and> 0 \<le> tm_min t \<and> tm_min t < 60 \<and> 0 \<le> tm_sec t \<and> tm_sec t < 60"

section \<open>Agreement\<close>

lemma century_window:
  assumes "1901 \<le> y" "y \<le> 2099" "100 dvd (y::int)"
  shows "y = 2000"
proof -
  obtain k where "y = 100 * k"
    using assms(3) by (rule dvdE)
  then show ?thesis
    using assms(1,2) by simp
qed

lemma leap_year_window:
  assumes "1901 \<le> y" "y \<le> 2099"
  shows "leap_year y \<longleftrightarrow> y mod 4 = 0"
proof -
  have "100 dvd y \<Longrightarrow> y = 2000"
    using assms by (rule century_window)
  then show ?thesis
    unfolding leap_year_def dvd_eq_mod_eq_0 [symmetric] by auto
qed

text \<open>The \<open>(year+1)/4\<close> of the source counts the leap years before a year of the window.\<close>

lemma year_days_sum:
  "n \<le> 129 \<Longrightarrow>
    sum_list (map (\<lambda>k. year_days (1970 + int k)) [0..<n]) = 365 * int n + (int n + 1) div 4"
proof (induction n)
  case 0
  then show ?case by simp
next
  case (Suc n)
  have "leap_year (1970 + int n) \<longleftrightarrow> (1970 + int n) mod 4 = 0"
    using Suc.prems by (intro leap_year_window) auto
  moreover have "(1970 + int n) mod 4 = 0 \<longleftrightarrow> (int n + 2) div 4 = (int n + 1) div 4 + 1"
    by presburger
  moreover have "(1970 + int n) mod 4 \<noteq> 0 \<longleftrightarrow> (int n + 2) div 4 = (int n + 1) div 4"
    by presburger
  ultimately show ?case
    using Suc by (auto simp: year_days_def algebra_simps)
qed

text \<open>The table of the source assumes a leap year; a day is taken back after February otherwise.\<close>

lemma below12: "(m::nat) < 12 \<Longrightarrow> m \<in> {0, 1, 2, 3, 4, 5, 6, 7, 8, 9, 10, 11}"
  unfolding insert_iff empty_iff by presburger

lemma month_table:
  assumes "m < 12"
  shows "month ! m - (if 1 < m \<and> \<not> leap_year y then 86400 else 0)
      = 86400 * sum_list (take m (month_days y))"
  using below12 [OF assms]
  by (elim insertE emptyE)
    (simp_all add: month_def month_days_def DAY_def HOUR_def MINUTE_def)

lemma month_days_prefix:
  assumes "m < 12"
  shows "0 \<le> sum_list (take m (month_days y))" "sum_list (take m (month_days y)) \<le> 335"
  using below12 [OF assms]
  by (elim insertE emptyE; simp add: month_days_def)+

lemma leap_test:
  assumes "70 \<le> y" "y < 138"
  shows "(y - 70 + 2) smod 4 = 0 \<longleftrightarrow> leap_year (1900 + y)"
proof -
  have "(y - 70 + 2) smod 4 = (1900 + y) mod 4"
    using assms by (simp add: signed_modulo_int_def) presburger
  moreover have "leap_year (1900 + y) \<longleftrightarrow> (1900 + y) mod 4 = 0"
    using assms by (intro leap_year_window) auto
  ultimately show ?thesis
    by simp
qed

lemma epoch_days_closed:
  assumes "70 \<le> y" "y < 138"
  shows "epoch_days (nat (y - 70)) m =
      365 * (y - 70) + (y - 70 + 1) div 4 + sum_list (take m (month_days (1900 + y)))"
proof -
  have "nat (y - 70) \<le> 129" and n: "int (nat (y - 70)) = y - 70" and y: "1970 + (y - 70) = 1900 + y"
    using assms by auto
  then show ?thesis
    unfolding epoch_days_def by (simp only: year_days_sum n y)
qed

lemma calendar_unwrapped:
  assumes "valid_tm t"
  shows "kernel_mktime t = Some (s32 (calendar_seconds t))"
proof -
  let ?m = "nat (tm_mon t)" and ?y = "tm_year t"
  have v: "70 \<le> ?y" "?y < 138" and m: "?m < 12" "\<not> (tm_mon t < 0 \<or> 12 \<le> tm_mon t)" "(1 < tm_mon t) = (1 < ?m)"
    using assms by (auto simp: valid_tm_def)
  have sdiv: "(?y - 70 + 1) sdiv 4 = (?y - 70 + 1) div 4"
    using v by (simp add: signed_divide_int_def)
  define S where "S = sum_list (take ?m (month_days (1900 + ?y)))"
  define L where "L = (1 < ?m \<and> \<not> leap_year (1900 + ?y))"
  have tab: "month ! ?m = 86400 * S + (if L then 86400 else 0)"
    using month_table [OF m(1), of "1900 + ?y"] unfolding S_def L_def by simp
  have cond: "(1 < tm_mon t \<and> (?y - 70 + 2) smod 4 \<noteq> 0) = L"
    unfolding L_def m(3) using leap_test [OF v] by simp
  have "kernel_mktime t = Some (s32 (86400 * (365 * (?y - 70) + (?y - 70 + 1) div 4 + S + (tm_mday t - 1))
      + 3600 * tm_hour t + 60 * tm_min t + tm_sec t))"
    unfolding kernel_mktime_def Let_def cond sdiv tab if_not_P [OF m(2)]
    by (cases L) (simp_all add: DAY_def HOUR_def MINUTE_def YEAR_def algebra_simps)
  then show ?thesis
    unfolding calendar_seconds_def epoch_days_closed [OF v] S_def .
qed

lemma calendar_seconds_range:
  assumes "valid_tm t"
  shows "0 \<le> calendar_seconds t" "calendar_seconds t < 2147483648"
proof -
  let ?m = "nat (tm_mon t)" and ?y = "tm_year t"
  have v: "70 \<le> ?y" "?y < 138" and m: "?m < 12"
    using assms by (auto simp: valid_tm_def)
  define S where "S = sum_list (take ?m (month_days (1900 + ?y)))"
  have b: "0 \<le> S" "S \<le> 335"
    unfolding S_def by (rule month_days_prefix [OF m])+
  define D where "D = (?y - 70 + 1) div 4"
  define N where "N = 365 * (?y - 70) + D + S + (tm_mday t - 1)"
  define T where "T = 3600 * tm_hour t + 60 * tm_min t + tm_sec t"
  have c: "calendar_seconds t = 86400 * N + T"
    unfolding calendar_seconds_def epoch_days_closed [OF v] S_def N_def D_def T_def by (simp only: add.assoc)
  have "0 \<le> D" "D \<le> 17" "1 \<le> tm_mday t" "tm_mday t \<le> 31"
    using assms by (auto simp: valid_tm_def D_def)
  then have N: "0 \<le> N" "N \<le> 24837"
    unfolding N_def using b v by (simp_all add: algebra_simps)
  have "0 \<le> tm_hour t \<and> tm_hour t < 24 \<and> 0 \<le> tm_min t \<and> tm_min t < 60 \<and> 0 \<le> tm_sec t \<and> tm_sec t < 60"
    using assms by (simp add: valid_tm_def)
  then have T: "0 \<le> T" "T < 86400"
    unfolding T_def by - linarith+
  show "0 \<le> calendar_seconds t" "calendar_seconds t < 2147483648"
    unfolding c using N T by - linarith+
qed

text \<open>C16. For every calendar time from 1970 to the end of 2037, \<open>kernel_mktime\<close> is the number of
  seconds of the Gregorian calendar since the epoch, and no step of it overflows.\<close>

theorem kernel_mktime_calendar:
  assumes "valid_tm t"
  shows "kernel_mktime t = Some (calendar_seconds t)"
  using calendar_unwrapped [OF assms] calendar_seconds_range [OF assms] by simp

theorem kernel_mktime_calendar_witness:
  "kernel_mktime \<lparr>tm_sec = 7, tm_min = 6, tm_hour = 5, tm_mday = 1, tm_mon = 2, tm_year = 92\<rparr>
     = Some 699426367
   \<and> valid_tm \<lparr>tm_sec = 7, tm_min = 6, tm_hour = 5, tm_mday = 1, tm_mon = 2, tm_year = 92\<rparr>"
  (is "kernel_mktime ?t = _ \<and> _")
proof -
  have "valid_tm ?t"
    by (simp add: valid_tm_def)
  moreover from this have "kernel_mktime ?t = Some (calendar_seconds ?t)"
    by (rule kernel_mktime_calendar)
  moreover have "calendar_seconds ?t = 699426367"
    by code_simp
  ultimately show ?thesis
    by simp
qed

end
