(* ===== verification/Vsprintf.thy ===== *)
theory Vsprintf
  imports Prelude
begin

text \<open>
  \<open>kernel/vsprintf.c\<close>: the formatter behind \<open>printk\<close>. \<open>number\<close> and \<open>vsprintf\<close> return the
  characters they append to the output buffer. A format string is the list of its characters
  before the terminating NUL, so the empty list is a format pointer that stands on the NUL.
\<close>

unbundle bit_operations_syntax

section \<open>skip\_atoi\<close>

definition is_digit :: "char \<Rightarrow> bool" where
  "is_digit c \<longleftrightarrow> 48 \<le> (of_char c :: nat) \<and> (of_char c :: nat) \<le> 57"

fun skip_atoi_loop :: "int \<Rightarrow> string \<Rightarrow> int \<times> string" where
  "skip_atoi_loop i [] = (i, [])"
| "skip_atoi_loop i (c # s) =
     (if is_digit c then skip_atoi_loop (s32 (i * 10 + int (of_char c) - 48)) s else (i, c # s))"

definition skip_atoi :: "string \<Rightarrow> int \<times> string" where
  "skip_atoi s = skip_atoi_loop 0 s"

section \<open>number\<close>

definition ZEROPAD :: u32 where "ZEROPAD = 1"
definition SIGN :: u32 where "SIGN = 2"
definition PLUS :: u32 where "PLUS = 4"
definition SPACE :: u32 where "SPACE = 8"
definition LEFT :: u32 where "LEFT = 16"
definition SPECIAL :: u32 where "SPECIAL = 32"
definition SMALL :: u32 where "SMALL = 64"

lemmas flag_defs = ZEROPAD_def SIGN_def PLUS_def SPACE_def LEFT_def SPECIAL_def SMALL_def

abbreviation flag :: "u32 \<Rightarrow> u32 \<Rightarrow> bool" where
  "flag t m \<equiv> t AND m \<noteq> 0"

definition digit_chars :: "bool \<Rightarrow> string" where
  "digit_chars small =
    (if small then ''0123456789abcdefghijklmnopqrstuvwxyz'' else ''0123456789ABCDEFGHIJKLMNOPQRSTUVWXYZ'')"

text \<open>The division loop: \<open>do_div\<close> divides the 32-bit value as an unsigned number; least digit first.\<close>

fun div_digits :: "string \<Rightarrow> nat \<Rightarrow> nat \<Rightarrow> string" where
  "div_digits digits base num =
     (if num = 0 \<or> base < 2 then [] else digits ! (num mod base) # div_digits digits base (num div base))"

declare div_digits.simps [simp del]

text \<open>\<open>while (size-- > 0) *str++ = c;\<close>: what is written and the value \<open>size\<close> is left with.\<close>

definition pad :: "char \<Rightarrow> int \<Rightarrow> string \<times> int" where
  "pad c sz = (replicate (nat sz) c, if 0 < sz then -1 else sz - 1)"

definition number :: "u32 \<Rightarrow> int \<Rightarrow> int \<Rightarrow> int \<Rightarrow> u32 \<Rightarrow> string option" where
  "number num base sz precision type =
    (let digits = digit_chars (flag type SMALL);
         type = (if flag type LEFT then type AND NOT ZEROPAD else type)
     in if base < 2 \<or> base > 36 then None
        else
          let c = (if flag type ZEROPAD then CHR ''0'' else CHR '' '');
              neg = (flag type SIGN \<and> sint num < 0);
              sign = (if neg then ''-'' else if flag type PLUS then ''+''
                      else if flag type SPACE then '' '' else []);
              num = (if neg then - num else num);
              sz = (if sign \<noteq> [] then sz - 1 else sz);
              sz = (if flag type SPECIAL
                      then (if base = 16 then sz - 2 else if base = 8 then sz - 1 else sz)
                      else sz);
              tmp = (if num = 0 then ''0'' else div_digits digits (nat base) (unat num));
              i = int (length tmp);
              precision = (if i > precision then i else precision);
              sz = sz - precision;
              (lead, sz) = (if \<not> flag type (ZEROPAD + LEFT) then pad (CHR '' '') sz else ([], sz));
              special = (if flag type SPECIAL
                         then (if base = 8 then ''0'' else if base = 16 then [CHR ''0'', digits ! 33] else [])
                         else []);
              (fill, sz) = (if \<not> flag type LEFT then pad c sz else ([], sz));
              zeros = replicate (nat (precision - i)) (CHR ''0'');
              (trail, sz) = pad (CHR '' '') sz
          in Some (lead @ sign @ special @ fill @ zeros @ rev tmp @ trail))"

section \<open>vsprintf\<close>

text \<open>
  A variable argument is an integer or pointer in a 32-bit slot, or a string. \<open>None\<close> as a result
  stands for an access to an argument that was not passed.
\<close>

datatype va = AInt u32 | AStr string

fun parse_flags :: "u32 \<Rightarrow> string \<Rightarrow> u32 \<times> string" where
  "parse_flags flags [] = (flags, [])"
| "parse_flags flags (c # fmt) =
     (if c = CHR ''-'' then parse_flags (flags OR LEFT) fmt
      else if c = CHR ''+'' then parse_flags (flags OR PLUS) fmt
      else if c = CHR '' '' then parse_flags (flags OR SPACE) fmt
      else if c = CHR ''#'' then parse_flags (flags OR SPECIAL) fmt
      else if c = CHR ''0'' then parse_flags (flags OR ZEROPAD) fmt
      else (flags, c # fmt))"

text \<open>The field width: a \<open>*\<close> takes an argument, and the format pointer stays on the \<open>*\<close>.\<close>

definition parse_width :: "u32 \<Rightarrow> string \<Rightarrow> va list \<Rightarrow> (u32 \<times> int \<times> string \<times> va list) option" where
  "parse_width flags fmt args =
    (case fmt of
       [] \<Rightarrow> Some (flags, -1, fmt, args)
     | c # _ \<Rightarrow>
        if is_digit c then (let (w, fmt') = skip_atoi fmt in Some (flags, w, fmt', args))
        else if c = CHR ''*'' then
          (case args of
             AInt a # args' \<Rightarrow>
               if sint a < 0 then Some (flags OR LEFT, s32 (- sint a), fmt, args')
               else Some (flags, sint a, fmt, args')
           | _ \<Rightarrow> None)
        else Some (flags, -1, fmt, args))"

definition parse_precision :: "string \<Rightarrow> va list \<Rightarrow> (int \<times> string \<times> va list) option" where
  "parse_precision fmt args =
    (case fmt of
       [] \<Rightarrow> Some (-1, fmt, args)
     | c # fmt' \<Rightarrow>
        if c = CHR ''.'' then
          (case fmt' of
             [] \<Rightarrow> Some (0, fmt', args)
           | d # _ \<Rightarrow>
              if is_digit d then (let (p, fmt'') = skip_atoi fmt' in Some (max 0 p, fmt'', args))
              else if d = CHR ''*'' then
                (case args of AInt a # args' \<Rightarrow> Some (max 0 (sint a), fmt', args') | _ \<Rightarrow> None)
              else Some (0, fmt', args))
        else Some (-1, fmt, args))"

definition skip_qualifier :: "string \<Rightarrow> string" where
  "skip_qualifier fmt =
    (case fmt of
       [] \<Rightarrow> []
     | c # fmt' \<Rightarrow> if c = CHR ''h'' \<or> c = CHR ''l'' \<or> c = CHR ''L'' then fmt' else fmt)"

text \<open>
  The conversion itself, on a format that stands on the conversion character. It yields the
  characters written, the stores made by \<open>%n\<close> (address and value), and what is left of the format
  and of the arguments; \<open>n\<close> is the number of characters already in the buffer.
\<close>

definition convert ::
  "u32 \<Rightarrow> int \<Rightarrow> int \<Rightarrow> nat \<Rightarrow> string \<Rightarrow> va list \<Rightarrow> (string \<times> (u32 \<times> nat) list \<times> string \<times> va list) option" where
  "convert flags width precision n fmt args =
    (case fmt of
       [] \<Rightarrow> Some (''%'', [], [], args)
     | c # fmt' \<Rightarrow>
       if c = CHR ''c'' then
         (case args of
            AInt a # args' \<Rightarrow>
              (let (lead, width) = (if \<not> flag flags LEFT then pad (CHR '' '') (width - 1) else ([], width));
                   trail = fst (pad (CHR '' '') (width - 1))
               in Some (lead @ [char_of (unat a mod 256)] @ trail, [], fmt', args'))
          | _ \<Rightarrow> None)
       else if c = CHR ''s'' then
         (case args of
            AStr s # args' \<Rightarrow>
              (let len = (if precision < 0 then int (length s) else min (int (length s)) precision);
                   lead = (if \<not> flag flags LEFT then replicate (nat (width - len)) (CHR '' '') else []);
                   trail = (if \<not> flag flags LEFT then [] else replicate (nat (width - len)) (CHR '' ''))
               in Some (lead @ take (nat len) s @ trail, [], fmt', args'))
          | _ \<Rightarrow> None)
       else if c = CHR ''n'' then
         (case args of AInt a # args' \<Rightarrow> Some ([], [(a, n)], fmt', args') | _ \<Rightarrow> None)
       else if c \<in> {CHR ''o'', CHR ''p'', CHR ''x'', CHR ''X'', CHR ''d'', CHR ''i'', CHR ''u''} then
         (case args of
            AInt a # args' \<Rightarrow>
              (let base = (if c = CHR ''o'' then 8
                           else if c \<in> {CHR ''p'', CHR ''x'', CHR ''X''} then 16 else 10);
                   flags = (if c = CHR ''x'' then flags OR SMALL
                            else if c \<in> {CHR ''d'', CHR ''i''} then flags OR SIGN
                            else if c = CHR ''p'' \<and> width = -1 then flags OR ZEROPAD else flags);
                   width = (if c = CHR ''p'' \<and> width = -1 then 8 else width)
               in case number a base width precision flags of
                    Some out \<Rightarrow> Some (out, [], fmt', args') | None \<Rightarrow> None)
          | _ \<Rightarrow> None)
       else Some ((if c \<noteq> CHR ''%'' then ''%'' else []) @ [c], [], fmt', args))"

definition directive ::
  "nat \<Rightarrow> string \<Rightarrow> va list \<Rightarrow> (string \<times> (u32 \<times> nat) list \<times> string \<times> va list) option" where
  "directive n fmt args =
    (let (flags, fmt1) = parse_flags 0 fmt
     in case parse_width flags fmt1 args of
          None \<Rightarrow> None
        | Some (flags, width, fmt2, args1) \<Rightarrow>
          (case parse_precision fmt2 args1 of
             None \<Rightarrow> None
           | Some (precision, fmt3, args2) \<Rightarrow>
               convert flags width precision n (skip_qualifier fmt3) args2))"

lemma length_skip_atoi_loop: "length (snd (skip_atoi_loop i s)) \<le> length s"
  by (induction i s rule: skip_atoi_loop.induct) auto

lemma length_parse_flags: "length (snd (parse_flags flags fmt)) \<le> length fmt"
  by (induction flags fmt rule: parse_flags.induct) auto

lemma length_parse_width:
  "parse_width flags fmt args = Some (f, w, fmt', args') \<Longrightarrow> length fmt' \<le> length fmt"
  using length_skip_atoi_loop [of 0 fmt]
  by (auto simp: parse_width_def skip_atoi_def split: list.splits if_splits prod.splits va.splits)

lemma length_parse_precision:
  "parse_precision fmt args = Some (p, fmt', args') \<Longrightarrow> length fmt' \<le> length fmt"
  using length_skip_atoi_loop [of 0 "tl fmt"]
  by (auto simp: parse_precision_def skip_atoi_def split: list.splits if_splits prod.splits va.splits)

lemma length_convert:
  "convert flags width precision n fmt args = Some (out, st, fmt', args') \<Longrightarrow> length fmt' \<le> length fmt"
  by (auto simp: convert_def Let_def split: list.splits if_splits prod.splits va.splits option.splits)

lemma length_skip_qualifier: "length (skip_qualifier fmt) \<le> length fmt"
  by (auto simp: skip_qualifier_def split: list.splits)

lemma length_directive:
  assumes "directive n fmt args = Some (out, st, fmt', args')"
  shows "length fmt' \<le> length fmt"
proof -
  obtain f1 fmt1 where 1: "parse_flags 0 fmt = (f1, fmt1)"
    by (cases "parse_flags 0 fmt")
  obtain f2 w fmt2 args1 where 2: "parse_width f1 fmt1 args = Some (f2, w, fmt2, args1)"
    using assms 1 by (auto simp: directive_def split: option.splits)
  obtain p fmt3 args2 where 3: "parse_precision fmt2 args1 = Some (p, fmt3, args2)"
    using assms 1 2 by (auto simp: directive_def split: option.splits)
  have "convert f2 w p n (skip_qualifier fmt3) args2 = Some (out, st, fmt', args')"
    using assms 1 2 3 by (simp add: directive_def)
  then show ?thesis
    using length_parse_flags [of 0 fmt] 1 length_parse_width [OF 2] length_parse_precision [OF 3]
      length_skip_qualifier [of fmt3] by (fastforce dest: length_convert)
qed

text \<open>The main loop: the output written so far is an accumulator.\<close>

function vsprintf_loop ::
  "string \<Rightarrow> (u32 \<times> nat) list \<Rightarrow> string \<Rightarrow> va list \<Rightarrow> (string \<times> (u32 \<times> nat) list) option" where
  "vsprintf_loop buf st [] args = Some (buf, st)"
| "vsprintf_loop buf st (c # fmt) args =
     (if c \<noteq> CHR ''%'' then vsprintf_loop (buf @ [c]) st fmt args
      else case directive (length buf) fmt args of
             None \<Rightarrow> None
           | Some (out, st', fmt', args') \<Rightarrow> vsprintf_loop (buf @ out) (st @ st') fmt' args')"
  by pat_completeness auto
termination
  by (relation "measure (\<lambda>(buf, st, fmt, args). length fmt)") (auto dest!: length_directive)

definition vsprintf :: "string \<Rightarrow> va list \<Rightarrow> (string \<times> (u32 \<times> nat) list) option" where
  "vsprintf fmt args = vsprintf_loop [] [] fmt args"

section \<open>The layout of a formatted number\<close>

text \<open>The parts of the output, as functions of the arguments.\<close>

definition is_neg :: "u32 \<Rightarrow> u32 \<Rightarrow> bool" where
  "is_neg num type \<longleftrightarrow> flag type SIGN \<and> sint num < 0"

definition sign_part :: "u32 \<Rightarrow> u32 \<Rightarrow> string" where
  "sign_part num type =
    (if is_neg num type then ''-'' else if flag type PLUS then ''+'' else if flag type SPACE then '' '' else [])"

definition prefix_part :: "int \<Rightarrow> u32 \<Rightarrow> string" where
  "prefix_part base type =
    (if \<not> flag type SPECIAL then []
     else if base = 8 then ''0''
     else if base = 16 then [CHR ''0'', digit_chars (flag type SMALL) ! 33] else [])"

definition digits_part :: "u32 \<Rightarrow> int \<Rightarrow> u32 \<Rightarrow> string" where
  "digits_part num base type =
    (if num = 0 then ''0''
     else rev (div_digits (digit_chars (flag type SMALL)) (nat base)
                 (unat (if is_neg num type then - num else num))))"

definition min_width :: "u32 \<Rightarrow> int \<Rightarrow> int \<Rightarrow> u32 \<Rightarrow> int" where
  "min_width num base precision type =
    int (length (sign_part num type)) + int (length (prefix_part base type))
      + max (int (length (digits_part num base type))) precision"

definition zeros_part :: "u32 \<Rightarrow> int \<Rightarrow> int \<Rightarrow> u32 \<Rightarrow> string" where
  "zeros_part num base precision type =
    replicate (nat (precision - int (length (digits_part num base type)))) (CHR ''0'')"

lemma flag_left_mask [simp]: "(t AND NOT ZEROPAD) AND m = t AND (NOT ZEROPAD AND m)"
  by (simp add: and.assoc)

lemma flag_masks [simp]:
  "NOT ZEROPAD AND SIGN = SIGN" "NOT ZEROPAD AND PLUS = PLUS" "NOT ZEROPAD AND SPACE = SPACE"
  "NOT ZEROPAD AND LEFT = LEFT" "NOT ZEROPAD AND SPECIAL = SPECIAL" "NOT ZEROPAD AND ZEROPAD = 0"
  "NOT ZEROPAD AND (ZEROPAD + LEFT) = LEFT"
  by (simp_all add: flag_defs)

lemma flag_zeropad_left: "t AND (ZEROPAD + LEFT) = 0 \<longleftrightarrow> t AND ZEROPAD = 0 \<and> t AND LEFT = 0"
proof -
  have "ZEROPAD + LEFT = ZEROPAD OR LEFT"
    by (simp add: flag_defs)
  then show ?thesis
    by (simp add: bit.conj_disj_distrib or_eq_0_iff)
qed

lemma fst_pad [simp]: "fst (pad c n) = replicate (nat n) c"
  by (simp add: pad_def)

lemma effective_flags:
  "(if flag type LEFT then type AND NOT ZEROPAD else type) AND SIGN = type AND SIGN"
  "(if flag type LEFT then type AND NOT ZEROPAD else type) AND PLUS = type AND PLUS"
  "(if flag type LEFT then type AND NOT ZEROPAD else type) AND SPACE = type AND SPACE"
  "(if flag type LEFT then type AND NOT ZEROPAD else type) AND LEFT = type AND LEFT"
  "(if flag type LEFT then type AND NOT ZEROPAD else type) AND SPECIAL = type AND SPECIAL"
  by auto

lemma effective_zeropad:
  "flag (if flag type LEFT then type AND NOT ZEROPAD else type) ZEROPAD \<longleftrightarrow> flag type ZEROPAD \<and> \<not> flag type LEFT"
  "flag (if flag type LEFT then type AND NOT ZEROPAD else type) (ZEROPAD + LEFT) \<longleftrightarrow> flag type ZEROPAD \<or> flag type LEFT"
  by (auto simp: flag_zeropad_left)

lemma sign_part_size: "(if sign_part num type \<noteq> [] then n - 1 else n) = n - int (length (sign_part num type))"
  by (simp add: sign_part_def)

lemma prefix_part_size:
  "(if flag type SPECIAL then if base = 16 then n - 2 else if base = 8 then n - 1 else n else n)
     = n - int (length (prefix_part base type))"
  by (simp add: prefix_part_def)

lemma digits_part_rev:
  "(if (if is_neg num type then - num else num) = 0 then ''0''
    else div_digits (digit_chars (flag type SMALL)) (nat base) (unat (if is_neg num type then - num else num)))
     = rev (digits_part num base type)"
  by (auto simp: digits_part_def is_neg_def)

text \<open>The three padding loops write \<open>n\<close> characters in one of three places.\<close>

lemma pad_layout:
  "(let (lead, n) = (if \<not> (z \<or> l) then pad (CHR '' '') n else ([], n));
        (fill, n) = (if \<not> l then pad (if z \<and> \<not> l then CHR ''0'' else CHR '' '') n else ([], n));
        (trail, n) = pad (CHR '' '') n
    in Some (lead @ sign @ special @ fill @ core @ trail))
   = Some (if l then sign @ special @ core @ replicate (nat n) (CHR '' '')
           else if z then sign @ special @ replicate (nat n) (CHR ''0'') @ core
           else replicate (nat n) (CHR '' '') @ sign @ special @ core)"
  by (cases l; cases z) (simp_all add: pad_def)

lemma number_layout:
  assumes "2 \<le> base" "base \<le> 36"
  shows "number num base sz precision type = Some
    (let pads = nat (sz - min_width num base precision type);
         core = zeros_part num base precision type @ digits_part num base type
     in if flag type LEFT then
          sign_part num type @ prefix_part base type @ core @ replicate pads (CHR '' '')
        else if flag type ZEROPAD then
          sign_part num type @ prefix_part base type @ replicate pads (CHR ''0'') @ core
        else replicate pads (CHR '' '') @ sign_part num type @ prefix_part base type @ core)"
proof -
  let ?d = "int (length (digits_part num base type))"
  let ?n = "sz - int (length (sign_part num type)) - int (length (prefix_part base type))
              - (if ?d > precision then ?d else precision)"
  have range: "\<not> (base < 2 \<or> 36 < base)"
    using assms by simp
  have n: "?n = sz - min_width num base precision type"
    by (simp add: min_width_def max_def)
  have z: "replicate (nat ((if ?d > precision then ?d else precision) - ?d)) (CHR ''0'')
      = zeros_part num base precision type"
    by (simp add: zeros_part_def)
  have "number num base sz precision type =
    (let (lead, n) = (if \<not> (flag type ZEROPAD \<or> flag type LEFT) then pad (CHR '' '') ?n else ([], ?n));
        (fill, n) = (if \<not> flag type LEFT
           then pad (if flag type ZEROPAD \<and> \<not> flag type LEFT then CHR ''0'' else CHR '' '') n else ([], n));
        (trail, n) = pad (CHR '' '') n
    in Some (lead @ sign_part num type @ prefix_part base type @ fill
         @ (replicate (nat ((if ?d > precision then ?d else precision) - ?d)) (CHR ''0'') @ digits_part num base type)
         @ trail))"
    unfolding number_def Let_def if_not_P [OF range]
    unfolding effective_flags effective_zeropad
    unfolding is_neg_def [symmetric]
    unfolding sign_part_def [symmetric] digits_part_rev prefix_part_size
    unfolding sign_part_size length_rev rev_rev_ident append_assoc
    by (simp add: prefix_part_def)
  then show ?thesis
    unfolding pad_layout z n by (simp add: Let_def)
qed

section \<open>Reading a formatted number back\<close>

text \<open>The reference reader: skip blanks, take an optional sign, then digits of the base.\<close>

definition digit_of :: "char \<Rightarrow> nat option" where
  "digit_of c =
    (let n = of_char c in
     if 48 \<le> n \<and> n \<le> 57 then Some (n - 48)
     else if 65 \<le> n \<and> n \<le> 90 then Some (n - 55)
     else if 97 \<le> n \<and> n \<le> 122 then Some (n - 87) else None)"

fun read_digits :: "nat \<Rightarrow> nat \<Rightarrow> string \<Rightarrow> nat" where
  "read_digits base acc [] = acc"
| "read_digits base acc (c # s) =
     (case digit_of c of
        Some d \<Rightarrow> if d < base then read_digits base (acc * base + d) s else acc
      | None \<Rightarrow> acc)"

definition read_number :: "nat \<Rightarrow> string \<Rightarrow> int" where
  "read_number base s =
    (case dropWhile (\<lambda>c. c = CHR '' '') s of
       [] \<Rightarrow> 0
     | c # t \<Rightarrow> if c = CHR ''-'' then - int (read_digits base 0 t)
                else if c = CHR ''+'' then int (read_digits base 0 t)
                else int (read_digits base 0 (c # t)))"

lemma digit_of_table: "list_all2 (\<lambda>c d. digit_of c = Some d) (digit_chars b) [0..<36]"
  by (cases b) (simp_all add: digit_chars_def digit_of_def upt_conv_Cons)

lemma digit_of_digit_chars: "d < 36 \<Longrightarrow> digit_of (digit_chars b ! d) = Some d"
  using list_all2_nthD2 [OF digit_of_table, of d b] by simp

lemma digit_of_nondigits [simp]:
  "digit_of CHR '' '' = None" "digit_of CHR ''-'' = None" "digit_of CHR ''+'' = None"
  "digit_of CHR ''0'' = Some 0"
  by (simp_all add: digit_of_def)

lemma read_digits_div_digits:
  assumes "2 \<le> base" "base \<le> 36"
  shows "read_digits base acc (rev (div_digits (digit_chars b) base n) @ rest)
    = read_digits base (acc * base ^ length (div_digits (digit_chars b) base n) + n) rest"
proof (induction n arbitrary: rest rule: less_induct)
  case (less n)
  show ?case
  proof (cases "n = 0")
    case True
    then show ?thesis by (simp add: div_digits.simps)
  next
    case False
    let ?ds = "div_digits (digit_chars b) base (n div base)"
    have ds: "div_digits (digit_chars b) base n = digit_chars b ! (n mod base) # ?ds"
      using False assms(1) by (subst div_digits.simps) simp
    have mod: "n mod base < base"
      using assms(1) by simp
    then have "digit_of (digit_chars b ! (n mod base)) = Some (n mod base)"
      using assms(2) by (intro digit_of_digit_chars) simp
    moreover have "n div base < n"
      using False assms(1) by simp
    moreover have "(acc * base ^ length ?ds + n div base) * base + n mod base
        = acc * base ^ Suc (length ?ds) + n"
      by (simp add: algebra_simps)
    ultimately show ?thesis
      unfolding ds using mod less.IH by simp
  qed
qed

lemma read_digits_zeros: "2 \<le> base \<Longrightarrow> read_digits base 0 (replicate k CHR ''0'' @ s) = read_digits base 0 s"
  by (induction k) auto

lemma read_digits_stop: "read_digits base acc (replicate k CHR '' '') = acc"
  by (cases k) auto

text \<open>The value printed: signed with the flag \<open>SIGN\<close> of \<open>%d\<close> and \<open>%i\<close>, unsigned otherwise.\<close>

definition printed_value :: "u32 \<Rightarrow> u32 \<Rightarrow> int" where
  "printed_value num type = (if flag type SIGN then sint num else uint num)"

lemma read_digits_part:
  assumes "2 \<le> base" "base \<le> 36"
  shows "read_digits (nat base) 0 (replicate k CHR ''0'' @ zeros_part num base precision type
           @ digits_part num base type @ replicate m CHR '' '')
      = unat (if is_neg num type then - num else num)"
proof -
  have b: "2 \<le> nat base" "nat base \<le> 36"
    using assms by auto
  show ?thesis
    using read_digits_div_digits [OF b] b
    by (simp add: read_digits_zeros zeros_part_def digits_part_def read_digits_stop)
qed

lemma printed_value_parts:
  "printed_value num type =
    (if is_neg num type then - int (unat (- num)) else int (unat num))"
  using sint_negative [of num] sint_nonneg [of num]
  by (auto simp: printed_value_def is_neg_def)

lemma div_digits_are_digits:
  assumes "2 \<le> base" "base \<le> 36"
  shows "\<forall>c \<in> set (div_digits (digit_chars b) base n). digit_of c \<noteq> None"
proof (induction n rule: less_induct)
  case (less n)
  have "n mod base < 36" if "n \<noteq> 0"
    using assms mod_less_divisor [of base n] by linarith
  then show ?case
    using less.IH [of "n div base"] assms
    by (subst div_digits.simps) (auto simp: digit_of_digit_chars)
qed

lemma digits_part_digits:
  assumes "2 \<le> base" "base \<le> 36"
  shows "digits_part num base type \<noteq> []" "\<forall>c \<in> set (digits_part num base type). digit_of c \<noteq> None"
  using assms div_digits_are_digits [of "nat base"]
  by (auto simp: digits_part_def is_neg_def div_digits.simps [of _ _ "unat num"]
      div_digits.simps [of _ _ "unat (- num)"] unat_eq_zero)

lemma hd_core_digit:
  assumes "2 \<le> base" "base \<le> 36"
  shows "digit_of (hd (replicate k CHR ''0'' @ zeros_part num base precision type
           @ digits_part num base type @ rest)) \<noteq> None"
proof -
  have "digit_of (hd (digits_part num base type @ rest)) \<noteq> None"
    using digits_part_digits [OF assms, of num type] by (cases "digits_part num base type") auto
  then show ?thesis
    by (cases k; cases "nat (precision - int (length (digits_part num base type)))")
      (auto simp: zeros_part_def)
qed

lemma dropWhile_blanks: "dropWhile (\<lambda>c. c = CHR '' '') (replicate a CHR '' '' @ s) = dropWhile (\<lambda>c. c = CHR '' '') s"
  by (induction a) auto

lemma read_number_signed:
  assumes "core \<noteq> []" "digit_of (hd core) \<noteq> None"
  shows "read_number b (replicate a CHR '' '' @ sign_part num type @ core)
    = (if is_neg num type then - int (read_digits b 0 core) else int (read_digits b 0 core))"
proof -
  obtain c t where c: "core = c # t"
    using assms(1) by (cases core) auto
  with assms(2) have "c \<noteq> CHR '' ''" "c \<noteq> CHR ''-''" "c \<noteq> CHR ''+''"
    by auto
  then show ?thesis
    by (simp add: c read_number_def dropWhile_blanks sign_part_def)
qed

text \<open>C17. A number formatted by \<open>number\<close> in any base from 2 to 36, with any field width, precision,
  padding and sign flags (only the \<open>0x\<close>/\<open>0\<close> prefix of \<open>SPECIAL\<close> is left out), reads back as the
  value passed: signed under \<open>SIGN\<close>, the most negative 32-bit integer included, unsigned otherwise.\<close>

theorem number_read_back:
  assumes "2 \<le> base" "base \<le> 36" "\<not> flag type SPECIAL"
  shows "\<exists>out. number num base sz precision type = Some out
    \<and> read_number (nat base) out = printed_value num type"
proof -
  let ?core = "\<lambda>k m. replicate k CHR ''0'' @ zeros_part num base precision type
      @ digits_part num base type @ replicate m CHR '' ''"
  have "?core k m \<noteq> []" for k m
    using digits_part_digits [OF assms(1,2), of num type] by simp
  then have rd: "read_number (nat base) (replicate a CHR '' '' @ sign_part num type @ ?core k m)
      = printed_value num type" for a k m
    using assms(1,2) hd_core_digit [OF assms(1,2), of k num precision type "replicate m CHR '' ''"]
    by (subst read_number_signed) (auto simp: read_digits_part printed_value_parts)
  show ?thesis
    using rd [of 0 0 "nat (sz - min_width num base precision type)"]
      rd [of 0 "nat (sz - min_width num base precision type)" 0]
      rd [of "nat (sz - min_width num base precision type)" 0 0] assms
    by (simp add: number_layout prefix_part_def Let_def)
qed

theorem number_read_back_witness:
  "\<exists>out. number (-42) 10 8 5 (SIGN OR LEFT) = Some out \<and> read_number 10 out = -42"
  using number_read_back [of 10 "SIGN OR LEFT" "-42" 8 5] by (simp add: flag_defs printed_value_def)

text \<open>The text is as wide as the field asks for, or as the sign, prefix and digits need: it is
  never cut, and padding is added to exactly the field width.\<close>

theorem number_width:
  assumes "2 \<le> base" "base \<le> 36"
  shows "\<exists>out. number num base sz precision type = Some out
    \<and> int (length out) = max sz (min_width num base precision type)"
proof -
  have "int (length (sign_part num type) + length (prefix_part base type)
      + (length (zeros_part num base precision type) + length (digits_part num base type)))
      = min_width num base precision type"
    by (simp add: min_width_def zeros_part_def)
  then show ?thesis
    using assms by (auto simp: number_layout Let_def)
qed

theorem number_width_witness:
  "\<exists>out. number 255 16 7 (-1) (SPECIAL OR SMALL) = Some out
     \<and> int (length out) = max 7 (min_width 255 16 (-1) (SPECIAL OR SMALL))"
  using number_width [of 16 255 7 "-1" "SPECIAL OR SMALL"] by simp

section \<open>Formats\<close>

text \<open>A star as field width never takes effect: the format pointer is not moved past it, so the
  directive prints \<open>%*\<close> and the rest of the directive as text, whatever the arguments.\<close>

theorem vsprintf_star_width:
  "vsprintf (''%*'' @ c # []) (AInt w # args)
    = (if c = CHR ''%'' then Some (''%*%'', []) else Some (''%*'' @ [c], []))"
  by (simp add: vsprintf_def directive_def parse_width_def is_digit_def parse_precision_def
      skip_qualifier_def convert_def LEFT_def)

text \<open>Text without a \<open>%\<close> is copied, and a format is processed directive by directive.\<close>

lemma vsprintf_loop_text:
  "CHR ''%'' \<notin> set t \<Longrightarrow> vsprintf_loop buf st (t @ fmt) args = vsprintf_loop (buf @ t) st fmt args"
  by (induction t arbitrary: buf) auto

end
