(* ===== verification/Kernel_Types.thy ===== *)
theory Kernel_Types
  imports Prelude
begin

text \<open>
  The task structure of \<open>include/linux/sched.h\<close> and the constants of \<open>sched.h\<close>, \<open>signal.h\<close> and
  \<open>errno.h\<close> that the kernel components share. Fields keep the name of the source behind the prefix
  \<open>t_\<close>. A pointer to a task is its slot in \<open>task[]\<close>; pointers to in-core inodes and to open files
  are indices of \<open>inode_table\<close> and \<open>file_table\<close>, with \<open>None\<close> for NULL.
\<close>

section \<open>Constants\<close>

definition NR_TASKS :: nat where "NR_TASKS = 64"
definition NR_OPEN :: nat where "NR_OPEN = 20"
definition HZ :: int where "HZ = 100"

definition TASK_RUNNING :: int where "TASK_RUNNING = 0"
definition TASK_INTERRUPTIBLE :: int where "TASK_INTERRUPTIBLE = 1"
definition TASK_UNINTERRUPTIBLE :: int where "TASK_UNINTERRUPTIBLE = 2"
definition TASK_ZOMBIE :: int where "TASK_ZOMBIE = 3"
definition TASK_STOPPED :: int where "TASK_STOPPED = 4"

lemmas task_state_defs = TASK_RUNNING_def TASK_INTERRUPTIBLE_def TASK_UNINTERRUPTIBLE_def
  TASK_ZOMBIE_def TASK_STOPPED_def

definition SIGHUP :: nat where "SIGHUP = 1"
definition SIGKILL :: nat where "SIGKILL = 9"
definition SIGSEGV :: nat where "SIGSEGV = 11"
definition SIGPIPE :: nat where "SIGPIPE = 13"
definition SIGALRM :: nat where "SIGALRM = 14"
definition SIGCHLD :: nat where "SIGCHLD = 17"
definition SIGSTOP :: nat where "SIGSTOP = 19"

definition EPERM :: int where "EPERM = 1"
definition ENOENT :: int where "ENOENT = 2"
definition ESRCH :: int where "ESRCH = 3"
definition EINTR :: int where "EINTR = 4"
definition EIO :: int where "EIO = 5"
definition EBADF :: int where "EBADF = 9"
definition ECHILD :: int where "ECHILD = 10"
definition EAGAIN :: int where "EAGAIN = 11"
definition ENOMEM :: int where "ENOMEM = 12"
definition EACCES :: int where "EACCES = 13"
definition ENOTBLK :: int where "ENOTBLK = 15"
definition EBUSY :: int where "EBUSY = 16"
definition EEXIST :: int where "EEXIST = 17"
definition EXDEV :: int where "EXDEV = 18"
definition ENODEV :: int where "ENODEV = 19"
definition ENOTDIR :: int where "ENOTDIR = 20"
definition EISDIR :: int where "EISDIR = 21"
definition EINVAL :: int where "EINVAL = 22"
definition EMFILE :: int where "EMFILE = 24"
definition ENOTTY :: int where "ENOTTY = 25"
definition ENOSPC :: int where "ENOSPC = 28"
definition ESPIPE :: int where "ESPIPE = 29"
definition ENOSYS :: int where "ENOSYS = 38"
definition ENOTEMPTY :: int where "ENOTEMPTY = 39"
definition ERROR :: int where "ERROR = 99"

lemmas errno_defs = EPERM_def ENOENT_def ESRCH_def EINTR_def EIO_def EBADF_def ECHILD_def EAGAIN_def
  ENOMEM_def EACCES_def ENOTBLK_def EBUSY_def EEXIST_def EXDEV_def ENODEV_def ENOTDIR_def EISDIR_def
  EINVAL_def EMFILE_def ENOTTY_def ENOSPC_def ESPIPE_def ENOSYS_def ENOTEMPTY_def ERROR_def

section \<open>Structures\<close>

record sigaction_t =
  sa_handler :: u32
  sa_mask :: u32
  sa_flags :: u32
  sa_restorer :: u32

record desc_struct =
  d_a :: u32
  d_b :: u32

record tss_struct =
  tss_back_link :: u32
  tss_esp0 :: u32
  tss_ss0 :: u32
  tss_eip :: u32
  tss_eflags :: u32
  tss_eax :: u32
  tss_ecx :: u32
  tss_edx :: u32
  tss_ebx :: u32
  tss_esp :: u32
  tss_ebp :: u32
  tss_esi :: u32
  tss_edi :: u32
  tss_es :: u32
  tss_cs :: u32
  tss_ss :: u32
  tss_ds :: u32
  tss_fs :: u32
  tss_gs :: u32
  tss_ldt :: u32
  tss_trace_bitmap :: u32
  tss_i387 :: "u32 list"

record task_struct =
  t_state :: int
  t_counter :: int
  t_priority :: int
  t_signal :: u32
  t_sigaction :: "nat \<Rightarrow> sigaction_t"
  t_blocked :: u32
  t_exit_code :: int
  t_start_code :: u32
  t_end_code :: u32
  t_end_data :: u32
  t_brk :: u32
  t_start_stack :: u32
  t_pid :: int
  t_father :: int
  t_pgrp :: int
  t_session :: int
  t_leader :: int
  t_uid :: u16
  t_euid :: u16
  t_suid :: u16
  t_gid :: u16
  t_egid :: u16
  t_sgid :: u16
  t_alarm :: int
  t_utime :: int
  t_stime :: int
  t_cutime :: int
  t_cstime :: int
  t_start_time :: int
  t_used_math :: u16
  t_tty :: int
  t_umask :: u16
  t_pwd :: "nat option"
  t_root :: "nat option"
  t_executable :: "nat option"
  t_close_on_exec :: u32
  t_filp :: "nat \<Rightarrow> nat option"
  t_ldt :: "nat \<Rightarrow> desc_struct"
  t_tss :: tss_struct

text \<open>\<open>INIT_TASK\<close>: the first task.\<close>

definition zero_sigaction :: sigaction_t where
  "zero_sigaction = \<lparr>sa_handler = 0, sa_mask = 0, sa_flags = 0, sa_restorer = 0\<rparr>"

definition init_ldt :: "nat \<Rightarrow> desc_struct" where
  "init_ldt i = (if i = 1 then \<lparr>d_a = 0x9f, d_b = 0xc0fa00\<rparr>
                 else if i = 2 then \<lparr>d_a = 0x9f, d_b = 0xc0f200\<rparr> else \<lparr>d_a = 0, d_b = 0\<rparr>)"

definition INIT_TASK :: "u32 \<Rightarrow> task_struct" where
  "INIT_TASK init_task_addr =
    \<lparr>t_state = 0, t_counter = 15, t_priority = 15,
     t_signal = 0, t_sigaction = (\<lambda>_. zero_sigaction), t_blocked = 0,
     t_exit_code = 0, t_start_code = 0, t_end_code = 0, t_end_data = 0, t_brk = 0, t_start_stack = 0,
     t_pid = 0, t_father = -1, t_pgrp = 0, t_session = 0, t_leader = 0,
     t_uid = 0, t_euid = 0, t_suid = 0, t_gid = 0, t_egid = 0, t_sgid = 0,
     t_alarm = 0, t_utime = 0, t_stime = 0, t_cutime = 0, t_cstime = 0, t_start_time = 0,
     t_used_math = 0,
     t_tty = -1, t_umask = 18, t_pwd = None, t_root = None, t_executable = None, t_close_on_exec = 0,
     t_filp = (\<lambda>_. None),
     t_ldt = init_ldt,
     t_tss = \<lparr>tss_back_link = 0, tss_esp0 = 4096 + init_task_addr, tss_ss0 = 0x10, tss_eip = 0,
       tss_eflags = 0, tss_eax = 0, tss_ecx = 0, tss_edx = 0, tss_ebx = 0, tss_esp = 0, tss_ebp = 0,
       tss_esi = 0, tss_edi = 0, tss_es = 0x17, tss_cs = 0x17, tss_ss = 0x17, tss_ds = 0x17,
       tss_fs = 0x17, tss_gs = 0x17, tss_ldt = 40, tss_trace_bitmap = 0x80000000, tss_i387 = []\<rparr>\<rparr>"

section \<open>Segment descriptors\<close>

text \<open>Base and limit of a descriptor, as the macros of \<open>sched.h\<close> read and write them; a limit with the
  granularity bit counts pages.\<close>

definition get_base :: "desc_struct \<Rightarrow> u32" where
  "get_base d = drop_bit 16 (d_a d) OR push_bit 16 (d_b d AND 0xff) OR (d_b d AND 0xff000000)"

definition set_base :: "u32 \<Rightarrow> desc_struct \<Rightarrow> desc_struct" where
  "set_base base d =
    d\<lparr>d_a := (d_a d AND 0xffff) OR push_bit 16 base,
      d_b := (d_b d AND 0x00ffff00) OR (drop_bit 16 base AND 0xff) OR (base AND 0xff000000)\<rparr>"

definition get_limit :: "desc_struct \<Rightarrow> u32" where
  "get_limit d =
    (let l = (d_a d AND 0xffff) OR (d_b d AND 0xf0000)
     in (if bit (d_b d) 23 then push_bit 12 l OR 0xfff else l) + 1)"

definition set_limit :: "u32 \<Rightarrow> desc_struct \<Rightarrow> desc_struct" where
  "set_limit limit d =
    (let l = drop_bit 12 (limit - 1)
     in d\<lparr>d_a := (d_a d AND 0xffff0000) OR (l AND 0xffff),
          d_b := (d_b d AND NOT 0xf0000) OR (l AND 0xf0000)\<rparr>)"

section \<open>Bits of a mask\<close>

text \<open>\<open>1 << (sig - 1)\<close>: the bit of a signal number in a 32-bit signal mask.\<close>

definition sigbit :: "nat \<Rightarrow> u32" where
  "sigbit sig = push_bit (sig - 1) 1"

lemma bit_sigbit [simp]: "1 \<le> sig \<Longrightarrow> sig \<le> 32 \<Longrightarrow> bit (sigbit sig) n \<longleftrightarrow> n = sig - 1"
  by (auto simp: sigbit_def bit_simps)

section \<open>Segment descriptors round trip\<close>

lemma bit_range_mask:
  "bit (push_bit a (mask b) :: u32) n \<longleftrightarrow> a \<le> n \<and> n < a + b \<and> n < 32"
  by (auto simp: bit_simps)

lemma descriptor_masks:
  "(0xff :: u32) = push_bit 0 (mask 8)" "(0xffff :: u32) = push_bit 0 (mask 16)" "(0xfff :: u32) = push_bit 0 (mask 12)"
  "(0xff000000 :: u32) = push_bit 24 (mask 8)" "(0x00ffff00 :: u32) = push_bit 8 (mask 16)"
  "(0xffff0000 :: u32) = push_bit 16 (mask 16)" "(0xf0000 :: u32) = push_bit 16 (mask 4)"
  by (simp_all add: mask_eq_exp_minus_1 push_bit_eq_mult)

lemma bits_of_masks:
  "bit (0xff :: u32) n \<longleftrightarrow> n < 8" "bit (0xffff :: u32) n \<longleftrightarrow> n < 16" "bit (0xfff :: u32) n \<longleftrightarrow> n < 12"
  "bit (0xff000000 :: u32) n \<longleftrightarrow> 24 \<le> n \<and> n < 32" "bit (0x00ffff00 :: u32) n \<longleftrightarrow> 8 \<le> n \<and> n < 24"
  "bit (0xffff0000 :: u32) n \<longleftrightarrow> 16 \<le> n \<and> n < 32" "bit (0xf0000 :: u32) n \<longleftrightarrow> 16 \<le> n \<and> n < 20"
  unfolding descriptor_masks bit_range_mask by auto

lemmas word_bits = bit_or_iff bit_and_iff bit_not_iff bit_push_bit_iff bit_drop_bit_eq comp_def possible_bit_word

lemma desc_upd: "d_a (d\<lparr>d_a := x, d_b := y\<rparr>) = x" "d_b (d\<lparr>d_a := x, d_b := y\<rparr>) = y"
  by simp_all

lemmas desc_fields = desc_upd get_base_def set_base_def set_limit_def Let_def

lemma get_base_set_base: "get_base (set_base b d) = b"
proof (rule bit_word_eqI)
  fix n :: nat
  assume "n < LENGTH(32)"
  then consider "n < 16" | "16 \<le> n \<and> n < 24" | "24 \<le> n \<and> n < 32"
    by fastforce
  then show "bit (get_base (set_base b d)) n \<longleftrightarrow> bit b n"
    by cases (simp_all only: desc_fields word_bits bits_of_masks, auto)
qed

lemma get_limit_set_base: "get_limit (set_base b d) = get_limit d"
proof -
  have "bit (d_b (set_base b d)) 23 = bit (d_b d) 23"
    by (simp only: desc_fields word_bits bits_of_masks) auto
  moreover have "(d_a (set_base b d) AND 0xffff) OR (d_b (set_base b d) AND 0xf0000)
      = (d_a d AND 0xffff) OR (d_b d AND 0xf0000)"
    by (rule bit_word_eqI) (simp only: desc_fields word_bits bits_of_masks, auto)
  ultimately show ?thesis
    by (simp add: get_limit_def)
qed

lemma get_base_set_limit: "get_base (set_limit l d) = get_base d"
proof (rule bit_word_eqI)
  fix n :: nat
  assume "n < LENGTH(32)"
  then consider "n < 16" | "16 \<le> n \<and> n < 24" | "24 \<le> n \<and> n < 32"
    by fastforce
  then show "bit (get_base (set_limit l d)) n \<longleftrightarrow> bit (get_base d) n"
    by cases (simp_all only: desc_fields word_bits bits_of_masks, auto dest: bit_imp_le_length)
qed

lemma get_limit_set_limit:
  "get_limit (set_limit l d) =
    (if bit (d_b d) 23 then ((l - 1) OR 0xfff) + 1 else drop_bit 12 (l - 1) + 1)"
proof -
  have "bit (d_b (set_limit l d)) 23 = bit (d_b d) 23"
    by (simp only: desc_fields word_bits bits_of_masks) auto
  moreover have 1: "(d_a (set_limit l d) AND 0xffff) OR (d_b (set_limit l d) AND 0xf0000) = drop_bit 12 (l - 1)"
    by (rule bit_word_eqI) (simp only: desc_fields word_bits bits_of_masks, auto dest: bit_imp_le_length)
  moreover have "push_bit 12 (drop_bit 12 (l - 1)) OR 0xfff = (l - 1) OR (0xfff :: u32)"
    by (rule bit_word_eqI) (simp only: word_bits bits_of_masks, auto)
  ultimately show ?thesis
    by (simp add: get_limit_def)
qed

text \<open>The base and the limit of a segment descriptor are read back as they were set, and setting one leaves the
  other; a limit is rounded up to a whole number of pages in a descriptor that counts pages.\<close>

theorem descriptor_roundtrip:
  "get_base (set_base b d) = b \<and> get_limit (set_base b d) = get_limit d
   \<and> get_base (set_limit l d) = get_base d
   \<and> get_limit (set_limit l d) =
      (if bit (d_b d) 23 then ((l - 1) OR 0xfff) + 1 else drop_bit 12 (l - 1) + 1)"
  using get_base_set_base get_limit_set_base get_base_set_limit get_limit_set_limit by blast

end
