(* ===== verification/Sched.thy ===== *)
theory Sched
  imports Kernel_Types
begin

text \<open>
  \<open>kernel/sched.c\<close>: the scheduler proper, \<open>sleep_on\<close> and \<open>wake_up\<close>, and the system calls of that
  file. \<open>schedule\<close> returns \<open>None\<close> when its loop does not end. A call that sleeps is modelled by its
  two halves, before and after \<open>schedule()\<close>, and by a step relation that interleaves the halves of
  all tasks.
\<close>

unbundle bit_operations_syntax

section \<open>State\<close>

record sched_state =
  task :: "nat \<Rightarrow> task_struct option"
  current :: nat
  jiffies :: int
  startup_time :: int
  last_pid :: int
  last_task_used_math :: "nat option"
  task_page :: "nat \<Rightarrow> u32"

definition the_task :: "sched_state \<Rightarrow> nat \<Rightarrow> task_struct" where
  "the_task s i = (case task s i of Some p \<Rightarrow> p | None \<Rightarrow> INIT_TASK 0)"

definition cur :: "sched_state \<Rightarrow> task_struct" where
  "cur s = the_task s (current s)"

definition upd_task :: "nat \<Rightarrow> (task_struct \<Rightarrow> task_struct) \<Rightarrow> sched_state \<Rightarrow> sched_state" where
  "upd_task i f s = s\<lparr>task := (task s)(i := map_option f (task s i))\<rparr>"

definition upd_cur :: "(task_struct \<Rightarrow> task_struct) \<Rightarrow> sched_state \<Rightarrow> sched_state" where
  "upd_cur f s = upd_task (current s) f s"

definition CURRENT_TIME :: "sched_state \<Rightarrow> int" where
  "CURRENT_TIME s = s32 (startup_time s + jiffies s div HZ)"

section \<open>schedule\<close>

text \<open>The loop \<open>for (p = &LAST_TASK; p > &FIRST_TASK; --p) if (*p) ...\<close> with an update of \<open>**p\<close>.\<close>

definition for_tasks :: "(task_struct \<Rightarrow> task_struct) \<Rightarrow> (nat \<Rightarrow> task_struct option) \<Rightarrow> (nat \<Rightarrow> task_struct option)" where
  "for_tasks f ts = fold (\<lambda>i ts. ts(i := map_option f (ts i))) (rev [1..<NR_TASKS]) ts"

definition BLOCKABLE :: u32 where
  "BLOCKABLE = NOT (sigbit SIGKILL OR sigbit SIGSTOP)"

definition check_alarm :: "int \<Rightarrow> task_struct \<Rightarrow> task_struct" where
  "check_alarm now p =
    (let p = (if t_alarm p \<noteq> 0 \<and> t_alarm p < now
              then p\<lparr>t_signal := t_signal p OR sigbit SIGALRM, t_alarm := 0\<rparr> else p)
     in if t_signal p AND NOT (BLOCKABLE AND t_blocked p) \<noteq> 0 \<and> t_state p = TASK_INTERRUPTIBLE
        then p\<lparr>t_state := TASK_RUNNING\<rparr> else p)"

text \<open>The choice of the next task: the pair \<open>(c, next)\<close> over the slots from the last to the second.\<close>

definition pick_step :: "(nat \<Rightarrow> task_struct option) \<Rightarrow> nat \<Rightarrow> int \<times> nat \<Rightarrow> int \<times> nat" where
  "pick_step ts i = (\<lambda>(c, next).
    case ts i of
      None \<Rightarrow> (c, next)
    | Some p \<Rightarrow> if t_state p = TASK_RUNNING \<and> c < t_counter p then (t_counter p, i) else (c, next))"

definition pick :: "(nat \<Rightarrow> task_struct option) \<Rightarrow> int \<times> nat" where
  "pick ts = fold (pick_step ts) (rev [1..<NR_TASKS]) (-1, 0)"

definition recount :: "task_struct \<Rightarrow> task_struct" where
  "recount p = p\<lparr>t_counter := s32 (t_counter p div 2 + t_priority p)\<rparr>"

partial_function (option) sched_loop :: "(nat \<Rightarrow> task_struct option) \<Rightarrow> ((nat \<Rightarrow> task_struct option) \<times> nat) option" where
  "sched_loop ts =
    (if fst (pick ts) \<noteq> 0 then Some (ts, snd (pick ts)) else sched_loop (for_tasks recount ts))"

definition switch_to :: "nat \<Rightarrow> sched_state \<Rightarrow> sched_state" where
  "switch_to n s = (if n = current s then s else s\<lparr>current := n\<rparr>)"

definition schedule :: "sched_state \<Rightarrow> sched_state option" where
  "schedule s =
    (case sched_loop (for_tasks (check_alarm (jiffies s)) (task s)) of
       None \<Rightarrow> None
     | Some (ts, next) \<Rightarrow> Some (switch_to next (s\<lparr>task := ts\<rparr>)))"

section \<open>sleep\_on and wake\_up\<close>

text \<open>
  \<open>sleep_on(p)\<close>: the first half saves the head of the queue on the kernel stack (\<open>tmp\<close>), puts the
  current task at the head, marks it and calls \<open>schedule\<close>; the second half, when the task runs
  again, wakes the saved task. The queue is the value of the pointer cell \<open>*p\<close>.
\<close>

definition sleep_on_begin :: "nat option \<Rightarrow> sched_state \<Rightarrow> (nat option \<times> nat option, sched_state) kres" where
  "sleep_on_begin q s =
    (if current s = 0 then panic ''task[0] trying to sleep''
     else ret (q, Some (current s)) (upd_cur (t_state_update (\<lambda>_. TASK_UNINTERRUPTIBLE)) s))"

definition sleep_on_end :: "nat option \<Rightarrow> sched_state \<Rightarrow> sched_state" where
  "sleep_on_end tmp s =
    (case tmp of None \<Rightarrow> s | Some i \<Rightarrow> upd_task i (t_state_update (\<lambda>_. 0)) s)"

text \<open>
  \<open>interruptible_sleep_on\<close>: the first half, and what happens each time the task is resumed: if
  another task is at the head it is woken first and the sleeper goes back to sleep (\<open>Inl\<close>), else the
  queue is emptied, the saved task is woken and the call returns (\<open>Inr\<close>).
\<close>

definition interruptible_sleep_on_begin ::
    "nat option \<Rightarrow> sched_state \<Rightarrow> (nat option \<times> nat option, sched_state) kres" where
  "interruptible_sleep_on_begin q s =
    (if current s = 0 then panic ''task[0] trying to sleep''
     else ret (q, Some (current s)) (upd_cur (t_state_update (\<lambda>_. TASK_INTERRUPTIBLE)) s))"

definition interruptible_sleep_on_resume ::
    "nat option \<Rightarrow> nat option \<Rightarrow> sched_state \<Rightarrow> sched_state + nat option \<times> sched_state" where
  "interruptible_sleep_on_resume tmp q s =
    (case q of
       Some i \<Rightarrow>
         if i \<noteq> current s
         then Inl (upd_cur (t_state_update (\<lambda>_. TASK_INTERRUPTIBLE)) (upd_task i (t_state_update (\<lambda>_. 0)) s))
         else Inr (None, sleep_on_end tmp s)
     | None \<Rightarrow> Inr (None, sleep_on_end tmp s))"

definition wake_up :: "nat option \<Rightarrow> sched_state \<Rightarrow> nat option \<times> sched_state" where
  "wake_up q s =
    (case q of None \<Rightarrow> (None, s) | Some i \<Rightarrow> (None, upd_task i (t_state_update (\<lambda>_. 0)) s))"

section \<open>System calls\<close>

definition sys_pause :: "sched_state \<Rightarrow> sched_state option" where
  "sys_pause s = schedule (upd_cur (t_state_update (\<lambda>_. TASK_INTERRUPTIBLE)) s)"

text \<open>C division truncates towards zero.\<close>

definition trunc_div :: "int \<Rightarrow> int \<Rightarrow> int" where
  "trunc_div a b = sgn a * sgn b * (\<bar>a\<bar> div \<bar>b\<bar>)"

definition sys_alarm :: "int \<Rightarrow> sched_state \<Rightarrow> int \<times> sched_state" where
  "sys_alarm seconds s =
    (let old = t_alarm (cur s);
         old = (if old \<noteq> 0 then trunc_div (s32 (old - jiffies s)) HZ else old)
     in (old, upd_cur (t_alarm_update
           (\<lambda>_. if seconds > 0 then s32 (jiffies s + HZ * seconds) else 0)) s))"

definition sys_getpid :: "sched_state \<Rightarrow> int" where "sys_getpid s = t_pid (cur s)"
definition sys_getppid :: "sched_state \<Rightarrow> int" where "sys_getppid s = t_father (cur s)"
definition sys_getuid :: "sched_state \<Rightarrow> int" where "sys_getuid s = uint (t_uid (cur s))"
definition sys_geteuid :: "sched_state \<Rightarrow> int" where "sys_geteuid s = uint (t_euid (cur s))"
definition sys_getgid :: "sched_state \<Rightarrow> int" where "sys_getgid s = uint (t_gid (cur s))"
definition sys_getegid :: "sched_state \<Rightarrow> int" where "sys_getegid s = uint (t_egid (cur s))"

definition sys_nice :: "int \<Rightarrow> sched_state \<Rightarrow> int \<times> sched_state" where
  "sys_nice increment s =
    (let p = s32 (t_priority (cur s) - increment)
     in (0, if p > 0 then upd_cur (t_priority_update (\<lambda>_. p)) s else s))"

section \<open>The task loops, slot by slot\<close>

lemma fold_upd_slots:
  "distinct is \<Longrightarrow> fold (\<lambda>i ts. ts(i := g (ts i))) is ts = (\<lambda>i. if i \<in> set is then g (ts i) else ts i)"
  by (induction "is" arbitrary: ts) (auto simp: fun_eq_iff)

lemma for_tasks_eq:
  "for_tasks f ts = (\<lambda>i. if 1 \<le> i \<and> i < NR_TASKS then map_option f (ts i) else ts i)"
  unfolding for_tasks_def by (subst fold_upd_slots) (auto simp: fun_eq_iff)

definition runnable :: "(nat \<Rightarrow> task_struct option) \<Rightarrow> nat \<Rightarrow> bool" where
  "runnable ts i \<longleftrightarrow> (\<exists>p. ts i = Some p \<and> t_state p = TASK_RUNNING)"

definition counter_of :: "(nat \<Rightarrow> task_struct option) \<Rightarrow> nat \<Rightarrow> int" where
  "counter_of ts i = (case ts i of Some p \<Rightarrow> t_counter p | None \<Rightarrow> 0)"

lemma pick_step_eq:
  "pick_step ts i (c, n) = (if runnable ts i \<and> c < counter_of ts i then (counter_of ts i, i) else (c, n))"
  by (auto simp: pick_step_def runnable_def counter_of_def split: option.splits)

text \<open>
  What the scan finds: the first of the scanned slots with the greatest counter among the runnable
  ones, or the initial pair when none beats it.
\<close>

definition best_slot :: "(nat \<Rightarrow> task_struct option) \<Rightarrow> nat list \<Rightarrow> int \<Rightarrow> nat \<Rightarrow> int \<times> nat \<Rightarrow> bool" where
  "best_slot ts is c0 n0 = (\<lambda>(c, n).
    (\<forall>j \<in> set is. runnable ts j \<longrightarrow> counter_of ts j \<le> c) \<and> c0 \<le> c
    \<and> ((c, n) = (c0, n0) \<or>
       (n \<in> set is \<and> runnable ts n \<and> c = counter_of ts n \<and> c0 < c
        \<and> (\<forall>j \<in> set is. runnable ts j \<and> counter_of ts j = c \<longrightarrow> j \<le> n))))"

lemma fold_pick:
  "sorted_wrt (>) is \<Longrightarrow> best_slot ts is c0 n0 (fold (pick_step ts) is (c0, n0))"
proof (induction "is" arbitrary: c0 n0)
  case Nil
  then show ?case by (simp add: best_slot_def)
next
  case (Cons i is')
  then have lower: "\<forall>j \<in> set is'. j < i" and "sorted_wrt (>) is'"
    by simp_all
  note IH = Cons.IH [OF this(2)]
  show ?case
  proof (cases "runnable ts i \<and> c0 < counter_of ts i")
    case True
    obtain c n where r: "fold (pick_step ts) is' (counter_of ts i, i) = (c, n)"
      by fastforce
    have "best_slot ts is' (counter_of ts i) i (c, n)"
      using IH [of "counter_of ts i" i] r by simp
    moreover have "fold (pick_step ts) (i # is') (c0, n0) = (c, n)"
      using True r by (simp add: pick_step_eq)
    ultimately show ?thesis
      using True lower by (auto simp: best_slot_def)
  next
    case False
    obtain c n where r: "fold (pick_step ts) is' (c0, n0) = (c, n)"
      by fastforce
    have "best_slot ts is' c0 n0 (c, n)"
      using IH [of c0 n0] r by simp
    moreover have "fold (pick_step ts) (i # is') (c0, n0) = (c, n)"
      using False r by (auto simp: pick_step_eq)
    ultimately show ?thesis
      using False by (auto simp: best_slot_def)
  qed
qed

text \<open>
  The state the scheduler works on: the idle task is there, priorities are positive and small enough
  for the arithmetic of \<open>recount\<close>, and a counter never exceeds twice its priority.
\<close>

definition sched_ok :: "task_struct \<Rightarrow> bool" where
  "sched_ok p \<longleftrightarrow> 1 \<le> t_priority p \<and> t_priority p < 536870912
    \<and> 0 \<le> t_counter p \<and> t_counter p \<le> 2 * t_priority p"

abbreviation tasks_ok :: "(nat \<Rightarrow> task_struct option) \<Rightarrow> bool" where
  "tasks_ok ts \<equiv> \<forall>i p. ts i = Some p \<longrightarrow> sched_ok p"

definition sched_wf :: "sched_state \<Rightarrow> bool" where
  "sched_wf s \<longleftrightarrow> task s 0 \<noteq> None \<and> task s (current s) \<noteq> None \<and> tasks_ok (task s)"

lemma sched_ok_recount: "sched_ok p \<Longrightarrow> sched_ok (recount p)"
  by (auto simp: sched_ok_def recount_def)

lemma recount_positive: "sched_ok p \<Longrightarrow> 0 < t_counter (recount p)"
  by (auto simp: sched_ok_def recount_def)

lemma check_alarm_fields [simp]:
  "t_counter (check_alarm now p) = t_counter p" "t_priority (check_alarm now p) = t_priority p"
  by (simp_all add: check_alarm_def Let_def)

lemma sched_ok_check_alarm [simp]: "sched_ok (check_alarm now p) = sched_ok p"
  by (simp add: sched_ok_def)

lemma for_tasks_ok:
  assumes "tasks_ok ts" "\<And>p. sched_ok p \<Longrightarrow> sched_ok (f p)"
  shows "tasks_ok (for_tasks f ts)"
  using assms by (auto simp: for_tasks_eq split: if_splits)

lemma pick_best: "best_slot ts (rev [1..<NR_TASKS]) (-1) 0 (pick ts)"
  unfolding pick_def by (rule fold_pick) (simp add: sorted_wrt_rev)

text \<open>
  The slot chosen: the runnable slot with the greatest counter, the highest of these, or slot 0 when
  nothing else can run.
\<close>

definition chosen :: "(nat \<Rightarrow> task_struct option) \<Rightarrow> nat \<Rightarrow> bool" where
  "chosen ts n \<longleftrightarrow>
    (n = 0 \<and> (\<forall>j. 1 \<le> j \<and> j < NR_TASKS \<longrightarrow> \<not> runnable ts j))
    \<or> (1 \<le> n \<and> n < NR_TASKS \<and> runnable ts n \<and> 0 < counter_of ts n
       \<and> (\<forall>j. 1 \<le> j \<and> j < NR_TASKS \<and> runnable ts j \<longrightarrow>
            counter_of ts j < counter_of ts n \<or> (counter_of ts j = counter_of ts n \<and> j \<le> n)))"

lemma pick_chosen:
  assumes ok: "tasks_ok ts" and "fst (pick ts) \<noteq> 0"
  shows "chosen ts (snd (pick ts))"
proof -
  obtain c n where cn: "pick ts = (c, n)" by fastforce
  have nn: "runnable ts j \<Longrightarrow> 0 \<le> counter_of ts j" for j
    using ok by (auto simp: runnable_def counter_of_def sched_ok_def)
  show ?thesis
    using pick_best [of ts] assms(2) nn unfolding cn
    by (fastforce simp: best_slot_def chosen_def)
qed

lemma pick_zero_runnable:
  assumes "fst (pick ts) = 0"
  shows "\<exists>n. 1 \<le> n \<and> n < NR_TASKS \<and> runnable ts n"
  using pick_best [of ts] assms by (auto simp: best_slot_def split: prod.splits)

lemma runnable_recount: "runnable (for_tasks recount ts) i = runnable ts i"
  by (auto simp: runnable_def for_tasks_eq recount_def)

lemma pick_after_recount:
  assumes ok: "tasks_ok ts" and zero: "fst (pick ts) = 0"
  shows "fst (pick (for_tasks recount ts)) \<noteq> 0"
proof -
  obtain n where n: "1 \<le> n" "n < NR_TASKS" "runnable ts n"
    using pick_zero_runnable [OF zero] by blast
  then have "0 < counter_of (for_tasks recount ts) n"
    using ok recount_positive by (fastforce simp: runnable_def counter_of_def for_tasks_eq)
  then show ?thesis
    using n pick_best [of "for_tasks recount ts"]
    by (fastforce simp: best_slot_def runnable_recount split: prod.splits)
qed

text \<open>The loop ends after at most one recomputation of the counters.\<close>

lemma sched_loop_ends:
  assumes ok: "tasks_ok ts"
  shows "sched_loop ts = Some
    (if fst (pick ts) \<noteq> 0 then (ts, snd (pick ts))
     else (for_tasks recount ts, snd (pick (for_tasks recount ts))))"
  using pick_after_recount [OF ok] by (simp add: sched_loop.simps [of ts] sched_loop.simps [of "for_tasks recount ts"])

lemma sched_loop_chosen:
  assumes ok: "tasks_ok ts"
  shows "\<exists>ts' n. sched_loop ts = Some (ts', n) \<and> chosen ts' n
    \<and> (ts' = ts \<or> ts' = for_tasks recount ts) \<and> tasks_ok ts'"
proof (cases "fst (pick ts) = 0")
  case True
  have "tasks_ok (for_tasks recount ts)"
    using ok sched_ok_recount by (rule for_tasks_ok)
  then show ?thesis
    using True sched_loop_ends [OF ok] pick_chosen pick_after_recount [OF ok True] by simp
next
  case False
  then show ?thesis
    using sched_loop_ends [OF ok] pick_chosen [OF ok] ok by simp
qed


section \<open>Properties of schedule\<close>

lemma schedule_result:
  assumes "sched_wf s"
  obtains ts n where "schedule s = Some (switch_to n (s\<lparr>task := ts\<rparr>))" "chosen ts n"
    "ts = for_tasks (check_alarm (jiffies s)) (task s)
      \<or> ts = for_tasks recount (for_tasks (check_alarm (jiffies s)) (task s))"
    "tasks_ok ts"
proof -
  have "tasks_ok (for_tasks (check_alarm (jiffies s)) (task s))"
    by (rule for_tasks_ok) (use assms in \<open>auto simp: sched_wf_def\<close>)
  from sched_loop_chosen [OF this]
  obtain ts n where *: "sched_loop (for_tasks (check_alarm (jiffies s)) (task s)) = Some (ts, n)" "chosen ts n"
    "ts = for_tasks (check_alarm (jiffies s)) (task s)
      \<or> ts = for_tasks recount (for_tasks (check_alarm (jiffies s)) (task s))"
    "tasks_ok ts"
    by blast
  show thesis
    by (rule that [of n ts]) (use * in \<open>simp_all add: schedule_def\<close>)
qed

lemma switch_to_simps [simp]:
  "task (switch_to n s) = task s" "current (switch_to n s) = n" "jiffies (switch_to n s) = jiffies s"
  by (simp_all add: switch_to_def)

subsection \<open>A table with a sleeper whose alarm has run out, and a tired task\<close>

definition busy_sched :: sched_state where
  "busy_sched =
    \<lparr>task = [0 \<mapsto> INIT_TASK 0,
             1 \<mapsto> (INIT_TASK 0)\<lparr>t_pid := 1, t_state := TASK_INTERRUPTIBLE, t_alarm := 5\<rparr>,
             2 \<mapsto> (INIT_TASK 0)\<lparr>t_pid := 2, t_counter := 0\<rparr>],
     current = 2, jiffies = 10, startup_time = 0, last_pid = 2, last_task_used_math = None,
     task_page = (\<lambda>_. 0)\<rparr>"

lemma busy_sched_wf: "sched_wf busy_sched"
  by (auto simp: busy_sched_def sched_wf_def sched_ok_def INIT_TASK_def split: if_splits)

lemma busy_sched_returns: "\<exists>s'. schedule busy_sched = Some s'"
  by (rule schedule_result [OF busy_sched_wf]) blast

text \<open>C1. On a well-formed task table \<open>schedule\<close> always returns (its loop runs at most twice), and the
  task it switches to is the runnable task with the most ticks left, the highest slot among equals,
  with at least one tick; the idle task runs only when no other task can.\<close>

theorem schedule_picks_best:
  assumes "sched_wf s"
  shows "\<exists>s'. schedule s = Some s' \<and> chosen (task s') (current s')"
  using assms by (elim schedule_result) simp

theorem schedule_picks_best_witness:
  "\<exists>s'. schedule busy_sched = Some s' \<and> chosen (task s') (current s')"
  by (rule schedule_picks_best [OF busy_sched_wf])

lemma schedule_wf:
  assumes "sched_wf s" "schedule s = Some s'"
  shows "sched_wf s'"
proof (rule schedule_result [OF assms(1)])
  fix ts n
  assume *: "schedule s = Some (switch_to n (s\<lparr>task := ts\<rparr>))" "tasks_ok ts" "chosen ts n"
    "ts = for_tasks (check_alarm (jiffies s)) (task s)
      \<or> ts = for_tasks recount (for_tasks (check_alarm (jiffies s)) (task s))"
  then have "ts 0 = task s 0"
    by (auto simp: for_tasks_eq)
  moreover from this have "ts n \<noteq> None"
    using *(3) assms(1) by (auto simp: chosen_def runnable_def sched_wf_def)
  ultimately show ?thesis
    using * assms by (auto simp: sched_wf_def)
qed

text \<open>C12. Scheduling keeps the task table well-formed: the current task exists, priorities stay
  positive, and counters stay between zero and twice the priority, so repeated recomputation neither
  overflows nor lets the loop run forever.\<close>

theorem schedule_keeps_wf:
  assumes "sched_wf s" "schedule s = Some s'"
  shows "sched_wf s' \<and> task s' (current s') \<noteq> None
    \<and> (\<forall>i p. task s' i = Some p \<longrightarrow> 0 \<le> t_counter p \<and> t_counter p \<le> 2 * t_priority p)"
  using schedule_wf [OF assms] by (auto simp: sched_wf_def sched_ok_def)

theorem schedule_keeps_wf_witness:
  "\<exists>s'. schedule busy_sched = Some s' \<and> sched_wf s'"
proof -
  obtain s' where "schedule busy_sched = Some s'"
    using busy_sched_returns by blast
  with schedule_keeps_wf [OF busy_sched_wf this] show ?thesis
    by blast
qed

text \<open>The effect of a call of \<open>schedule\<close> on one task: the alarm check, and possibly a recount.\<close>

lemma schedule_task:
  assumes "sched_wf s" "schedule s = Some s'" "1 \<le> i" "i < NR_TASKS"
  shows "task s' i = map_option (check_alarm (jiffies s)) (task s i)
    \<or> task s' i = map_option (recount \<circ> check_alarm (jiffies s)) (task s i)"
  by (rule schedule_result [OF assms(1)])
    (use assms in \<open>auto simp: for_tasks_eq option.map_comp\<close>)

lemma bit_BLOCKABLE: "bit BLOCKABLE b \<longleftrightarrow> b < 32 \<and> b \<noteq> 8 \<and> b \<noteq> 18"
  by (auto simp: BLOCKABLE_def SIGKILL_def SIGSTOP_def bit_simps)

text \<open>A signal is deliverable when it is pending and not blocked; bits 8 and 18 (\<open>SIGKILL\<close>,
  \<open>SIGSTOP\<close>) count as never blocked.\<close>

definition deliverable :: "u32 \<Rightarrow> u32 \<Rightarrow> bool" where
  "deliverable sig blocked \<longleftrightarrow> (\<exists>b. bit sig b \<and> (bit blocked b \<longrightarrow> b = 8 \<or> b = 18))"

lemma deliverable_mask: "x AND NOT (BLOCKABLE AND y) \<noteq> 0 \<longleftrightarrow> deliverable x y"
proof -
  have "bit (x AND NOT (BLOCKABLE AND y)) n \<longleftrightarrow> bit x n \<and> (bit y n \<longrightarrow> n = 8 \<or> n = 18)" for n
    using bit_imp_le_length [of x n]
    by (auto simp: bit_and_iff bit_not_iff bit_BLOCKABLE simp del: bit.de_Morgan_conj)
  then show ?thesis
    unfolding deliverable_def word_nonzero_bit using bit_imp_le_length [of x] by auto
qed

lemma check_alarm_state:
  "t_state (check_alarm now p) =
    (if t_state p = TASK_INTERRUPTIBLE \<and> deliverable (t_signal (check_alarm now p)) (t_blocked p)
     then TASK_RUNNING else t_state p)"
  by (simp add: check_alarm_def Let_def deliverable_mask [symmetric])

lemma check_alarm_alarm:
  "t_alarm p \<noteq> 0 \<and> t_alarm p < now \<Longrightarrow>
    bit (t_signal (check_alarm now p)) 13 \<and> t_alarm (check_alarm now p) = 0"
  by (simp add: check_alarm_def Let_def bit_or_iff SIGALRM_def)

text \<open>C13. When an alarm has run out, the task has \<open>SIGALRM\<close> pending and no alarm after \<open>schedule\<close>; and
  an interruptible sleeper is made runnable exactly when it has a pending signal that is not blocked
  (\<open>SIGKILL\<close> and \<open>SIGSTOP\<close> cannot be blocked); no other task changes its state.\<close>

theorem schedule_delivers:
  assumes "sched_wf s" "schedule s = Some s'" "1 \<le> i" "i < NR_TASKS" "task s i = Some p"
  shows "\<exists>p'. task s' i = Some p'
    \<and> (t_alarm p \<noteq> 0 \<and> t_alarm p < jiffies s \<longrightarrow> bit (t_signal p') 13 \<and> t_alarm p' = 0)
    \<and> t_state p' = (if t_state p = TASK_INTERRUPTIBLE \<and> deliverable (t_signal p') (t_blocked p)
                    then TASK_RUNNING else t_state p)"
proof -
  let ?p = "check_alarm (jiffies s) p"
  obtain p' where p': "task s' i = Some p'" "t_signal p' = t_signal ?p" "t_alarm p' = t_alarm ?p"
      "t_state p' = t_state ?p"
    using schedule_task [OF assms(1-4)] assms(5) by (auto simp: recount_def)
  then show ?thesis
    using check_alarm_alarm [of p "jiffies s"] check_alarm_state [of "jiffies s" p] by auto
qed

theorem schedule_delivers_witness:
  "\<exists>s' p'. schedule busy_sched = Some s' \<and> task s' 1 = Some p' \<and> bit (t_signal p') 13
     \<and> t_alarm p' = 0 \<and> t_state p' = TASK_RUNNING"
proof -
  obtain s' where s': "schedule busy_sched = Some s'"
    using busy_sched_returns by blast
  let ?p = "(INIT_TASK 0)\<lparr>t_pid := 1, t_state := TASK_INTERRUPTIBLE, t_alarm := 5\<rparr>"
  have p: "task busy_sched 1 = Some ?p"
    by (simp add: busy_sched_def)
  obtain p' where p': "task s' 1 = Some p'" "bit (t_signal p') 13" "t_alarm p' = 0"
      "t_state p' = (if deliverable (t_signal p') 0 then TASK_RUNNING else TASK_INTERRUPTIBLE)"
    using schedule_delivers [OF busy_sched_wf s' _ _ p]
    by (auto simp: NR_TASKS_def busy_sched_def INIT_TASK_def split: if_splits)
  have "deliverable (t_signal p') 0"
    using p'(2) by (auto simp: deliverable_def)
  with s' p' show ?thesis
    by auto
qed

end
