(* ===== verification/Wait_Queue.thy ===== *)
theory Wait_Queue
  imports Sched
begin

text \<open>
  The wait queues of \<open>kernel/sched.c\<close> as a concurrent system. A queue is one pointer; the rest of it
  lives on the kernel stacks of the sleeping tasks, in the variable \<open>tmp\<close> of \<open>sleep_on\<close>. The state
  holds the task table, the queue cell and the saved \<open>tmp\<close> of every task inside \<open>sleep_on\<close>; a step is
  one half of \<open>sleep_on\<close>, a \<open>wake_up\<close> by a task or an interrupt, or a call of \<open>schedule\<close>.
\<close>

record wait_system =
  wq_sched :: sched_state
  wq_head :: "nat option"
  wq_saved :: "nat \<Rightarrow> nat option option"

inductive wq_step :: "wait_system \<Rightarrow> wait_system \<Rightarrow> bool" where
  sleep:
    "wq_saved w (current (wq_sched w)) = None \<Longrightarrow>
     sleep_on_begin (wq_head w) (wq_sched w) = Inr ((tmp, q), s) \<Longrightarrow>
     schedule s = Some s' \<Longrightarrow>
     wq_step w (w\<lparr>wq_sched := s', wq_head := q,
                   wq_saved := (wq_saved w)(current (wq_sched w) := Some tmp)\<rparr>)"
| resume:
    "current (wq_sched w) = i \<Longrightarrow> runnable (task (wq_sched w)) i \<Longrightarrow> wq_saved w i = Some tmp \<Longrightarrow>
     wq_step w (w\<lparr>wq_sched := sleep_on_end tmp (wq_sched w), wq_saved := (wq_saved w)(i := None)\<rparr>)"
| wake:
    "wake_up (wq_head w) (wq_sched w) = (q, s) \<Longrightarrow>
     wq_step w (w\<lparr>wq_sched := s, wq_head := q\<rparr>)"
| resched:
    "schedule (wq_sched w) = Some s \<Longrightarrow> wq_step w (w\<lparr>wq_sched := s\<rparr>)"

inductive wq_reachable :: "wait_system \<Rightarrow> bool" where
  start: "sched_wf s \<Longrightarrow> wq_reachable \<lparr>wq_sched = s, wq_head = None, wq_saved = (\<lambda>_. None)\<rparr>"
| step: "wq_reachable w \<Longrightarrow> wq_step w w' \<Longrightarrow> wq_reachable w'"

section \<open>The implicit list on the stacks\<close>

definition links :: "(nat \<Rightarrow> nat option option) \<Rightarrow> nat \<Rightarrow> nat \<Rightarrow> bool" where
  "links sv a b \<longleftrightarrow> sv a = Some (Some b)"

text \<open>A task is a root of the queue when it is at its head, or was woken inside \<open>sleep_on\<close> and has yet
  to run its second half.\<close>

definition wq_root :: "wait_system \<Rightarrow> nat \<Rightarrow> bool" where
  "wq_root w j \<longleftrightarrow> wq_head w = Some j \<or> (wq_saved w j \<noteq> None \<and> runnable (task (wq_sched w)) j)"

definition asleep :: "wait_system \<Rightarrow> nat \<Rightarrow> bool" where
  "asleep w i \<longleftrightarrow> wq_saved w i \<noteq> None \<and> \<not> runnable (task (wq_sched w)) i"

definition wq_inv :: "wait_system \<Rightarrow> bool" where
  "wq_inv w \<longleftrightarrow> sched_wf (wq_sched w)
    \<and> (\<forall>i. wq_saved w i \<noteq> None \<longrightarrow> task (wq_sched w) i \<noteq> None)
    \<and> (\<forall>i. asleep w i \<longrightarrow> (\<exists>j. wq_root w j \<and> (links (wq_saved w))\<^sup>*\<^sup>* j i))"

lemma runnable_upd_task [simp]:
  "runnable (task (upd_task i (t_state_update (\<lambda>_. 0)) s)) j
    \<longleftrightarrow> runnable (task s) j \<or> (j = i \<and> task s i \<noteq> None)"
  by (auto simp: upd_task_def runnable_def TASK_RUNNING_def)

lemma sched_wf_upd_state [simp]: "sched_wf (upd_task i (t_state_update f) s) = sched_wf s"
  by (auto simp: sched_wf_def upd_task_def sched_ok_def)

lemma schedule_runnable:
  assumes "sched_wf s" "schedule s = Some s'" "runnable (task s) i"
  shows "runnable (task s') i"
  by (rule schedule_result [OF assms(1)])
    (use assms in \<open>auto simp: runnable_def for_tasks_eq recount_def check_alarm_state task_state_defs\<close>)

text \<open>Taking a task off: what it linked to is reached from its saved pointer, without it.\<close>

lemma links_remove:
  assumes "(links sv)\<^sup>*\<^sup>* j k" and sv': "sv' = sv(i := None)"
  shows "(links sv')\<^sup>*\<^sup>* j k \<or> k = i \<or> (\<exists>b. sv i = Some (Some b) \<and> (links sv')\<^sup>*\<^sup>* b k)"
  using assms(1)
proof (induction rule: rtranclp_induct)
  case base
  then show ?case by simp
next
  case (step k m)
  show ?case
  proof (cases "k = i")
    case True
    with step.hyps(2) show ?thesis
      by (auto simp: links_def)
  next
    case False
    with step.hyps(2) have "links sv' k m"
      by (simp add: links_def sv')
    with step.IH False show ?thesis
      by (metis rtranclp.rtrancl_into_rtrancl)
  qed
qed

lemma schedule_present:
  assumes "sched_wf s" "schedule s = Some s'" "task s i \<noteq> None"
  shows "task s' i \<noteq> None"
  by (rule schedule_result [OF assms(1)]) (use assms in \<open>auto simp: for_tasks_eq\<close>)

lemma links_add:
  assumes "sv i = None" "(links sv)\<^sup>*\<^sup>* j k"
  shows "(links (sv(i := x)))\<^sup>*\<^sup>* j k"
  using assms(2)
proof (induction rule: rtranclp_induct)
  case base
  then show ?case by simp
next
  case (step k m)
  from step.hyps(2) assms(1) have "links (sv(i := x)) k m"
    by (auto simp: links_def)
  with step.IH show ?case
    by (rule rtranclp.rtrancl_into_rtrancl)
qed

lemma links_target_saved: "(links sv)\<^sup>*\<^sup>* j k \<Longrightarrow> j = k \<or> sv j \<noteq> None"
  by (induction rule: converse_rtranclp_induct) (auto simp: links_def)

section \<open>No sleeper is lost\<close>

lemma wq_inv_sleep:
  assumes inv: "wq_inv w" and free: "wq_saved w (current (wq_sched w)) = None"
    and beg: "sleep_on_begin (wq_head w) (wq_sched w) = Inr ((tmp, q), s)"
    and sch: "schedule s = Some s'"
  shows "wq_inv (w\<lparr>wq_sched := s', wq_head := q,
                   wq_saved := (wq_saved w)(current (wq_sched w) := Some tmp)\<rparr>)" (is "wq_inv ?w")
proof -
  let ?c = "current (wq_sched w)"
  have s: "s = upd_cur (t_state_update (\<lambda>_. TASK_UNINTERRUPTIBLE)) (wq_sched w)"
    and tq: "tmp = wq_head w" "q = Some ?c"
    using beg by (auto simp: sleep_on_begin_def split: if_splits)
  have wf: "sched_wf s"
    using inv by (simp add: s upd_cur_def wq_inv_def)
  have run: "runnable (task s') i" if "runnable (task (wq_sched w)) i" "i \<noteq> ?c" for i
  proof -
    have "runnable (task s) i"
      using that by (simp add: s upd_cur_def upd_task_def runnable_def)
    then show ?thesis
      using schedule_runnable [OF wf sch] by blast
  qed
  have "\<exists>j. wq_root ?w j \<and> (links (wq_saved ?w))\<^sup>*\<^sup>* j i" if "asleep ?w i" for i
  proof (cases "i = ?c")
    case True
    then show ?thesis
      by (intro exI [of _ ?c]) (simp add: wq_root_def tq)
  next
    case False
    with that run have "asleep w i"
      by (auto simp: asleep_def)
    with inv obtain j where j: "wq_root w j" "(links (wq_saved w))\<^sup>*\<^sup>* j i"
      by (auto simp: wq_inv_def)
    have l: "(links (wq_saved ?w))\<^sup>*\<^sup>* j i"
      using links_add [OF free j(2)] by simp
    show ?thesis
    proof (cases "wq_head w = Some j")
      case True
      then have "links (wq_saved ?w) ?c j"
        by (simp add: links_def tq)
      then show ?thesis
        using l by (intro exI [of _ ?c]) (auto simp: wq_root_def tq intro: converse_rtranclp_into_rtranclp)
    next
      case False
      then have "wq_root ?w j"
        using j(1) free run by (cases "j = ?c") (auto simp: wq_root_def)
      with l show ?thesis by blast
    qed
  qed
  moreover have "sched_wf s'"
    using wf sch by (rule schedule_wf)
  moreover have "task s' i \<noteq> None" if "wq_saved ?w i \<noteq> None" for i
  proof -
    have "task s i \<noteq> None"
      using that inv by (auto simp: wq_inv_def s upd_cur_def upd_task_def sched_wf_def split: if_splits)
    then show ?thesis
      by (rule schedule_present [OF wf sch])
  qed
  ultimately show ?thesis
    by (simp add: wq_inv_def)
qed

lemma wq_inv_resume:
  assumes inv: "wq_inv w" and sv: "wq_saved w i = Some tmp"
  shows "wq_inv (w\<lparr>wq_sched := sleep_on_end tmp (wq_sched w), wq_saved := (wq_saved w)(i := None)\<rparr>)"
    (is "wq_inv ?w")
proof -
  have keep: "runnable (task (wq_sched ?w)) j" if "runnable (task (wq_sched w)) j" for j
    using that by (simp add: sleep_on_end_def split: option.split)
  have "\<exists>j. wq_root ?w j \<and> (links (wq_saved ?w))\<^sup>*\<^sup>* j k" if "asleep ?w k" for k
  proof -
    from that keep have k: "asleep w k" "k \<noteq> i"
      by (auto simp: asleep_def split: if_splits)
    with inv obtain j where j: "wq_root w j" "(links (wq_saved w))\<^sup>*\<^sup>* j k"
      by (auto simp: wq_inv_def)
    from links_remove [OF j(2) refl, of i] k(2)
    consider "(links (wq_saved ?w))\<^sup>*\<^sup>* j k"
      | b where "tmp = Some b" "(links (wq_saved ?w))\<^sup>*\<^sup>* b k"
      using sv by auto
    then show ?thesis
    proof cases
      case 1
      show ?thesis
      proof (cases "j = i")
        case True
        then have "(wq_saved ?w) j = None"
          by simp
        with links_target_saved [OF 1] k(2) True show ?thesis
          by simp
      next
        case False
        with j(1) keep have "wq_root ?w j"
          by (auto simp: wq_root_def)
        with 1 show ?thesis by blast
      qed
    next
      case 2
      have "wq_saved ?w b \<noteq> None"
        using links_target_saved [OF 2(2)] that by (auto simp: asleep_def)
      moreover have "task (wq_sched w) b \<noteq> None"
        using inv calculation by (auto simp: wq_inv_def split: if_splits)
      ultimately have "wq_root ?w b"
        using 2(1) by (simp add: wq_root_def sleep_on_end_def)
      with 2(2) show ?thesis by blast
    qed
  qed
  moreover have "sched_wf (wq_sched ?w)"
    using inv by (simp add: wq_inv_def sleep_on_end_def split: option.split)
  moreover have "task (wq_sched ?w) j \<noteq> None" if "wq_saved ?w j \<noteq> None" for j
    using that inv by (auto simp: wq_inv_def sleep_on_end_def upd_task_def split: option.splits if_splits)
  ultimately show ?thesis
    by (simp add: wq_inv_def)
qed

lemma wq_inv_wake:
  assumes inv: "wq_inv w" and wk: "wake_up (wq_head w) (wq_sched w) = (q, s)"
  shows "wq_inv (w\<lparr>wq_sched := s, wq_head := q\<rparr>)" (is "wq_inv ?w")
proof (cases "wq_head w")
  case None
  then have "w\<lparr>wq_sched := s, wq_head := q\<rparr> = w"
    using wk by (cases w) (simp add: wake_up_def)
  then show ?thesis
    using inv by simp
next
  case (Some h)
  then have s: "s = upd_task h (t_state_update (\<lambda>_. 0)) (wq_sched w)" "q = None"
    using wk by (auto simp: wake_up_def)
  have "\<exists>j. wq_root ?w j \<and> (links (wq_saved ?w))\<^sup>*\<^sup>* j k" if k: "asleep ?w k" for k
  proof -
    from k have "asleep w k" and kh: "k \<noteq> h"
      using inv by (auto simp: asleep_def s wq_inv_def)
    with inv obtain j where j: "wq_root w j" "(links (wq_saved w))\<^sup>*\<^sup>* j k"
      by (auto simp: wq_inv_def)
    show ?thesis
    proof (cases "j = h")
      case True
      then have "wq_saved w h \<noteq> None"
        using links_target_saved [OF j(2)] kh by auto
      then have "wq_root ?w h"
        using inv by (auto simp: wq_root_def s wq_inv_def)
      with j(2) True show ?thesis by auto
    next
      case False
      with j(1) Some have "wq_root ?w j"
        by (auto simp: wq_root_def s)
      with j(2) show ?thesis by auto
    qed
  qed
  moreover have "sched_wf s"
    using inv by (simp add: wq_inv_def s)
  moreover have "task s i \<noteq> None" if "wq_saved w i \<noteq> None" for i
    using that inv by (auto simp: wq_inv_def s upd_task_def)
  ultimately show ?thesis
    by (simp add: wq_inv_def)
qed

lemma wq_inv_resched:
  assumes inv: "wq_inv w" and sch: "schedule (wq_sched w) = Some s"
  shows "wq_inv (w\<lparr>wq_sched := s\<rparr>)"
proof -
  have wf: "sched_wf (wq_sched w)"
    using inv by (simp add: wq_inv_def)
  note run = schedule_runnable [OF wf sch]
  then have "asleep (w\<lparr>wq_sched := s\<rparr>) i \<Longrightarrow> asleep w i" "wq_root w i \<Longrightarrow> wq_root (w\<lparr>wq_sched := s\<rparr>) i" for i
    by (auto simp: asleep_def wq_root_def)
  moreover have "sched_wf s"
    using wf sch by (rule schedule_wf)
  ultimately show ?thesis
    using inv schedule_present [OF wf sch] by (fastforce simp: wq_inv_def)
qed

lemma wq_reachable_inv: "wq_reachable w \<Longrightarrow> wq_inv w"
proof (induction rule: wq_reachable.induct)
  case (start s)
  then show ?case
    by (simp add: wq_inv_def asleep_def)
next
  case (step w w')
  from step.hyps(2) step.IH show ?case
    by cases (auto intro: wq_inv_sleep wq_inv_resume wq_inv_wake wq_inv_resched)
qed

subsection \<open>A run: one task sleeps, is woken, and runs on\<close>

definition demo_sched :: sched_state where
  "demo_sched =
    \<lparr>task = [0 \<mapsto> INIT_TASK 0, 1 \<mapsto> (INIT_TASK 0)\<lparr>t_pid := 1\<rparr>], current = 1, jiffies = 0, startup_time = 0,
     last_pid = 1, last_task_used_math = None, task_page = (\<lambda>_. 0)\<rparr>"

lemma demo_sched_wf: "sched_wf demo_sched"
  by (auto simp: demo_sched_def sched_wf_def sched_ok_def INIT_TASK_def split: if_splits)

lemma demo_sleeping:
  "\<exists>w. wq_reachable w \<and> sched_wf (wq_sched w) \<and> wq_saved w = (\<lambda>_. None)(1 := Some None)
     \<and> wq_head w = Some 1 \<and> (\<exists>p. task (wq_sched w) 1 = Some p \<and> t_state p = TASK_UNINTERRUPTIBLE)
     \<and> (\<forall>i. i \<noteq> 0 \<and> i \<noteq> 1 \<longrightarrow> task (wq_sched w) i = None)"
proof -
  let ?w = "\<lparr>wq_sched = demo_sched, wq_head = None, wq_saved = (\<lambda>_. None)\<rparr>"
  let ?s = "upd_cur (t_state_update (\<lambda>_. TASK_UNINTERRUPTIBLE)) demo_sched"
  have wf: "sched_wf ?s"
    using demo_sched_wf by (simp add: upd_cur_def)
  obtain s where s: "schedule ?s = Some s" "task s 1 = map_option (check_alarm 0) (task ?s 1)
      \<or> task s 1 = map_option (recount \<circ> check_alarm 0) (task ?s 1)" "\<And>i. i > 1 \<Longrightarrow> task s i = None"
    by (rule schedule_result [OF wf])
      (auto simp: for_tasks_eq option.map_comp upd_cur_def upd_task_def demo_sched_def NR_TASKS_def)
  have "wq_step ?w (?w\<lparr>wq_sched := s, wq_head := Some 1, wq_saved := (\<lambda>_. None)(1 := Some None)\<rparr>)"
    using wq_step.sleep [of ?w None "Some 1" ?s s] s(1) by (simp add: sleep_on_begin_def demo_sched_def ret_def)
  then have "wq_reachable (?w\<lparr>wq_sched := s, wq_head := Some 1, wq_saved := (\<lambda>_. None)(1 := Some None)\<rparr>)"
    using wq_reachable.intros demo_sched_wf by blast
  moreover have "\<exists>p. task s 1 = Some p \<and> t_state p = TASK_UNINTERRUPTIBLE"
    using s(2) by (auto simp: upd_cur_def upd_task_def demo_sched_def check_alarm_state recount_def task_state_defs)
  ultimately show ?thesis
    using schedule_wf [OF wf s(1)] s(3)
    by (intro exI [of _ "?w\<lparr>wq_sched := s, wq_head := Some 1, wq_saved := (\<lambda>_. None)(1 := Some None)\<rparr>"])
      (auto simp: not_less_eq less_Suc_eq intro: s(3))
qed

text \<open>C3. However sleeps, wake-ups and scheduling of any number of tasks interleave, no sleeper is lost:
  every task still asleep in \<open>sleep_on\<close> can be reached along the saved pointers from the head of the
  queue or from a task that was woken and will wake its successor when it runs on.\<close>

theorem sleeper_not_lost:
  assumes "wq_reachable w" "asleep w i"
  shows "\<exists>j. wq_root w j \<and> (links (wq_saved w))\<^sup>*\<^sup>* j i"
  using wq_reachable_inv [OF assms(1)] assms(2) by (auto simp: wq_inv_def)

theorem sleeper_not_lost_witness:
  "\<exists>w. asleep w 1 \<and> (\<exists>j. wq_root w j \<and> (links (wq_saved w))\<^sup>*\<^sup>* j 1)"
proof -
  obtain w where w: "wq_reachable w" "wq_saved w = (\<lambda>_. None)(1 := Some None)"
      "\<exists>p. task (wq_sched w) 1 = Some p \<and> t_state p = TASK_UNINTERRUPTIBLE"
    using demo_sleeping by blast
  then have "asleep w 1"
    by (auto simp: asleep_def runnable_def task_state_defs)
  with sleeper_not_lost [OF w(1) this] show ?thesis
    by blast
qed

subsection \<open>One wake-up empties the queue\<close>

text \<open>A step on which nobody goes to sleep on the queue, or none at all.\<close>

definition wq_drain :: "wait_system \<Rightarrow> wait_system \<Rightarrow> bool" where
  "wq_drain w w' \<longleftrightarrow> w' = w \<or> (wq_step w w' \<and> (\<forall>i. wq_saved w i = None \<longrightarrow> wq_saved w' i = None))"

text \<open>The tasks inside \<open>sleep_on\<close>.\<close>

definition sleepers :: "wait_system \<Rightarrow> nat set" where "sleepers w = {i. wq_saved w i \<noteq> None}"

lemma wq_drain_step:
  assumes "wq_drain w w'" "wq_reachable w" "wq_head w = None"
  shows "wq_reachable w' \<and> wq_head w' = None \<and> sleepers w' \<subseteq> sleepers w"
proof (cases "w' = w")
  case True
  then show ?thesis using assms by simp
next
  case False
  with assms(1) have st: "wq_step w w'" "sleepers w' \<subseteq> sleepers w"
    by (auto simp: wq_drain_def sleepers_def)
  from st(1) have "wq_head w' = None"
  proof cases
    case sleep
    then show ?thesis
      using assms(1) False by (simp add: wq_drain_def) (metis fun_upd_same option.distinct(1))
  qed (use assms(3) in \<open>auto simp: wake_up_def\<close>)
  then show ?thesis
    using wq_reachable.step [OF assms(2) st(1)] st(2) by simp
qed

lemma finite_sleepers: "wq_reachable w \<Longrightarrow> finite (sleepers w)"
proof (induction rule: wq_reachable.induct)
  case (step w w')
  have "sleepers w' \<subseteq> insert (current (wq_sched w)) (sleepers w)"
    using step.hyps(2) by cases (auto simp: sleepers_def)
  then show ?case
    using step.IH by (auto intro: finite_subset)
qed (simp add: sleepers_def)

text \<open>With nobody at the head of the queue, some task inside \<open>sleep_on\<close> has been woken, if there is any.\<close>

lemma drain_progress:
  assumes "wq_reachable w" "wq_head w = None" "sleepers w \<noteq> {}"
  obtains j where "j \<in> sleepers w" "runnable (task (wq_sched w)) j"
proof (cases "\<exists>i. asleep w i")
  case True
  then obtain j where "wq_root w j"
    using wq_reachable_inv [OF assms(1)] by (auto simp: wq_inv_def)
  then show thesis
    using assms(2) by (intro that) (auto simp: wq_root_def sleepers_def)
next
  case False
  then show thesis
    using assms(3) that by (fastforce simp: asleep_def sleepers_def)
qed

text \<open>C4. One \<open>wake_up\<close> of the queue is enough for all its tasks. Take any run that begins with it and on which nobody
  goes to sleep on the queue again, and suppose that a woken task gets the processor some time: then from some
  moment on the queue is empty and no task is left inside \<open>sleep_on\<close>, though \<open>wake_up\<close> has made only the head of
  the queue runnable.\<close>

theorem wake_up_empties_queue:
  assumes "wq_reachable w" "wake_up (wq_head w) (wq_sched w) = (q, s)"
    and run: "r 0 = w\<lparr>wq_sched := s, wq_head := q\<rparr>" "\<And>n. wq_drain (r n) (r (Suc n))"
    and fair: "\<And>n i. wq_saved (r n) i \<noteq> None \<Longrightarrow> runnable (task (wq_sched (r n))) i \<Longrightarrow> \<exists>m\<ge>n. wq_saved (r m) i = None"
  shows "\<exists>n. \<forall>m\<ge>n. wq_head (r m) = None \<and> wq_saved (r m) = (\<lambda>_. None)"
proof -
  have start: "wq_reachable (r 0)" "wq_head (r 0) = None"
    using wq_reachable.step [OF assms(1) wq_step.wake [OF assms(2)]] assms(2)
    by (auto simp: run(1) wake_up_def split: option.splits)
  have ok: "wq_reachable (r n) \<and> wq_head (r n) = None" for n
    by (induction n) (use start wq_drain_step [OF run(2)] in auto)
  have "sleepers (r (Suc n)) \<subseteq> sleepers (r n)" for n
    using wq_drain_step [OF run(2)] ok by blast
  then have dec: "n \<le> m \<Longrightarrow> sleepers (r m) \<subseteq> sleepers (r n)" for n m
    by (rule lift_Suc_antimono_le)
  obtain n where least: "\<And>m. card (sleepers (r n)) \<le> card (sleepers (r m))"
    using ex_has_least_nat [of "\<lambda>_. True" _ "\<lambda>n. card (sleepers (r n))"] by auto
  have "sleepers (r n) = {}"
  proof (rule ccontr)
    assume "sleepers (r n) \<noteq> {}"
    then obtain j where j: "j \<in> sleepers (r n)" "runnable (task (wq_sched (r n))) j"
      using drain_progress ok by blast
    then obtain m where "m \<ge> n" "j \<notin> sleepers (r m)"
      using fair by (auto simp: sleepers_def)
    then have "sleepers (r m) \<subset> sleepers (r n)"
      using dec j(1) by blast
    then show False
      using psubset_card_mono [OF finite_sleepers] ok least [of m] by (meson not_less)
  qed
  then have "sleepers (r m) = {}" if "m \<ge> n" for m
    using dec [OF that] by blast
  then show ?thesis
    using ok by (intro exI [of _ n]) (auto simp: sleepers_def fun_eq_iff)
qed

theorem wake_up_empties_queue_witness:
  "\<exists>w r. wq_reachable w \<and> wq_saved w 1 \<noteq> None \<and> r 0 = w\<lparr>wq_sched := snd (wake_up (wq_head w) (wq_sched w)), wq_head := None\<rparr>
    \<and> wq_saved (r 0) 1 \<noteq> None \<and> (\<exists>n::nat. \<forall>m\<ge>n. wq_saved (r m) = (\<lambda>_. None))"
proof -
  obtain w where w: "wq_reachable w" "sched_wf (wq_sched w)" "wq_saved w = (\<lambda>_. None)(1 := Some None)"
      "wq_head w = Some 1" "\<exists>p. task (wq_sched w) 1 = Some p"
      "\<And>i. i \<noteq> 0 \<and> i \<noteq> 1 \<Longrightarrow> task (wq_sched w) i = None"
    using demo_sleeping by blast
  let ?s1 = "upd_task 1 (t_state_update (\<lambda>_. 0)) (wq_sched w)"
  let ?w1 = "w\<lparr>wq_sched := ?s1, wq_head := None\<rparr>"
  have wake: "wake_up (wq_head w) (wq_sched w) = (None, ?s1)"
    by (simp add: wake_up_def w)
  have wf1: "sched_wf ?s1"
    using w(2) by simp
  have run1: "runnable (task ?s1) 1"
    using w(5) by auto
  obtain s2 where s2: "schedule ?s1 = Some s2" "chosen (task s2) (current s2)"
    by (rule schedule_result [OF wf1]) auto
  have run2: "runnable (task s2) 1"
    using schedule_runnable [OF wf1 s2(1) run1] .
  have "task s2 i = None" if "i \<noteq> 0" "i \<noteq> 1" for i
    by (rule schedule_result [OF wf1]) (use s2(1) w(6) that in \<open>auto simp: for_tasks_eq upd_task_def\<close>)
  moreover have "runnable (task s2) (current s2)" "current s2 \<noteq> 0"
    using s2(2) run2 by (auto simp: chosen_def NR_TASKS_def)
  ultimately have cur2: "current s2 = 1"
    by (metis option.distinct(1) runnable_def)
  let ?w2 = "?w1\<lparr>wq_sched := s2\<rparr>"
  let ?w3 = "?w2\<lparr>wq_saved := (wq_saved w)(1 := None)\<rparr>"
  define r where "r = (\<lambda>n::nat. if n = 0 then ?w1 else if n = 1 then ?w2 else ?w3)"
  have "wq_step ?w1 ?w2"
    by (rule wq_step.resched) (use s2(1) in simp)
  moreover have "wq_step ?w2 ?w3"
    using wq_step.resume [of ?w2 1 None] cur2 run2 w(3) by (simp add: sleep_on_end_def)
  ultimately have drain: "wq_drain (r n) (r (Suc n))" for n
    by (auto simp: wq_drain_def r_def)
  have fin: "wq_saved (r (n + 2)) i = None" for n i
    by (simp add: w(3) r_def)
  have start: "r 0 = ?w1"
    by (simp add: r_def)
  have "\<exists>n. \<forall>m\<ge>n. wq_head (r m) = None \<and> wq_saved (r m) = (\<lambda>_. None)"
    using fin le_add1 by (intro wake_up_empties_queue [OF w(1) wake start drain]) blast
  then have "\<exists>n. \<forall>m\<ge>n. wq_saved (r m) = (\<lambda>_. None)"
    by blast
  moreover have "wq_saved w 1 \<noteq> None" "wq_saved (r 0) 1 \<noteq> None"
    "r 0 = w\<lparr>wq_sched := snd (wake_up (wq_head w) (wq_sched w)), wq_head := None\<rparr>"
    using w(3) by (simp_all add: wake start)
  ultimately show ?thesis
    using w(1) by (intro exI [of _ w] exI [of _ r] conjI)
qed

end
