(* ===== verification/Timer.thy ===== *)
theory Timer
  imports Sched "HOL-Library.Sublist"
begin

text \<open>
  The kernel timers of \<open>kernel/sched.c\<close> (\<open>timer_list\<close>, \<open>add_timer\<close>, the timer part of \<open>do_timer\<close>), the
  floppy motor timers, and the clock interrupt \<open>do_timer\<close> that drives them and the scheduler. The
  timers form a linked list through a static table; each entry counts ticks from the one before it.
  The abstraction is that list of (ticks, function) pairs.
\<close>

unbundle bit_operations_syntax

section \<open>Timer table\<close>

definition TIME_REQUESTS :: nat where "TIME_REQUESTS = 64"

record timer =
  tl_jiffies :: int
  tl_fn :: "nat option"
  tl_next :: "nat option"

record timer_state =
  timer_list :: "nat \<Rightarrow> timer"
  next_timer :: "nat option"

definition upd_timer :: "nat \<Rightarrow> (timer \<Rightarrow> timer) \<Rightarrow> timer_state \<Rightarrow> timer_state" where
  "upd_timer p f s = s\<lparr>timer_list := (timer_list s)(p := f (timer_list s p))\<rparr>"

lemma timer_list_upd [simp]:
  "timer_list (upd_timer p f s) x = (if x = p then f (timer_list s p) else timer_list s x)"
  "next_timer (upd_timer p f s) = next_timer s"
  by (simp_all add: upd_timer_def)

text \<open>The scan for an entry without a function, from the start of the table.\<close>

definition free_timer :: "timer_state \<Rightarrow> nat option" where
  "free_timer s = find (\<lambda>p. tl_fn (timer_list s p) = None) [0..<TIME_REQUESTS]"

text \<open>The loop that moves the new entry back: the contents of \<open>p\<close> and \<open>p->next\<close> are exchanged. The
  fuel counts the entries passed; the chain has at most \<open>TIME_REQUESTS\<close> of them.\<close>

fun sift_timer :: "nat \<Rightarrow> nat \<Rightarrow> timer_state \<Rightarrow> timer_state option" where
  "sift_timer 0 p s = None"
| "sift_timer (Suc k) p s =
    (case tl_next (timer_list s p) of
       None \<Rightarrow> Some s
     | Some q \<Rightarrow>
        let tp = timer_list s p; tq = timer_list s q
        in if tl_jiffies tq < tl_jiffies tp then
             sift_timer k q
               (upd_timer q (\<lambda>t. t\<lparr>tl_jiffies := tl_jiffies tp - tl_jiffies tq, tl_fn := tl_fn tp\<rparr>)
                 (upd_timer p (\<lambda>t. t\<lparr>tl_jiffies := tl_jiffies tq, tl_fn := tl_fn tq\<rparr>) s))
           else Some s)"

text \<open>\<open>add_timer\<close>: the functions it calls at once, and the new table; \<open>None\<close> is the panic.\<close>

definition add_timer :: "int \<Rightarrow> nat option \<Rightarrow> timer_state \<Rightarrow> (nat list \<times> timer_state) option" where
  "add_timer ticks fn s =
    (case fn of
       None \<Rightarrow> Some ([], s)
     | Some f \<Rightarrow>
        if ticks \<le> 0 then Some ([f], s)
        else
          case free_timer s of
            None \<Rightarrow> None
          | Some p \<Rightarrow>
              map_option (Pair [])
                (sift_timer (Suc TIME_REQUESTS) p
                  ((upd_timer p (\<lambda>t. t\<lparr>tl_fn := Some f, tl_jiffies := ticks, tl_next := next_timer s\<rparr>) s)
                     \<lparr>next_timer := Some p\<rparr>)))"

section \<open>Abstraction: the list of deltas\<close>

fun chain :: "timer_state \<Rightarrow> nat option \<Rightarrow> nat list \<Rightarrow> bool" where
  "chain s p [] = (p = None)"
| "chain s p (x # xs) = (p = Some x \<and> chain s (tl_next (timer_list s x)) xs)"

definition deltas :: "timer_state \<Rightarrow> nat list \<Rightarrow> (int \<times> nat option) list" where
  "deltas s xs = map (\<lambda>p. (tl_jiffies (timer_list s p), tl_fn (timer_list s p))) xs"

text \<open>The table is well-formed for the chain \<open>xs\<close>: used entries are exactly those of the chain.\<close>

definition timers_ok :: "timer_state \<Rightarrow> nat list \<Rightarrow> bool" where
  "timers_ok s xs \<longleftrightarrow> chain s (next_timer s) xs \<and> distinct xs \<and> set xs \<subseteq> {..<TIME_REQUESTS}
    \<and> (\<forall>p. tl_fn (timer_list s p) \<noteq> None \<longleftrightarrow> p \<in> set xs)"

fun insert_delta :: "int \<times> nat option \<Rightarrow> (int \<times> nat option) list \<Rightarrow> (int \<times> nat option) list" where
  "insert_delta x [] = [x]"
| "insert_delta (d, f) ((e, g) # r) =
    (if e < d then (e, g) # insert_delta (d - e, f) r else (d, f) # (e, g) # r)"

text \<open>When each entry is due: the sum of the ticks up to and including it.\<close>

fun due :: "int \<Rightarrow> (int \<times> nat option) list \<Rightarrow> (int \<times> nat option) list" where
  "due t [] = []"
| "due t ((d, f) # r) = (t + d, f) # due (t + d) r"

lemma deltas_Cons: "deltas s (x # xs) = (tl_jiffies (timer_list s x), tl_fn (timer_list s x)) # deltas s xs"
  by (simp add: deltas_def)

lemma deltas_cong: "(\<And>x. x \<in> set xs \<Longrightarrow> timer_list s' x = timer_list s x) \<Longrightarrow> deltas s' xs = deltas s xs"
  by (simp add: deltas_def)

lemma chain_cong:
  "(\<And>x. x \<in> set xs \<Longrightarrow> tl_next (timer_list s' x) = tl_next (timer_list s x)) \<Longrightarrow> chain s' p xs = chain s p xs"
  by (induction xs arbitrary: p) auto

lemma sift_timer_deltas:
  assumes "chain s (Some p) (p # xs)" "distinct (p # xs)" "length xs < k"
  shows "\<exists>s'. sift_timer k p s = Some s' \<and> next_timer s' = next_timer s
    \<and> (\<forall>x. tl_next (timer_list s' x) = tl_next (timer_list s x))
    \<and> (\<forall>x. x \<notin> set (p # xs) \<longrightarrow> timer_list s' x = timer_list s x)
    \<and> deltas s' (p # xs) = insert_delta (tl_jiffies (timer_list s p), tl_fn (timer_list s p)) (deltas s xs)"
  using assms
proof (induction xs arbitrary: k p s)
  case Nil
  then show ?case
    by (cases k) (auto simp: deltas_def)
next
  case (Cons q ys)
  then obtain k' where k: "k = Suc k'"
    by (cases k) auto
  let ?tp = "timer_list s p" and ?tq = "timer_list s q"
  have nx: "tl_next ?tp = Some q"
    using Cons.prems(1) by simp
  show ?case
  proof (cases "tl_jiffies ?tq < tl_jiffies ?tp")
    case False
    then show ?thesis
      using nx by (simp add: k deltas_def)
  next
    case True
    have pq: "p \<noteq> q" "p \<notin> set ys" "q \<notin> set ys"
      using Cons.prems(2) by auto
    define t where "t = upd_timer q (\<lambda>t. t\<lparr>tl_jiffies := tl_jiffies ?tp - tl_jiffies ?tq, tl_fn := tl_fn ?tp\<rparr>)
                 (upd_timer p (\<lambda>t. t\<lparr>tl_jiffies := tl_jiffies ?tq, tl_fn := tl_fn ?tq\<rparr>) s)"
    have tq: "timer_list t q = ?tq\<lparr>tl_jiffies := tl_jiffies ?tp - tl_jiffies ?tq, tl_fn := tl_fn ?tp\<rparr>"
      and tp: "timer_list t p = ?tp\<lparr>tl_jiffies := tl_jiffies ?tq, tl_fn := tl_fn ?tq\<rparr>"
      and other: "\<And>x. x \<noteq> p \<Longrightarrow> x \<noteq> q \<Longrightarrow> timer_list t x = timer_list s x"
      and head: "next_timer t = next_timer s"
      using pq by (simp_all add: t_def)
    have next_t: "tl_next (timer_list t x) = tl_next (timer_list s x)" for x
      using tq tp other by (cases "x = p"; cases "x = q") simp_all
    have "chain t (Some q) (q # ys)"
      using Cons.prems(1) chain_cong [OF next_t] next_t by simp
    moreover have "distinct (q # ys)" "length ys < k'"
      using Cons.prems by (auto simp: k)
    ultimately obtain s' where s': "sift_timer k' q t = Some s'" "next_timer s' = next_timer t"
      "\<forall>x. tl_next (timer_list s' x) = tl_next (timer_list t x)"
      "\<forall>x. x \<notin> set (q # ys) \<longrightarrow> timer_list s' x = timer_list t x"
      "deltas s' (q # ys) = insert_delta (tl_jiffies (timer_list t q), tl_fn (timer_list t q)) (deltas t ys)"
      using Cons.IH by blast
    have ys: "deltas t ys = deltas s ys"
      by (rule deltas_cong) (metis pq(2,3) other)
    have "timer_list s' p = timer_list t p"
      using s'(4) pq by simp
    then have "deltas s' (p # q # ys) = insert_delta (tl_jiffies ?tp, tl_fn ?tp) (deltas s (q # ys))"
      using s'(5) True unfolding ys deltas_Cons tp tq by simp
    moreover have "sift_timer k p s = Some s'"
      using s'(1) True nx by (simp add: k Let_def t_def)
    moreover have "timer_list s' x = timer_list s x" if "x \<notin> set (p # q # ys)" for x
      using s'(4) that other by auto
    ultimately show ?thesis
      using s'(2,3) head next_t by auto
  qed
qed

lemma insert_delta_set:
  "(d, g) \<in> set (insert_delta x l) \<Longrightarrow> g = snd x \<or> (\<exists>e. (e, g) \<in> set l)"
  by (induction x l rule: insert_delta.induct) (auto split: if_splits)

lemma find_upt_Some: "find P [0..<n] = Some p \<Longrightarrow> P p \<and> p < n"
  by (auto simp: find_Some_iff)

text \<open>Some entry is free unless the chain fills the table.\<close>

lemma free_timer_exists:
  assumes "timers_ok s xs" "length xs < TIME_REQUESTS"
  shows "\<exists>p. free_timer s = Some p"
proof (rule ccontr)
  assume "\<not> ?thesis"
  then have "free_timer s = None"
    by auto
  then have "{..<TIME_REQUESTS} \<subseteq> set xs"
    using assms(1) by (auto simp: free_timer_def find_None_iff timers_ok_def)
  then have "TIME_REQUESTS \<le> length xs"
    using card_mono [of "set xs" "{..<TIME_REQUESTS}"] card_length [of xs] by auto
  with assms(2) show False
    by simp
qed

lemma add_timer_refines:
  assumes ok: "timers_ok s xs" and room: "length xs < TIME_REQUESTS" and j: "0 < j"
  shows "\<exists>s' xs'. add_timer j (Some f) s = Some ([], s') \<and> timers_ok s' xs'
    \<and> deltas s' xs' = insert_delta (j, Some f) (deltas s xs)"
proof -
  obtain p where p: "free_timer s = Some p"
    using free_timer_exists [OF ok room] by blast
  then have pfree: "tl_fn (timer_list s p) = None" "p < TIME_REQUESTS"
    using find_upt_Some [of "\<lambda>p. tl_fn (timer_list s p) = None"] by (auto simp: free_timer_def)
  then have pxs: "p \<notin> set xs"
    using ok by (metis timers_ok_def)
  define t where "t = (upd_timer p (\<lambda>t. t\<lparr>tl_fn := Some f, tl_jiffies := j, tl_next := next_timer s\<rparr>) s)
              \<lparr>next_timer := Some p\<rparr>"
  have tp: "timer_list t p = (timer_list s p)\<lparr>tl_fn := Some f, tl_jiffies := j, tl_next := next_timer s\<rparr>"
    and same: "\<And>x. x \<noteq> p \<Longrightarrow> timer_list t x = timer_list s x" and head: "next_timer t = Some p"
    by (simp_all add: t_def upd_timer_def)
  have same_xs: "x \<in> set xs \<Longrightarrow> timer_list t x = timer_list s x" for x
    using same pxs by metis
  have "chain t (next_timer s) xs"
    using ok chain_cong [of xs t s] same_xs by (simp add: timers_ok_def)
  then have ch: "chain t (Some p) (p # xs)"
    by (simp add: tp)
  moreover have "distinct (p # xs)" "length xs < Suc TIME_REQUESTS"
    using ok pxs room by (auto simp: timers_ok_def)
  ultimately obtain s' where s': "sift_timer (Suc TIME_REQUESTS) p t = Some s'" "next_timer s' = next_timer t"
    "\<forall>x. tl_next (timer_list s' x) = tl_next (timer_list t x)"
    "\<forall>x. x \<notin> set (p # xs) \<longrightarrow> timer_list s' x = timer_list t x"
    "deltas s' (p # xs) = insert_delta (tl_jiffies (timer_list t p), tl_fn (timer_list t p)) (deltas t xs)"
    using sift_timer_deltas by blast
  have ds: "deltas t xs = deltas s xs"
    using same_xs by (rule deltas_cong)
  have dl: "deltas s' (p # xs) = insert_delta (j, Some f) (deltas s xs)"
    using s'(5) unfolding ds tp by simp
  have "chain s' (Some p) (p # xs)"
    using ch chain_cong [of "p # xs" s' t "Some p"] s'(3) by blast
  moreover have "tl_fn (timer_list s' x) \<noteq> None \<longleftrightarrow> x \<in> set (p # xs)" for x
  proof (cases "x \<in> set (p # xs)")
    case True
    then have "(tl_jiffies (timer_list s' x), tl_fn (timer_list s' x)) \<in> set (insert_delta (j, Some f) (deltas s xs))"
      by (subst dl [symmetric]) (auto simp: deltas_def)
    then have "tl_fn (timer_list s' x) \<noteq> None"
      using ok by (auto dest!: insert_delta_set simp: deltas_def timers_ok_def)
    with True show ?thesis by simp
  next
    case False
    then have "timer_list s' x = timer_list s x"
      using s'(4) same by simp
    then show ?thesis
      using ok False by (simp add: timers_ok_def)
  qed
  ultimately have "timers_ok s' (p # xs)"
    using ok pfree pxs s'(2) head by (simp add: timers_ok_def)
  then show ?thesis
    using s'(1) dl p j by (intro exI conjI) (simp_all add: add_timer_def t_def)
qed

section \<open>When timers are due\<close>

lemma due_shift: "due (t + k) l = map (map_prod ((+) k) id) (due t l)"
  by (induction t l rule: due.induct) (simp_all add: algebra_simps)

text \<open>The position an entry takes, and the effect on the others: those due before it keep their time, those
  behind are put off by what is left of the new delta, \<open>time_left\<close>.\<close>

definition time_left :: "int \<Rightarrow> (int \<times> nat option) list \<Rightarrow> int \<Rightarrow> int" where
  "time_left t before j = j - (if before = [] then t else fst (last before))"

lemma due_insert_delta:
  assumes "0 < d" "before = takeWhile (\<lambda>x. fst x < t + d) (due t l)" "r = time_left t before (t + d)"
  shows "due t (insert_delta (d, f) l) = before @ (t + d, f) # map (map_prod ((+) r) id) (dropWhile (\<lambda>x. fst x < t + d) (due t l))
    \<and> 0 < r"
  using assms
proof (induction l arbitrary: d t before r)
  case Nil
  then show ?case by (simp add: time_left_def)
next
  case (Cons x l)
  obtain e g where x: "x = (e, g)"
    by (cases x)
  show ?case
  proof (cases "e < d")
    case True
    define rest where "rest = takeWhile (\<lambda>x. fst x < t + d) (due (t + e) l)"
    have before: "before = (t + e, g) # rest" and left: "r = time_left (t + e) rest (t + e + (d - e))"
      using True Cons.prems(2,3) by (simp_all add: x rest_def time_left_def)
    have rest: "rest = takeWhile (\<lambda>x. fst x < t + e + (d - e)) (due (t + e) l)"
      by (simp add: rest_def)
    have "0 < d - e"
      using True by simp
    from Cons.IH [OF this rest left] show ?thesis
      using True by (simp add: x before)
  next
    case False
    then have "before = []" "r = d"
      using Cons.prems(2,3) by (simp_all add: x time_left_def)
    moreover have "insert_delta (d, f) (x # l) = (d, f) # x # l" "dropWhile (\<lambda>x. fst x < t + d) (due t (x # l)) = due t (x # l)"
      using False by (simp_all add: x)
    ultimately show ?thesis
      using Cons.prems(1) due_shift [of t d "x # l"] by (simp add: id_def)
  qed
qed

text \<open>C14. A timer added with \<open>j\<close> ticks to a well-formed table with room in it is due after exactly \<open>j\<close>
  ticks. It goes behind all timers that are due before it, in front of the first that is not; those in front keep
  their times, but each timer behind it is put off by the ticks that the new entry counts for itself since the
  timer in front of it, because its delta is not reduced.\<close>

theorem add_timer_due:
  assumes "timers_ok s xs" "length xs < TIME_REQUESTS" "0 < j"
  shows "\<exists>s' xs'. add_timer j (Some f) s = Some ([], s') \<and> timers_ok s' xs'
    \<and> (let times = due 0 (deltas s xs); before = takeWhile (\<lambda>(t, g). t < j) times; behind = dropWhile (\<lambda>(t, g). t < j) times;
           r = j - (if before = [] then 0 else fst (last before))
       in 0 < r \<and> due 0 (deltas s' xs') = before @ (j, Some f) # map (\<lambda>(t, g). (r + t, g)) behind)"
proof -
  obtain s' xs' where s': "add_timer j (Some f) s = Some ([], s')" "timers_ok s' xs'"
    "deltas s' xs' = insert_delta (j, Some f) (deltas s xs)"
    using add_timer_refines [OF assms] by blast
  have eqs: "(\<lambda>(t, g). t < j) = (\<lambda>x :: int \<times> nat option. fst x < j)"
    "(\<lambda>(t, g). (r + t, g)) = (map_prod ((+) r) id :: int \<times> nat option \<Rightarrow> _)" for r
    by auto
  show ?thesis
    using due_insert_delta [where t = 0 and l = "deltas s xs" and f = "Some f", OF assms(3) refl refl] s'
    unfolding eqs Let_def by (intro exI [of _ s'] exI [of _ xs']) (simp add: time_left_def)
qed

definition demo_timers :: timer_state where
  "demo_timers = \<lparr>timer_list = (\<lambda>_. \<lparr>tl_jiffies = 0, tl_fn = None, tl_next = None\<rparr>)
     (0 := \<lparr>tl_jiffies = 5, tl_fn = Some 7, tl_next = None\<rparr>), next_timer = Some 0\<rparr>"

theorem add_timer_due_witness:
  "\<exists>s' xs'. add_timer 3 (Some 8) demo_timers = Some ([], s') \<and> timers_ok s' xs'
    \<and> due 0 (deltas demo_timers [0]) = [(5, Some 7)] \<and> due 0 (deltas s' xs') = [(3, Some 8), (8, Some 7)]"
proof -
  have ok: "timers_ok demo_timers [0]" "length [0::nat] < TIME_REQUESTS"
    by (auto simp: timers_ok_def demo_timers_def TIME_REQUESTS_def)
  have "due 0 (deltas demo_timers [0]) = [(5, Some 7)]"
    by (simp add: deltas_def demo_timers_def)
  then show ?thesis
    using add_timer_due [OF ok, of 3 8] by (simp add: Let_def)
qed

section \<open>The floppy motor\<close>

record floppy_state =
  mon_timer :: "nat \<Rightarrow> int"
  moff_timer :: "nat \<Rightarrow> int"
  wait_motor :: "nat \<Rightarrow> nat option"
  current_DOR :: u8
  fd_selected :: u8
  fd_dor_port :: u8

definition ticks_to_floppy_on :: "nat \<Rightarrow> floppy_state \<Rightarrow> (int, floppy_state) kres" where
  "ticks_to_floppy_on nr s =
    (if nr > 3 then panic ''floppy_on: nr>3''
     else
       let s = s\<lparr>moff_timer := (moff_timer s)(nr := 10000)\<rparr>;
           mask = push_bit nr 0x10 OR current_DOR s;
           mask = (if fd_selected s = 0 then (mask AND 0xFC) OR of_nat nr else mask);
           s = (if mask \<noteq> current_DOR s then
                  let s = s\<lparr>fd_dor_port := mask\<rparr>;
                      s = (if (mask XOR current_DOR s) AND 0xf0 \<noteq> 0
                           then s\<lparr>mon_timer := (mon_timer s)(nr := HZ div 2)\<rparr>
                           else if mon_timer s nr < 2 then s\<lparr>mon_timer := (mon_timer s)(nr := 2)\<rparr> else s)
                  in s\<lparr>current_DOR := mask\<rparr>
                else s)
       in ret (mon_timer s nr) s)"

definition floppy_off :: "nat \<Rightarrow> floppy_state \<Rightarrow> floppy_state" where
  "floppy_off nr s = s\<lparr>moff_timer := (moff_timer s)(nr := 3 * HZ)\<rparr>"

text \<open>One drive of the loop of \<open>do_floppy_timer\<close>; a motor that has come up wakes its waiters.\<close>

definition floppy_timer_step :: "nat \<Rightarrow> floppy_state \<times> sched_state \<Rightarrow> floppy_state \<times> sched_state" where
  "floppy_timer_step i = (\<lambda>(f, s).
    let mask = push_bit i (0x10 :: u8) in
    if mask AND current_DOR f = 0 then (f, s)
    else if mon_timer f i \<noteq> 0 then
      let f = f\<lparr>mon_timer := (mon_timer f)(i := mon_timer f i - 1)\<rparr>
      in if mon_timer f i = 0
         then let (q, s) = wake_up (wait_motor f i) s in (f\<lparr>wait_motor := (wait_motor f)(i := q)\<rparr>, s)
         else (f, s)
    else if moff_timer f i = 0 then
      (f\<lparr>current_DOR := current_DOR f AND NOT mask, fd_dor_port := current_DOR f AND NOT mask\<rparr>, s)
    else (f\<lparr>moff_timer := (moff_timer f)(i := moff_timer f i - 1)\<rparr>, s))"

definition do_floppy_timer :: "floppy_state \<times> sched_state \<Rightarrow> floppy_state \<times> sched_state" where
  "do_floppy_timer = fold floppy_timer_step [0..<4]"

section \<open>The clock interrupt\<close>

record clock_state =
  ck_sched :: sched_state
  ck_timers :: timer_state
  ck_floppy :: floppy_state
  ck_beepcount :: int
  ck_port61 :: u8

text \<open>\<open>sysbeepstop\<close> of the console driver: disable counter 2 of the timer chip.\<close>

definition sysbeepstop :: "clock_state \<Rightarrow> clock_state" where
  "sysbeepstop c = c\<lparr>ck_port61 := ck_port61 c AND 0xFC\<rparr>"

text \<open>
  The loop over expired timers. A timer function is kernel code of another component (the floppy
  driver): what it does is the parameter \<open>call\<close>, \<open>None\<close> when it does not return. It may add timers. The result
  \<open>None\<close> means that the loop does not end, or that the entry has no function to jump to.
\<close>

partial_function (option) expire_timers ::
    "(nat \<Rightarrow> clock_state \<Rightarrow> clock_state option) \<Rightarrow> clock_state \<Rightarrow> clock_state option" where
  "expire_timers call c =
    (case next_timer (ck_timers c) of
       None \<Rightarrow> Some c
     | Some p \<Rightarrow>
        if tl_jiffies (timer_list (ck_timers c) p) \<le> 0 then
          let fn = tl_fn (timer_list (ck_timers c) p);
              t = upd_timer p (\<lambda>t. t\<lparr>tl_fn := None\<rparr>) (ck_timers c);
              t = t\<lparr>next_timer := tl_next (timer_list t p)\<rparr>;
              c = c\<lparr>ck_timers := t\<rparr>
          in case fn of None \<Rightarrow> None | Some f \<Rightarrow> Option.bind (call f c) (expire_timers call)
        else Some c)"

definition do_timer ::
    "(nat \<Rightarrow> clock_state \<Rightarrow> clock_state option) \<Rightarrow> int \<Rightarrow> clock_state \<Rightarrow> clock_state option" where
  "do_timer call cpl c =
    (let c = (if ck_beepcount c \<noteq> 0 then
                let c = c\<lparr>ck_beepcount := ck_beepcount c - 1\<rparr>
                in if ck_beepcount c = 0 then sysbeepstop c else c
              else c);
         c = (if cpl \<noteq> 0
              then c\<lparr>ck_sched := upd_cur (\<lambda>p. p\<lparr>t_utime := s32 (t_utime p + 1)\<rparr>) (ck_sched c)\<rparr>
              else c\<lparr>ck_sched := upd_cur (\<lambda>p. p\<lparr>t_stime := s32 (t_stime p + 1)\<rparr>) (ck_sched c)\<rparr>)
     in case
          (case next_timer (ck_timers c) of
             None \<Rightarrow> Some c
           | Some p \<Rightarrow>
               expire_timers call
                 (c\<lparr>ck_timers := upd_timer p (\<lambda>t. t\<lparr>tl_jiffies := tl_jiffies t - 1\<rparr>) (ck_timers c)\<rparr>))
        of None \<Rightarrow> None
         | Some c \<Rightarrow>
            let c = (if current_DOR (ck_floppy c) AND 0xf0 \<noteq> 0 then
                       let (f, s) = do_floppy_timer (ck_floppy c, ck_sched c)
                       in c\<lparr>ck_floppy := f, ck_sched := s\<rparr>
                     else c);
                c = c\<lparr>ck_sched := upd_cur (\<lambda>p. p\<lparr>t_counter := s32 (t_counter p - 1)\<rparr>) (ck_sched c)\<rparr>
            in if t_counter (cur (ck_sched c)) > 0 then Some c
               else
                 let c = c\<lparr>ck_sched := upd_cur (\<lambda>p. p\<lparr>t_counter := 0\<rparr>) (ck_sched c)\<rparr>
                 in if cpl = 0 then Some c
                    else map_option (\<lambda>s. c\<lparr>ck_sched := s\<rparr>) (schedule (ck_sched c)))"

section \<open>Expiry\<close>

text \<open>Taking the head off the chain, as the loop does before it calls the function.\<close>

definition unlink_first :: "nat \<Rightarrow> timer_state \<Rightarrow> timer_state" where
  "unlink_first p s =
    (let t = upd_timer p (\<lambda>t. t\<lparr>tl_fn := None\<rparr>) s in t\<lparr>next_timer := tl_next (timer_list t p)\<rparr>)"

lemma unlink_first_ok:
  assumes "timers_ok s (p # xs)"
  shows "timers_ok (unlink_first p s) xs" "deltas (unlink_first p s) xs = deltas s xs"
proof -
  have p: "p \<notin> set xs" and ch: "chain s (tl_next (timer_list s p)) xs"
    using assms by (auto simp: timers_ok_def)
  have same: "x \<noteq> p \<Longrightarrow> timer_list (unlink_first p s) x = timer_list s x"
    "tl_next (timer_list (unlink_first p s) x) = tl_next (timer_list s x)" for x
    by (simp_all add: unlink_first_def Let_def upd_timer_def)
  have "chain (unlink_first p s) (next_timer (unlink_first p s)) xs"
    using ch chain_cong [of xs "unlink_first p s" s] same(2)
    by (simp add: unlink_first_def Let_def upd_timer_def)
  moreover have "tl_fn (timer_list (unlink_first p s) x) \<noteq> None \<longleftrightarrow> x \<in> set xs" for x
    using assms p same(1) [of x]
    by (cases "x = p") (auto simp: timers_ok_def unlink_first_def Let_def upd_timer_def)
  ultimately show "timers_ok (unlink_first p s) xs"
    using assms by (simp add: timers_ok_def)
  show "deltas (unlink_first p s) xs = deltas s xs"
    by (rule deltas_cong) (metis p same(1))
qed

lemma timers_ok_next: "timers_ok s xs \<Longrightarrow> next_timer s = (case xs of [] \<Rightarrow> None | p # _ \<Rightarrow> Some p)"
  by (cases xs) (auto simp: timers_ok_def)

subsection \<open>The timer functions\<close>

text \<open>What a timer function does to the timers: nothing, or it adds one that is not due at once.\<close>

definition timer_use :: "timer_state \<Rightarrow> timer_state \<Rightarrow> bool" where
  "timer_use s s' \<longleftrightarrow> s' = s \<or> (\<exists>j f. 0 < j \<and> add_timer j (Some f) s = Some ([], s'))"

abbreviation expired :: "int \<times> nat option \<Rightarrow> bool" where
  "expired x \<equiv> fst x \<le> 0"

lemma timers_ok_length: "timers_ok s xs \<Longrightarrow> length xs \<le> TIME_REQUESTS"
  using card_mono [of "{..<TIME_REQUESTS}" "set xs"] by (simp add: timers_ok_def distinct_card)

lemma timer_use_deltas:
  assumes "timers_ok s xs" "length xs < TIME_REQUESTS" "timer_use s s'"
  obtains xs' where "timers_ok s' xs'" "length xs' \<le> Suc (length xs)"
    "deltas s' xs' = deltas s xs \<or> (\<exists>j f. 0 < j \<and> deltas s' xs' = insert_delta (j, f) (deltas s xs))"
proof (cases "s' = s")
  case True
  then show thesis using assms(1) that by simp
next
  case False
  then obtain j f where j: "0 < j" "add_timer j (Some f) s = Some ([], s')"
    using assms(3) by (auto simp: timer_use_def)
  then obtain xs' where xs': "timers_ok s' xs'" "deltas s' xs' = insert_delta (j, Some f) (deltas s xs)"
    using add_timer_refines [OF assms(1,2) j(1), of f] by auto
  have "length (insert_delta x l) = Suc (length l)" for x l
    by (induction x l rule: insert_delta.induct) auto
  then have "length (deltas s' xs') = Suc (length (deltas s xs))"
    unfolding xs'(2) by blast
  then show thesis
    using j(1) xs' by (intro that [of xs']) (auto simp: deltas_def)
qed

text \<open>A new timer goes behind those that have expired.\<close>

lemma insert_delta_expired:
  assumes "0 < j"
  shows "takeWhile expired (insert_delta (j, f) l) = takeWhile expired l
    \<and> (\<exists>i>0. dropWhile expired (insert_delta (j, f) l) = insert_delta (i, f) (dropWhile expired l))"
  using assms
proof (induction l arbitrary: j)
  case (Cons x l)
  obtain e g where x: "x = (e, g)"
    by (cases x)
  show ?case
  proof (cases "e \<le> 0")
    case True
    then show ?thesis
      using Cons.IH [of "j - e"] Cons.prems by (simp add: x)
  next
    case False
    then show ?thesis
      using Cons.prems by (auto simp: x intro!: exI [of _ j])
  qed
qed auto

lemma insert_delta_subseq: "subseq (map snd l) (map snd (insert_delta x l))"
  by (induction x l rule: insert_delta.induct) auto

lemma timer_use_expired:
  assumes "timers_ok s xs" "length xs < TIME_REQUESTS" "timer_use s s'"
  obtains xs' where "timers_ok s' xs'" "takeWhile expired (deltas s' xs') = takeWhile expired (deltas s xs)"
    "subseq (map snd (dropWhile expired (deltas s xs))) (map snd (dropWhile expired (deltas s' xs')))"
proof -
  obtain xs' where xs': "timers_ok s' xs'"
    "deltas s' xs' = deltas s xs \<or> (\<exists>j f. 0 < j \<and> deltas s' xs' = insert_delta (j, f) (deltas s xs))"
    by (rule timer_use_deltas [OF assms])
  from xs'(2) show thesis
  proof (elim disjE exE conjE)
    assume "deltas s' xs' = deltas s xs"
    then show thesis
      by (intro that [OF xs'(1)]) simp_all
  next
    fix j f
    assume j: "0 < j" and new: "deltas s' xs' = insert_delta (j, f) (deltas s xs)"
    obtain i where "dropWhile expired (deltas s' xs') = insert_delta (i, f) (dropWhile expired (deltas s xs))"
      using insert_delta_expired [OF j] unfolding new by blast
    then show thesis
      using insert_delta_expired [OF j] insert_delta_subseq by (intro that [OF xs'(1)]) (simp_all add: new)
  qed
qed

text \<open>The functions \<open>fs\<close> of the first entries, called one after the other, each when its entry is off the list.\<close>

primrec call_expired ::
    "(nat \<Rightarrow> clock_state \<Rightarrow> clock_state option) \<Rightarrow> nat list \<Rightarrow> clock_state \<Rightarrow> clock_state option" where
  "call_expired call [] c = Some c"
| "call_expired call (f # fs) c =
    (case next_timer (ck_timers c) of
       None \<Rightarrow> None
     | Some p \<Rightarrow> Option.bind (call f (c\<lparr>ck_timers := unlink_first p (ck_timers c)\<rparr>)) (call_expired call fs))"

lemma expire_timers_step:
  assumes "timers_ok (ck_timers c) (p # xs)" "d = c\<lparr>ck_timers := unlink_first p (ck_timers c)\<rparr>"
  obtains f where "deltas (ck_timers c) (p # xs) = (tl_jiffies (timer_list (ck_timers c) p), Some f) # deltas (ck_timers d) xs"
    "timers_ok (ck_timers d) xs" "next_timer (ck_timers c) = Some p"
    "expire_timers call c =
      (if tl_jiffies (timer_list (ck_timers c) p) \<le> 0 then Option.bind (call f d) (expire_timers call) else Some c)"
proof -
  obtain f where f: "tl_fn (timer_list (ck_timers c) p) = Some f"
    using assms(1) by (auto simp: timers_ok_def)
  have nt: "next_timer (ck_timers c) = Some p"
    using timers_ok_next [OF assms(1)] by simp
  show thesis
  proof (rule that [of f])
    show "deltas (ck_timers c) (p # xs) = (tl_jiffies (timer_list (ck_timers c) p), Some f) # deltas (ck_timers d) xs"
      using unlink_first_ok(2) [OF assms(1)] by (simp add: deltas_Cons f assms(2))
    show "timers_ok (ck_timers d) xs"
      using unlink_first_ok(1) [OF assms(1)] by (simp add: assms(2))
    show "expire_timers call c =
      (if tl_jiffies (timer_list (ck_timers c) p) \<le> 0 then Option.bind (call f d) (expire_timers call) else Some c)"
      by (subst expire_timers.simps) (simp add: nt f assms(2) unlink_first_def Let_def)
  qed (rule nt)
qed

text \<open>C15. The loop of \<open>do_timer\<close> over the timers. Its timer functions may use the timers themselves, as those of the
  floppy driver do: suppose that each returns while an entry of the table is free, having added at most one timer, for a
  later tick. Then the loop ends. It has called the functions of exactly the timers that had expired, each
  once and in the order of the list, after taking its entry off; the timers that had not expired are all still in the
  list in their order, and nothing that has expired is left at its head.\<close>

theorem expire_timers_due:
  assumes "timers_ok (ck_timers c) xs"
    and call: "\<And>f c xs. timers_ok (ck_timers c) xs \<Longrightarrow> length xs < TIME_REQUESTS \<Longrightarrow>
      \<exists>c'. call f c = Some c' \<and> timer_use (ck_timers c) (ck_timers c')"
  shows "\<exists>c' xs'. expire_timers call c = Some c' \<and> timers_ok (ck_timers c') xs'
    \<and> call_expired call (map (\<lambda>(d, f). the f) (takeWhile (\<lambda>(d, f). d \<le> 0) (deltas (ck_timers c) xs))) c = Some c'
    \<and> subseq (map snd (dropWhile (\<lambda>(d, f). d \<le> 0) (deltas (ck_timers c) xs))) (map snd (deltas (ck_timers c') xs'))
    \<and> takeWhile (\<lambda>(d, f). d \<le> 0) (deltas (ck_timers c') xs') = []"
  unfolding case_prod_beta using assms(1)
proof (induction "length (takeWhile expired (deltas (ck_timers c) xs))" arbitrary: c xs)
  case 0
  then have none: "takeWhile expired (deltas (ck_timers c) xs) = []" "dropWhile expired (deltas (ck_timers c) xs) = deltas (ck_timers c) xs"
    by (cases "deltas (ck_timers c) xs"; simp split: if_splits)+
  have "expire_timers call c = Some c"
  proof (cases xs)
    case Nil
    then show ?thesis
      using timers_ok_next [OF 0(2)] by (subst expire_timers.simps) simp
  next
    case (Cons p ys)
    show ?thesis
      by (rule expire_timers_step [OF 0(2) [unfolded Cons] refl, of call]) (use none(1) in \<open>auto simp: Cons split: if_splits\<close>)
  qed
  then show ?case
    using 0(2) none by (intro exI [of _ c] exI [of _ xs]) simp
next
  case (Suc n)
  then obtain p ys where xs: "xs = p # ys"
    by (cases xs) (auto simp: deltas_def)
  define d where "d = c\<lparr>ck_timers := unlink_first p (ck_timers c)\<rparr>"
  obtain f where f: "deltas (ck_timers c) xs = (tl_jiffies (timer_list (ck_timers c) p), Some f) # deltas (ck_timers d) ys"
    "timers_ok (ck_timers d) ys" "next_timer (ck_timers c) = Some p"
    "expire_timers call c =
      (if tl_jiffies (timer_list (ck_timers c) p) \<le> 0 then Option.bind (call f d) (expire_timers call) else Some c)"
    using expire_timers_step [OF Suc.prems [unfolded xs] d_def, of call] unfolding xs by blast
  have due: "tl_jiffies (timer_list (ck_timers c) p) \<le> 0" and n: "n = length (takeWhile expired (deltas (ck_timers d) ys))"
    using Suc.hyps(2) by (auto simp: f(1) split: if_splits)
  have room: "length ys < TIME_REQUESTS"
    using timers_ok_length [OF Suc.prems] by (simp add: xs)
  obtain e where e: "call f d = Some e" "timer_use (ck_timers d) (ck_timers e)"
    using call [OF f(2) room] by blast
  obtain zs where zs: "timers_ok (ck_timers e) zs" "takeWhile expired (deltas (ck_timers e) zs) = takeWhile expired (deltas (ck_timers d) ys)"
    "subseq (map snd (dropWhile expired (deltas (ck_timers d) ys))) (map snd (dropWhile expired (deltas (ck_timers e) zs)))"
    by (rule timer_use_expired [OF f(2) room e(2)])
  obtain c' xs' where IH: "expire_timers call e = Some c'" "timers_ok (ck_timers c') xs'"
    "call_expired call (map (\<lambda>x. the (snd x)) (takeWhile expired (deltas (ck_timers e) zs))) e = Some c'"
    "subseq (map snd (dropWhile expired (deltas (ck_timers e) zs))) (map snd (deltas (ck_timers c') xs'))"
    "takeWhile expired (deltas (ck_timers c') xs') = []"
    using Suc.hyps(1) [OF _ zs(1)] n zs(2) by auto
  have "expire_timers call c = Some c'"
    using due e(1) IH(1) f(4) by simp
  moreover have "call_expired call (map (\<lambda>x. the (snd x)) (takeWhile expired (deltas (ck_timers c) xs))) c = Some c'"
    using due e(1) IH(3) zs(2) by (simp add: f(1,3) d_def [symmetric])
  moreover have "subseq (map snd (dropWhile expired (deltas (ck_timers c) xs))) (map snd (deltas (ck_timers c') xs'))"
    using due subseq_order.trans [OF zs(3) IH(4)] by (simp add: f(1))
  ultimately show ?case
    using IH(2,5) by blast
qed

definition demo_clock :: clock_state where
  "demo_clock = \<lparr>ck_sched = busy_sched, ck_timers = demo_timers,
     ck_floppy = \<lparr>mon_timer = (\<lambda>_. 0), moff_timer = (\<lambda>_. 0), wait_motor = (\<lambda>_. None), current_DOR = 0x0C,
       fd_selected = 0, fd_dor_port = 0\<rparr>, ck_beepcount = 0, ck_port61 = 0\<rparr>"

text \<open>One tick later the timer of the example has expired, and its function adds another for two ticks.\<close>

definition rearm :: "nat \<Rightarrow> clock_state \<Rightarrow> clock_state option" where
  "rearm f c = map_option (\<lambda>(_, t). c\<lparr>ck_timers := t, ck_beepcount := int f\<rparr>) (add_timer 2 (Some 9) (ck_timers c))"

theorem expire_timers_due_witness:
  "let c = demo_clock\<lparr>ck_timers := upd_timer 0 (\<lambda>t. t\<lparr>tl_jiffies := 0\<rparr>) demo_timers\<rparr>
   in \<exists>c' xs'. expire_timers rearm c = Some c' \<and> ck_beepcount c' = 7 \<and> timers_ok (ck_timers c') xs'
     \<and> takeWhile (\<lambda>(d, f). d \<le> 0) (deltas (ck_timers c') xs') = []"
proof -
  let ?c = "demo_clock\<lparr>ck_timers := upd_timer 0 (\<lambda>t. t\<lparr>tl_jiffies := 0\<rparr>) demo_timers\<rparr>"
  have ok: "timers_ok (ck_timers ?c) [0]"
    by (auto simp: timers_ok_def demo_timers_def TIME_REQUESTS_def)
  have d: "deltas (ck_timers ?c) [0] = [(0, Some 7)]"
    by (simp add: deltas_def demo_timers_def)
  have call: "\<exists>c'. rearm f c = Some c' \<and> timer_use (ck_timers c) (ck_timers c')"
    if ok: "timers_ok (ck_timers c) xs" "length xs < TIME_REQUESTS" for f c xs
  proof -
    obtain s' where "add_timer 2 (Some 9) (ck_timers c) = Some ([], s')"
      using add_timer_refines [OF ok, of 2 9] by auto
    then show ?thesis
      by (auto simp: rearm_def timer_use_def intro: exI [of _ "2 :: int"])
  qed
  have beep: "call_expired rearm [7] c = Some c' \<Longrightarrow> ck_beepcount c' = 7" for c c'
    by (auto simp: rearm_def split: option.splits Option.bind_splits)
  obtain c' xs' where *: "expire_timers rearm ?c = Some c'" "timers_ok (ck_timers c') xs'"
    "call_expired rearm (map (\<lambda>(d, f). the f) (takeWhile (\<lambda>(d, f). d \<le> 0) (deltas (ck_timers ?c) [0]))) ?c = Some c'"
    "takeWhile (\<lambda>(d, f). d \<le> 0) (deltas (ck_timers c') xs') = []"
    using expire_timers_due [where call = rearm, OF ok] call by meson
  have "call_expired rearm [7] ?c = Some c'"
    using *(3) unfolding d by simp
  then show ?thesis
    using *(1,2,4) beep unfolding Let_def by blast
qed

end
