(* ===== verification/Allocator.thy ===== *)
theory Allocator
  imports Prelude
begin

text \<open>
  The contract of the kernel's allocators of counted resources. A component that hands out resources
  (pages of memory, blocks and inodes of a disk, open file entries) promises that what it hands out was
  unused, and that releasing undoes one reference. The client's lemmas say what follows for any number
  of allocations.
\<close>

primrec alloc_many :: "('s \<Rightarrow> ('r \<times> 's) option) \<Rightarrow> nat \<Rightarrow> 's \<Rightarrow> ('r list \<times> 's) option" where
  "alloc_many alloc 0 s = Some ([], s)"
| "alloc_many alloc (Suc n) s =
    (case alloc s of None \<Rightarrow> None
     | Some (r, s) \<Rightarrow> map_option (\<lambda>(rs, s). (r # rs, s)) (alloc_many alloc n s))"

primrec release_all :: "('r \<Rightarrow> 's \<Rightarrow> 's option) \<Rightarrow> 'r list \<Rightarrow> 's \<Rightarrow> 's option" where
  "release_all release [] s = Some s"
| "release_all release (r # rs) s =
    (case release r s of None \<Rightarrow> None | Some s \<Rightarrow> release_all release rs s)"

locale counted_allocator =
  fixes inv :: "'s \<Rightarrow> bool"
    and refs :: "'s \<Rightarrow> 'r \<Rightarrow> nat"
    and alloc :: "'s \<Rightarrow> ('r \<times> 's) option"
    and release :: "'r \<Rightarrow> 's \<Rightarrow> 's option"
  assumes alloc_fresh: "inv s \<Longrightarrow> alloc s = Some (r, s') \<Longrightarrow> refs s r = 0"
    and alloc_refs: "inv s \<Longrightarrow> alloc s = Some (r, s') \<Longrightarrow> refs s' = (refs s)(r := 1)"
    and alloc_inv: "inv s \<Longrightarrow> alloc s = Some (r, s') \<Longrightarrow> inv s'"
    and release_ok: "inv s \<Longrightarrow> 0 < refs s r \<Longrightarrow>
      \<exists>s'. release r s = Some s' \<and> inv s' \<and> refs s' = (refs s)(r := refs s r - 1)"
begin

lemma alloc_many_fresh:
  "inv s \<Longrightarrow> alloc_many alloc n s = Some (rs, s') \<Longrightarrow>
    inv s' \<and> length rs = n \<and> distinct rs \<and> (\<forall>r \<in> set rs. refs s r = 0)
    \<and> refs s' = (\<lambda>r. if r \<in> set rs then 1 else refs s r)"
proof (induction n arbitrary: s rs)
  case 0
  then show ?case by simp
next
  case (Suc n)
  then obtain r t qs where r: "alloc s = Some (r, t)" "alloc_many alloc n t = Some (qs, s')" "rs = r # qs"
    by (auto split: option.splits)
  have t: "inv t" "refs t = (refs s)(r := 1)" "refs s r = 0"
    using alloc_inv [OF Suc.prems(1) r(1)] alloc_refs [OF Suc.prems(1) r(1)]
      alloc_fresh [OF Suc.prems(1) r(1)] by simp_all
  have IH: "inv s'" "length qs = n" "distinct qs" "\<forall>q \<in> set qs. refs t q = 0"
    "refs s' = (\<lambda>q. if q \<in> set qs then 1 else refs t q)"
    using Suc.IH [OF t(1) r(2)] by blast+
  have "r \<notin> set qs"
    using IH(4) t(2) by force
  then show ?case
    using IH t r(3) by (auto simp: fun_eq_iff split: if_splits)
qed

lemma release_all_refs:
  "inv s \<Longrightarrow> distinct rs \<Longrightarrow> \<forall>r \<in> set rs. 0 < refs s r \<Longrightarrow>
    \<exists>s'. release_all release rs s = Some s' \<and> inv s'
      \<and> refs s' = (\<lambda>r. if r \<in> set rs then refs s r - 1 else refs s r)"
proof (induction rs arbitrary: s)
  case Nil
  then show ?case by simp
next
  case (Cons r rs)
  then obtain t where t: "release r s = Some t" "inv t" "refs t = (refs s)(r := refs s r - 1)"
    using release_ok [of s r] by auto
  have pos: "distinct rs" "\<forall>q \<in> set rs. 0 < refs t q"
    using Cons.prems t(3) by auto
  obtain s' where "release_all release rs t = Some s'" "inv s'"
    "refs s' = (\<lambda>q. if q \<in> set rs then refs t q - 1 else refs t q)"
    using Cons.IH [OF t(2) pos] by blast
  then show ?case
    using t Cons.prems(2) by (auto simp: fun_eq_iff)
qed

text \<open>Whatever order the resources are released in, the counts come back to what they were.\<close>

lemma alloc_release_all:
  assumes "inv s" "alloc_many alloc n s = Some (rs, s')" "distinct qs" "set qs = set rs"
  shows "\<exists>t. release_all release qs s' = Some t \<and> inv t \<and> refs t = refs s"
proof -
  note f = alloc_many_fresh [OF assms(1,2)]
  then obtain t where "release_all release qs s' = Some t" "inv t"
    "refs t = (\<lambda>r. if r \<in> set qs then refs s' r - 1 else refs s' r)"
    using release_all_refs [of s' qs] assms(3,4) by auto
  then show ?thesis
    using f assms(4) by (auto simp: fun_eq_iff)
qed

end

end
