(* ===== verification/Memory.thy ===== *)
theory Memory
  imports Sched Allocator
begin

text \<open>
  \<open>mm/memory.c\<close>: the page allocator with its reference counts \<open>mem_map\<close>, the two-level page tables at
  physical address 0, and copy-on-write. Physical memory is read and written by aligned 32-bit longs,
  as the page table code does. \<open>oom\<close> leaves the routine through \<open>do_exit(SIGSEGV)\<close>. Messages printed
  by \<open>printk\<close> and the flush of the translation cache (\<open>invalidate\<close>) have no effect on this state.
\<close>

unbundle bit_operations_syntax

section \<open>State\<close>

definition LOW_MEM :: u32 where "LOW_MEM = 0x100000"
definition PAGING_PAGES :: nat where "PAGING_PAGES = 3840"
definition USED :: u8 where "USED = 100"

definition MAP_NR :: "u32 \<Rightarrow> nat" where
  "MAP_NR addr = unat (drop_bit 12 (addr - LOW_MEM))"

record mm_state =
  pmem :: "u32 \<Rightarrow> u32"
  mem_map :: "nat \<Rightarrow> u8"
  HIGH_MEMORY :: u32

definition set_long :: "u32 \<Rightarrow> u32 \<Rightarrow> mm_state \<Rightarrow> mm_state" where
  "set_long a v s = s\<lparr>pmem := (pmem s)(a := v)\<rparr>"

definition set_count :: "nat \<Rightarrow> u8 \<Rightarrow> mm_state \<Rightarrow> mm_state" where
  "set_count i c s = s\<lparr>mem_map := (mem_map s)(i := c)\<rparr>"

text \<open>The page of an address, and its offset there.\<close>

definition frame :: "u32 \<Rightarrow> u32" where
  "frame a = 0xfffff000 AND a"

definition copy_page :: "u32 \<Rightarrow> u32 \<Rightarrow> mm_state \<Rightarrow> mm_state" where
  "copy_page src dst s =
    s\<lparr>pmem := (\<lambda>a. if frame a = dst then pmem s (src + (a AND 0xfff)) else pmem s a)\<rparr>"

definition clear_page :: "u32 \<Rightarrow> mm_state \<Rightarrow> mm_state" where
  "clear_page dst s = s\<lparr>pmem := (\<lambda>a. if frame a = dst then 0 else pmem s a)\<rparr>"

definition oom :: "mm_state \<Rightarrow> ('a, mm_state) kres" where
  "oom s = Inl (Exit (int SIGSEGV) s)"

section \<open>Pages\<close>

text \<open>\<open>get_free_page\<close> scans the map from its end; the page it finds is marked and zeroed.\<close>

definition get_free_page :: "mm_state \<Rightarrow> u32 \<times> mm_state" where
  "get_free_page s =
    (case find (\<lambda>i. mem_map s i = 0) (rev [0..<PAGING_PAGES]) of
       None \<Rightarrow> (0, s)
     | Some i \<Rightarrow>
        let page = push_bit 12 (of_nat i) + LOW_MEM
        in (page, clear_page page (set_count i 1 s)))"

definition free_page :: "u32 \<Rightarrow> mm_state \<Rightarrow> (unit, mm_state) kres" where
  "free_page addr s =
    (if addr < LOW_MEM then ret () s
     else if addr \<ge> HIGH_MEMORY s then panic ''trying to free nonexistent page''
     else
       let i = unat (drop_bit 12 (addr - LOW_MEM))
       in if mem_map s i \<noteq> 0 then ret () (set_count i (mem_map s i - 1) s)
          else panic ''trying to free free page'')"

section \<open>Page tables\<close>

text \<open>One entry of a page table, and one entry of the directory, of \<open>free_page_tables\<close>.\<close>

definition free_entry :: "u32 \<Rightarrow> mm_state \<Rightarrow> (unit, mm_state) kres" where
  "free_entry p s =
    bindK (if pmem s p AND 1 \<noteq> 0 then free_page (0xfffff000 AND pmem s p) s else ret () s)
      (\<lambda>_ s. ret () (set_long p 0 s))"

definition free_table :: "u32 \<Rightarrow> mm_state \<Rightarrow> (unit, mm_state) kres" where
  "free_table dir s =
    (if pmem s dir AND 1 = 0 then ret () s
     else
       let pg_table = 0xfffff000 AND pmem s dir
       in bindK (forK [0..<1024] (\<lambda>nr. free_entry (pg_table + 4 * of_nat nr)) s) (\<lambda>_ s.
          bindK (free_page (0xfffff000 AND pmem s dir) s) (\<lambda>_ s.
          ret () (set_long dir 0 s))))"

definition free_page_tables :: "u32 \<Rightarrow> u32 \<Rightarrow> mm_state \<Rightarrow> (int, mm_state) kres" where
  "free_page_tables from sz s =
    (if from AND 0x3fffff \<noteq> 0 then panic ''free_page_tables called with wrong alignment''
     else if from = 0 then panic ''Trying to free up swapper memory space''
     else
       let n = unat (drop_bit 22 (sz + 0x3fffff));
           dir = drop_bit 20 from AND 0xffc
       in bindK (forK [0..<n] (\<lambda>k. free_table (dir + 4 * of_nat k)) s) (\<lambda>_ s. ret 0 s))"

text \<open>One page of \<open>copy_page_tables\<close>: both entries become read-only and the page is counted again, but
  pages of the kernel (below \<open>LOW_MEM\<close>) stay writable in the source.\<close>

definition copy_entry :: "u32 \<Rightarrow> u32 \<Rightarrow> mm_state \<Rightarrow> (unit, mm_state) kres" where
  "copy_entry from_pt to_pt s =
    (let this_page = pmem s from_pt
     in if this_page AND 1 = 0 then ret () s
        else
          let this_page = this_page AND NOT 2;
              s = set_long to_pt this_page s
          in if this_page > LOW_MEM then
               let s = set_long from_pt this_page s;
                   i = unat (drop_bit 12 (this_page - LOW_MEM))
               in ret () (set_count i (mem_map s i + 1) s)
             else ret () s)"

text \<open>The loop over the directory: a failed allocation ends it with -1.\<close>

fun copy_dirs :: "u32 \<Rightarrow> nat \<Rightarrow> u32 \<Rightarrow> u32 \<Rightarrow> mm_state \<Rightarrow> (int, mm_state) kres" where
  "copy_dirs from 0 from_dir to_dir s = ret 0 s"
| "copy_dirs from (Suc n) from_dir to_dir s =
    (if pmem s to_dir AND 1 \<noteq> 0 then panic ''copy_page_tables: already exist''
     else if pmem s from_dir AND 1 = 0 then copy_dirs from n (from_dir + 4) (to_dir + 4) s
     else
       let from_pt = 0xfffff000 AND pmem s from_dir;
           (to_pt, s) = get_free_page s
       in if to_pt = 0 then ret (-1) s
          else
            let s = set_long to_dir (to_pt OR 7) s;
                nr = (if from = 0 then 0xA0 else 1024)
            in bindK (forK [0..<nr] (\<lambda>k. copy_entry (from_pt + 4 * of_nat k) (to_pt + 4 * of_nat k)) s)
                 (\<lambda>_ s. copy_dirs from n (from_dir + 4) (to_dir + 4) s))"

definition copy_page_tables :: "u32 \<Rightarrow> u32 \<Rightarrow> u32 \<Rightarrow> mm_state \<Rightarrow> (int, mm_state) kres" where
  "copy_page_tables from to sz s =
    (if from AND 0x3fffff \<noteq> 0 \<or> to AND 0x3fffff \<noteq> 0 then
       panic ''copy_page_tables called with wrong alignment''
     else
       copy_dirs from (unat (drop_bit 22 (sz + 0x3fffff)))
         (drop_bit 20 from AND 0xffc) (drop_bit 20 to AND 0xffc) s)"

text \<open>\<open>put_page\<close>; its two warnings are only printed.\<close>

definition put_page :: "u32 \<Rightarrow> u32 \<Rightarrow> mm_state \<Rightarrow> u32 \<times> mm_state" where
  "put_page page address s =
    (let pde = drop_bit 20 address AND 0xffc
     in if pmem s pde AND 1 \<noteq> 0 then
          (page, set_long ((0xfffff000 AND pmem s pde) + 4 * (drop_bit 12 address AND 0x3ff)) (page OR 7) s)
        else
          let (tmp, s) = get_free_page s
          in if tmp = 0 then (0, s)
             else (page, set_long (tmp + 4 * (drop_bit 12 address AND 0x3ff)) (page OR 7)
                           (set_long pde (tmp OR 7) s)))"

section \<open>Copy on write\<close>

definition un_wp_page :: "u32 \<Rightarrow> mm_state \<Rightarrow> (unit, mm_state) kres" where
  "un_wp_page table_entry s =
    (let old_page = 0xfffff000 AND pmem s table_entry
     in if old_page \<ge> LOW_MEM \<and> mem_map s (MAP_NR old_page) = 1 then
          ret () (set_long table_entry (pmem s table_entry OR 2) s)
        else
          let (new_page, s) = get_free_page s
          in if new_page = 0 then oom s
             else
               let s = (if old_page \<ge> LOW_MEM
                        then set_count (MAP_NR old_page) (mem_map s (MAP_NR old_page) - 1) s else s);
                   s = set_long table_entry (new_page OR 7) s
               in ret () (copy_page old_page new_page s))"

definition do_wp_page :: "u32 \<Rightarrow> u32 \<Rightarrow> mm_state \<Rightarrow> (unit, mm_state) kres" where
  "do_wp_page error_code address s =
    un_wp_page ((drop_bit 10 address AND 0xffc) + (0xfffff000 AND pmem s (drop_bit 20 address AND 0xffc))) s"

definition write_verify :: "u32 \<Rightarrow> mm_state \<Rightarrow> (unit, mm_state) kres" where
  "write_verify address s =
    (let page = pmem s (drop_bit 20 address AND 0xffc)
     in if page AND 1 = 0 then ret () s
        else
          let page = (page AND 0xfffff000) + (drop_bit 10 address AND 0xffc)
          in if 3 AND pmem s page = 1 then un_wp_page page s else ret () s)"

definition get_empty_page :: "u32 \<Rightarrow> mm_state \<Rightarrow> (unit, mm_state) kres" where
  "get_empty_page address s =
    (let (tmp, s) = get_free_page s
     in if tmp = 0 then bindK (free_page tmp s) (\<lambda>_ s. oom s)
        else
          let (r, s) = put_page tmp address s
          in if r = 0 then bindK (free_page tmp s) (\<lambda>_ s. oom s) else ret () s)"

section \<open>Sharing pages of an executable\<close>

definition try_to_share ::
  "u32 \<Rightarrow> task_struct \<Rightarrow> task_struct \<Rightarrow> mm_state \<Rightarrow> (int, mm_state) kres" where
  "try_to_share address p me s =
    (let from_pde = (drop_bit 20 address AND 0xffc) + (drop_bit 20 (t_start_code p) AND 0xffc);
         to_pde = (drop_bit 20 address AND 0xffc) + (drop_bit 20 (t_start_code me) AND 0xffc);
         from = pmem s from_pde
     in if from AND 1 = 0 then ret 0 s
        else
          let from_page = (from AND 0xfffff000) + (drop_bit 10 address AND 0xffc);
              phys_addr = pmem s from_page
          in if phys_addr AND 0x41 \<noteq> 0x01 then ret 0 s
             else
               let phys_addr = phys_addr AND 0xfffff000
               in if phys_addr \<ge> HIGH_MEMORY s \<or> phys_addr < LOW_MEM then ret 0 s
                  else
                    let to = pmem s to_pde
                    in bindK
                        (if to AND 1 = 0 then
                           let (to, s) = get_free_page s
                           in if to \<noteq> 0 then ret to (set_long to_pde (to OR 7) s) else oom s
                         else ret to s)
                        (\<lambda>to s.
                          let to_page = (to AND 0xfffff000) + (drop_bit 10 address AND 0xffc)
                          in if pmem s to_page AND 1 \<noteq> 0 then panic ''try_to_share: to_page already exists''
                             else
                               let s = set_long from_page (pmem s from_page AND NOT 2) s;
                                   s = set_long to_page (pmem s from_page) s;
                                   i = unat (drop_bit 12 (phys_addr - LOW_MEM))
                               in ret 1 (set_count i (mem_map s i + 1) s)))"

text \<open>The loop of \<open>share_page\<close> over the tasks; \<open>i_count\<close> is the reference count of an inode.\<close>

fun share_loop :: "nat list \<Rightarrow> u32 \<Rightarrow> sched_state \<Rightarrow> mm_state \<Rightarrow> (int, mm_state) kres" where
  "share_loop [] address sc s = ret 0 s"
| "share_loop (i # is) address sc s =
    (case task sc i of
       None \<Rightarrow> share_loop is address sc s
     | Some p \<Rightarrow>
        if i = current sc \<or> t_executable p \<noteq> t_executable (cur sc) then share_loop is address sc s
        else bindK (try_to_share address p (cur sc) s)
               (\<lambda>r s. if r \<noteq> 0 then ret 1 s else share_loop is address sc s))"

definition share_page :: "(nat \<Rightarrow> u16) \<Rightarrow> u32 \<Rightarrow> sched_state \<Rightarrow> mm_state \<Rightarrow> (int, mm_state) kres" where
  "share_page i_count address sc s =
    (case t_executable (cur sc) of
       None \<Rightarrow> ret 0 s
     | Some e \<Rightarrow>
        if i_count e < 2 then ret 0 s
        else share_loop (rev [1..<NR_TASKS]) address sc s)"

section \<open>Initialisation\<close>

text \<open>The addresses are those of \<open>main.c\<close>: \<open>LOW_MEM \<le> start_mem \<le> end_mem\<close>.\<close>

definition mem_init :: "u32 \<Rightarrow> u32 \<Rightarrow> mm_state \<Rightarrow> mm_state" where
  "mem_init start_mem end_mem s =
    (let s = s\<lparr>HIGH_MEMORY := end_mem\<rparr>;
         s = fold (\<lambda>i. set_count i USED) [0..<PAGING_PAGES] s;
         i = MAP_NR start_mem;
         n = sint (end_mem - start_mem) div 4096
     in fold (\<lambda>i. set_count i 0) [i..<i + nat n] s)"

text \<open>\<open>calc_mem\<close>: the number of free pages, and the pages in use by each entry of the directory.\<close>

definition calc_mem :: "mm_state \<Rightarrow> nat \<times> (nat \<times> nat) list" where
  "calc_mem s =
    (length (filter (\<lambda>i. mem_map s i = 0) [0..<PAGING_PAGES]),
     map (\<lambda>i. (i, length (filter (\<lambda>j. pmem s ((0xfffff000 AND pmem s (4 * of_nat i)) + 4 * of_nat j) AND 1 \<noteq> 0)
                             [0..<1024])))
       (filter (\<lambda>i. pmem s (4 * of_nat i) AND 1 \<noteq> 0) [2..<1024]))"

section \<open>Addresses\<close>

lemma bit_frame [simp]: "bit (frame x) n \<longleftrightarrow> 12 \<le> n \<and> bit x n"
proof -
  have e: "(0xfffff000 :: u32) = push_bit 12 (mask 20)"
    by (simp add: mask_eq_exp_minus_1 push_bit_eq_mult)
  show ?thesis
    unfolding frame_def e by (auto simp: bit_simps dest: bit_imp_le_length)
qed

lemma frame_0_iff: "frame y = 0 \<longleftrightarrow> (\<forall>n \<ge> 12. \<not> bit y n)"
proof
  assume "frame y = 0"
  then show "\<forall>n \<ge> 12. \<not> bit y n"
    using bit_frame [of y] by simp
next
  assume "\<forall>n \<ge> 12. \<not> bit y n"
  then show "frame y = 0"
    by (intro bit_eqI) simp
qed

lemma not_bit_small: "unat (y :: u32) < 2 ^ k \<Longrightarrow> k \<le> n \<Longrightarrow> \<not> bit y n"
proof -
  assume *: "unat y < 2 ^ k" "k \<le> n"
  have "take_bit k (unat y) = unat y"
    using *(1) by (simp add: take_bit_eq_mod)
  then have "bit (unat y) n \<longleftrightarrow> n < k \<and> bit (unat y) n"
    by (metis bit_take_bit_iff)
  then show ?thesis
    using *(2) by (simp add: bit_unsigned_iff)
qed

lemma frame_small: "unat y < 4096 \<Longrightarrow> frame y = 0"
  unfolding frame_0_iff using not_bit_small [of y 12] by simp

lemma frame_OR: "unat y < 4096 \<Longrightarrow> frame (x OR y) = frame x"
  using not_bit_small [of y 12] by (auto simp: bit_eq_iff bit_simps)

lemma frame_AND_NOT: "unat y < 4096 \<Longrightarrow> frame (x AND NOT y) = frame x"
  using not_bit_small [of y 12] by (auto simp: bit_eq_iff bit_simps)

lemma frame_flags [simp]: "frame (x OR 7) = frame x" "frame (x OR 2) = frame x" "frame (x AND NOT 2) = frame x"
  by (rule frame_OR frame_AND_NOT; simp)+

lemma off_frame_0 [simp]: "frame (y AND 0xffc) = 0" "frame (y AND 0xfff) = 0" "frame (4 * (y AND 0x3ff)) = 0"
proof -
  have "unat (y AND 0xffc) \<le> unat (0xffc :: u32)" "unat (y AND 0xfff) \<le> unat (0xfff :: u32)"
    "unat (y AND 0x3ff) \<le> unat (0x3ff :: u32)"
    by (simp_all only: word_le_nat_alt [symmetric] word_and_le1)
  then show "frame (y AND 0xffc) = 0" "frame (y AND 0xfff) = 0" "frame (4 * (y AND 0x3ff)) = 0"
    by (auto intro!: frame_small simp: unat_word_ariths)
qed

lemma frame_add:
  assumes "frame y = 0"
  shows "frame (frame x + y) = frame x"
proof -
  have "frame x + y = frame x OR y"
    using assms by (intro disjunctive_add_eq_or) (auto simp: frame_0_iff bit_eq_iff bit_simps)
  then show ?thesis
    using assms by (auto simp: frame_0_iff bit_eq_iff bit_simps)
qed

lemma low_bits_add:
  assumes "frame k = 0" "frame x = x"
  shows "(x + k) AND 0xfff = k"
proof -
  have m: "(0xfff :: u32) = mask 12"
    by (simp add: mask_eq_exp_minus_1)
  have "x + k = x OR k"
    using assms by (intro disjunctive_add_eq_or) (auto simp: frame_0_iff bit_eq_iff bit_simps)
  then show ?thesis
    unfolding m using assms by (auto simp: frame_0_iff bit_eq_iff bit_simps)
qed

lemma frame_add_inj: "frame y = 0 \<Longrightarrow> frame z = 0 \<Longrightarrow> frame x + y = frame w + z \<longleftrightarrow> frame x = frame w \<and> y = z"
  by (metis add_left_cancel frame_add)

text \<open>The address of the page with index \<open>i\<close>.\<close>

definition page_at :: "nat \<Rightarrow> u32" where
  "page_at i = push_bit 12 (of_nat i) + LOW_MEM"

lemma unat_page_at: "i < PAGING_PAGES \<Longrightarrow> unat (page_at i) = i * 4096 + 0x100000"
  by (simp add: page_at_def PAGING_PAGES_def LOW_MEM_def push_bit_eq_mult unat_word_ariths unat_of_nat)

lemma frame_page_at [simp]: "frame (page_at i) = page_at i"
proof -
  have "page_at i = push_bit 12 (of_nat (i + 256) :: u32)"
    by (simp add: page_at_def LOW_MEM_def push_bit_eq_mult algebra_simps)
  then show ?thesis
    by (auto simp: bit_eq_iff bit_simps)
qed

lemma MAP_NR_page_at [simp]: "i < PAGING_PAGES \<Longrightarrow> MAP_NR (page_at i) = i"
  by (simp add: MAP_NR_def page_at_def drop_bit_eq_div push_bit_eq_mult PAGING_PAGES_def unat_word_ariths
      unat_of_nat unat_div)

lemma page_at_nonzero [simp]: "i < PAGING_PAGES \<Longrightarrow> page_at i \<noteq> 0" "i < PAGING_PAGES \<Longrightarrow> LOW_MEM \<le> page_at i"
  using unat_page_at [of i] by (auto simp: word_le_nat_alt LOW_MEM_def)

lemma page_at_inj: "i < PAGING_PAGES \<Longrightarrow> j < PAGING_PAGES \<Longrightarrow> page_at i = page_at j \<longleftrightarrow> i = j"
  by (metis MAP_NR_page_at)

text \<open>Every frame of the paging area is the page of its index.\<close>

lemma page_at_MAP_NR:
  assumes "frame p = p"
  shows "page_at (MAP_NR p) = p"
proof -
  have shift: "frame x = push_bit 12 (drop_bit 12 x)" for x
    by (rule bit_eqI) (auto simp: bit_simps)
  have "p - LOW_MEM = push_bit 12 (drop_bit 12 p - 0x100)"
    using assms by (simp add: shift push_bit_eq_mult LOW_MEM_def algebra_simps)
  then have "frame (p - LOW_MEM) = p - LOW_MEM"
    by (auto simp: bit_eq_iff bit_simps)
  then show ?thesis
    by (simp add: page_at_def MAP_NR_def shift)
qed

text \<open>Find from the end of the map.\<close>

lemma get_free_page_cases:
  obtains (none) "\<forall>i < PAGING_PAGES. mem_map s i \<noteq> 0" "get_free_page s = (0, s)"
  | (page) i where "i < PAGING_PAGES" "mem_map s i = 0" "\<forall>j < PAGING_PAGES. i < j \<longrightarrow> mem_map s j \<noteq> 0"
      "get_free_page s = (page_at i, clear_page (page_at i) (set_count i 1 s))"
proof (cases "find (\<lambda>i. mem_map s i = 0) (rev [0..<PAGING_PAGES])")
  case None
  then show ?thesis
    by (intro none) (use None in \<open>auto simp: find_None_iff\<close>, simp add: get_free_page_def None)
next
  case (Some i)
  then obtain k where k: "k < PAGING_PAGES" "i = rev [0..<PAGING_PAGES] ! k" "mem_map s i = 0"
    "\<forall>j<k. mem_map s (rev [0..<PAGING_PAGES] ! j) \<noteq> 0"
    by (auto simp: find_Some_iff)
  then have i: "i = PAGING_PAGES - 1 - k"
    by (simp add: rev_nth)
  have "mem_map s j \<noteq> 0" if "j < PAGING_PAGES" "i < j" for j
    using k(4) [rule_format, of "PAGING_PAGES - 1 - j"] that i k(1) by (simp add: rev_nth)
  then show ?thesis
    using page [of i] Some k i by (simp add: get_free_page_def page_at_def Let_def)
qed

section \<open>The page pool\<close>

text \<open>Free pages are pages of the memory that exists.\<close>

definition pool_ok :: "mm_state \<Rightarrow> bool" where
  "pool_ok s \<longleftrightarrow> (\<forall>i < PAGING_PAGES. mem_map s i = 0 \<longrightarrow> page_at i < HIGH_MEMORY s)"

definition page_refs :: "mm_state \<Rightarrow> u32 \<Rightarrow> nat" where
  "page_refs s p =
    (if frame p = p \<and> LOW_MEM \<le> p \<and> p < HIGH_MEMORY s \<and> MAP_NR p < PAGING_PAGES
     then unat (mem_map s (MAP_NR p)) else 0)"

definition alloc_page :: "mm_state \<Rightarrow> (u32 \<times> mm_state) option" where
  "alloc_page s = (let (p, s) = get_free_page s in if p = 0 then None else Some (p, s))"

definition release_page :: "u32 \<Rightarrow> mm_state \<Rightarrow> mm_state option" where
  "release_page p s = (case free_page p s of Inl _ \<Rightarrow> None | Inr (_, s) \<Rightarrow> Some s)"

lemma clear_page_simps [simp]:
  "mem_map (clear_page p s) = mem_map s" "HIGH_MEMORY (clear_page p s) = HIGH_MEMORY s"
  "mem_map (set_count i c s) = (mem_map s)(i := c)" "HIGH_MEMORY (set_count i c s) = HIGH_MEMORY s"
  "pmem (set_count i c s) = pmem s" "pmem (clear_page p s) a = (if frame a = p then 0 else pmem s a)"
  "mem_map (set_long a v s) = mem_map s" "HIGH_MEMORY (set_long a v s) = HIGH_MEMORY s"
  "pmem (set_long a v s) = (pmem s)(a := v)"
  "mem_map (copy_page p q s) = mem_map s" "HIGH_MEMORY (copy_page p q s) = HIGH_MEMORY s"
  "pmem (copy_page p q s) a = (if frame a = q then pmem s (p + (a AND 0xfff)) else pmem s a)"
  by (simp_all add: clear_page_def set_count_def set_long_def copy_page_def)

lemma alloc_page_Some:
  assumes "alloc_page s = Some (p, s')"
  obtains i where "i < PAGING_PAGES" "mem_map s i = 0" "p = page_at i"
    "s' = clear_page (page_at i) (set_count i 1 s)"
  using assms by (cases s rule: get_free_page_cases) (auto simp: alloc_page_def)

lemma MAP_NR_unique: "frame p = p \<Longrightarrow> p = page_at i \<longleftrightarrow> MAP_NR p = i" if "i < PAGING_PAGES" for p
  using that page_at_MAP_NR [of p] by auto

lemma page_refs_upd:
  assumes "i < PAGING_PAGES" "page_at i < HIGH_MEMORY s"
  shows "page_refs (set_count i c s) = (page_refs s)(page_at i := unat c)"
proof
  fix q
  show "page_refs (set_count i c s) q = ((page_refs s)(page_at i := unat c)) q"
  proof (cases "q = page_at i")
    case True
    then show ?thesis
      using assms by (simp add: page_refs_def)
  next
    case False
    then have "frame q = q \<Longrightarrow> MAP_NR q \<noteq> i"
      using MAP_NR_unique [OF assms(1)] by blast
    then show ?thesis
      using False by (auto simp: page_refs_def)
  qed
qed

lemma page_refs_clear [simp]: "page_refs (clear_page p s) = page_refs s"
  by (simp add: page_refs_def fun_eq_iff)

interpretation pages: counted_allocator pool_ok page_refs alloc_page release_page
proof
  fix s s' p
  assume inv: "pool_ok s" and "alloc_page s = Some (p, s')"
  then obtain i where i: "i < PAGING_PAGES" "mem_map s i = 0" "p = page_at i"
    "s' = clear_page (page_at i) (set_count i 1 s)"
    by (auto elim: alloc_page_Some)
  then have hi: "page_at i < HIGH_MEMORY s"
    using inv by (simp add: pool_ok_def)
  show "page_refs s p = 0"
    using i by (simp add: page_refs_def)
  show "page_refs s' = (page_refs s)(p := 1)"
    using i hi by (simp add: page_refs_upd)
  show "pool_ok s'"
    using inv i by (simp add: pool_ok_def)
next
  fix s p
  assume inv: "pool_ok s" and pos: "0 < page_refs s p"
  then have p: "frame p = p" "LOW_MEM \<le> p" "p < HIGH_MEMORY s" "MAP_NR p < PAGING_PAGES"
    "mem_map s (MAP_NR p) \<noteq> 0"
    by (auto simp: page_refs_def split: if_splits)
  let ?i = "MAP_NR p"
  have pa: "page_at ?i = p"
    using page_at_MAP_NR [OF p(1)] .
  have "\<not> p < LOW_MEM" "\<not> HIGH_MEMORY s \<le> p"
    using p by auto
  then have "release_page p s = Some (set_count ?i (mem_map s ?i - 1) s)"
    using p(5) by (simp add: release_page_def free_page_def MAP_NR_def Let_def ret_def)
  moreover have "pool_ok (set_count ?i (mem_map s ?i - 1) s)"
    using inv p(3) pa by (auto simp: pool_ok_def)
  moreover have "page_refs (set_count ?i (mem_map s ?i - 1) s) = (page_refs s)(p := page_refs s p - 1)"
    using page_refs_upd [OF p(4)] p pa by (simp add: page_refs_def unat_minus_one)
  ultimately show "\<exists>s'. release_page p s = Some s' \<and> pool_ok s' \<and> page_refs s' = (page_refs s)(p := page_refs s p - 1)"
    by blast
qed

text \<open>C11. Pages handed out by \<open>get_free_page\<close> in a row are distinct pages that nobody referred to, and
  releasing them with \<open>free_page\<close>, in any order, gives back every reference count.\<close>

theorem pages_distinct_and_returned:
  assumes "pool_ok s" "alloc_many alloc_page n s = Some (ps, s')" "distinct qs" "set qs = set ps"
  shows "distinct ps \<and> (\<forall>p \<in> set ps. page_refs s p = 0)
    \<and> (\<exists>t. release_all release_page qs s' = Some t \<and> pool_ok t \<and> page_refs t = page_refs s)"
  using pages.alloc_many_fresh [OF assms(1,2)] pages.alloc_release_all [OF assms] by blast

text \<open>A memory of two free pages.\<close>

definition demo_mm :: mm_state where
  "demo_mm = \<lparr>pmem = (\<lambda>_. 0), mem_map = (\<lambda>i. if i \<in> {5, 9} then 0 else 100), HIGH_MEMORY = 0x1000000\<rparr>"

lemma alloc_page_exists:
  assumes "i < PAGING_PAGES" "mem_map s i = 0"
  obtains p s' where "alloc_page s = Some (p, s')"
  using assms by (cases s rule: get_free_page_cases) (auto simp: alloc_page_def)

lemma demo_pool: "pool_ok demo_mm"
  using unat_page_at [of 5] unat_page_at [of 9]
  by (auto simp: pool_ok_def demo_mm_def word_less_nat_alt PAGING_PAGES_def)

theorem pages_distinct_and_returned_witness:
  "\<exists>ps s' t. alloc_many alloc_page 2 demo_mm = Some (ps, s') \<and> length ps = 2 \<and> distinct ps
    \<and> release_all release_page ps s' = Some t \<and> page_refs t = page_refs demo_mm"
proof -
  obtain p s1 where 1: "alloc_page demo_mm = Some (p, s1)"
    by (rule alloc_page_exists [of 5 demo_mm]) (simp_all add: PAGING_PAGES_def demo_mm_def)
  then obtain i where i: "i < PAGING_PAGES" "s1 = clear_page (page_at i) (set_count i 1 demo_mm)"
    by (auto elim: alloc_page_Some)
  define j where "j = (if i = 5 then 9 else 5 :: nat)"
  obtain q s2 where 2: "alloc_page s1 = Some (q, s2)"
    by (rule alloc_page_exists [of j s1]) (simp_all add: i j_def PAGING_PAGES_def demo_mm_def)
  have *: "alloc_many alloc_page 2 demo_mm = Some ([p, q], s2)"
    using 1 2 by (simp add: numeral_2_eq_2)
  have "distinct [p, q]"
    using pages.alloc_many_fresh [OF demo_pool *] by blast
  then obtain t where "release_all release_page [p, q] s2 = Some t" "page_refs t = page_refs demo_mm" "distinct [p, q]"
    using pages_distinct_and_returned [OF demo_pool * _ refl] by blast
  then show ?thesis
    using * by (intro exI [of _ "[p, q]"] exI [of _ s2] exI [of _ t]) simp
qed

section \<open>Copy on write\<close>

text \<open>The directory entry and the page table entry of a linear address, and the physical address it is
  mapped to.\<close>

definition pde :: "u32 \<Rightarrow> u32" where
  "pde address = drop_bit 20 address AND 0xffc"

definition pte :: "mm_state \<Rightarrow> u32 \<Rightarrow> u32" where
  "pte s address = frame (pmem s (pde address)) + (drop_bit 10 address AND 0xffc)"

definition phys :: "mm_state \<Rightarrow> u32 \<Rightarrow> u32 option" where
  "phys s address =
    (if pmem s (pde address) AND 1 = 0 \<or> pmem s (pte s address) AND 1 = 0 then None
     else Some (frame (pmem s (pte s address)) + (address AND 0xfff)))"

definition writable :: "mm_state \<Rightarrow> u32 \<Rightarrow> bool" where
  "writable s address \<longleftrightarrow> pmem s (pde address) AND 1 \<noteq> 0 \<and> pmem s (pte s address) AND 3 = 3"

text \<open>A frame that the allocator will not hand out.\<close>

definition in_use :: "mm_state \<Rightarrow> u32 \<Rightarrow> bool" where
  "in_use s f \<longleftrightarrow> f < LOW_MEM \<or> mem_map s (MAP_NR f) \<noteq> 0"

text \<open>The mapping of an address is sane: its page table and its page are in use, and the page is neither
  the directory nor that page table.\<close>

definition map_ok :: "mm_state \<Rightarrow> u32 \<Rightarrow> bool" where
  "map_ok s address \<longleftrightarrow>
    in_use s (frame (pmem s (pde address))) \<and> frame (pmem s (pde address)) \<noteq> 0
    \<and> in_use s (frame (pmem s (pte s address)))
    \<and> frame (pmem s (pte s address)) \<notin> {0, frame (pmem s (pde address))}"

lemma frame_pde [simp]: "frame (pde a) = 0"
  by (simp add: pde_def)

lemma frame_pte [simp]: "frame (pte s a) = frame (pmem s (pde a))"
  by (simp add: pte_def frame_add)

lemma frame_idem [simp]: "frame (frame a) = frame a"
  by (auto simp: bit_eq_iff)

lemma page_at_fresh:
  assumes "i < PAGING_PAGES" "mem_map s i = 0" "in_use s f"
  shows "f \<noteq> page_at i"
  using assms page_at_nonzero(2) [of i] by (auto simp: in_use_def simp flip: not_le)

lemma present_bit: "x AND 1 = 0 \<longleftrightarrow> \<not> bit (x :: u32) 0"
  by (simp add: and_one_eq bit_0 odd_iff_mod_2_eq_one)

lemma AND_3:
  "(x :: u32) AND 3 = 3 \<longleftrightarrow> bit x 0 \<and> bit x (Suc 0)" "(x :: u32) AND 3 = 1 \<longleftrightarrow> bit x 0 \<and> \<not> bit x (Suc 0)"
proof -
  have three: "bit (3 :: u32) n \<longleftrightarrow> n = 0 \<or> n = Suc 0" for n
  proof -
    have "(3 :: u32) = mask 2"
      by (simp add: mask_eq_exp_minus_1)
    then show ?thesis
      by (simp only: bit_mask_iff) (auto simp: numeral_2_eq_2)
  qed
  have and3: "bit (x AND 3) n \<longleftrightarrow> bit x n \<and> (n = 0 \<or> n = Suc 0)" for n
    by (simp only: bit_and_iff three)
  show "x AND 3 = 3 \<longleftrightarrow> bit x 0 \<and> bit x (Suc 0)"
    unfolding bit_eq_iff [of "x AND 3"] and3 three by (auto dest: spec [of _ 0] spec [of _ "Suc 0"])
  show "x AND 3 = 1 \<longleftrightarrow> bit x 0 \<and> \<not> bit x (Suc 0)"
    unfolding bit_eq_iff [of "x AND 3"] and3 bit_1_iff by (auto dest: spec [of _ 0] spec [of _ "Suc 0"])
qed

lemma set_bits_7 [simp]: "bit (x OR 7 :: u32) 0" "bit (x OR 7 :: u32) (Suc 0)"
  by (simp_all add: bit_simps)

lemma set_bit_2 [simp]: "bit (x OR 2 :: u32) 0 \<longleftrightarrow> bit x 0" "bit (x OR 2 :: u32) (Suc 0)"
  by (simp_all add: bit_simps)

lemmas pte_bits = present_bit AND_3 bit_simps

text \<open>Writing to a present page makes it writable: the two cases of \<open>un_wp_page\<close>.\<close>

lemma un_wp_page_cases:
  assumes "un_wp_page e s = Inr ((), s')"
  obtains (sole) "LOW_MEM \<le> frame (pmem s e)" "mem_map s (MAP_NR (frame (pmem s e))) = 1"
      "s' = set_long e (pmem s e OR 2) s"
  | (copy) i t where "i < PAGING_PAGES" "mem_map s i = 0"
      "t = clear_page (page_at i) (set_count i 1 s)"
      "s' = copy_page (frame (pmem s e)) (page_at i) (set_long e (page_at i OR 7)
        (if LOW_MEM \<le> frame (pmem s e)
         then set_count (MAP_NR (frame (pmem s e))) (mem_map t (MAP_NR (frame (pmem s e))) - 1) t else t))"
proof (cases "LOW_MEM \<le> frame (pmem s e) \<and> mem_map s (MAP_NR (frame (pmem s e))) = 1")
  case True
  then show ?thesis
    using sole assms by (simp add: un_wp_page_def frame_def Let_def)
next
  case False
  show ?thesis
  proof (cases s rule: get_free_page_cases)
    case none
    then show ?thesis
      using assms False by (auto simp: un_wp_page_def frame_def Let_def oom_def)
  next
    case (page i)
    then show ?thesis
      using assms False copy [of i "clear_page (page_at i) (set_count i 1 s)"]
      by (auto simp: un_wp_page_def frame_def Let_def)
  qed
qed

lemma un_wp_page_private:
  assumes ok: "map_ok s a" and pr: "phys s a = Some p" and un: "un_wp_page (pte s a) s = Inr ((), s')"
  shows "\<exists>p'. phys s' a = Some p' \<and> writable s' a \<and> mem_map s' (MAP_NR (frame p')) = 1
    \<and> (\<forall>k. frame k = 0 \<longrightarrow> pmem s' (frame p' + k) = pmem s (frame p + k))
    \<and> (\<forall>x. x \<noteq> pte s a \<longrightarrow> frame x \<noteq> frame p' \<longrightarrow> pmem s' x = pmem s x)"
proof -
  let ?e = "pte s a" and ?d = "pde a"
  let ?old = "frame (pmem s ?e)"
  have b: "bit (pmem s ?d) 0" "bit (pmem s ?e) 0" and p: "p = ?old + (a AND 0xfff)"
    using pr by (auto simp: phys_def present_bit split: if_splits)
  have fp: "frame p = ?old"
    by (simp add: p frame_add)
  have de: "?d \<noteq> ?e"
    using ok by (metis frame_pde frame_pte map_ok_def)
  have old: "?old \<noteq> frame ?e" "?old \<noteq> 0"
    using ok by (auto simp: map_ok_def)
  from un show ?thesis
  proof (cases rule: un_wp_page_cases)
    case sole
    have "pte s' a = ?e"
      using de sole(3) by (simp add: pte_def)
    then have "phys s' a = Some p" "writable s' a"
      using b de sole(3) p by (auto simp: phys_def writable_def pte_bits)
    moreover have "pmem s' (frame p + k) = pmem s (frame p + k)" if "frame k = 0" for k
      using old(1) sole(3) fp frame_add [OF that] by (metis clear_page_simps(9) frame_idem fun_upd_apply)
    ultimately show ?thesis
      using sole fp by (intro exI [of _ p]) simp
  next
    case (copy i t)
    have new: "page_at i \<noteq> ?old" "page_at i \<noteq> frame ?e" "page_at i \<noteq> 0"
      using page_at_fresh [OF copy(1,2)] ok page_at_nonzero(1) [OF copy(1)] by (force simp: map_ok_def)+
    have mem: "pmem s' x = (if frame x = page_at i then pmem s (?old + (x AND 0xfff))
                 else if x = ?e then page_at i OR 7 else pmem s x)" for x
    proof -
      have "frame (?old + (x AND 0xfff)) = ?old"
        by (simp add: frame_add)
      then have "?old + (x AND 0xfff) \<noteq> ?e" "frame (?old + (x AND 0xfff)) \<noteq> page_at i"
        using old(1) new(1) by metis+
      then show ?thesis
        using copy(3,4) new(2) by (auto simp del: frame_pte)
    qed
    have d': "pmem s' ?d = pmem s ?d"
      using mem [of ?d] de new(3) by simp
    then have pte': "pte s' a = ?e"
      by (simp add: pte_def)
    have e': "pmem s' ?e = page_at i OR 7"
      using mem [of ?e] new(2) by simp
    then have "phys s' a = Some (page_at i + (a AND 0xfff))" "writable s' a"
      using b d' by (simp_all add: phys_def writable_def pte' pte_bits)
    moreover have fr: "frame (page_at i + (a AND 0xfff)) = page_at i"
      using frame_add [of "a AND 0xfff" "page_at i"] by simp
    moreover have "mem_map s' (MAP_NR (page_at i)) = 1"
      using copy page_at_MAP_NR [of ?old] new(1) by auto
    moreover have "pmem s' (page_at i + k) = pmem s (?old + k)" if "frame k = 0" for k
    proof -
      have "frame (page_at i + k) = page_at i" "(page_at i + k) AND 0xfff = k"
        using frame_add [OF that, of "page_at i"] that low_bits_add [of k "page_at i"] by simp_all
      then show ?thesis
        by (simp add: mem)
    qed
    ultimately show ?thesis
      using mem fp by (intro exI [of _ "page_at i + (a AND 0xfff)"]) (simp only: fr, auto)
  qed
qed

text \<open>C2. After \<open>write_verify\<close> on a mapped address, the address is mapped to a page with the same contents
  that is writable and that nobody else refers to, and no other memory has changed but the page table
  entry and that page: what other processes see through the pages they share is not affected.\<close>

theorem write_verify_private:
  assumes "map_ok s a" "phys s a = Some p" "\<not> writable s a" "write_verify a s = Inr ((), s')"
  shows "\<exists>p'. phys s' a = Some p' \<and> writable s' a \<and> mem_map s' (MAP_NR (frame p')) = 1
    \<and> (\<forall>k. frame k = 0 \<longrightarrow> pmem s' (frame p' + k) = pmem s (frame p + k))
    \<and> (\<forall>x. x \<noteq> pte s a \<longrightarrow> frame x \<noteq> frame p' \<longrightarrow> pmem s' x = pmem s x)"
proof -
  have "un_wp_page (pte s a) s = Inr ((), s')"
    using assms(2-4) by (simp add: write_verify_def phys_def writable_def pte_def [of s a] pde_def frame_def Let_def
        AND_3 present_bit and.commute [of _ "0xfffff000"] and.commute [of 3] split: if_splits)
  then show ?thesis
    using un_wp_page_private [OF assms(1,2)] by blast
qed

text \<open>A page shared by two processes: the page tables in the pages 100 and 101 map it read-only.\<close>

definition cow_mm :: mm_state where
  "cow_mm = \<lparr>pmem = (\<lambda>_. 0)(0x40 := page_at 100 OR 7, page_at 100 := page_at 102 OR 5,
                          0x80 := page_at 101 OR 7, page_at 101 := page_at 102 OR 5,
                          page_at 102 := 0xcafe),
     mem_map = (\<lambda>i. if i \<in> {100, 101} then 1 else if i = 102 then 2 else 0), HIGH_MEMORY = 0x1000000\<rparr>"

theorem write_verify_private_witness:
  "\<exists>s' p. write_verify 0x4000000 cow_mm = Inr ((), s') \<and> phys s' 0x4000000 = Some p
    \<and> writable s' 0x4000000 \<and> pmem s' (frame p) = 0xcafe \<and> mem_map s' (MAP_NR (frame p)) = 1"
proof -
  have lits: "page_at 100 = 0x164000" "page_at 101 = 0x165000" "page_at 102 = 0x166000"
    by (simp_all add: page_at_def LOW_MEM_def push_bit_eq_mult)
  have fr: "frame 0x164007 = 0x164000" "frame 0x166005 = 0x166000" "frame 0x166000 = 0x166000"
    by (simp_all add: frame_def)
  have pd: "pde 0x4000000 = 0x40" "pte cow_mm 0x4000000 = 0x164000"
    by (simp_all add: pde_def pte_def cow_mm_def lits fr drop_bit_eq_div)
  have maps: "MAP_NR 0x164000 = 100" "MAP_NR 0x166000 = 102"
    by (simp_all add: MAP_NR_def LOW_MEM_def drop_bit_eq_div)
  have ok: "map_ok cow_mm 0x4000000" "phys cow_mm 0x4000000 = Some 0x166000" "\<not> writable cow_mm 0x4000000"
    by (simp_all add: map_ok_def phys_def writable_def pd in_use_def) (simp_all add: cow_mm_def lits fr maps)
  have w: "write_verify 0x4000000 cow_mm = un_wp_page 0x164000 cow_mm"
    using pd by (simp add: write_verify_def pde_def cow_mm_def lits drop_bit_eq_div Let_def)
  have "\<exists>s'. un_wp_page 0x164000 cow_mm = Inr ((), s')"
  proof (cases cow_mm rule: get_free_page_cases)
    case none
    have "mem_map cow_mm 0 = 0"
      by (simp add: cow_mm_def)
    then show ?thesis
      using none(1) by (auto simp: PAGING_PAGES_def)
  next
    case (page i)
    then show ?thesis
      unfolding un_wp_page_def Let_def page(4) by (simp add: ret_def)
  qed
  then obtain s' where s': "write_verify 0x4000000 cow_mm = Inr ((), s')"
    using w by auto
  obtain p where p: "phys s' 0x4000000 = Some p" "writable s' 0x4000000" "mem_map s' (MAP_NR (frame p)) = 1"
    "\<forall>k. frame k = 0 \<longrightarrow> pmem s' (frame p + k) = pmem cow_mm (frame 0x166000 + k)"
    using write_verify_private [OF ok s'] by blast
  have "pmem s' (frame p) = 0xcafe"
    using p(4) [rule_format, of 0] by (simp add: fr frame_def) (simp add: cow_mm_def lits)
  then show ?thesis
    using s' p(1-3) by blast
qed

end
