(* ===== verification/Console.thy ===== *)
theory Console
  imports Prelude
begin

text \<open>
  \<open>kernel/chr_drv/console.c\<close>: the screen. The console has its own state; the video memory is its 16-bit
  cells by address. The routines that scroll and erase are string instructions, written here as the
  sequence of their steps. \<open>con_out\<close> collects the writes to the ports of the video card, latest first.
  The unsigned longs of the source are 32-bit words.
\<close>

unbundle bit_operations_syntax

section \<open>State\<close>

definition VIDEO_TYPE_MDA :: u8 where "VIDEO_TYPE_MDA = 0x10"
definition VIDEO_TYPE_CGA :: u8 where "VIDEO_TYPE_CGA = 0x11"
definition VIDEO_TYPE_EGAM :: u8 where "VIDEO_TYPE_EGAM = 0x20"
definition VIDEO_TYPE_EGAC :: u8 where "VIDEO_TYPE_EGAC = 0x21"
definition NPAR :: nat where "NPAR = 16"

record console =
  video_type :: u8
  video_num_columns :: u32
  video_size_row :: u32
  video_num_lines :: u32
  video_page :: u8
  video_mem_start :: u32
  video_mem_end :: u32
  video_port_reg :: u16
  video_port_val :: u16
  video_erase_char :: u16
  origin :: u32
  scr_end :: u32
  cursor_pos :: u32
  con_x :: u32
  con_y :: u32
  con_top :: u32
  con_bottom :: u32
  con_state :: nat
  con_npar :: nat
  con_par :: "nat \<Rightarrow> u32"
  con_ques :: bool
  con_attr :: u8
  saved_x :: u32
  saved_y :: u32
  vmem :: "u32 \<Rightarrow> u16"
  con_out :: "(nat \<times> u8) list"

section \<open>String instructions\<close>

text \<open>\<open>rep stosw\<close> and \<open>rep movsl\<close>, upwards and, after \<open>std\<close>, downwards; a long is two cells.\<close>

definition stosw :: "nat \<Rightarrow> u32 \<Rightarrow> u16 \<Rightarrow> (u32 \<Rightarrow> u16) \<Rightarrow> u32 \<Rightarrow> u16" where
  "stosw n di v m = fold (\<lambda>k m. m(di + 2 * of_nat k := v)) [0..<n] m"

definition stosw_down :: "nat \<Rightarrow> u32 \<Rightarrow> u16 \<Rightarrow> (u32 \<Rightarrow> u16) \<Rightarrow> u32 \<Rightarrow> u16" where
  "stosw_down n di v m = fold (\<lambda>k m. m(di - 2 * of_nat k := v)) [0..<n] m"

definition mov_long :: "u32 \<Rightarrow> u32 \<Rightarrow> (u32 \<Rightarrow> u16) \<Rightarrow> u32 \<Rightarrow> u16" where
  "mov_long di si m = m(di := m si, di + 2 := m (si + 2))"

definition movsl :: "nat \<Rightarrow> u32 \<Rightarrow> u32 \<Rightarrow> (u32 \<Rightarrow> u16) \<Rightarrow> u32 \<Rightarrow> u16" where
  "movsl n di si m = fold (\<lambda>k. mov_long (di + 4 * of_nat k) (si + 4 * of_nat k)) [0..<n] m"

definition movsl_down :: "nat \<Rightarrow> u32 \<Rightarrow> u32 \<Rightarrow> (u32 \<Rightarrow> u16) \<Rightarrow> u32 \<Rightarrow> u16" where
  "movsl_down n di si m = fold (\<lambda>k. mov_long (di - 4 * of_nat k) (si - 4 * of_nat k)) [0..<n] m"

definition put_port :: "u8 \<Rightarrow> u16 \<Rightarrow> console \<Rightarrow> console" where
  "put_port v p c = c\<lparr>con_out := (unat p, v) # con_out c\<rparr>"

section \<open>Moving and scrolling\<close>

definition gotoxy :: "u32 \<Rightarrow> u32 \<Rightarrow> console \<Rightarrow> console" where
  "gotoxy new_x new_y c =
    (if new_x > video_num_columns c \<or> new_y \<ge> video_num_lines c then c
     else c\<lparr>con_x := new_x, con_y := new_y,
            cursor_pos := origin c + new_y * video_size_row c + push_bit 1 new_x\<rparr>)"

definition set_origin :: "console \<Rightarrow> console" where
  "set_origin c =
    (let off = origin c - video_mem_start c
     in put_port (ucast (drop_bit 1 off)) (video_port_val c) (put_port 13 (video_port_reg c)
        (put_port (ucast (drop_bit 9 off)) (video_port_val c) (put_port 12 (video_port_reg c) c))))"

definition set_cursor :: "console \<Rightarrow> console" where
  "set_cursor c =
    (let off = cursor_pos c - video_mem_start c
     in put_port (ucast (drop_bit 1 off)) (video_port_val c) (put_port 15 (video_port_reg c)
        (put_port (ucast (drop_bit 9 off)) (video_port_val c) (put_port 14 (video_port_reg c) c))))"

definition is_ega :: "console \<Rightarrow> bool" where
  "is_ega c \<longleftrightarrow> video_type c = VIDEO_TYPE_EGAC \<or> video_type c = VIDEO_TYPE_EGAM"

text \<open>The number of longs of the rows of the scroll region but one.\<close>

definition region_longs :: "console \<Rightarrow> nat" where
  "region_longs c = unat (drop_bit 1 ((con_bottom c - con_top c - 1) * video_num_columns c))"

definition scrup_region :: "console \<Rightarrow> console" where
  "scrup_region c =
    (let di = origin c + video_size_row c * con_top c;
         si = origin c + video_size_row c * (con_top c + 1);
         n = region_longs c
     in c\<lparr>vmem := stosw (unat (video_num_columns c)) (di + 4 * of_nat n) (video_erase_char c)
                    (movsl n di si (vmem c))\<rparr>)"

definition scrup :: "console \<Rightarrow> console" where
  "scrup c =
    (if is_ega c \<and> con_top c = 0 \<and> con_bottom c = video_num_lines c then
       let c = c\<lparr>origin := origin c + video_size_row c, cursor_pos := cursor_pos c + video_size_row c,
                 scr_end := scr_end c + video_size_row c\<rparr>
       in set_origin
           (if scr_end c > video_mem_end c then
              let n = unat (drop_bit 1 ((video_num_lines c - 1) * video_num_columns c));
                  off = origin c - video_mem_start c
              in c\<lparr>vmem := stosw (unat (video_num_columns c)) (video_mem_start c + 4 * of_nat n) (video_erase_char c)
                              (movsl n (video_mem_start c) (origin c) (vmem c)),
                   scr_end := scr_end c - off, cursor_pos := cursor_pos c - off, origin := video_mem_start c\<rparr>
            else
              c\<lparr>vmem := stosw (unat (video_num_columns c)) (scr_end c - video_size_row c) (video_erase_char c) (vmem c)\<rparr>)
     else scrup_region c)"

text \<open>Both branches of the source are the same code.\<close>

definition scrdown :: "console \<Rightarrow> console" where
  "scrdown c =
    (let di = origin c + video_size_row c * con_bottom c - 4;
         si = origin c + video_size_row c * (con_bottom c - 1) - 4;
         n = region_longs c
     in c\<lparr>vmem := stosw_down (unat (video_num_columns c)) (di - 4 * of_nat n + 2) (video_erase_char c)
                    (movsl_down n di si (vmem c))\<rparr>)"

definition lf :: "console \<Rightarrow> console" where
  "lf c = (if con_y c + 1 < con_bottom c
           then c\<lparr>con_y := con_y c + 1, cursor_pos := cursor_pos c + video_size_row c\<rparr> else scrup c)"

definition ri :: "console \<Rightarrow> console" where
  "ri c = (if con_y c > con_top c
           then c\<lparr>con_y := con_y c - 1, cursor_pos := cursor_pos c - video_size_row c\<rparr> else scrdown c)"

definition cr :: "console \<Rightarrow> console" where
  "cr c = c\<lparr>cursor_pos := cursor_pos c - push_bit 1 (con_x c), con_x := 0\<rparr>"

definition del :: "console \<Rightarrow> console" where
  "del c = (if con_x c \<noteq> 0
            then c\<lparr>cursor_pos := cursor_pos c - 2, con_x := con_x c - 1,
                   vmem := (vmem c)(cursor_pos c - 2 := video_erase_char c)\<rparr> else c)"

section \<open>Erasing, inserting and deleting\<close>

definition csi_J :: "u32 \<Rightarrow> console \<Rightarrow> console" where
  "csi_J p c =
    (let erase = (\<lambda>count start. c\<lparr>vmem := stosw (unat (count :: u32)) start (video_erase_char c) (vmem c)\<rparr>)
     in if p = 0 then erase (drop_bit 1 (scr_end c - cursor_pos c)) (cursor_pos c)
        else if p = 1 then erase (drop_bit 1 (cursor_pos c - origin c)) (origin c)
        else if p = 2 then erase (video_num_columns c * video_num_lines c) (origin c)
        else c)"

definition csi_K :: "u32 \<Rightarrow> console \<Rightarrow> console" where
  "csi_K p c =
    (let erase = (\<lambda>count start. c\<lparr>vmem := stosw (unat (count :: u32)) start (video_erase_char c) (vmem c)\<rparr>);
         line = cursor_pos c - push_bit 1 (con_x c)
     in if p = 0 then
          (if con_x c \<ge> video_num_columns c then c else erase (video_num_columns c - con_x c) (cursor_pos c))
        else if p = 1 then erase (if con_x c < video_num_columns c then con_x c else video_num_columns c) line
        else if p = 2 then erase (video_num_columns c) line
        else c)"

definition attr_of :: "u32 \<Rightarrow> u8 \<Rightarrow> u8" where
  "attr_of p a =
    (if p = 0 then 0x07 else if p = 1 then 0x0f else if p = 4 then 0x0f else if p = 7 then 0x70
     else if p = 27 then 0x07 else a)"

definition csi_m :: "console \<Rightarrow> console" where
  "csi_m c = c\<lparr>con_attr := fold (\<lambda>i. attr_of (con_par c i)) [0..<Suc (con_npar c)] (con_attr c)\<rparr>"

text \<open>The cells from the cursor to the end of the line: \<open>tmp = *p; *p = old; old = tmp\<close>.\<close>

definition cells_left :: "console \<Rightarrow> nat" where
  "cells_left c = (if con_x c < video_num_columns c then unat (video_num_columns c - con_x c) else 0)"

definition insert_char :: "console \<Rightarrow> console" where
  "insert_char c =
    c\<lparr>vmem := fst (fold (\<lambda>k (m, old). let p = cursor_pos c + 2 * of_nat k in (m(p := old), m p))
                     [0..<cells_left c] (vmem c, video_erase_char c))\<rparr>"

definition delete_char :: "console \<Rightarrow> console" where
  "delete_char c =
    (if con_x c \<ge> video_num_columns c then c
     else
       let n = cells_left c - 1;
           m = fold (\<lambda>k m. let p = cursor_pos c + 2 * of_nat k in m(p := m (p + 2))) [0..<n] (vmem c)
       in c\<lparr>vmem := m(cursor_pos c + 2 * of_nat n := video_erase_char c)\<rparr>)"

definition insert_line :: "console \<Rightarrow> console" where
  "insert_line c =
    (scrdown (c\<lparr>con_top := con_y c, con_bottom := video_num_lines c\<rparr>))\<lparr>con_top := con_top c, con_bottom := con_bottom c\<rparr>"

definition delete_line :: "console \<Rightarrow> console" where
  "delete_line c =
    (scrup (c\<lparr>con_top := con_y c, con_bottom := video_num_lines c\<rparr>))\<lparr>con_top := con_top c, con_bottom := con_bottom c\<rparr>"

definition repeat_count :: "u32 \<Rightarrow> u32 \<Rightarrow> nat" where
  "repeat_count nr limit = unat (if nr > limit then limit else if nr = 0 then 1 else nr)"

definition csi_at :: "u32 \<Rightarrow> console \<Rightarrow> console" where
  "csi_at nr c = (insert_char ^^ repeat_count nr (video_num_columns c)) c"

definition csi_L :: "u32 \<Rightarrow> console \<Rightarrow> console" where
  "csi_L nr c = (insert_line ^^ repeat_count nr (video_num_lines c)) c"

definition csi_P :: "u32 \<Rightarrow> console \<Rightarrow> console" where
  "csi_P nr c = (delete_char ^^ repeat_count nr (video_num_columns c)) c"

definition csi_M :: "u32 \<Rightarrow> console \<Rightarrow> console" where
  "csi_M nr c = (delete_line ^^ repeat_count nr (video_num_lines c)) c"

definition save_cur :: "console \<Rightarrow> console" where
  "save_cur c = c\<lparr>saved_x := con_x c, saved_y := con_y c\<rparr>"

definition restore_cur :: "console \<Rightarrow> console" where
  "restore_cur c = gotoxy (saved_x c) (saved_y c) c"

section \<open>Characters and escape sequences\<close>

text \<open>State 0. \<open>erase\<close> is the erase character of the terminal; the bell (7) is left to the caller.\<close>

definition con_text :: "u8 \<Rightarrow> u8 \<Rightarrow> console \<Rightarrow> console" where
  "con_text erase ch c =
    (if 31 < ch \<and> ch < 127 then
       let c = (if con_x c \<ge> video_num_columns c
                then lf (c\<lparr>con_x := con_x c - video_num_columns c, cursor_pos := cursor_pos c - video_size_row c\<rparr>)
                else c)
       in c\<lparr>vmem := (vmem c)(cursor_pos c := push_bit 8 (ucast (con_attr c)) OR ucast ch),
            cursor_pos := cursor_pos c + 2, con_x := con_x c + 1\<rparr>
     else if ch = 27 then c\<lparr>con_state := 1\<rparr>
     else if ch = 10 \<or> ch = 11 \<or> ch = 12 then lf c
     else if ch = 13 then cr c
     else if ch = erase \<and> ch < 128 then del c
     else if ch = 8 then
       (if con_x c \<noteq> 0 then c\<lparr>con_x := con_x c - 1, cursor_pos := cursor_pos c - 2\<rparr> else c)
     else if ch = 9 then
       let d = 8 - (con_x c AND 7);
           c = c\<lparr>con_x := con_x c + d, cursor_pos := cursor_pos c + push_bit 1 d\<rparr>
       in if con_x c > video_num_columns c
          then lf (c\<lparr>con_x := con_x c - video_num_columns c, cursor_pos := cursor_pos c - video_size_row c\<rparr>)
          else c
     else c)"

text \<open>State 1, after an escape; \<open>Z\<close> is left to the caller. The last two tests look at the column \<open>x\<close>, not at
  the character.\<close>

definition con_escape :: "u8 \<Rightarrow> console \<Rightarrow> console" where
  "con_escape ch c =
    (let c = c\<lparr>con_state := 0\<rparr>
     in if ch = 91 then c\<lparr>con_state := 2\<rparr>
        else if ch = 69 then gotoxy 0 (con_y c + 1) c
        else if ch = 77 then ri c
        else if ch = 68 then lf c
        else if con_x c = 55 then save_cur c
        else if con_x c = 56 then restore_cur c
        else c)"

text \<open>State 4: the end of a control sequence, with its parameters.\<close>

definition least1 :: "u32 \<Rightarrow> u32" where "least1 p = (if p = 0 then 1 else p)"
definition less1 :: "u32 \<Rightarrow> u32" where "less1 p = (if p = 0 then 0 else p - 1)"

definition con_csi :: "u8 \<Rightarrow> console \<Rightarrow> console" where
  "con_csi ch c =
    (let c = c\<lparr>con_state := 0\<rparr>; p0 = con_par c 0; p1 = con_par c 1; x = con_x c; y = con_y c
     in if ch = 71 \<or> ch = 96 then gotoxy (less1 p0) y (c\<lparr>con_par := (con_par c)(0 := less1 p0)\<rparr>)
        else if ch = 65 then gotoxy x (y - least1 p0) (c\<lparr>con_par := (con_par c)(0 := least1 p0)\<rparr>)
        else if ch = 66 \<or> ch = 101 then gotoxy x (y + least1 p0) (c\<lparr>con_par := (con_par c)(0 := least1 p0)\<rparr>)
        else if ch = 67 \<or> ch = 97 then gotoxy (x + least1 p0) y (c\<lparr>con_par := (con_par c)(0 := least1 p0)\<rparr>)
        else if ch = 68 then gotoxy (x - least1 p0) y (c\<lparr>con_par := (con_par c)(0 := least1 p0)\<rparr>)
        else if ch = 69 then gotoxy 0 (y + least1 p0) (c\<lparr>con_par := (con_par c)(0 := least1 p0)\<rparr>)
        else if ch = 70 then gotoxy 0 (y - least1 p0) (c\<lparr>con_par := (con_par c)(0 := least1 p0)\<rparr>)
        else if ch = 100 then gotoxy x (less1 p0) (c\<lparr>con_par := (con_par c)(0 := less1 p0)\<rparr>)
        else if ch = 72 \<or> ch = 102 then
          gotoxy (less1 p1) (less1 p0) (c\<lparr>con_par := (con_par c)(0 := less1 p0, 1 := less1 p1)\<rparr>)
        else if ch = 74 then csi_J p0 c
        else if ch = 75 then csi_K p0 c
        else if ch = 76 then csi_L p0 c
        else if ch = 77 then csi_M p0 c
        else if ch = 80 then csi_P p0 c
        else if ch = 64 then csi_at p0 c
        else if ch = 109 then csi_m c
        else if ch = 114 then
          let p0 = less1 p0; p1 = (if p1 = 0 then video_num_lines c else p1);
              c = c\<lparr>con_par := (con_par c)(0 := p0, 1 := p1)\<rparr>
          in if p0 < p1 \<and> p1 \<le> video_num_lines c then c\<lparr>con_top := p0, con_bottom := p1\<rparr> else c
        else if ch = 115 then save_cur c
        else if ch = 117 then restore_cur c
        else c)"

text \<open>States 3 and 2: the parameters.\<close>

definition con_params :: "u8 \<Rightarrow> console \<Rightarrow> console" where
  "con_params ch c =
    (if ch = 59 \<and> con_npar c < NPAR - 1 then c\<lparr>con_npar := con_npar c + 1\<rparr>
     else if 48 \<le> ch \<and> ch \<le> 57 then
       c\<lparr>con_par := (con_par c)(con_npar c := 10 * con_par c (con_npar c) + ucast ch - 48)\<rparr>
     else con_csi ch c)"

definition con_bracket :: "u8 \<Rightarrow> console \<Rightarrow> console" where
  "con_bracket ch c =
    (let c = c\<lparr>con_par := (\<lambda>i. if i < NPAR then 0 else con_par c i), con_npar := 0, con_state := 3, con_ques := (ch = 63)\<rparr>
     in if ch = 63 then c else con_params ch c)"

definition con_step :: "u8 \<Rightarrow> u8 \<Rightarrow> console \<Rightarrow> console" where
  "con_step erase ch c =
    (if con_state c = 0 then con_text erase ch c
     else if con_state c = 1 then con_escape ch c
     else if con_state c = 2 then con_bracket ch c
     else if con_state c = 3 then con_params ch c
     else if con_state c = 4 then con_csi ch c
     else c)"

section \<open>Initialisation\<close>

text \<open>What \<open>setup.s\<close> left about the display.\<close>

record boot_video =
  ORIG_X :: u8
  ORIG_Y :: u8
  ORIG_VIDEO_PAGE :: u16
  ORIG_VIDEO_MODE :: u8
  ORIG_VIDEO_COLS :: u8
  ORIG_VIDEO_EGA_BX :: u16

definition ORIG_VIDEO_LINES :: u32 where "ORIG_VIDEO_LINES = 25"

definition put_desc :: "u8 list \<Rightarrow> u32 \<Rightarrow> (u32 \<Rightarrow> u16) \<Rightarrow> u32 \<Rightarrow> u16" where
  "put_desc desc a m = fold (\<lambda>k m. let p = a + 2 * of_nat k in m(p := (m p AND 0xff00) OR ucast (desc ! k))) [0..<length desc] m"

text \<open>\<open>con_init\<close> up to the interrupt set-up.\<close>

definition con_init :: "boot_video \<Rightarrow> console \<Rightarrow> console" where
  "con_init b c =
    (let mono = (ORIG_VIDEO_MODE b = 7); ega = (ORIG_VIDEO_EGA_BX b AND 0xff \<noteq> 0x10);
         start = (if mono then 0xb0000 else 0xb8000);
         c = c\<lparr>video_num_columns := ucast (ORIG_VIDEO_COLS b), video_size_row := ucast (ORIG_VIDEO_COLS b) * 2,
               video_num_lines := ORIG_VIDEO_LINES, video_page := ucast (ORIG_VIDEO_PAGE b), video_erase_char := 0x0720,
               video_mem_start := start,
               video_port_reg := (if mono then 0x3b4 else 0x3d4),
               video_port_val := (if mono then 0x3b5 else 0x3d5),
               video_type := (if mono then (if ega then VIDEO_TYPE_EGAM else VIDEO_TYPE_MDA)
                              else (if ega then VIDEO_TYPE_EGAC else VIDEO_TYPE_CGA)),
               video_mem_end := (if mono then (if ega then 0xb8000 else 0xb2000) else (if ega then 0xbc000 else 0xba000))\<rparr>;
         desc = (if mono then (if ega then [69, 71, 65, 109] else [42, 77, 68, 65])
                 else (if ega then [69, 71, 65, 99] else [42, 67, 71, 65]));
         c = c\<lparr>vmem := put_desc desc (start + video_size_row c - 8) (vmem c)\<rparr>;
         c = c\<lparr>origin := start, scr_end := start + video_num_lines c * video_size_row c,
               con_top := 0, con_bottom := video_num_lines c\<rparr>
     in gotoxy (ucast (ORIG_X b)) (ucast (ORIG_Y b)) c)"

section \<open>What the string instructions write\<close>

lemma unat_of_nat32: "n < 4294967296 \<Longrightarrow> unat (of_nat n :: u32) = n"
  by (simp add: unat_of_nat)

lemma word_neqI: "unat a \<noteq> k \<Longrightarrow> k < 4294967296 \<Longrightarrow> (a :: u32) \<noteq> of_nat k"
  using unat_of_nat32 by blast

lemma stosw_Suc: "stosw (Suc n) di v m = (stosw n di v m)(di + 2 * of_nat n := v)"
  by (simp add: stosw_def)

lemma stosw_frame:
  assumes "D + 2 * n \<le> 4294967296" "unat a < D \<or> D + 2 * n \<le> unat a"
  shows "stosw n (of_nat D) v m a = m a"
  using assms
proof (induction n)
  case (Suc n)
  have "a \<noteq> of_nat (D + 2 * n)"
    by (rule word_neqI) (use Suc.prems in auto)
  moreover have "stosw n (of_nat D) v m a = m a"
    by (rule Suc.IH) (use Suc.prems in auto)
  ultimately show ?case
    by (simp add: stosw_Suc)
qed (simp add: stosw_def)

lemma stosw_down_frame:
  assumes "2 * n \<le> D + 2" "D < 4294967296" "unat a + 2 * n < D + 2 \<or> D + 2 \<le> unat a"
  shows "stosw_down n (of_nat D) v m a = m a"
proof -
  have "fold (\<lambda>k m. m(of_nat D - 2 * of_nat k := v)) [0..<j] m a = m a" if "j \<le> n" for j
    using that
  proof (induction j)
    case (Suc j)
    have "of_nat D - 2 * of_nat j = (of_nat (D - 2 * j) :: u32)"
      using Suc.prems assms(1) by (simp add: of_nat_diff)
    moreover have "a \<noteq> of_nat (D - 2 * j)"
      by (rule word_neqI) (use Suc.prems assms in auto)
    ultimately show ?case
      using Suc by simp
  qed simp
  then show ?thesis
    by (simp add: stosw_down_def)
qed

lemma mov_long_frame: "a \<noteq> of_nat d \<Longrightarrow> a \<noteq> of_nat (d + 2) \<Longrightarrow> mov_long (of_nat d) si m a = m a"
  by (simp add: mov_long_def add.commute)

lemma movsl_frame:
  assumes "D + 4 * n \<le> 4294967296" "unat a < D \<or> D + 4 * n \<le> unat a"
  shows "movsl n (of_nat D) si m a = m a"
  using assms
proof (induction n)
  case (Suc n)
  have "mov_long (of_nat (D + 4 * n)) (si + 4 * of_nat n) (movsl n (of_nat D) si m) a = movsl n (of_nat D) si m a"
    by (rule mov_long_frame; rule word_neqI) (use Suc.prems in auto)
  moreover have "movsl n (of_nat D) si m a = m a"
    by (rule Suc.IH) (use Suc.prems in auto)
  ultimately show ?case
    by (simp add: movsl_def)
qed (simp add: movsl_def)

lemma movsl_down_frame:
  assumes "4 * n \<le> D + 4" "D + 4 \<le> 4294967296" "unat a + 4 * n < D + 4 \<or> D + 4 \<le> unat a"
  shows "movsl_down n (of_nat D) si m a = m a"
proof -
  have "fold (\<lambda>k. mov_long (of_nat D - 4 * of_nat k) (si - 4 * of_nat k)) [0..<j] m a = m a" if "j \<le> n" for j
    using that
  proof (induction j)
    case (Suc j)
    let ?m = "fold (\<lambda>k. mov_long (of_nat D - 4 * of_nat k) (si - 4 * of_nat k)) [0..<j] m"
    have "of_nat D - 4 * of_nat j = (of_nat (D - 4 * j) :: u32)"
      using Suc.prems assms(1) by (simp add: of_nat_diff)
    moreover have "mov_long (of_nat (D - 4 * j)) (si - 4 * of_nat j) ?m a = ?m a"
      by (rule mov_long_frame; rule word_neqI) (use Suc.prems assms in auto)
    ultimately show ?case
      using Suc by simp
  qed simp
  then show ?thesis
    by (simp add: movsl_down_def)
qed

section \<open>The invariant\<close>

definition con_ok :: "console \<Rightarrow> bool" where
  "con_ok c \<longleftrightarrow>
    8 \<le> unat (video_num_columns c) \<and> unat (video_num_columns c) < 256
    \<and> unat (video_num_lines c) < 256
    \<and> video_size_row c = 2 * video_num_columns c
    \<and> con_x c \<le> video_num_columns c \<and> con_y c < video_num_lines c
    \<and> con_top c < con_bottom c \<and> con_bottom c \<le> video_num_lines c
    \<and> video_mem_start c \<le> origin c
    \<and> unat (origin c) + 2 * unat (video_num_columns c) * unat (video_num_lines c) \<le> unat (video_mem_end c)
    \<and> unat (video_mem_end c) \<le> 0x100000
    \<and> cursor_pos c = origin c + con_y c * video_size_row c + 2 * con_x c
    \<and> scr_end c = origin c + video_num_lines c * video_size_row c
    \<and> con_npar c < NPAR"

text \<open>\<open>c'\<close> keeps the invariant and the place of the video memory, and differs from \<open>c\<close> in no cell outside it.\<close>

definition con_safe :: "console \<Rightarrow> console \<Rightarrow> bool" where
  "con_safe c c' \<longleftrightarrow> con_ok c' \<and> video_mem_start c' = video_mem_start c \<and> video_mem_end c' = video_mem_end c
    \<and> (\<forall>a. a < video_mem_start c \<or> video_mem_end c \<le> a \<longrightarrow> vmem c' a = vmem c a)"

lemma con_safe_refl: "con_ok c \<Longrightarrow> con_safe c c"
  by (simp add: con_safe_def)

lemma con_safe_trans: "con_safe a b \<Longrightarrow> con_safe b c \<Longrightarrow> con_safe a c"
  by (simp add: con_safe_def)

text \<open>The same in natural numbers.\<close>

lemma con_nat:
  assumes "con_ok c"
  obtains C L X Y T B Org S E where
    "video_num_columns c = of_nat C" "video_num_lines c = of_nat L" "con_x c = of_nat X" "con_y c = of_nat Y"
    "con_top c = of_nat T" "con_bottom c = of_nat B" "origin c = of_nat Org" "video_mem_start c = of_nat S"
    "video_mem_end c = of_nat E"
    "8 \<le> C" "C < 256" "L < 256" "X \<le> C" "Y < L" "T < B" "B \<le> L" "S \<le> Org" "Org + 2 * C * L \<le> E" "E \<le> 0x100000"
    "video_size_row c = of_nat (2 * C)" "cursor_pos c = of_nat (Org + 2 * C * Y + 2 * X)"
    "scr_end c = of_nat (Org + 2 * C * L)" "con_npar c < 16"
proof -
  note ok = assms [unfolded con_ok_def NPAR_def]
  show ?thesis
    by (rule that [of "unat (video_num_columns c)" "unat (video_num_lines c)" "unat (con_x c)" "unat (con_y c)"
          "unat (con_top c)" "unat (con_bottom c)" "unat (origin c)" "unat (video_mem_start c)" "unat (video_mem_end c)"])
       (use ok in \<open>simp_all add: word_le_nat_alt word_less_nat_alt mult_ac\<close>)
qed

lemma con_okI:
  assumes "video_num_columns c = of_nat C" "video_num_lines c = of_nat L" "con_x c = of_nat X" "con_y c = of_nat Y"
    "con_top c = of_nat T" "con_bottom c = of_nat B" "origin c = of_nat Org" "video_mem_start c = of_nat S"
    "video_mem_end c = of_nat E"
    "8 \<le> C" "C < 256" "L < 256" "X \<le> C" "Y < L" "T < B" "B \<le> L" "S \<le> Org" "Org + 2 * C * L \<le> E" "E \<le> 0x100000"
    "video_size_row c = of_nat (2 * C)" "cursor_pos c = of_nat (Org + 2 * C * Y + 2 * X)"
    "scr_end c = of_nat (Org + 2 * C * L)" "con_npar c < 16"
  shows "con_ok c"
proof -
  have u: "unat (of_nat n :: u32) = n" if "n \<le> 0x100000" for n
    using that by (simp add: unat_of_nat)
  have "Org \<le> E"
    using assms(18) by simp
  then have "unat (of_nat Org :: u32) = Org" "unat (of_nat S :: u32) = S" "unat (of_nat E :: u32) = E"
    "unat (of_nat C :: u32) = C" "unat (of_nat L :: u32) = L" "unat (of_nat X :: u32) = X" "unat (of_nat Y :: u32) = Y"
    "unat (of_nat T :: u32) = T" "unat (of_nat B :: u32) = B"
    using assms by (intro u; simp)+
  then show ?thesis
    using assms by (simp add: con_ok_def NPAR_def word_le_nat_alt word_less_nat_alt mult_ac)
qed

section \<open>Every operation is safe\<close>

lemma con_ok_upd [simp]:
  "con_ok (c\<lparr>vmem := m\<rparr>) = con_ok c" "con_ok (c\<lparr>con_out := o'\<rparr>) = con_ok c" "con_ok (c\<lparr>con_state := n\<rparr>) = con_ok c"
  "con_ok (c\<lparr>con_par := p\<rparr>) = con_ok c" "con_ok (c\<lparr>con_attr := at\<rparr>) = con_ok c" "con_ok (c\<lparr>con_ques := q\<rparr>) = con_ok c"
  "con_ok (c\<lparr>saved_x := x, saved_y := y\<rparr>) = con_ok c"
  by (simp_all add: con_ok_def)

lemma con_safe_upd [simp]:
  "con_safe c (d\<lparr>con_out := o'\<rparr>) = con_safe c d" "con_safe c (d\<lparr>con_state := n\<rparr>) = con_safe c d"
  "con_safe c (d\<lparr>con_par := p\<rparr>) = con_safe c d" "con_safe c (d\<lparr>con_attr := at\<rparr>) = con_safe c d"
  "con_safe c (d\<lparr>con_ques := q\<rparr>) = con_safe c d"
  "con_safe c (d\<lparr>saved_x := x, saved_y := y\<rparr>) = con_safe c d"
  "con_safe (c\<lparr>con_state := n\<rparr>) d = con_safe c d" "con_safe (c\<lparr>con_par := p\<rparr>) d = con_safe c d"
  by (simp_all add: con_safe_def)

lemma con_safe_vmem:
  assumes "con_ok c" "\<And>a. unat a < unat (video_mem_start c) \<or> unat (video_mem_end c) \<le> unat a \<Longrightarrow> m a = vmem c a"
  shows "con_safe c (c\<lparr>vmem := m\<rparr>)"
  using assms by (auto simp: con_safe_def word_less_nat_alt word_le_nat_alt)

lemma push_bit_1: "push_bit 1 (x :: u32) = 2 * x"
  by (simp add: push_bit_eq_mult)

lemma word_succ_le: "(x :: u32) < y \<Longrightarrow> x + 1 \<le> y"
  by (rule inc_le)

lemma gotoxy_safe: "con_ok c \<Longrightarrow> con_safe c (gotoxy x y c)"
  by (simp add: gotoxy_def con_safe_def con_ok_def push_bit_1 not_less not_le)

lemma put_port_safe [simp]: "con_safe c (put_port v p d) = con_safe c d" "con_ok (put_port v p d) = con_ok d"
  by (simp_all add: put_port_def)

lemma set_origin_safe [simp]: "con_safe c (set_origin d) = con_safe c d"
  by (simp add: set_origin_def Let_def)

lemma set_cursor_safe [simp]: "con_safe c (set_cursor d) = con_safe c d"
  by (simp add: set_cursor_def Let_def)

lemma cr_safe: "con_ok c \<Longrightarrow> con_safe c (cr c)"
  by (simp add: cr_def con_safe_def con_ok_def push_bit_1)

lemma four_halves: "4 * (k div 2) \<le> 2 * (k :: nat)"
  by simp

lemma unat_half: "k < 4294967296 \<Longrightarrow> unat (drop_bit 1 (of_nat k :: u32)) = k div 2"
  by (simp add: drop_bit_eq_div unat_div_distrib unat_of_nat)

text \<open>The longs of a region of \<open>n + 1\<close> rows.\<close>

lemma rows_longs:
  assumes "T < B" "B < 256" "C < 256"
  shows "unat (drop_bit 1 ((of_nat B - of_nat T - 1) * of_nat C :: u32)) = ((B - T - 1) * C) div 2"
proof -
  obtain d where d: "B = Suc (T + d)"
    using less_imp_Suc_add [OF assms(1)] by auto
  have "(of_nat B - of_nat T - 1) * of_nat C = (of_nat ((B - T - 1) * C) :: u32)"
    by (simp add: d)
  moreover have "(B - T - 1) * C \<le> 256 * 256"
    using assms by (intro mult_le_mono) auto
  ultimately show ?thesis
    by (simp only: unat_half)
qed

lemma scrup_region_safe:
  assumes "con_ok c"
  shows "con_safe c (scrup_region c)"
  using assms
proof (rule con_nat)
  fix C L X Y T B Org S E
  assume c: "video_num_columns c = of_nat C" "video_num_lines c = of_nat L" "con_x c = of_nat X" "con_y c = of_nat Y"
    "con_top c = of_nat T" "con_bottom c = of_nat B" "origin c = of_nat Org" "video_mem_start c = of_nat S"
    "video_mem_end c = of_nat E" "video_size_row c = of_nat (2 * C)"
    and b: "8 \<le> C" "C < 256" "L < 256" "T < B" "B \<le> L" "S \<le> Org" "Org + 2 * C * L \<le> E" "E \<le> 0x100000"
  let ?k = "((B - T - 1) * C) div 2" and ?D = "Org + 2 * C * T"
  obtain d where d: "B = Suc (T + d)"
    using less_imp_Suc_add [OF b(4)] by auto
  have n: "region_longs c = ?k"
    using rows_longs [of T B C] b by (simp add: region_longs_def c)
  have k: "?D + 4 * ?k + 2 * C \<le> Org + 2 * C * B"
    using four_halves [of "(B - T - 1) * C"] by (simp add: d algebra_simps)
  also have "\<dots> \<le> Org + 2 * C * L"
    using b(5) by simp
  finally have hi: "?D + 4 * ?k + 2 * C \<le> E"
    using b(7) by simp
  have D: "origin c + video_size_row c * con_top c = of_nat ?D"
    by (simp add: c)
  have u: "unat (of_nat S :: u32) = S" "unat (of_nat E :: u32) = E" "unat (of_nat C :: u32) = C"
    using b hi by (auto intro!: unat_of_nat32)
  show ?thesis
    unfolding scrup_region_def Let_def n D
  proof (rule con_safe_vmem [OF assms], unfold c u)
    fix a :: u32
    assume "unat a < S \<or> E \<le> unat a"
    then have "unat a < ?D + 4 * ?k \<or> ?D + 4 * ?k + 2 * C \<le> unat a" "unat a < ?D \<or> ?D + 4 * ?k \<le> unat a"
      using b(6) hi by auto
    then show "stosw C (of_nat ?D + 4 * of_nat ?k) (video_erase_char c)
        (movsl ?k (of_nat ?D) (of_nat Org + of_nat (2 * C) * (of_nat T + 1)) (vmem c)) a = vmem c a"
      using stosw_frame [of "?D + 4 * ?k" C a] movsl_frame [of ?D ?k a] hi b(8) by simp
  qed
qed

lemma scrup_origin_safe:
  assumes "con_ok c" and full: "con_top c = 0" "con_bottom c = video_num_lines c" "is_ega c"
  shows "con_safe c (scrup c)"
  using assms(1)
proof (rule con_nat)
  fix C L X Y T B Org S E
  assume c: "video_num_columns c = of_nat C" "video_num_lines c = of_nat L" "con_x c = of_nat X" "con_y c = of_nat Y"
    "con_top c = of_nat T" "con_bottom c = of_nat B" "origin c = of_nat Org" "video_mem_start c = of_nat S"
    "video_mem_end c = of_nat E" "video_size_row c = of_nat (2 * C)" "cursor_pos c = of_nat (Org + 2 * C * Y + 2 * X)"
    "scr_end c = of_nat (Org + 2 * C * L)"
    and b: "8 \<le> C" "C < 256" "L < 256" "X \<le> C" "Y < L" "T < B" "B \<le> L" "S \<le> Org" "Org + 2 * C * L \<le> E" "E \<le> 0x100000"
      "con_npar c < 16"
  have big: "Org + 2 * C * L + 2 * C < 4294967296" "S \<le> E" "S + 2 * C * L \<le> E"
    using b by linarith+
  have u: "unat (of_nat S :: u32) = S" "unat (of_nat E :: u32) = E" "unat (of_nat C :: u32) = C"
    "unat (of_nat (Org + 2 * C * L + 2 * C) :: u32) = Org + 2 * C * L + 2 * C"
    using b big by (intro unat_of_nat32; simp)+
  define d where "d = c\<lparr>origin := origin c + video_size_row c, cursor_pos := cursor_pos c + video_size_row c,
                 scr_end := scr_end c + video_size_row c\<rparr>"
  have end': "scr_end c + video_size_row c = of_nat (Org + 2 * C * L + 2 * C)"
    by (simp add: c)
  show ?thesis
  proof (cases "scr_end d > video_mem_end d")
    case False
    then have le: "Org + 2 * C * L + 2 * C \<le> E"
      using u by (simp add: d_def end' c word_less_nat_alt not_less)
    have "con_ok d"
      by (rule con_okI [of d C L X Y T B "Org + 2 * C" S E]) (use c b le in \<open>simp_all add: d_def algebra_simps\<close>)
    moreover have "stosw C (of_nat (Org + 2 * C * L)) v (vmem c) a = vmem c a"
      if "unat a < S \<or> E \<le> unat a" for v a
      by (rule stosw_frame) (use that le b big in auto)
    ultimately show ?thesis
      using False u
      by (simp add: scrup_def full Let_def d_def [symmetric])
         (simp add: d_def con_safe_def c word_less_nat_alt word_le_nat_alt full)
  next
    case True
    let ?n = "((L - 1) * C) div 2"
    have n: "unat (drop_bit 1 ((video_num_lines d - 1) * video_num_columns d)) = ?n"
      using rows_longs [of 0 L C] b by (simp add: d_def c)
    obtain k where k: "L = Suc k"
      using b by (cases L) auto
    have hi: "S + 4 * ?n + 2 * C \<le> E"
      using four_halves [of "(L - 1) * C"] big(3) by (simp add: k algebra_simps)
    have "con_ok (d\<lparr>vmem := m, scr_end := scr_end d - (origin d - video_mem_start d),
        cursor_pos := cursor_pos d - (origin d - video_mem_start d), origin := video_mem_start d\<rparr>)" for m
      by (rule con_okI [of _ C L X Y T B S S E]) (use c b big in \<open>simp_all add: d_def algebra_simps\<close>)
    moreover have "stosw C (of_nat S + 4 * of_nat ?n) v (movsl ?n (of_nat S) si (vmem c)) a = vmem c a"
      if "unat a < S \<or> E \<le> unat a" for v si a
    proof -
      have "unat a < S + 4 * ?n \<or> S + 4 * ?n + 2 * C \<le> unat a" "unat a < S \<or> S + 4 * ?n \<le> unat a"
        using that hi by auto
      then show ?thesis
        using stosw_frame [of "S + 4 * ?n" C a] movsl_frame [of S ?n a] hi b(10) by simp
    qed
    ultimately show ?thesis
      using True u n
      by (simp add: scrup_def full Let_def d_def [symmetric])
         (simp add: d_def con_safe_def c word_less_nat_alt word_le_nat_alt full)
  qed
qed

lemma scrup_safe: "con_ok c \<Longrightarrow> con_safe c (scrup c)"
  by (cases "is_ega c \<and> con_top c = 0 \<and> con_bottom c = video_num_lines c")
     (auto simp: scrup_origin_safe, auto simp: scrup_def scrup_region_safe)

lemma scrdown_safe:
  assumes "con_ok c"
  shows "con_safe c (scrdown c)"
  using assms
proof (rule con_nat)
  fix C L X Y T B Org S E
  assume c: "video_num_columns c = of_nat C" "video_num_lines c = of_nat L" "con_x c = of_nat X" "con_y c = of_nat Y"
    "con_top c = of_nat T" "con_bottom c = of_nat B" "origin c = of_nat Org" "video_mem_start c = of_nat S"
    "video_mem_end c = of_nat E" "video_size_row c = of_nat (2 * C)"
    and b: "8 \<le> C" "C < 256" "L < 256" "T < B" "B \<le> L" "S \<le> Org" "Org + 2 * C * L \<le> E" "E \<le> 0x100000"
  let ?k = "((B - T - 1) * C) div 2" and ?H = "Org + 2 * C * B"
  obtain d where d: "B = Suc (T + d)"
    using less_imp_Suc_add [OF b(4)] by auto
  have n: "region_longs c = ?k"
    using rows_longs [of T B C] b by (simp add: region_longs_def c)
  have lo: "Org + 4 * ?k + 2 * C \<le> ?H"
    using four_halves [of "(B - T - 1) * C"] by (simp add: d algebra_simps)
  have "?H \<le> Org + 2 * C * L"
    using b(5) by simp
  then have hi: "?H \<le> E"
    using b(7) by (rule order_trans)
  have D: "origin c + video_size_row c * con_bottom c - 4 = of_nat (?H - 4)"
    "of_nat (?H - 4) - 4 * of_nat ?k + 2 = (of_nat (?H - 4 * ?k - 2) :: u32)"
    using lo b(1) by (simp_all add: c of_nat_diff)
  have u: "unat (of_nat S :: u32) = S" "unat (of_nat E :: u32) = E" "unat (of_nat C :: u32) = C"
    using b hi by (auto intro!: unat_of_nat32)
  show ?thesis
    unfolding scrdown_def Let_def n D
  proof (rule con_safe_vmem [OF assms], unfold c u)
    fix a :: u32
    assume "unat a < S \<or> E \<le> unat a"
    then have "unat a + 4 * ?k < ?H \<or> ?H \<le> unat a" "unat a + 2 * C < ?H - 4 * ?k \<or> ?H - 4 * ?k \<le> unat a"
      using b(6) hi lo by auto
    then have "stosw_down C (of_nat (?H - 4 * ?k - 2)) v m a = m a" "movsl_down ?k (of_nat (?H - 4)) si m a = m a" for v m si
      by (rule_tac [2] movsl_down_frame, rule_tac stosw_down_frame) (use hi lo b(1,8) in linarith)+
    then show "stosw_down C (of_nat (?H - 4 * ?k - 2)) (video_erase_char c)
        (movsl_down ?k (of_nat (?H - 4)) (of_nat Org + of_nat (2 * C) * (of_nat B - 1) - 4) (vmem c)) a = vmem c a"
      by (simp only:)
  qed
qed

lemma lf_safe: "con_ok c \<Longrightarrow> con_safe c (lf c)"
proof (cases "con_y c + 1 < con_bottom c")
  case True
  assume ok: "con_ok c"
  have "con_y c + 1 < video_num_lines c"
    using True ok unfolding con_ok_def by (blast intro: less_le_trans)
  then show ?thesis
    using True ok by (simp add: lf_def con_safe_def con_ok_def algebra_simps)
qed (simp add: lf_def scrup_safe)

lemma ri_safe: "con_ok c \<Longrightarrow> con_safe c (ri c)"
proof (cases "con_y c > con_top c")
  case True
  assume ok: "con_ok c"
  have "con_y c \<noteq> 0"
    using True by auto
  then have "con_y c - 1 < con_y c"
    by (simp add: word_less_nat_alt unat_minus_one unat_gt_0)
  then have "con_y c - 1 < video_num_lines c"
    using ok unfolding con_ok_def by (blast intro: less_trans)
  then show ?thesis
    using True ok by (simp add: ri_def con_safe_def con_ok_def algebra_simps)
qed (simp add: ri_def scrdown_safe)

text \<open>A run of cells that lies in the video memory.\<close>

lemma stosw_run_safe:
  assumes "con_ok c" "unat (video_mem_start c) \<le> D" "D + 2 * n \<le> unat (video_mem_end c)"
  shows "con_safe c (c\<lparr>vmem := stosw n (of_nat D) v (vmem c)\<rparr>)"
proof (rule con_safe_vmem [OF assms(1)])
  fix a :: u32
  assume a: "unat a < unat (video_mem_start c) \<or> unat (video_mem_end c) \<le> unat a"
  have "unat (video_mem_end c) \<le> 0x100000"
    using assms(1) by (simp add: con_ok_def)
  then show "stosw n (of_nat D) v (vmem c) a = vmem c a"
    using stosw_frame [of D n a] a assms by auto
qed

text \<open>The row of the cursor.\<close>

lemma row_bound:
  assumes "Y < L" "Org + 2 * C * L \<le> E"
  shows "Org + 2 * C * Y + 2 * C \<le> (E :: nat)"
proof -
  have "2 * C * Y + 2 * C = 2 * C * (Y + 1)"
    by simp
  also have "\<dots> \<le> 2 * C * L"
    using assms(1) by (intro mult_le_mono) auto
  finally show ?thesis
    using assms(2) by linarith
qed

lemma del_safe:
  assumes "con_ok c"
  shows "con_safe c (del c)"
  using assms
proof (rule con_nat)
  fix C L X Y T B Org S E
  assume c: "video_num_columns c = of_nat C" "video_num_lines c = of_nat L" "con_x c = of_nat X" "con_y c = of_nat Y"
    "con_top c = of_nat T" "con_bottom c = of_nat B" "origin c = of_nat Org" "video_mem_start c = of_nat S"
    "video_mem_end c = of_nat E" "video_size_row c = of_nat (2 * C)" "cursor_pos c = of_nat (Org + 2 * C * Y + 2 * X)"
    "scr_end c = of_nat (Org + 2 * C * L)"
    and b: "8 \<le> C" "C < 256" "L < 256" "X \<le> C" "Y < L" "T < B" "B \<le> L" "S \<le> Org" "Org + 2 * C * L \<le> E" "E \<le> 0x100000"
      "con_npar c < 16"
  have row: "Org + 2 * C * Y + 2 * C \<le> E"
    by (rule row_bound [OF b(5,9)])
  have u: "unat (of_nat S :: u32) = S" "unat (of_nat E :: u32) = E"
    using b row by (intro unat_of_nat32; simp)+
  show ?thesis
  proof (cases "con_x c = 0")
    case False
    then have X: "0 < X"
      using c(3) by (cases X) auto
    let ?D = "Org + 2 * C * Y + 2 * X - 2"
    have D: "cursor_pos c - 2 = of_nat ?D"
      using X by (simp add: c of_nat_diff)
    have "vmem c a = ((vmem c)(of_nat ?D := video_erase_char c)) a" if "unat a < S \<or> E \<le> unat a" for a
    proof -
      have "a \<noteq> of_nat ?D"
        by (rule word_neqI) (use that b row X in auto)
      then show ?thesis
        by simp
    qed
    moreover have "con_ok (c\<lparr>cursor_pos := cursor_pos c - 2, con_x := con_x c - 1, vmem := m\<rparr>)" for m
      by (rule con_okI [of _ C L "X - 1" Y T B Org S E])
         (use c b X in \<open>simp_all add: of_nat_diff algebra_simps\<close>)
    ultimately show ?thesis
      using False u by (simp add: del_def D con_safe_def c(8,9) word_less_nat_alt word_le_nat_alt)
  qed (simp add: del_def assms con_safe_refl)
qed

lemma csi_J_safe:
  assumes "con_ok c"
  shows "con_safe c (csi_J p c)"
  using assms
proof (rule con_nat)
  fix C L X Y T B Org S E
  assume c: "video_num_columns c = of_nat C" "video_num_lines c = of_nat L" "con_x c = of_nat X" "con_y c = of_nat Y"
    "origin c = of_nat Org" "video_mem_start c = of_nat S"
    "video_mem_end c = of_nat E" "cursor_pos c = of_nat (Org + 2 * C * Y + 2 * X)" "scr_end c = of_nat (Org + 2 * C * L)"
    and b: "C < 256" "L < 256" "X \<le> C" "Y < L" "S \<le> Org" "Org + 2 * C * L \<le> E" "E \<le> 0x100000"
  have row: "Org + 2 * C * Y + 2 * C \<le> Org + 2 * C * L"
    by (rule row_bound [OF b(4) le_refl])
  have u: "unat (of_nat S :: u32) = S" "unat (of_nat E :: u32) = E"
    using b row by (intro unat_of_nat32; simp)+
  have small: "2 * C * L \<le> 0x100000"
    using b by linarith
  have "scr_end c - cursor_pos c = of_nat (2 * (C * L - C * Y - X))"
    using row b(3) by (simp add: c of_nat_diff algebra_simps)
  then have n0: "unat (drop_bit 1 (scr_end c - cursor_pos c)) = C * L - C * Y - X"
    using small by (simp only: unat_half)
  have "cursor_pos c - origin c = of_nat (2 * (C * Y + X))"
    by (simp add: c algebra_simps)
  moreover have "2 * (C * Y + X) < 4294967296"
    using row b(3,6,7) by (simp add: algebra_simps)
  ultimately have n1: "unat (drop_bit 1 (cursor_pos c - origin c)) = C * Y + X"
    using unat_half [of "2 * (C * Y + X)"] by simp
  have "unat (of_nat (C * L) :: u32) = C * L"
    using small by (intro unat_of_nat32) simp
  then have n2: "unat (video_num_columns c * video_num_lines c) = C * L"
    by (simp add: c)
  have fits: "Org + 2 * C * Y + 2 * X + 2 * (C * L - C * Y - X) \<le> E" "Org + 2 * (C * Y + X) \<le> E" "Org + 2 * (C * L) \<le> E"
    using row b(3,6) by (auto simp: algebra_simps)
  show ?thesis
    unfolding csi_J_def Let_def n0 n1 n2
    using stosw_run_safe [OF assms, of "Org + 2 * C * Y + 2 * X" "C * L - C * Y - X"]
      stosw_run_safe [OF assms, of Org] fits b(5) assms
    unfolding c u by (auto simp: con_safe_refl)
qed

lemma csi_K_safe:
  assumes "con_ok c"
  shows "con_safe c (csi_K p c)"
  using assms
proof (rule con_nat)
  fix C L X Y T B Org S E
  assume c: "video_num_columns c = of_nat C" "video_num_lines c = of_nat L" "con_x c = of_nat X" "con_y c = of_nat Y"
    "origin c = of_nat Org" "video_mem_start c = of_nat S"
    "video_mem_end c = of_nat E" "cursor_pos c = of_nat (Org + 2 * C * Y + 2 * X)"
    and b: "C < 256" "L < 256" "X \<le> C" "Y < L" "S \<le> Org" "Org + 2 * C * L \<le> E" "E \<le> 0x100000"
  have row: "Org + 2 * C * Y + 2 * C \<le> E"
    by (rule row_bound [OF b(4,6)])
  have u: "unat (of_nat S :: u32) = S" "unat (of_nat E :: u32) = E" "unat (of_nat C :: u32) = C" "unat (of_nat X :: u32) = X"
    using b row by (intro unat_of_nat32; simp)+
  have "(of_nat C - of_nat X :: u32) = of_nat (C - X)"
    using b(3) by (simp add: of_nat_diff)
  moreover have "unat (of_nat (C - X) :: u32) = C - X"
    using b(1) by (intro unat_of_nat32) simp
  ultimately have n0: "unat (of_nat C - of_nat X :: u32) = C - X"
    by simp
  have line: "cursor_pos c - push_bit 1 (con_x c) = of_nat (Org + 2 * C * Y)"
    by (simp add: c push_bit_1)
  have n1: "unat (if con_x c < video_num_columns c then con_x c else video_num_columns c) = X"
    using b(3) u by (auto simp: c word_less_nat_alt)
  show ?thesis
    unfolding csi_K_def Let_def line n1
    using stosw_run_safe [OF assms, of "Org + 2 * C * Y + 2 * X" "C - X"]
      stosw_run_safe [OF assms, of "Org + 2 * C * Y" X] stosw_run_safe [OF assms, of "Org + 2 * C * Y" C] row b(3,5) assms
    unfolding c u n0 by (auto simp: con_safe_refl)
qed

lemma insert_cells_frame:
  assumes "\<And>k. k < n \<Longrightarrow> a \<noteq> p + 2 * of_nat k"
  shows "fst (fold (\<lambda>k (m, old). let q = p + 2 * of_nat k in (m(q := old), m q)) [0..<n] (m, v)) a = m a"
  using assms by (induction n) (auto simp: Let_def split: prod.splits)

lemma delete_cells_frame:
  assumes "\<And>k. k < n \<Longrightarrow> a \<noteq> p + 2 * of_nat k"
  shows "fold (\<lambda>k m. let q = p + 2 * of_nat k in m(q := m (q + 2))) [0..<n] m a = m a"
  using assms by (induction n) (auto simp: Let_def)

lemma cells_left_apart:
  assumes "con_ok c" "k < cells_left c" "unat a < unat (video_mem_start c) \<or> unat (video_mem_end c) \<le> unat a"
  shows "a \<noteq> cursor_pos c + 2 * of_nat k"
  using assms(1)
proof (rule con_nat)
  fix C L X Y T B Org S E
  assume c: "video_num_columns c = of_nat C" "video_num_lines c = of_nat L" "con_x c = of_nat X" "con_y c = of_nat Y"
    "origin c = of_nat Org" "video_mem_start c = of_nat S"
    "video_mem_end c = of_nat E" "cursor_pos c = of_nat (Org + 2 * C * Y + 2 * X)"
    and b: "C < 256" "L < 256" "X \<le> C" "Y < L" "S \<le> Org" "Org + 2 * C * L \<le> E" "E \<le> 0x100000"
  have row: "Org + 2 * C * Y + 2 * C \<le> E"
    by (rule row_bound [OF b(4,6)])
  have u: "unat (of_nat S :: u32) = S" "unat (of_nat E :: u32) = E" "unat (of_nat C :: u32) = C" "unat (of_nat X :: u32) = X"
    using b row by (intro unat_of_nat32; simp)+
  have "(of_nat C - of_nat X :: u32) = of_nat (C - X)"
    using b(3) by (simp add: of_nat_diff)
  moreover have "unat (of_nat (C - X) :: u32) = C - X"
    using b(1) by (intro unat_of_nat32) simp
  ultimately have "unat (of_nat C - of_nat X :: u32) = C - X"
    by simp
  then have k: "X + k < C"
    using assms(2) u by (simp add: cells_left_def c word_less_nat_alt split: if_splits)
  have "a \<noteq> of_nat (Org + 2 * C * Y + 2 * X + 2 * k)"
    by (rule word_neqI) (use assms(3) k row b(5,7) in \<open>auto simp: c u\<close>)
  then show ?thesis
    by (simp add: c)
qed

lemma insert_char_safe: "con_ok c \<Longrightarrow> con_safe c (insert_char c)"
  unfolding insert_char_def
  by (rule con_safe_vmem, assumption, rule insert_cells_frame, rule cells_left_apart)

lemma delete_char_safe:
  assumes "con_ok c"
  shows "con_safe c (delete_char c)"
proof (cases "con_x c \<ge> video_num_columns c")
  case False
  then have "0 < unat (video_num_columns c - con_x c)"
    by (simp add: unat_gt_0)
  then have n: "0 < cells_left c"
    using False by (simp add: cells_left_def)
  have "((fold (\<lambda>k m. let p = cursor_pos c + 2 * of_nat k in m(p := m (p + 2))) [0..<cells_left c - 1] (vmem c))
      (cursor_pos c + 2 * of_nat (cells_left c - 1) := v)) a = vmem c a"
    if "unat a < unat (video_mem_start c) \<or> unat (video_mem_end c) \<le> unat a" for a v
  proof -
    have "a \<noteq> cursor_pos c + 2 * of_nat (cells_left c - 1)"
      by (rule cells_left_apart [OF assms _ that]) (use n in simp)
    moreover have "a \<noteq> cursor_pos c + 2 * of_nat k" if k: "k < cells_left c - 1" for k
      by (rule cells_left_apart [OF assms _ \<open>unat a < _ \<or> _\<close>]) (use k in simp)
    ultimately show ?thesis
      using delete_cells_frame [of "cells_left c - 1" a "cursor_pos c"] by simp
  qed
  then show ?thesis
    using False assms by (simp add: delete_char_def Let_def con_safe_vmem)
qed (simp add: delete_char_def assms con_safe_refl)

text \<open>\<open>insert_line\<close> and \<open>delete_line\<close> scroll with another region for a moment.\<close>

lemma con_safe_region:
  assumes ok: "con_ok c" and safe: "\<And>d. con_ok d \<Longrightarrow> con_safe d (f d)"
    and lines: "\<And>d. video_num_lines (f d) = video_num_lines d"
  shows "con_safe c ((f (c\<lparr>con_top := con_y c, con_bottom := video_num_lines c\<rparr>))\<lparr>con_top := con_top c, con_bottom := con_bottom c\<rparr>)"
proof -
  let ?d = "c\<lparr>con_top := con_y c, con_bottom := video_num_lines c\<rparr>"
  have "con_ok ?d"
    using ok by (simp add: con_ok_def)
  then have "con_safe ?d (f ?d)"
    by (rule safe)
  then show ?thesis
    using ok lines [of ?d] unfolding con_safe_def con_ok_def by auto
qed

lemma scroll_lines [simp]: "video_num_lines (scrup c) = video_num_lines c" "video_num_lines (scrdown c) = video_num_lines c"
  by (simp_all add: scrup_def scrup_region_def scrdown_def set_origin_def put_port_def Let_def)

lemma insert_line_safe: "con_ok c \<Longrightarrow> con_safe c (insert_line c)"
  unfolding insert_line_def by (rule con_safe_region) (simp_all add: scrdown_safe)

lemma delete_line_safe: "con_ok c \<Longrightarrow> con_safe c (delete_line c)"
  unfolding delete_line_def by (rule con_safe_region) (simp_all add: scrup_safe)

lemma con_safe_funpow:
  assumes "\<And>d. con_ok d \<Longrightarrow> con_safe d (f d)" "con_ok c"
  shows "con_safe c ((f ^^ n) c)"
proof (induction n)
  case (Suc n)
  then have "con_ok ((f ^^ n) c)"
    by (simp add: con_safe_def)
  then have "con_safe ((f ^^ n) c) (f ((f ^^ n) c))"
    by (rule assms(1))
  with Suc show ?case
    using con_safe_trans by fastforce
qed (simp add: assms(2) con_safe_refl)

lemmas con_safe_intros = gotoxy_safe scrup_safe scrdown_safe lf_safe ri_safe cr_safe del_safe csi_J_safe csi_K_safe
  insert_char_safe delete_char_safe insert_line_safe delete_line_safe con_safe_refl

lemma csi_repeat_safe:
  "con_ok c \<Longrightarrow> con_safe c (csi_at nr c)" "con_ok c \<Longrightarrow> con_safe c (csi_L nr c)"
  "con_ok c \<Longrightarrow> con_safe c (csi_P nr c)" "con_ok c \<Longrightarrow> con_safe c (csi_M nr c)"
  unfolding csi_at_def csi_L_def csi_P_def csi_M_def by (rule con_safe_funpow; simp add: con_safe_intros)+

lemma scroll_x [simp]: "con_x (scrup c) = con_x c" "con_x (lf c) = con_x c"
  "video_num_columns (scrup c) = video_num_columns c" "video_num_columns (lf c) = video_num_columns c"
  by (simp_all add: lf_def scrup_def scrup_region_def set_origin_def put_port_def Let_def)

lemma tab_width: "8 - (of_nat n AND 7) = (of_nat (8 - n mod 8) :: u32)"
proof -
  have "(of_nat n AND 7 :: u32) = of_nat n AND mask 3"
    by (simp add: mask_eq_exp_minus_1)
  also have "\<dots> = take_bit 3 (of_nat n)"
    by (simp only: take_bit_eq_mask)
  also have "\<dots> = of_nat (take_bit 3 n)"
    by (simp only: take_bit_of_nat)
  also have "take_bit 3 n = n mod 8"
    by (simp add: take_bit_eq_mod)
  finally show ?thesis
    by (simp add: of_nat_diff)
qed

text \<open>A cursor past the last column goes to the next line.\<close>

lemma wrap_safe:
  assumes "con_ok c" "con_x c = video_num_columns c"
  shows "con_safe c (lf (c\<lparr>con_x := con_x c - video_num_columns c, cursor_pos := cursor_pos c - video_size_row c\<rparr>))"
proof -
  let ?d = "c\<lparr>con_x := con_x c - video_num_columns c, cursor_pos := cursor_pos c - video_size_row c\<rparr>"
  have "con_ok ?d"
    using assms by (simp add: con_ok_def)
  moreover from lf_safe [OF this] have "con_safe ?d (lf ?d)" .
  ultimately show ?thesis
    by (simp add: con_safe_def)
qed

lemma put_cell_safe:
  assumes "con_ok c" "con_x c < video_num_columns c"
  shows "con_safe c (c\<lparr>vmem := (vmem c)(cursor_pos c := v), cursor_pos := cursor_pos c + 2, con_x := con_x c + 1\<rparr>)"
proof -
  have "cells_left c = unat (video_num_columns c - con_x c)"
    using assms(2) by (simp add: cells_left_def)
  then have "0 < cells_left c"
    using assms(2) by (simp add: unat_gt_0)
  then have "a \<noteq> cursor_pos c" if "unat a < unat (video_mem_start c) \<or> unat (video_mem_end c) \<le> unat a" for a
    using cells_left_apart [OF assms(1) _ that, of 0] by simp
  then show ?thesis
    using assms inc_le [OF assms(2)]
    by (auto simp: con_safe_def con_ok_def algebra_simps word_less_nat_alt [of _ "video_mem_start c"] word_le_nat_alt [of "video_mem_end c"])
qed

lemma tab_safe:
  assumes "con_ok c" "d = c\<lparr>con_x := con_x c + (8 - (con_x c AND 7)), cursor_pos := cursor_pos c + push_bit 1 (8 - (con_x c AND 7))\<rparr>"
  shows "con_safe c (if con_x d > video_num_columns d
     then lf (d\<lparr>con_x := con_x d - video_num_columns d, cursor_pos := cursor_pos d - video_size_row d\<rparr>) else d)"
  using assms(1)
proof (rule con_nat)
  fix C L X Y T B Org S E
  assume c: "video_num_columns c = of_nat C" "video_num_lines c = of_nat L" "con_x c = of_nat X" "con_y c = of_nat Y"
    "con_top c = of_nat T" "con_bottom c = of_nat B" "origin c = of_nat Org" "video_mem_start c = of_nat S"
    "video_mem_end c = of_nat E" "video_size_row c = of_nat (2 * C)" "cursor_pos c = of_nat (Org + 2 * C * Y + 2 * X)"
    "scr_end c = of_nat (Org + 2 * C * L)"
    and b: "8 \<le> C" "C < 256" "L < 256" "X \<le> C" "Y < L" "T < B" "B \<le> L" "S \<le> Org" "Org + 2 * C * L \<le> E" "E \<le> 0x100000"
      "con_npar c < 16"
  define D where "D = 8 - X mod 8"
  have D: "8 - (con_x c AND 7) = of_nat D" "D \<le> 8"
    by (simp_all only: c tab_width D_def)
  have d: "d = c\<lparr>con_x := of_nat (X + D), cursor_pos := of_nat (Org + 2 * C * Y + 2 * (X + D))\<rparr>"
    unfolding assms(2) D(1) push_bit_1 by (simp add: c algebra_simps)
  have u: "unat (of_nat C :: u32) = C" "unat (of_nat (X + D) :: u32) = X + D"
    using b D by (intro unat_of_nat32; simp)+
  show ?thesis
  proof (cases "C < X + D")
    case True
    let ?e = "d\<lparr>con_x := con_x d - video_num_columns d, cursor_pos := cursor_pos d - video_size_row d\<rparr>"
    have "con_ok ?e"
      by (rule con_okI [of _ C L "X + D - C" Y T B Org S E])
         (use c b D True in \<open>simp_all add: d of_nat_diff algebra_simps\<close>)
    then have "con_safe ?e (lf ?e)" "con_ok ?e"
      by (simp_all add: lf_safe)
    then have "con_safe c (lf ?e)"
      by (simp add: con_safe_def d)
    then show ?thesis
      using True u by (simp add: d c word_less_nat_alt)
  next
    case False
    have "con_ok d"
      by (rule con_okI [of _ C L "X + D" Y T B Org S E]) (use c b D False in \<open>simp_all add: d\<close>)
    then show ?thesis
      using False u by (simp add: con_safe_def d c word_less_nat_alt)
  qed
qed

lemma backspace_safe:
  assumes "con_ok c" "con_x c \<noteq> 0"
  shows "con_safe c (c\<lparr>con_x := con_x c - 1, cursor_pos := cursor_pos c - 2\<rparr>)"
proof -
  have "con_x c - 1 \<le> con_x c"
    using assms(2) by (simp add: word_le_nat_alt unat_minus_one)
  then have "con_x c - 1 \<le> video_num_columns c"
    using assms(1) unfolding con_ok_def by (blast intro: order_trans)
  then show ?thesis
    using assms(1) by (simp add: con_safe_def con_ok_def algebra_simps)
qed

lemma con_text_safe: "con_ok c \<Longrightarrow> con_safe c (con_text erase ch c)"
proof -
  assume ok: "con_ok c"
  have le: "con_x c \<le> video_num_columns c" and pos: "0 < video_num_columns c"
    using ok by (auto simp: con_ok_def word_less_nat_alt)
  define w where "w = (if con_x c \<ge> video_num_columns c
    then lf (c\<lparr>con_x := con_x c - video_num_columns c, cursor_pos := cursor_pos c - video_size_row c\<rparr>) else c)"
  define d where "d = c\<lparr>con_x := con_x c + (8 - (con_x c AND 7)), cursor_pos := cursor_pos c + push_bit 1 (8 - (con_x c AND 7))\<rparr>"
  define z where "z = (if con_x d > video_num_columns d
     then lf (d\<lparr>con_x := con_x d - video_num_columns d, cursor_pos := cursor_pos d - video_size_row d\<rparr>) else d)"
  have w: "con_safe c w" "con_x w < video_num_columns w"
    using wrap_safe [OF ok] le pos ok by (auto simp: w_def con_safe_refl)
  then have "con_ok w"
    by (simp add: con_safe_def)
  then have put: "con_safe c (w\<lparr>vmem := (vmem w)(cursor_pos w := v), cursor_pos := cursor_pos w + 2, con_x := con_x w + 1\<rparr>)" for v
    using con_safe_trans [OF w(1)] put_cell_safe w(2) by blast
  have z: "con_safe c z"
    unfolding z_def by (rule tab_safe [OF ok d_def])
  have "con_text erase ch c =
     (if 31 < ch \<and> ch < 127 then
        w\<lparr>vmem := (vmem w)(cursor_pos w := push_bit 8 (ucast (con_attr w)) OR ucast ch),
          cursor_pos := cursor_pos w + 2, con_x := con_x w + 1\<rparr>
      else if ch = 27 then c\<lparr>con_state := 1\<rparr>
      else if ch = 10 \<or> ch = 11 \<or> ch = 12 then lf c
      else if ch = 13 then cr c
      else if ch = erase \<and> ch < 128 then del c
      else if ch = 8 then
        (if con_x c \<noteq> 0 then c\<lparr>con_x := con_x c - 1, cursor_pos := cursor_pos c - 2\<rparr> else c)
      else if ch = 9 then z else c)"
    unfolding con_text_def Let_def w_def [symmetric] d_def [symmetric] z_def [symmetric] by (rule refl)
  then show ?thesis
    using put z ok backspace_safe [OF ok] by (simp add: con_safe_intros)
qed

lemma con_escape_safe: "con_ok c \<Longrightarrow> con_safe c (con_escape ch c)"
  using con_safe_intros [of "c\<lparr>con_state := 0\<rparr>"]
  by (auto simp: con_escape_def Let_def save_cur_def restore_cur_def con_safe_refl)

lemma con_csi_safe: "con_ok c \<Longrightarrow> con_safe c (con_csi ch c)"
proof -
  assume ok: "con_ok c"
  let ?c = "c\<lparr>con_state := 0\<rparr>"
  have g: "con_safe c (gotoxy x y (?c\<lparr>con_par := p\<rparr>))" "con_safe c (gotoxy x y ?c)" for x y p
    using gotoxy_safe [of "?c\<lparr>con_par := p\<rparr>" x y] gotoxy_safe [of ?c x y] ok by simp_all
  have r: "con_safe c (csi_J p ?c)" "con_safe c (csi_K p ?c)" "con_safe c (csi_L p ?c)" "con_safe c (csi_M p ?c)"
    "con_safe c (csi_P p ?c)" "con_safe c (csi_at p ?c)" for p
    using csi_J_safe [of ?c] csi_K_safe [of ?c] csi_repeat_safe [of ?c] ok by simp_all
  have m: "con_safe c (csi_m ?c)" "con_safe c (save_cur ?c)" "con_safe c ?c"
    using ok by (simp_all add: csi_m_def save_cur_def con_safe_refl)
  have region: "con_safe c (?c\<lparr>con_par := p, con_top := t, con_bottom := b\<rparr>)" if "t < b" "b \<le> video_num_lines c" for p t b
    using that ok by (simp add: con_safe_def con_ok_def)
  show ?thesis
    unfolding con_csi_def Let_def restore_cur_def
    using g r m region [of "less1 (con_par c 0)"] by (auto simp: con_safe_refl ok)
qed

lemma con_params_safe: "con_ok c \<Longrightarrow> con_safe c (con_params ch c)"
proof -
  assume ok: "con_ok c"
  have "con_npar c < NPAR - 1 \<Longrightarrow> con_safe c (c\<lparr>con_npar := con_npar c + 1\<rparr>)"
    using ok by (auto simp: con_safe_def con_ok_def NPAR_def)
  then show ?thesis
    using ok con_csi_safe [OF ok] by (simp add: con_params_def con_safe_refl)
qed

lemma con_bracket_safe: "con_ok c \<Longrightarrow> con_safe c (con_bracket ch c)"
proof -
  assume ok: "con_ok c"
  let ?c = "c\<lparr>con_par := (\<lambda>i. if i < NPAR then 0 else con_par c i), con_npar := 0, con_state := 3, con_ques := (ch = 63)\<rparr>"
  have "con_ok ?c"
    using ok by (simp add: con_ok_def NPAR_def)
  note s = this con_params_safe [OF this, unfolded con_safe_def]
  show ?thesis
    unfolding con_bracket_def Let_def using s by (cases "ch = 63") (simp_all add: con_safe_def)
qed

lemma con_step_safe: "con_ok c \<Longrightarrow> con_safe c (con_step erase ch c)"
  by (simp add: con_step_def con_text_safe con_escape_safe con_bracket_safe con_params_safe con_csi_safe con_safe_refl)

text \<open>C29. Whatever characters the console gets, in whatever state of an escape sequence: the cursor stays on the
  screen, the scroll region and the screen stay within their bounds, and no memory outside the video
  memory is written.\<close>

theorem console_safe:
  assumes "con_ok c" "c' = fold (con_step erase) chs c"
  shows "con_ok c' \<and> video_mem_start c' = video_mem_start c \<and> video_mem_end c' = video_mem_end c
    \<and> (\<forall>a. a < video_mem_start c \<or> video_mem_end c \<le> a \<longrightarrow> vmem c' a = vmem c a)"
proof -
  have "con_safe d (fold (con_step erase) chs d)" if "con_ok d" for d
    using that
  proof (induction chs arbitrary: d)
    case (Cons ch chs)
    have "con_safe d (con_step erase ch d)"
      using Cons.prems by (rule con_step_safe)
    moreover from this have "con_safe (con_step erase ch d) (fold (con_step erase) chs (con_step erase ch d))"
      by (intro Cons.IH) (simp add: con_safe_def)
    ultimately show ?case
      using con_safe_trans by simp
  qed (simp add: con_safe_refl)
  then show ?thesis
    using assms by (simp add: con_safe_def)
qed

lemma unat_u8: "unat (v :: u8) < 256"
  by (rule order_less_le_trans [OF unsigned_less]) simp

text \<open>\<open>con_init\<close> sets the invariant up, on each kind of display, when the screen fits in the video memory of
  that display and the cursor that the BIOS left is on the screen.\<close>

theorem con_init_ok:
  assumes "8 \<le> unat (ORIG_VIDEO_COLS b)" "ORIG_X b \<le> ORIG_VIDEO_COLS b" "ORIG_Y b < 25" "con_npar c < NPAR"
    "50 * unat (ORIG_VIDEO_COLS b) \<le> 0x2000"
  shows "con_ok (con_init b c)"
proof -
  have u: "unat (ucast (v :: u8) :: u32) = unat v" for v
    using unat_u8 [of v] by (simp add: unsigned_ucast_eq take_bit_nat_eq_self)
  have x: "(ucast (ORIG_X b) :: u32) \<le> ucast (ORIG_VIDEO_COLS b)" "(ucast (ORIG_Y b) :: u32) < 25"
    using assms(2,3) by (simp_all add: word_le_nat_alt word_less_nat_alt u)
  have "\<not> (ucast (ORIG_X b) :: u32) > ucast (ORIG_VIDEO_COLS b)" "\<not> (ucast (ORIG_Y b) :: u32) \<ge> 25"
    using x by (simp_all add: not_less not_le)
  then show ?thesis
    using x assms unat_u8 [of "ORIG_VIDEO_COLS b"]
    by (simp add: con_init_def Let_def gotoxy_def con_ok_def ORIG_VIDEO_LINES_def u push_bit_1 mult.commute)
qed

definition demo_boot :: boot_video where
  "demo_boot = \<lparr>ORIG_X = 0, ORIG_Y = 24, ORIG_VIDEO_PAGE = 0, ORIG_VIDEO_MODE = 3, ORIG_VIDEO_COLS = 80, ORIG_VIDEO_EGA_BX = 0\<rparr>"

definition blank_console :: console where
  "blank_console =
    \<lparr>video_type = 0, video_num_columns = 0, video_size_row = 0, video_num_lines = 0, video_page = 0, video_mem_start = 0,
     video_mem_end = 0, video_port_reg = 0, video_port_val = 0, video_erase_char = 0, origin = 0, scr_end = 0,
     cursor_pos = 0, con_x = 0, con_y = 0, con_top = 0, con_bottom = 0, con_state = 0, con_npar = 0, con_par = (\<lambda>_. 0),
     con_ques = False, con_attr = 7, saved_x = 0, saved_y = 0, vmem = (\<lambda>_. 0), con_out = []\<rparr>"

lemma demo_con_ok: "con_ok (con_init demo_boot blank_console)"
  by (simp add: con_init_def demo_boot_def blank_console_def gotoxy_def ORIG_VIDEO_LINES_def Let_def con_ok_def NPAR_def push_bit_1)

theorem con_init_ok_witness: "con_ok (con_init demo_boot blank_console)"
  by (rule con_init_ok) (simp_all add: demo_boot_def blank_console_def NPAR_def)

theorem console_safe_witness:
  "\<exists>c'. c' = fold (con_step 127) [27, 91, 49, 48, 76, 65, 10] (con_init demo_boot blank_console)
    \<and> con_ok c' \<and> vmem c' 0xbc000 = vmem (con_init demo_boot blank_console) 0xbc000"
proof -
  note demo_con_ok
  moreover have "video_mem_end (con_init demo_boot blank_console) = 0xbc000"
    by (simp add: con_init_def demo_boot_def gotoxy_def ORIG_VIDEO_LINES_def Let_def)
  ultimately show ?thesis
    using console_safe [OF _ refl] by (metis order_refl)
qed

end
