(* ===== verification/Con_Scroll.thy ===== *)
theory Con_Scroll
  imports Console
begin

text \<open>
  What the scrolling routines of \<open>kernel/chr_drv/console.c\<close> do to the screen: the string instructions cell by
  cell, also where the areas overlap, and from them the rows of the screen before and after.
\<close>

unbundle bit_operations_syntax

section \<open>Runs of cells\<close>

text \<open>The cell of the screen at a row and a column.\<close>

definition screen :: "console \<Rightarrow> nat \<Rightarrow> nat \<Rightarrow> u16" where
  "screen c r k = vmem c (origin c + of_nat r * video_size_row c + 2 * of_nat k)"

lemma of_nat_neq32: "i \<noteq> j \<Longrightarrow> i < 4294967296 \<Longrightarrow> j < 4294967296 \<Longrightarrow> (of_nat i :: u32) \<noteq> of_nat j"
  using unat_of_nat32 by metis

lemma stosw_at:
  "D + 2 * n \<le> 4294967296 \<Longrightarrow> k < n \<Longrightarrow> stosw n (of_nat D) v m (of_nat (D + 2 * k)) = v"
proof (induction n)
  case (Suc n)
  show ?case
  proof (cases "k = n")
    case False
    then have "(of_nat (D + 2 * k) :: u32) \<noteq> of_nat (D + 2 * n)"
      using Suc.prems by (intro of_nat_neq32) simp_all
    then show ?thesis
      using Suc False by (simp add: stosw_Suc)
  qed (simp add: stosw_Suc)
qed simp

lemma movsl_Suc: "movsl (Suc n) di si m = mov_long (di + 4 * of_nat n) (si + 4 * of_nat n) (movsl n di si m)"
  by (simp add: movsl_def)

text \<open>A copy to lower addresses moves the cells even when the areas overlap.\<close>

lemma movsl_at:
  assumes "4 \<le> s" "D + s + 4 * n \<le> 4294967296" "j < 2 * n"
  shows "movsl n (of_nat D) (of_nat (D + s)) m (of_nat (D + 2 * j)) = m (of_nat (D + s + 2 * j))"
  using assms(2,3)
proof (induction n)
  case (Suc n)
  let ?m = "movsl n (of_nat D) (of_nat (D + s)) m"
  have src: "?m (of_nat (D + s + 4 * n + e)) = m (of_nat (D + s + 4 * n + e))" if "e < 4" for e
  proof (rule movsl_frame)
    have "unat (of_nat (D + s + 4 * n + e) :: u32) = D + s + 4 * n + e"
      by (rule unat_of_nat32) (use that Suc.prems in simp)
    then show "unat (of_nat (D + s + 4 * n + e) :: u32) < D \<or> D + 4 * n \<le> unat (of_nat (D + s + 4 * n + e) :: u32)"
      using assms(1) by linarith
  qed (use Suc.prems in simp)
  have step: "movsl (Suc n) (of_nat D) (of_nat (D + s)) m
      = ?m(of_nat (D + 4 * n) := m (of_nat (D + s + 4 * n)), of_nat (D + 4 * n + 2) := m (of_nat (D + s + 4 * n + 2)))"
    using src [of 0] src [of 2] by (simp add: movsl_Suc mov_long_def add_ac)
  have ne: "(of_nat (D + 2 * i) :: u32) \<noteq> of_nat (D + 2 * k)" if "i \<noteq> k" "i < 2 * Suc n" "k < 2 * Suc n" for i k
    using that Suc.prems by (intro of_nat_neq32) simp_all
  consider "j < 2 * n" | "j = 2 * n" | "j = 2 * n + 1"
    using Suc.prems(2) by (simp, arith)
  then show ?case
  proof cases
    case 1
    then have "?m (of_nat (D + 2 * j)) = m (of_nat (D + s + 2 * j))"
      using Suc by simp
    then show ?thesis
      using ne [of j "2 * n"] ne [of j "2 * n + 1"] 1 unfolding step by (simp add: mult_2 [symmetric] add_ac)
  next
    case 2
    then show ?thesis
      using ne [of "2 * n" "2 * n + 1"] unfolding step by (simp add: add_ac)
  next
    case 3
    then show ?thesis
      unfolding step by (simp add: add_ac)
  qed
qed simp

text \<open>A copy to higher addresses, from the last cell down.\<close>

lemma movsl_down_Suc:
  "movsl_down (Suc n) di si m = mov_long (di - 4 * of_nat n) (si - 4 * of_nat n) (movsl_down n di si m)"
  by (simp add: movsl_down_def)

lemma movsl_down_at:
  assumes "4 \<le> s" "s + 4 * n \<le> D + 4" "D + 4 \<le> 4294967296" "j < 2 * n"
  shows "movsl_down n (of_nat D) (of_nat (D - s)) m (of_nat (D + 2 - 2 * j)) = m (of_nat (D + 2 - 2 * j - s))"
  using assms(2,4)
proof (induction n)
  case (Suc n)
  let ?m = "movsl_down n (of_nat D) (of_nat (D - s)) m"
  have le: "4 * n \<le> D" "s + 4 * n \<le> D"
    using Suc.prems by auto
  have src: "?m (of_nat (D - s - 4 * n + e)) = m (of_nat (D - s - 4 * n + e))" if "e < 4" for e
  proof (rule movsl_down_frame)
    have "unat (of_nat (D - s - 4 * n + e) :: u32) = D - s - 4 * n + e"
      by (rule unat_of_nat32) (use that assms(1,3) le in linarith)
    then show "unat (of_nat (D - s - 4 * n + e) :: u32) + 4 * n < D + 4 \<or> D + 4 \<le> unat (of_nat (D - s - 4 * n + e) :: u32)"
      using assms(1) le that by linarith
  qed (use le assms(3) in auto)
  have w: "of_nat D - 4 * of_nat n = (of_nat (D - 4 * n) :: u32)" "of_nat (D - s) - 4 * of_nat n = (of_nat (D - s - 4 * n) :: u32)"
    using le by (simp_all add: of_nat_diff)
  have step: "movsl_down (Suc n) (of_nat D) (of_nat (D - s)) m
      = ?m(of_nat (D - 4 * n) := m (of_nat (D - s - 4 * n)), of_nat (D - 4 * n + 2) := m (of_nat (D - s - 4 * n + 2)))"
    unfolding movsl_down_Suc w mov_long_def using src [of 0] src [of 2] by (simp add: add.commute)
  consider "j < 2 * n" | "j = 2 * n" | "j = 2 * n + 1"
    using Suc.prems(2) by (simp, arith)
  then show ?case
  proof cases
    case 1
    then have at: "D - 4 * n + 4 \<le> D + 2 - 2 * j" "D + 2 - 2 * j < 4294967296"
      using le assms(3) by linarith+
    have "(of_nat (D + 2 - 2 * j) :: u32) \<noteq> of_nat (D - 4 * n)" "(of_nat (D + 2 - 2 * j) :: u32) \<noteq> of_nat (D - 4 * n + 2)"
      by (rule of_nat_neq32; use at in linarith)+
    moreover have "?m (of_nat (D + 2 - 2 * j)) = m (of_nat (D + 2 - 2 * j - s))"
      by (rule Suc.IH) (use 1 le in linarith)+
    ultimately show ?thesis
      unfolding step by (simp only: fun_upd_apply if_False)
  next
    case 2
    then have "D + 2 - 2 * j = D - 4 * n + 2" "D + 2 - 2 * j - s = D - s - 4 * n + 2"
      using le by simp_all
    then show ?thesis
      unfolding step by (simp add: add.commute del: of_nat_add of_nat_mult)
  next
    case 3
    then have j: "D + 2 - 2 * j = D - 4 * n" "D + 2 - 2 * j - s = D - s - 4 * n"
      using le by simp_all
    have "(of_nat (D - 4 * n) :: u32) \<noteq> of_nat (D - 4 * n + 2)"
      using le assms(3) by (intro of_nat_neq32) linarith+
    then show ?thesis
      unfolding step j by (simp add: add.commute del: of_nat_add of_nat_mult)
  qed
qed simp

section \<open>The screen after scrolling\<close>

lemma screen_nat:
  "origin c = of_nat Org \<Longrightarrow> video_size_row c = of_nat (2 * C) \<Longrightarrow> screen c r k = vmem c (of_nat (Org + 2 * C * r + 2 * k))"
  by (simp add: screen_def mult_ac)

lemma movsl_rows:
  assumes "even C" "k < C" "i < R" "4 \<le> s" "D + s + 2 * C * R \<le> 4294967296"
  shows "movsl (R * C div 2) (of_nat D) (of_nat (D + s)) m (of_nat (D + 2 * C * i + 2 * k)) = m (of_nat (D + s + 2 * C * i + 2 * k))"
proof -
  have "C * i + k < C * (i + 1)"
    using assms(2) by simp
  also have "C * (i + 1) \<le> C * R"
    using assms(3) by (intro mult_le_mono) auto
  also have "C * R = 2 * (R * C div 2)"
    using assms(1) by simp
  finally have "C * i + k < 2 * (R * C div 2)" .
  moreover have "D + s + 4 * (R * C div 2) \<le> 4294967296"
    using assms(1,5) by (simp add: mult_ac)
  ultimately show ?thesis
    using movsl_at [OF assms(4), of D "R * C div 2" "C * i + k" m] by (simp add: algebra_simps)
qed

text \<open>Filling the row behind the rows that were moved, and nothing else.\<close>

lemma stosw_row:
  assumes "even C" "D + 2 * C * Suc R \<le> 4294967296" "k < C"
    "D + 2 * C * Suc r \<le> 4294967296"
  shows "stosw C (of_nat D + 4 * of_nat (R * C div 2)) v m (of_nat (D + 2 * C * r + 2 * k)) =
    (if r = R then v else m (of_nat (D + 2 * C * r + 2 * k)))"
proof -
  have four: "4 * (R * C div 2) = 2 * C * R"
    using assms(1) by (simp add: mult_ac)
  have D: "of_nat D + 4 * of_nat (R * C div 2) = (of_nat (D + 2 * C * R) :: u32)"
    by (simp only: four [symmetric] of_nat_add of_nat_mult of_nat_numeral)
  have fit: "D + 2 * C * R + 2 * C \<le> 4294967296"
    using assms(2) by simp
  show ?thesis
  proof (cases "r = R")
    case True
    then show ?thesis
      unfolding D using stosw_at [OF fit assms(3)] by simp
  next
    case False
    have u: "unat (of_nat (D + 2 * C * r + 2 * k) :: u32) = D + 2 * C * r + 2 * k"
      by (rule unat_of_nat32) (use assms(3,4) in simp)
    have "unat (of_nat (D + 2 * C * r + 2 * k) :: u32) < D + 2 * C * R \<or> D + 2 * C * R + 2 * C \<le> unat (of_nat (D + 2 * C * r + 2 * k) :: u32)"
    proof (cases "r < R")
      case True
      then have "2 * C * Suc r \<le> 2 * C * R"
        by (intro mult_le_mono) auto
      then show ?thesis
        unfolding u using assms(3) by simp
    next
      case f: False
      then have "2 * C * Suc R \<le> 2 * C * r"
        using False by (intro mult_le_mono) auto
      then show ?thesis
        unfolding u by simp
    qed
    then show ?thesis
      unfolding D using stosw_frame [OF fit] False by simp
  qed
qed

text \<open>The screen with the rows from \<open>t\<close> to \<open>b\<close> scrolled up by one.\<close>

definition scrolled_up :: "nat \<Rightarrow> nat \<Rightarrow> u16 \<Rightarrow> (nat \<Rightarrow> nat \<Rightarrow> u16) \<Rightarrow> nat \<Rightarrow> nat \<Rightarrow> u16" where
  "scrolled_up t b e f r k = (if t \<le> r \<and> r + 1 < b then f (r + 1) k else if t \<le> r \<and> r + 1 = b then e else f r k)"

definition scrolled_down :: "nat \<Rightarrow> nat \<Rightarrow> u16 \<Rightarrow> (nat \<Rightarrow> nat \<Rightarrow> u16) \<Rightarrow> nat \<Rightarrow> nat \<Rightarrow> u16" where
  "scrolled_down t b e f r k = (if t < r \<and> r < b then f (r - 1) k else if r = t then e else f r k)"

text \<open>What both directions need to know of the region: \<open>R\<close> rows are moved.\<close>

lemma region_geometry:
  assumes "con_ok c" "even (unat (video_num_columns c))" "r < unat (video_num_lines c)" "k < unat (video_num_columns c)"
  obtains C T R Org where "video_num_columns c = of_nat C" "con_top c = of_nat T" "con_bottom c = of_nat (T + R + 1)"
    "origin c = of_nat Org" "video_size_row c = of_nat (2 * C)" "unat (video_num_columns c) = C" "unat (con_top c) = T"
    "unat (con_bottom c) = T + R + 1" "even C" "8 \<le> C" "k < C" "region_longs c = R * C div 2"
    "Org + 2 * C * T + 2 * C * Suc R \<le> 0x100000" "Org + 2 * C * Suc r \<le> 0x100000"
  using assms(1)
proof (rule con_nat)
  fix C L X Y T B Org S E
  assume c: "video_num_columns c = of_nat C" "video_num_lines c = of_nat L"
    "con_top c = of_nat T" "con_bottom c = of_nat B" "origin c = of_nat Org" "video_size_row c = of_nat (2 * C)"
    and b: "8 \<le> C" "C < 256" "L < 256" "T < B" "B \<le> L" "Org + 2 * C * L \<le> E" "E \<le> 0x100000"
  have u: "unat (of_nat C :: u32) = C" "unat (of_nat L :: u32) = L" "unat (of_nat T :: u32) = T" "unat (of_nat B :: u32) = B"
    using b by (intro unat_of_nat32; simp)+
  define R where "R = B - T - 1"
  have B: "B = T + R + 1"
    using b(4) by (simp add: R_def)
  have "2 * C * (T + Suc R) \<le> 2 * C * L"
    using b(5) B by (intro mult_le_mono) auto
  then have top: "Org + 2 * C * T + 2 * C * Suc R \<le> 0x100000"
    using b(6,7) by (simp add: algebra_simps)
  have "2 * C * Suc r \<le> 2 * C * L"
    using assms(3) by (intro mult_le_mono) (simp_all add: c u)
  then have at: "Org + 2 * C * Suc r \<le> 0x100000"
    using b(6,7) by simp
  have "region_longs c = R * C div 2"
    using rows_longs [of T B C] b by (simp add: region_longs_def c R_def)
  then show ?thesis
    using that [of C T R Org] c(1,3-6) assms(2,4) b(1) u B top at by simp
qed

lemma scrup_region_screen:
  assumes "con_ok c" "even (unat (video_num_columns c))"
    "r < unat (video_num_lines c)" "k < unat (video_num_columns c)"
  shows "screen (scrup_region c) r k =
    scrolled_up (unat (con_top c)) (unat (con_bottom c)) (video_erase_char c) (screen c) r k"
proof -
  obtain C T R Org where c: "video_num_columns c = of_nat C" "con_top c = of_nat T" "con_bottom c = of_nat (T + R + 1)"
    "origin c = of_nat Org" "video_size_row c = of_nat (2 * C)" and u: "unat (video_num_columns c) = C" "unat (con_top c) = T"
    "unat (con_bottom c) = T + R + 1" and h: "even C" "8 \<le> C" "k < C" and n: "region_longs c = R * C div 2"
    and fit: "Org + 2 * C * T + 2 * C * Suc R \<le> 0x100000" and at: "Org + 2 * C * Suc r \<le> 0x100000"
    by (rule region_geometry [OF assms])
  define D where "D = Org + 2 * C * T"
  have top: "D + 2 * C * Suc R \<le> 0x100000"
    using fit by (simp add: D_def)
  let ?m = "movsl (R * C div 2) (of_nat D) (of_nat (D + 2 * C)) (vmem c)"
  have v: "vmem (scrup_region c) = stosw C (of_nat D + 4 * of_nat (R * C div 2)) (video_erase_char c) ?m"
    by (simp add: scrup_region_def Let_def n u) (simp add: c D_def algebra_simps)
  have scr: "screen (scrup_region c) r k = vmem (scrup_region c) (of_nat (Org + 2 * C * r + 2 * k))"
    by (rule screen_nat) (simp_all add: scrup_region_def Let_def c)
  note old = screen_nat [of c Org C, OF c(4,5)]
  have four: "4 * (R * C div 2) = 2 * C * R"
    using h(1) by (simp add: mult_ac)
  have ua: "unat (of_nat (Org + 2 * C * r + 2 * k) :: u32) = Org + 2 * C * r + 2 * k"
    by (rule unat_of_nat32) (use at h(3) in simp)
  show ?thesis
  proof (cases "T \<le> r")
    case False
    have "2 * C * Suc r \<le> 2 * C * T"
      using False by (intro mult_le_mono) auto
    then have low: "Org + 2 * C * r + 2 * k < D"
      using h(3) by (simp add: D_def)
    have di: "of_nat D + 4 * of_nat (R * C div 2) = (of_nat (D + 2 * C * R) :: u32)"
      by (simp only: four [symmetric] of_nat_add of_nat_mult of_nat_numeral)
    have "screen (scrup_region c) r k = ?m (of_nat (Org + 2 * C * r + 2 * k))"
      unfolding scr v di by (rule stosw_frame) (use low top in \<open>simp_all only: ua, simp_all\<close>)
    also have "\<dots> = vmem c (of_nat (Org + 2 * C * r + 2 * k))"
      by (rule movsl_frame) (use low top in \<open>simp_all only: four ua, simp_all\<close>)
    finally show ?thesis
      using False unfolding u by (simp add: scrolled_up_def old)
  next
    case True
    define i where "i = r - T"
    have r: "r = T + i" "Org + 2 * C * r + 2 * k = D + 2 * C * i + 2 * k"
      using True by (simp_all add: i_def D_def algebra_simps)
    have fit': "D + 2 * C * Suc i \<le> 0x100000"
      using at by (simp add: r D_def algebra_simps)
    have s: "screen (scrup_region c) r k = (if i = R then video_erase_char c else ?m (of_nat (D + 2 * C * i + 2 * k)))"
      unfolding scr v r(2) by (rule stosw_row [OF h(1) _ h(3)]) (use top fit' in auto)
    consider "i < R" | "i = R" | "R < i"
      by linarith
    then show ?thesis
    proof cases
      case 1
      have "?m (of_nat (D + 2 * C * i + 2 * k)) = vmem c (of_nat (D + 2 * C + 2 * C * i + 2 * k))"
        by (rule movsl_rows [OF h(1,3) 1]) (use h(2) top in simp_all)
      moreover have "D + 2 * C + 2 * C * i + 2 * k = Org + 2 * C * (r + 1) + 2 * k"
        by (simp add: r D_def algebra_simps)
      ultimately show ?thesis
        using 1 s r(1) unfolding u by (simp add: scrolled_up_def old del: of_nat_add of_nat_mult)
    next
      case 2
      then show ?thesis
        using s r(1) unfolding u by (simp add: scrolled_up_def)
    next
      case 3
      have "2 * C * R \<le> 2 * C * i"
        using 3 by (intro mult_le_mono) auto
      then have "D + 4 * (R * C div 2) \<le> unat (of_nat (D + 2 * C * i + 2 * k) :: u32)"
        unfolding four ua [unfolded r(2)] by linarith
      then have "?m (of_nat (D + 2 * C * i + 2 * k)) = vmem c (of_nat (D + 2 * C * i + 2 * k))"
        by (intro movsl_frame) (use top in \<open>simp_all only: four, simp_all\<close>)
      then show ?thesis
        using 3 s r unfolding u by (simp add: scrolled_up_def old del: of_nat_add of_nat_mult)
    qed
  qed
qed


lemma screen_set_origin [simp]: "screen (set_origin c) = screen c"
  by (simp add: fun_eq_iff screen_def set_origin_def put_port_def Let_def)

text \<open>The hardware scroll of an EGA: the origin moves, back to the start of the memory when it ends.\<close>

lemma scrup_pan_cell:
  assumes c: "video_num_columns c = of_nat C" "video_num_lines c = of_nat (Suc R)" "origin c = of_nat Org"
      "video_mem_start c = of_nat S" "video_size_row c = of_nat (2 * C)" "scr_end c = of_nat (Org + 2 * C * Suc R)"
    and b: "8 \<le> C" "C < 256" "Suc R < 256" "S \<le> Org" "Org + 2 * C * Suc R \<le> 0x100000"
    and h: "even C" "k < C" "r \<le> R" and full: "con_top c = 0" "con_bottom c = video_num_lines c" "is_ega c"
    and nowrap: "\<not> scr_end c + video_size_row c > video_mem_end c"
  shows "screen (scrup c) r k = (if r = R then video_erase_char c else vmem c (of_nat (Org + 2 * C + 2 * C * r + 2 * k)))"
proof -
  have u: "unat (of_nat C :: u32) = C"
    using b(2) by (intro unat_of_nat32) simp
  let ?n = "R * C div 2"
  have four: "4 * ?n = 2 * C * R"
    using h(1) by (simp add: mult_ac)
  have "2 * C * Suc r \<le> 2 * C * Suc R"
    using h(3) by (intro mult_le_mono) auto
  then have fit: "Org + 2 * C + 2 * C * Suc r \<le> 4294967296" "Org + 2 * C + 2 * C * Suc R \<le> 4294967296"
    using b(2,5) by linarith+
  have "scr_end c = of_nat (Org + 2 * C + 4 * ?n)"
    unfolding four c(6) by (simp add: algebra_simps)
  then have di: "of_nat (Org + 2 * C) + 4 * of_nat ?n = scr_end c"
    by (simp only: of_nat_add of_nat_mult of_nat_numeral)
  have "vmem (scrup c) = stosw C (of_nat (Org + 2 * C) + 4 * of_nat ?n) (video_erase_char c) (vmem c)"
    unfolding di using nowrap full by (simp add: scrup_def Let_def set_origin_def put_port_def) (simp add: c(1) u)
  moreover have "screen (scrup c) r k = vmem (scrup c) (of_nat (Org + 2 * C + 2 * C * r + 2 * k))"
    by (rule screen_nat) (use nowrap full in \<open>simp_all add: scrup_def Let_def set_origin_def put_port_def c\<close>)
  ultimately show ?thesis
    by (simp only: stosw_row [OF h(1) fit(2) h(2) fit(1)])
qed

lemma scrup_wrap_cell:
  assumes c: "video_num_columns c = of_nat C" "video_num_lines c = of_nat (Suc R)" "origin c = of_nat Org"
      "video_mem_start c = of_nat S" "video_size_row c = of_nat (2 * C)" "scr_end c = of_nat (Org + 2 * C * Suc R)"
    and b: "8 \<le> C" "C < 256" "Suc R < 256" "S \<le> Org" "Org + 2 * C * Suc R \<le> 0x100000"
    and h: "even C" "k < C" "r \<le> R" and full: "con_top c = 0" "con_bottom c = video_num_lines c" "is_ega c"
    and wrap: "scr_end c + video_size_row c > video_mem_end c"
  shows "screen (scrup c) r k = (if r = R then video_erase_char c else vmem c (of_nat (Org + 2 * C + 2 * C * r + 2 * k)))"
proof -
  have u: "unat (of_nat C :: u32) = C"
    using b(2) by (intro unat_of_nat32) simp
  let ?n = "R * C div 2"
  have four: "4 * ?n = 2 * C * R"
    using h(1) by (simp add: mult_ac)
  have "2 * C * Suc r \<le> 2 * C * Suc R"
    using h(3) by (intro mult_le_mono) auto
  then have fit: "Org + 2 * C + 2 * C * Suc r \<le> 4294967296" "Org + 2 * C + 2 * C * Suc R \<le> 4294967296"
    using b(2,5) by linarith+
  let ?s = "Org + 2 * C - S"
  have s: "4 \<le> ?s" "S + ?s = Org + 2 * C"
    using b(1,4) by simp_all
  have n: "drop_bit (Suc 0) ((of_nat (Suc R) - 1) * of_nat C :: u32) = of_nat ?n"
    using arg_cong [OF rows_longs [of 0 "Suc R" C], of "of_nat :: nat \<Rightarrow> u32"] b by simp
  have "?n < 4294967296"
    using four fit(2) by simp
  then have n': "unat (of_nat ?n :: u32) = ?n"
    by (rule unat_of_nat32)
  have "vmem (scrup c) = stosw C (of_nat S + 4 * of_nat ?n) (video_erase_char c)
      (movsl ?n (of_nat S) (of_nat (Org + 2 * C)) (vmem c))"
    using wrap full by (simp add: scrup_def Let_def set_origin_def put_port_def del: of_nat_Suc)
      (simp add: c u n n' del: of_nat_Suc)
  moreover have "screen (scrup c) r k = vmem (scrup c) (of_nat (S + 2 * C * r + 2 * k))"
    by (rule screen_nat) (use wrap full in \<open>simp_all add: scrup_def Let_def set_origin_def put_port_def c\<close>)
  ultimately have *: "screen (scrup c) r k = (if r = R then video_erase_char c
      else movsl ?n (of_nat S) (of_nat (S + ?s)) (vmem c) (of_nat (S + 2 * C * r + 2 * k)))"
    unfolding s(2) by (simp only:) (rule stosw_row [OF h(1) _ h(2)]; use fit b(4) in linarith)
  have "movsl ?n (of_nat S) (of_nat (S + ?s)) (vmem c) (of_nat (S + 2 * C * r + 2 * k))
      = vmem c (of_nat (S + ?s + 2 * C * r + 2 * k))" if "r \<noteq> R"
    by (rule movsl_rows [OF h(1,2) _ s(1)]) (use that h(3) fit(2) s(2) in simp_all)
  then show ?thesis
    unfolding * s(2) by simp
qed

lemma scrup_origin_screen:
  assumes "con_ok c" "even (unat (video_num_columns c))"
    "r < unat (video_num_lines c)" "k < unat (video_num_columns c)"
    and full: "con_top c = 0" "con_bottom c = video_num_lines c" "is_ega c"
  shows "screen (scrup c) r k =
    scrolled_up 0 (unat (video_num_lines c)) (video_erase_char c) (screen c) r k"
  using assms(1)
proof (rule con_nat)
  fix C L X Y T B Org S E
  assume c: "video_num_columns c = of_nat C" "video_num_lines c = of_nat L" "origin c = of_nat Org"
    "video_mem_start c = of_nat S" "video_mem_end c = of_nat E" "video_size_row c = of_nat (2 * C)"
    "scr_end c = of_nat (Org + 2 * C * L)"
    and b: "8 \<le> C" "C < 256" "L < 256" "S \<le> Org" "Org + 2 * C * L \<le> E" "E \<le> 0x100000"
  have u: "unat (of_nat C :: u32) = C" "unat (of_nat L :: u32) = L"
    using b by (intro unat_of_nat32; simp)+
  obtain R where L: "L = Suc R"
    using assms(3) by (cases L) (auto simp: c)
  have h: "even C" "k < C" "r \<le> R"
    using assms(2-4) by (simp_all add: c u) (simp add: L)
  have old: "screen c i k = vmem c (of_nat (Org + 2 * C * i + 2 * k))" for i
    by (rule screen_nat [OF c(3,6)])
  have fin: "Org + 2 * C * Suc R \<le> 0x100000"
    using b(5,6) unfolding L by linarith
  have "screen (scrup c) r k = (if r = R then video_erase_char c else vmem c (of_nat (Org + 2 * C + 2 * C * r + 2 * k)))"
    by (cases "scr_end c + video_size_row c > video_mem_end c")
      (rule scrup_wrap_cell [OF c(1) _ c(3,4,6)] scrup_pan_cell [OF c(1) _ c(3,4,6)]; use c b h full fin in \<open>simp add: L\<close>)+
  moreover have "Org + 2 * C * (r + 1) + 2 * k = Org + 2 * C + 2 * C * r + 2 * k"
    by simp
  then have "screen c (r + 1) k = vmem c (of_nat (Org + 2 * C + 2 * C * r + 2 * k))"
    unfolding old by (rule arg_cong)
  ultimately show ?thesis
    unfolding c(2) u(2) using h(3) by (auto simp: scrolled_up_def L)
qed


text \<open>
  C30. For every display with an even number of columns the routine that makes the screen scroll does what its
  name says, whichever of its three ways it takes (moving the rows of the scroll region; on an EGA moving the
  origin of the display; moving the whole screen back to the start of the video memory when the origin
  reaches its end): each row of the scroll region takes the contents of the next, the last row becomes
  blank, and the rows outside the region stay.
\<close>

theorem scrup_scrolls:
  assumes "con_ok c" "even (unat (video_num_columns c))"
    "r < unat (video_num_lines c)" "k < unat (video_num_columns c)"
  shows "screen (scrup c) r k =
    scrolled_up (unat (con_top c)) (unat (con_bottom c)) (video_erase_char c) (screen c) r k"
proof (cases "is_ega c \<and> con_top c = 0 \<and> con_bottom c = video_num_lines c")
  case True
  then show ?thesis
    using scrup_origin_screen [OF assms] by simp
next
  case False
  then have "scrup c = scrup_region c"
    by (auto simp: scrup_def)
  then show ?thesis
    using scrup_region_screen [OF assms] by simp
qed

section \<open>Scrolling down\<close>

lemma stosw_down_Suc: "stosw_down (Suc n) di v m = (stosw_down n di v m)(di - 2 * of_nat n := v)"
  by (simp add: stosw_down_def)

text \<open>A fill from the last cell of a run down is a fill.\<close>

lemma stosw_down_at:
  assumes "2 * n \<le> D + 2" "D < 4294967296" "k < n"
  shows "stosw_down n (of_nat D) v m (of_nat (D - 2 * k)) = v"
  using assms(1,3)
proof (induction n)
  case (Suc n)
  have D: "of_nat D - 2 * of_nat n = (of_nat (D - 2 * n) :: u32)"
    using Suc.prems by (simp add: of_nat_diff)
  show ?case
  proof (cases "k = n")
    case False
    then have k: "k < n" "2 * n \<le> D"
      using Suc.prems by simp_all
    then have "stosw_down n (of_nat D) v m (of_nat (D - 2 * k)) = v"
      using Suc.IH Suc.prems by simp
    moreover have "(of_nat (D - 2 * k) :: u32) \<noteq> of_nat (D - 2 * n)"
      by (rule of_nat_neq32) (use k assms(2) in linarith)+
    ultimately show ?thesis
      unfolding stosw_down_Suc D by (simp only: fun_upd_apply if_False)
  qed (simp add: stosw_down_Suc D del: of_nat_diff)
qed simp

lemma movsl_down_rows:
  assumes "even C" "2 \<le> C" "k < C" "i < R" "D + 2 * C * Suc R \<le> 4294967296" "H = D + 2 * C * R + 2 * C - 4"
  shows "movsl_down (R * C div 2) (of_nat H) (of_nat (H - 2 * C)) m (of_nat (D + 2 * C * Suc i + 2 * k))
    = m (of_nat (D + 2 * C * i + 2 * k))"
proof -
  obtain q p where q: "R = i + 1 + q" and p: "C = k + 1 + p"
    using assms(3,4) less_imp_Suc_add by fastforce
  define X where "X = 2 * C * i"
  define Y where "Y = C * q"
  define j where "j = Y + p"
  have rows: "2 * C * R = X + 2 * C + 2 * Y" "2 * C * Suc i = X + 2 * C" "2 * C * Suc R = X + 2 * C + 2 * Y + 2 * C"
    unfolding q X_def Y_def by (simp_all add: algebra_simps)
  have "4 * (R * C div 2) = 2 * C * R"
    using assms(1) by (simp add: mult_ac)
  then have four: "4 * (R * C div 2) = X + 2 * C + 2 * Y"
    using rows(1) by (rule trans)
  have H: "H = D + X + 2 * C + 2 * Y + 2 * C - 4"
    unfolding assms(6) rows(1) by simp
  have at: "D + 2 * C * Suc i + 2 * k = H + 2 - 2 * j" "D + 2 * C * i + 2 * k = H + 2 - 2 * j - 2 * C"
    unfolding rows(2) X_def [symmetric] using H assms(2) p j_def by linarith+
  show ?thesis
    unfolding at
    by (rule movsl_down_at) (use four H p j_def assms(2) assms(5) [unfolded rows(3)] in linarith)+
qed

lemma of_nat_diff32: "j \<le> i \<Longrightarrow> of_nat (i - j) = (of_nat i - of_nat j :: u32)"
  by (rule of_nat_diff)

text \<open>\<open>scrdown\<close> by cells: the rows are moved from the last long of the region down, then the first is filled.\<close>

lemma scrdown_vmem:
  assumes "con_bottom c = of_nat (T + R + 1)" "video_num_columns c = of_nat C" "unat (video_num_columns c) = C"
    "origin c = of_nat Org" "video_size_row c = of_nat (2 * C)" "region_longs c = R * C div 2" "even C" "2 \<le> C"
    "D = Org + 2 * C * T" "H = D + 2 * C * R + 2 * C - 4"
  shows "vmem (scrdown c) = stosw_down C (of_nat (D + 2 * C - 2)) (video_erase_char c)
    (movsl_down (R * C div 2) (of_nat H) (of_nat (H - 2 * C)) (vmem c))"
proof -
  let ?n = "R * C div 2"
  have "4 * ?n = 2 * C * R"
    using assms(7) by (simp add: mult_ac)
  then have four: "4 * of_nat ?n = (of_nat (2 * C * R) :: u32)"
    by (metis of_nat_mult of_nat_numeral)
  have le: "4 \<le> D + 2 * C * R + 2 * C" "2 \<le> D + 2 * C"
    using assms(8) by linarith+
  have di: "origin c + video_size_row c * con_bottom c - 4 = of_nat H"
    unfolding assms(10) of_nat_diff32 [OF le(1)] by (simp add: assms algebra_simps)
  have fill: "of_nat H - 4 * of_nat ?n + 2 = (of_nat (D + 2 * C - 2) :: u32)"
    unfolding four assms(10) of_nat_diff32 [OF le(1)] of_nat_diff32 [OF le(2)] by simp
  have si: "origin c + video_size_row c * (con_bottom c - 1) - 4 = of_nat (H - 2 * C)" if "R \<noteq> 0"
  proof -
    have "2 * C * 1 \<le> 2 * C * R"
      using that by (intro mult_le_mono) auto
    then have "2 * C \<le> H"
      using assms(8,10) by linarith
    then have "of_nat (H - 2 * C) = (of_nat H - of_nat (2 * C) :: u32)"
      by (rule of_nat_diff32)
    then show ?thesis
      unfolding di [symmetric] by (simp add: assms(5) algebra_simps)
  qed
  have "movsl_down ?n (of_nat H) (origin c + video_size_row c * (con_bottom c - 1) - 4) m
      = movsl_down ?n (of_nat H) (of_nat (H - 2 * C)) m" for m
  proof (cases "R = 0")
    case False
    then show ?thesis
      by (simp only: si [OF False])
  qed (simp add: movsl_down_def)
  then show ?thesis
    by (simp only: scrdown_def Let_def assms(6) di fill) (simp add: assms(3))
qed

text \<open>
  C31. Scrolling down, which moves the rows from the last down with overlapping areas, shifts each row of the
  scroll region to the next, blanks the first row of the region and leaves the rows outside it as they are.
\<close>

theorem scrdown_scrolls:
  assumes "con_ok c" "even (unat (video_num_columns c))"
    "r < unat (video_num_lines c)" "k < unat (video_num_columns c)"
  shows "screen (scrdown c) r k =
    scrolled_down (unat (con_top c)) (unat (con_bottom c)) (video_erase_char c) (screen c) r k"
proof -
  obtain C T R Org where c: "video_num_columns c = of_nat C" "con_top c = of_nat T" "con_bottom c = of_nat (T + R + 1)"
    "origin c = of_nat Org" "video_size_row c = of_nat (2 * C)" "unat (video_num_columns c) = C" "unat (con_top c) = T"
    "unat (con_bottom c) = T + R + 1" and b: "even C" "8 \<le> C" "k < C" and n: "region_longs c = R * C div 2"
    and fit: "Org + 2 * C * T + 2 * C * Suc R \<le> 0x100000" "Org + 2 * C * Suc r \<le> 0x100000"
    by (rule region_geometry [OF assms])
  define D where "D = Org + 2 * C * T"
  define H where "H = D + 2 * C * R + 2 * C - 4"
  define a where "a = Org + 2 * C * r + 2 * k"
  let ?m = "movsl_down (R * C div 2) (of_nat H) (of_nat (H - 2 * C)) (vmem c)"
  have two: "2 \<le> C" and four: "4 * (R * C div 2) = 2 * C * R"
    using b(1,2) by (simp_all add: mult_ac)
  note v = scrdown_vmem [OF c(3,1,6,4,5) n b(1) two D_def H_def]
  have old: "screen c i k = vmem c (of_nat (Org + 2 * C * i + 2 * k))" for i
    by (rule screen_nat [OF c(4,5)])
  have new: "screen (scrdown c) r k = vmem (scrdown c) (of_nat a)"
    unfolding a_def by (rule screen_nat) (simp_all add: scrdown_def Let_def c)
  have top: "D + 2 * C * R + 2 * C \<le> 0x100000"
    using fit(1) by (simp add: D_def)
  have "Org + 2 * C * r + 2 * C \<le> 0x100000"
    using fit(2) by simp
  then have ua: "unat (of_nat a :: u32) = a"
    by (intro unat_of_nat32) (use b(3) a_def in linarith)
  have fill: "screen (scrdown c) r k = ?m (of_nat a)" if "a < D \<or> D + 2 * C \<le> a"
    unfolding new v by (rule stosw_down_frame) (use that ua b(2) top in linarith)+
  have keep: "?m (of_nat a) = vmem c (of_nat a)" if "a < D + 2 * C \<or> D + 2 * C * R + 2 * C \<le> a"
    by (rule movsl_down_frame) (use that ua b(2) top four H_def in linarith)+
  have rows: "2 * C * i + 2 * C \<le> 2 * C * j" if "i < j" for i j
    using that mult_le_mono [of "2 * C" "2 * C" "Suc i" j] by simp
  consider "r < T" | "r = T" | "T < r" "r < T + R + 1" | "T + R + 1 \<le> r"
    by linarith
  then show ?thesis
  proof cases
    case 1
    then have "a < D"
      using rows [OF 1] b(3) by (simp add: D_def a_def)
    then show ?thesis
      using 1 fill keep by (simp add: scrolled_down_def old c(7,8) a_def)
  next
    case 2
    then have a: "a = D + 2 * C - 2 - 2 * (C - 1 - k)"
      using b(3) by (simp add: D_def a_def)
    have "screen (scrdown c) r k = video_erase_char c"
      unfolding new v a by (rule stosw_down_at) (use b(2,3) top in linarith)+
    then show ?thesis
      using 2 by (simp add: scrolled_down_def c(7,8))
  next
    case 3
    define i where "i = r - T - 1"
    have r: "r = T + i + 1" "i < R"
      using 3 by (simp_all add: i_def)
    then have a: "a = D + 2 * C * Suc i + 2 * k" "Org + 2 * C * (r - 1) + 2 * k = D + 2 * C * i + 2 * k"
      by (simp_all add: a_def D_def algebra_simps)
    have "?m (of_nat a) = vmem c (of_nat (D + 2 * C * i + 2 * k))"
      unfolding a(1) by (rule movsl_down_rows [OF b(1) two b(3) r(2) _ H_def]) (use top in simp)
    then show ?thesis
      using 3 fill unfolding old scrolled_down_def c(7,8) a(2) by (simp add: a(1))
  next
    case 4
    then have "D + 2 * C * R + 2 * C \<le> a"
      using mult_le_mono [of "2 * C" "2 * C" "T + R + 1" r] by (simp add: D_def a_def algebra_simps)
    then show ?thesis
      using 4 fill keep by (simp add: scrolled_down_def old c(7,8) a_def)
  qed
qed


definition demo_console :: console where
  "demo_console = con_text 127 65 (con_init demo_boot blank_console)"

lemma demo_console_simps:
  "video_num_columns demo_console = 80" "video_num_lines demo_console = 25" "video_erase_char demo_console = 0x720"
  "con_top demo_console = 0" "con_bottom demo_console = 25" "screen demo_console 24 0 = 0x741"
  by (simp_all add: demo_console_def con_init_def demo_boot_def blank_console_def gotoxy_def ORIG_VIDEO_LINES_def
      Let_def con_text_def push_bit_1 screen_def)

theorem scrup_scrolls_witness: "screen (scrup demo_console) 23 0 = 0x741 \<and> screen (scrup demo_console) 24 0 = 0x720"
proof -
  have "con_ok demo_console"
    unfolding demo_console_def by (rule con_text_safe [OF demo_con_ok, unfolded con_safe_def, THEN conjunct1])
  then show ?thesis
    using scrup_scrolls [of demo_console 23 0] scrup_scrolls [of demo_console 24 0]
    by (simp add: demo_console_simps scrolled_up_def)
qed

theorem scrdown_scrolls_witness:
  "screen (scrdown demo_console) 0 5 = 0x720 \<and> screen (scrdown demo_console) 24 0 = screen demo_console 23 0"
proof -
  have "con_ok demo_console"
    unfolding demo_console_def by (rule con_text_safe [OF demo_con_ok, unfolded con_safe_def, THEN conjunct1])
  then show ?thesis
    using scrdown_scrolls [of demo_console 0 5] scrdown_scrolls [of demo_console 24 0]
    by (simp add: demo_console_simps scrolled_down_def)
qed

end
