(* ===== verification/Kstate.thy ===== *)
theory Kstate
  imports Sched Memory Console
begin

text \<open>
  The structures of \<open>include/linux/fs.h\<close> and the state of the kernel that the file system works on: the
  buffer cache, the tables of inodes, super blocks and open files, the disks, and, nested, the state of
  the scheduler and of the memory manager. Pointers into a static table are indices of it, a null
  pointer is \<open>None\<close>. The routines of the file system are executed for one process at a time: a device
  request is carried out at once, and a routine that would have to sleep ends as \<open>Blocked\<close>.
\<close>

unbundle bit_operations_syntax

section \<open>Structures of the file system\<close>

definition NAME_LEN :: nat where "NAME_LEN = 14"
definition ROOT_INO :: u16 where "ROOT_INO = 1"
definition I_MAP_SLOTS :: nat where "I_MAP_SLOTS = 8"
definition Z_MAP_SLOTS :: nat where "Z_MAP_SLOTS = 8"
definition SUPER_MAGIC :: u16 where "SUPER_MAGIC = 0x137F"
definition NR_INODE :: nat where "NR_INODE = 32"
definition NR_FILE :: nat where "NR_FILE = 64"
definition NR_SUPER :: nat where "NR_SUPER = 8"
definition NR_HASH :: nat where "NR_HASH = 307"
definition BLOCK_SIZE :: nat where "BLOCK_SIZE = 1024"
definition INODES_PER_BLOCK :: nat where "INODES_PER_BLOCK = 32"
definition DIR_ENTRIES_PER_BLOCK :: nat where "DIR_ENTRIES_PER_BLOCK = 64"

datatype rw = READ | WRITE | READA | WRITEA

definition MAJOR :: "u16 \<Rightarrow> nat" where "MAJOR a = unat a div 256"
definition MINOR :: "u16 \<Rightarrow> nat" where "MINOR a = unat a mod 256"

text \<open>The contents of a block: the byte at each offset below \<open>BLOCK_SIZE\<close>.\<close>

type_synonym block_data = "nat \<Rightarrow> u8"

record buffer_head =
  b_data :: block_data
  b_blocknr :: u32
  b_dev :: u16
  b_uptodate :: u8
  b_dirt :: u8
  b_count :: u8
  b_lock :: u8
  b_wait :: "nat option"
  b_prev :: "nat option"
  b_next :: "nat option"
  b_prev_free :: "nat option"
  b_next_free :: "nat option"

record m_inode =
  i_mode :: u16
  i_uid :: u16
  i_size :: u32
  i_mtime :: u32
  i_gid :: u8
  i_nlinks :: u8
  i_zone :: "nat \<Rightarrow> u16"
  i_wait :: "nat option"
  i_atime :: u32
  i_ctime :: u32
  i_dev :: u16
  i_num :: u16
  i_count :: u16
  i_lock :: u8
  i_dirt :: u8
  i_pipe :: u8
  i_mount :: u8
  i_seek :: u8
  i_update :: u8

record file_t =
  f_mode :: u16
  f_flags :: u16
  f_count :: u16
  f_inode :: "nat option"
  f_pos :: int

record super_block =
  s_ninodes :: u16
  s_nzones :: u16
  s_imap_blocks :: u16
  s_zmap_blocks :: u16
  s_firstdatazone :: u16
  s_log_zone_size :: u16
  s_max_size :: u32
  s_magic :: u16
  s_imap :: "nat \<Rightarrow> nat option"
  s_zmap :: "nat \<Rightarrow> nat option"
  s_dev :: u16
  s_isup :: "nat option"
  s_imount :: "nat option"
  s_time :: u32
  s_wait :: "nat option"
  s_lock :: u8
  s_rd_only :: u8
  s_dirt :: u8

text \<open>\<open>include/linux/tty.h\<close>: a character queue, and a terminal with its settings.\<close>

definition TTY_BUF_SIZE :: nat where "TTY_BUF_SIZE = 1024"

record tty_queue =
  q_data :: u32
  q_head :: nat
  q_tail :: nat
  q_proc_list :: "nat option"
  q_buf :: "nat \<Rightarrow> u8"

record termios_t =
  c_iflag :: u32
  c_oflag :: u32
  c_cflag :: u32
  c_lflag :: u32
  c_line :: u8
  c_cc :: "nat \<Rightarrow> u8"

record tty_struct =
  termios :: termios_t
  tty_pgrp :: int
  stopped :: bool
  read_q :: tty_queue
  write_q :: tty_queue
  secondary :: tty_queue

text \<open>An inode with all its bytes zero, as \<open>memset\<close> leaves it.\<close>

definition zero_inode :: m_inode where
  "zero_inode = \<lparr>i_mode = 0, i_uid = 0, i_size = 0, i_mtime = 0, i_gid = 0, i_nlinks = 0,
     i_zone = (\<lambda>_. 0), i_wait = None, i_atime = 0, i_ctime = 0, i_dev = 0, i_num = 0, i_count = 0,
     i_lock = 0, i_dirt = 0, i_pipe = 0, i_mount = 0, i_seek = 0, i_update = 0\<rparr>"

section \<open>The state\<close>

text \<open>
  \<open>null_b_prev\<close> is the long at physical address 20, where the field \<open>b_prev\<close> of a buffer head at the
  null pointer lies: a store through a null buffer pointer goes there. \<open>umem\<close> is the data segment of
  the current process as \<open>get_fs_byte\<close> and \<open>put_fs_byte\<close> see it. \<open>disk\<close> is the contents of the block
  devices, \<open>None\<close> for a block that cannot be read or written; \<open>blk_fn\<close> tells which major numbers have a
  driver; \<open>fd_changed\<close> what \<open>floppy_change\<close> answers for each drive. \<open>tty_table\<close>, \<open>cr_flag\<close> (of \<open>tty_write\<close>), \<open>con\<close> and
  \<open>beepcount\<close> are the terminals, the screen and the bell. \<open>port_in\<close> is what reading each I/O port
  yields, \<open>port_out\<close> the bytes written to ports, latest first.
\<close>

record kstate =
  sch :: sched_state
  mm :: mm_state
  umem :: "u32 \<Rightarrow> u8"
  buf :: "nat \<Rightarrow> buffer_head"
  NR_BUFFERS :: nat
  hash_table :: "nat \<Rightarrow> nat option"
  free_list :: nat
  buffer_wait :: "nat option"
  null_b_prev :: "nat option"
  disk :: "u16 \<Rightarrow> u32 \<Rightarrow> block_data option"
  blk_fn :: "nat \<Rightarrow> bool"
  fd_changed :: "nat \<Rightarrow> bool"
  inode_table :: "nat \<Rightarrow> m_inode"
  last_inode :: nat
  super_table :: "nat \<Rightarrow> super_block"
  ROOT_DEV :: u16
  file_table :: "nat \<Rightarrow> file_t"
  tty_table :: "nat \<Rightarrow> tty_struct"
  cr_flag :: bool
  con :: console
  beepcount :: int
  port_in :: "nat \<Rightarrow> u8"
  port_out :: "(nat \<times> u8) list"

type_synonym 'a kop = "kstate \<Rightarrow> ('a, kstate) kres"

definition upd_buf :: "nat \<Rightarrow> (buffer_head \<Rightarrow> buffer_head) \<Rightarrow> kstate \<Rightarrow> kstate" where
  "upd_buf b f s = s\<lparr>buf := (buf s)(b := f (buf s b))\<rparr>"

definition upd_inode :: "nat \<Rightarrow> (m_inode \<Rightarrow> m_inode) \<Rightarrow> kstate \<Rightarrow> kstate" where
  "upd_inode i f s = s\<lparr>inode_table := (inode_table s)(i := f (inode_table s i))\<rparr>"

definition upd_super :: "nat \<Rightarrow> (super_block \<Rightarrow> super_block) \<Rightarrow> kstate \<Rightarrow> kstate" where
  "upd_super i f s = s\<lparr>super_table := (super_table s)(i := f (super_table s i))\<rparr>"

definition upd_file :: "nat \<Rightarrow> (file_t \<Rightarrow> file_t) \<Rightarrow> kstate \<Rightarrow> kstate" where
  "upd_file i f s = s\<lparr>file_table := (file_table s)(i := f (file_table s i))\<rparr>"

definition upd_tty :: "nat \<Rightarrow> (tty_struct \<Rightarrow> tty_struct) \<Rightarrow> kstate \<Rightarrow> kstate" where
  "upd_tty i f s = s\<lparr>tty_table := (tty_table s)(i := f (tty_table s i))\<rparr>"

definition outb :: "u8 \<Rightarrow> nat \<Rightarrow> kstate \<Rightarrow> kstate" where
  "outb c port s = s\<lparr>port_out := (port, c) # port_out s\<rparr>"

definition upd_me :: "(task_struct \<Rightarrow> task_struct) \<Rightarrow> kstate \<Rightarrow> kstate" where
  "upd_me f s = s\<lparr>sch := upd_cur f (sch s)\<rparr>"

definition me :: "kstate \<Rightarrow> task_struct" where
  "me s = cur (sch s)"

definition now :: "kstate \<Rightarrow> u32" where
  "now s = of_int (CURRENT_TIME (sch s))"

definition blocked :: "'a kop" where
  "blocked s = Inl (Blocked s)"

definition fault :: "'a kop" where
  "fault s = Inl (Fault s)"

definition suser :: "kstate \<Rightarrow> bool" where
  "suser s \<longleftrightarrow> t_euid (me s) = 0"

text \<open>The end of a system call that first gives back what it holds.\<close>

fun leave :: "unit kop list \<Rightarrow> 'a \<Rightarrow> 'a kop" where
  "leave [] r s = ret r s"
| "leave (f # fs) r s = bindK (f s) (\<lambda>_ s. leave fs r s)"

text \<open>A call of \<open>schedule()\<close> by a process that stays runnable; another process may run first.\<close>

definition yield :: "unit kop" where
  "yield s =
    (case schedule (sch s) of
       None \<Rightarrow> blocked s
     | Some sc \<Rightarrow> if current sc = current (sch s) then ret () (s\<lparr>sch := sc\<rparr>) else blocked (s\<lparr>sch := sc\<rparr>))"

text \<open>A routine of the memory manager, run on its part of the state.\<close>

definition lift_mm :: "(mm_state \<Rightarrow> ('a, mm_state) kres) \<Rightarrow> 'a kop" where
  "lift_mm f s =
    (case f (mm s) of
       Inr (x, m) \<Rightarrow> ret x (s\<lparr>mm := m\<rparr>)
     | Inl (Panic msg) \<Rightarrow> Inl (Panic msg)
     | Inl (Exit c m) \<Rightarrow> Inl (Exit c (s\<lparr>mm := m\<rparr>))
     | Inl (Blocked m) \<Rightarrow> Inl (Blocked (s\<lparr>mm := m\<rparr>))
     | Inl (Fault m) \<Rightarrow> Inl (Fault (s\<lparr>mm := m\<rparr>)))"

text \<open>\<open>verify_area\<close> of \<open>kernel/fork.c\<close>: every page of the area is made writable.\<close>

definition verify_area :: "u32 \<Rightarrow> int \<Rightarrow> unit kop" where
  "verify_area addr sz s =
    (let sz = s32 (sz + int (unat (addr AND 0xfff)));
         start = (addr AND 0xfffff000) + get_base (t_ldt (me s) 2)
     in forK [0..<nat ((sz + 4095) div 4096)] (\<lambda>k. lift_mm (write_verify (start + 4096 * of_nat k))) s)"

text \<open>\<open>wake_up\<close> of the processes waiting for an inode, or for a free buffer.\<close>

definition wake_inode :: "nat \<Rightarrow> kstate \<Rightarrow> kstate" where
  "wake_inode i s =
    (let (q, sc) = Sched.wake_up (i_wait (inode_table s i)) (sch s)
     in upd_inode i (\<lambda>n. n\<lparr>i_wait := q\<rparr>) (s\<lparr>sch := sc\<rparr>))"

definition wake_buffer_wait :: "kstate \<Rightarrow> kstate" where
  "wake_buffer_wait s =
    (let (q, sc) = Sched.wake_up (buffer_wait s) (sch s) in s\<lparr>sch := sc, buffer_wait := q\<rparr>)"

section \<open>16- and 32-bit values in a block\<close>

definition get_u16 :: "block_data \<Rightarrow> nat \<Rightarrow> u16" where
  "get_u16 d k = ucast (d k) OR push_bit 8 (ucast (d (k + 1)))"

definition put_u16 :: "nat \<Rightarrow> u16 \<Rightarrow> block_data \<Rightarrow> block_data" where
  "put_u16 k v d = d(k := ucast v, k + 1 := ucast (drop_bit 8 v))"

definition get_u32 :: "block_data \<Rightarrow> nat \<Rightarrow> u32" where
  "get_u32 d k = ucast (get_u16 d k) OR push_bit 16 (ucast (get_u16 d (k + 2)))"

definition put_u32 :: "nat \<Rightarrow> u32 \<Rightarrow> block_data \<Rightarrow> block_data" where
  "put_u32 k v d = put_u16 k (ucast v) (put_u16 (k + 2) (ucast (drop_bit 16 v)) d)"

text \<open>The same accesses on the user's memory.\<close>

definition get_fs_long :: "(u32 \<Rightarrow> u8) \<Rightarrow> u32 \<Rightarrow> u32" where
  "get_fs_long m a =
    (ucast (m a) OR push_bit 8 (ucast (m (a + 1))) OR push_bit 16 (ucast (m (a + 2))) OR push_bit 24 (ucast (m (a + 3))))"

definition put_fs_long :: "u32 \<Rightarrow> u32 \<Rightarrow> (u32 \<Rightarrow> u8) \<Rightarrow> u32 \<Rightarrow> u8" where
  "put_fs_long v a m =
    m(a := ucast v, a + 1 := ucast (drop_bit 8 v), a + 2 := ucast (drop_bit 16 v), a + 3 := ucast (drop_bit 24 v))"

section \<open>Facts about the state\<close>

lemma get_put_fs_long [simp]: "get_fs_long (put_fs_long v a m) a = v"
proof -
  have "ucast (ucast v :: u8) OR push_bit 8 (ucast (ucast (drop_bit 8 v) :: u8))
      OR push_bit 16 (ucast (ucast (drop_bit 16 v) :: u8)) OR push_bit 24 (ucast (ucast (drop_bit 24 v) :: u8)) = v"
  proof (rule bit_word_eqI)
    fix n :: nat
    assume "n < LENGTH(32)"
    then consider "n < 8" | "8 \<le> n \<and> n < 16" | "16 \<le> n \<and> n < 24" | "24 \<le> n \<and> n < 32"
      by fastforce
    then show "bit ((ucast (ucast v :: u8) :: u32) OR push_bit 8 (ucast (ucast (drop_bit 8 v) :: u8))
        OR push_bit 16 (ucast (ucast (drop_bit 16 v) :: u8)) OR push_bit 24 (ucast (ucast (drop_bit 24 v) :: u8))) n
      \<longleftrightarrow> bit v n"
      by cases (auto simp: bit_simps)
  qed
  then show ?thesis
    by (simp add: get_fs_long_def put_fs_long_def)
qed

lemma get_put_fs_long_other [simp]:
  assumes "3 < b - a" "3 < a - b"
  shows "get_fs_long (put_fs_long v a m) b = get_fs_long m b"
proof -
  have far: "b + i \<noteq> a + j" if "i \<in> {0, 1, 2, 3}" "j \<in> {0, 1, 2, 3}" for i j :: u32
  proof
    assume "b + i = a + j"
    then have "b - a = j - i" "a - b = i - j"
      by (simp_all add: algebra_simps)
    then show False
      using assms that by auto
  qed
  show ?thesis
    using far [of 0 0] far [of 0 1] far [of 0 2] far [of 0 3] far [of 1 0] far [of 1 1] far [of 1 2] far [of 1 3]
      far [of 2 0] far [of 2 1] far [of 2 2] far [of 2 3] far [of 3 0] far [of 3 1] far [of 3 2] far [of 3 3]
    by (simp add: get_fs_long_def put_fs_long_def)
qed

lemma cur_upd_cur [simp]:
  "task s (current s) \<noteq> None \<Longrightarrow> cur (upd_cur f s) = f (cur s)"
  by (auto simp: cur_def upd_cur_def upd_task_def the_task_def)

lemma upd_me_simps [simp]:
  "me (s\<lparr>mm := a\<rparr>) = me s" "me (s\<lparr>umem := b\<rparr>) = me s"
  "umem (upd_me f s) = umem s" "mm (upd_me f s) = mm s"
  "current (sch (upd_me f s)) = current (sch s)"
  "task (sch (upd_me f s)) = (task (sch s))(current (sch s) := map_option f (task (sch s) (current (sch s))))"
  by (simp_all add: me_def upd_me_def upd_cur_def upd_task_def)

lemma me_upd_me [simp]: "task (sch s) (current (sch s)) \<noteq> None \<Longrightarrow> me (upd_me f s) = f (me s)"
  by (simp add: me_def upd_me_def)

lemma okK_lift_mm: "okK (\<lambda>x t. \<exists>m. t = s\<lparr>mm := m\<rparr>) (lift_mm f s)"
  by (auto simp: lift_mm_def okK_def ret_def split: sum.splits kerr.splits)

lemma okK_verify_area: "okK (\<lambda>_ t. \<exists>m. t = s\<lparr>mm := m\<rparr>) (verify_area a n s)"
  unfolding verify_area_def Let_def
proof (rule okK_forK)
  fix k and t :: kstate
  assume "\<exists>m. t = s\<lparr>mm := m\<rparr>"
  then obtain m where "t = s\<lparr>mm := m\<rparr>" by blast
  then show "okK (\<lambda>_ t. \<exists>m. t = s\<lparr>mm := m\<rparr>) (lift_mm (write_verify ((a AND 4294963200) + get_base (t_ldt (me s) 2) + 4096 * of_nat k)) t)"
    using okK_lift_mm [of t] by (auto elim!: okK_mono)
qed (auto intro: exI [of _ "mm s"])

lemma write_verify_writable: "writable m a \<Longrightarrow> write_verify a m = ret () m"
  by (simp add: write_verify_def writable_def pte_def [of m a] pde_def frame_def Let_def and.commute)


text \<open>A kernel with one process besides the idle task, and no files, disks or terminals.\<close>

definition null_buffer :: buffer_head where
  "null_buffer = \<lparr>b_data = (\<lambda>_. 0), b_blocknr = 0, b_dev = 0, b_uptodate = 0, b_dirt = 0, b_count = 0, b_lock = 0,
     b_wait = None, b_prev = None, b_next = None, b_prev_free = None, b_next_free = None\<rparr>"

definition null_super :: super_block where
  "null_super = \<lparr>s_ninodes = 0, s_nzones = 0, s_imap_blocks = 0, s_zmap_blocks = 0, s_firstdatazone = 0,
     s_log_zone_size = 0, s_max_size = 0, s_magic = 0, s_imap = (\<lambda>_. None), s_zmap = (\<lambda>_. None), s_dev = 0,
     s_isup = None, s_imount = None, s_time = 0, s_wait = None, s_lock = 0, s_rd_only = 0, s_dirt = 0\<rparr>"

definition null_tty :: tty_struct where
  "null_tty =
    (let q = \<lparr>q_data = 0, q_head = 0, q_tail = 0, q_proc_list = None, q_buf = (\<lambda>_. 0)\<rparr>
     in \<lparr>termios = \<lparr>c_iflag = 0, c_oflag = 0, c_cflag = 0, c_lflag = 0, c_line = 0, c_cc = (\<lambda>_. 0)\<rparr>,
         tty_pgrp = 0, stopped = False, read_q = q, write_q = q, secondary = q\<rparr>)"

definition user_task :: task_struct where
  "user_task = (INIT_TASK 0)\<lparr>t_pid := 1, t_father := 0, t_uid := 7, t_euid := 7, t_suid := 7\<rparr>"

definition demo_kernel :: kstate where
  "demo_kernel =
    \<lparr>sch = \<lparr>task = [0 \<mapsto> INIT_TASK 0, 1 \<mapsto> user_task], current = 1, jiffies = 100, startup_time = 0,
           last_pid = 1, last_task_used_math = None, task_page = (\<lambda>_. 0)\<rparr>,
     mm = cow_mm, umem = (\<lambda>_. 0), buf = (\<lambda>_. null_buffer), NR_BUFFERS = 0, hash_table = (\<lambda>_. None),
     free_list = 0, buffer_wait = None, null_b_prev = None, disk = (\<lambda>_ _. None), blk_fn = (\<lambda>_. False),
     fd_changed = (\<lambda>_. False), inode_table = (\<lambda>_. zero_inode), last_inode = 0,
     super_table = (\<lambda>_. null_super), ROOT_DEV = 0,
     file_table = (\<lambda>_. \<lparr>f_mode = 0, f_flags = 0, f_count = 0, f_inode = None, f_pos = 0\<rparr>),
     tty_table = (\<lambda>_. null_tty), cr_flag = False, con = blank_console, beepcount = 0, port_in = (\<lambda>_. 0), port_out = []\<rparr>"

lemma demo_kernel_simps [simp]:
  "me demo_kernel = user_task" "current (sch demo_kernel) = 1" "task (sch demo_kernel) 1 = Some user_task"
  "task (sch demo_kernel) (Suc 0) = Some user_task" "mm demo_kernel = cow_mm"
  by (simp_all add: demo_kernel_def me_def cur_def the_task_def)

section \<open>Facts about values in a block\<close>

lemma get_put_u16 [simp]: "get_u16 (put_u16 k v d) k = v"
proof -
  have "ucast (ucast v :: u8) OR push_bit 8 (ucast (ucast (drop_bit 8 v) :: u8)) = v"
  proof (rule bit_word_eqI)
    fix n :: nat
    assume "n < LENGTH(16)"
    then consider "n < 8" | "8 \<le> n \<and> n < 16"
      by fastforce
    then show "bit ((ucast (ucast v :: u8) :: u16) OR push_bit 8 (ucast (ucast (drop_bit 8 v) :: u8))) n \<longleftrightarrow> bit v n"
      by cases (auto simp: bit_simps)
  qed
  then show ?thesis
    by (simp add: get_u16_def put_u16_def)
qed

lemma get_u16_local [simp]: "j + 1 < k \<or> k + 1 < j \<Longrightarrow> get_u16 (put_u16 k v d) j = get_u16 d j"
  by (auto simp: get_u16_def put_u16_def)

lemma put_u16_apply: "put_u16 k v d j = (if j = k then ucast v else if j = k + 1 then ucast (drop_bit 8 v) else d j)"
  by (simp add: put_u16_def)

lemma get_u16_byte [simp]: "k \<noteq> j \<Longrightarrow> k \<noteq> j + 1 \<Longrightarrow> get_u16 (d(k := v)) j = get_u16 d j"
  by (simp add: get_u16_def)

lemma get_put_u32 [simp]: "get_u32 (put_u32 k v d) k = v"
proof -
  have "ucast (ucast v :: u16) OR push_bit 16 (ucast (ucast (drop_bit 16 v) :: u16)) = v"
  proof (rule bit_word_eqI)
    fix n :: nat
    assume "n < LENGTH(32)"
    then consider "n < 16" | "16 \<le> n \<and> n < 32"
      by fastforce
    then show "bit ((ucast (ucast v :: u16) :: u32) OR push_bit 16 (ucast (ucast (drop_bit 16 v) :: u16))) n \<longleftrightarrow> bit v n"
      by cases (auto simp: bit_simps)
  qed
  then show ?thesis
    by (simp add: get_u32_def put_u32_def)
qed

lemma get_u16_put_u32 [simp]: "j + 1 < k \<or> k + 3 < j \<Longrightarrow> get_u16 (put_u32 k v d) j = get_u16 d j"
  by (auto simp: put_u32_def)

lemma get_u32_byte [simp]: "k \<notin> {j, j + 1, j + 2, j + 3} \<Longrightarrow> get_u32 (d(k := v)) j = get_u32 d j"
  by (simp add: get_u32_def)

lemma get_u32_put_u16 [simp]: "j + 3 < k \<or> k + 1 < j \<Longrightarrow> get_u32 (put_u16 k v d) j = get_u32 d j"
  by (auto simp: get_u32_def)

lemma get_u32_put_u32 [simp]: "j + 3 < k \<or> k + 3 < j \<Longrightarrow> get_u32 (put_u32 k v d) j = get_u32 d j"
  by (auto simp: put_u32_def)

lemma put_u32_apply: "j < k \<or> k + 3 < j \<Longrightarrow> put_u32 k v d j = d j"
  by (auto simp: put_u32_def put_u16_apply)

text \<open>An array of 16-bit values.\<close>

definition put_u16s :: "(nat \<Rightarrow> u16) \<Rightarrow> nat \<Rightarrow> nat \<Rightarrow> block_data \<Rightarrow> block_data" where
  "put_u16s f k n = fold (\<lambda>z. put_u16 (k + 2 * z) (f z)) [0..<n]"

lemma put_u16s_Suc: "put_u16s f k (Suc n) d = put_u16 (k + 2 * n) (f n) (put_u16s f k n d)"
  by (simp add: put_u16s_def)

lemma put_u16s_get: "z < n \<Longrightarrow> get_u16 (put_u16s f k n d) (k + 2 * z) = f z"
  by (induction n) (auto simp: put_u16s_Suc less_Suc_eq)

lemma put_u16s_apply: "j < k \<or> k + 2 * n \<le> j \<Longrightarrow> put_u16s f k n d j = d j"
  by (induction n) (auto simp: put_u16s_Suc put_u16_apply put_u16s_def)

lemma get_u16_cong: "d j = e j \<Longrightarrow> d (j + 1) = e (j + 1) \<Longrightarrow> get_u16 d j = get_u16 e j"
  by (simp add: get_u16_def)

end
