(* ===== verification/Buffer.thy ===== *)
theory Buffer
  imports Kstate
begin

text \<open>
  \<open>fs/buffer.c\<close>: the buffer cache. Buffers hang in the chains of a hash table by device and block, and
  all of them in one ring, the free list, in order of use. The device request of \<open>ll_rw_block\<close> is carried
  out at once. \<open>getblk\<close> may call \<open>sync_dev\<close>, which writes inodes, which needs buffers: that recursion is
  bounded because every level locks one more inode; the fuel \<open>SYNC_FUEL\<close> counts the levels.
\<close>

unbundle bit_operations_syntax

section \<open>Devices\<close>

definition NR_BLK_DEV :: nat where "NR_BLK_DEV = 7"

definition wait_on_buffer :: "nat \<Rightarrow> unit kop" where
  "wait_on_buffer bh s = (if b_lock (buf s bh) \<noteq> 0 then blocked s else ret () s)"

definition unlock_buffer :: "nat \<Rightarrow> kstate \<Rightarrow> kstate" where
  "unlock_buffer bh s =
    (let (q, sc) = Sched.wake_up (b_wait (buf s bh)) (sch s)
     in upd_buf bh (\<lambda>b. b\<lparr>b_lock := 0, b_wait := q\<rparr>) (s\<lparr>sch := sc\<rparr>))"

text \<open>What the driver and \<open>end_request\<close> do with a request for the buffer: an error leaves it not up to
  date.\<close>

definition device_request :: "rw \<Rightarrow> nat \<Rightarrow> kstate \<Rightarrow> kstate" where
  "device_request rw bh s =
    (let b = buf s bh; dev = b_dev b; blk = b_blocknr b
     in case disk s dev blk of
          None \<Rightarrow> upd_buf bh (\<lambda>b. b\<lparr>b_uptodate := 0\<rparr>) s
        | Some d \<Rightarrow>
            if rw = READ then upd_buf bh (\<lambda>b. b\<lparr>b_data := d, b_uptodate := 1\<rparr>) s
            else upd_buf bh (\<lambda>b. b\<lparr>b_uptodate := 1\<rparr>)
                   (s\<lparr>disk := (disk s)(dev := (disk s dev)(blk := Some (b_data b)))\<rparr>))"

definition make_request :: "rw \<Rightarrow> nat \<Rightarrow> unit kop" where
  "make_request rw bh s =
    (if (rw = READA \<or> rw = WRITEA) \<and> b_lock (buf s bh) \<noteq> 0 then ret () s
     else
       let rw = (if rw = READA then READ else if rw = WRITEA then WRITE else rw)
       in bindK (wait_on_buffer bh s) (\<lambda>_ s.
            let s = upd_buf bh (\<lambda>b. b\<lparr>b_lock := 1\<rparr>) s
            in if (rw = WRITE \<and> b_dirt (buf s bh) = 0) \<or> (rw = READ \<and> b_uptodate (buf s bh) \<noteq> 0)
               then ret () (unlock_buffer bh s)
               else
                 let s = upd_buf bh (\<lambda>b. b\<lparr>b_dirt := 0\<rparr>) s
                 in ret () (unlock_buffer bh (device_request rw bh s))))"

definition ll_rw_block :: "rw \<Rightarrow> nat \<Rightarrow> unit kop" where
  "ll_rw_block rw bh s =
    (let major = MAJOR (b_dev (buf s bh))
     in if major \<ge> NR_BLK_DEV \<or> \<not> blk_fn s major then ret () s
        else make_request rw bh s)"

section \<open>The queues\<close>

definition hashfn :: "u16 \<Rightarrow> u32 \<Rightarrow> nat" where
  "hashfn dev block = unat (ucast dev XOR block) mod NR_HASH"

definition set_hash :: "nat \<Rightarrow> nat option \<Rightarrow> kstate \<Rightarrow> kstate" where
  "set_hash h v s = s\<lparr>hash_table := (hash_table s)(h := v)\<rparr>"

definition remove_from_queues :: "nat \<Rightarrow> unit kop" where
  "remove_from_queues bh s =
    (let s = (case b_next (buf s bh) of
                None \<Rightarrow> s
              | Some n \<Rightarrow> upd_buf n (\<lambda>b. b\<lparr>b_prev := b_prev (buf s bh)\<rparr>) s);
         s = (case b_prev (buf s bh) of
                None \<Rightarrow> s
              | Some p \<Rightarrow> upd_buf p (\<lambda>b. b\<lparr>b_next := b_next (buf s bh)\<rparr>) s);
         h = hashfn (b_dev (buf s bh)) (b_blocknr (buf s bh));
         s = (if hash_table s h = Some bh then set_hash h (b_next (buf s bh)) s else s)
     in case (b_prev_free (buf s bh), b_next_free (buf s bh)) of
          (Some p, Some n) \<Rightarrow>
            let s = upd_buf p (\<lambda>b. b\<lparr>b_next_free := Some n\<rparr>) s;
                s = upd_buf n (\<lambda>b. b\<lparr>b_prev_free := b_prev_free (buf s bh)\<rparr>) s
            in ret () (if free_list s = bh
                       then s\<lparr>free_list := (case b_next_free (buf s bh) of Some n \<Rightarrow> n | None \<Rightarrow> free_list s)\<rparr>
                       else s)
        | _ \<Rightarrow> panic ''Free block list corrupted'')"

text \<open>A buffer that becomes the only one of its chain has no next buffer whose \<open>b_prev\<close> could be set:
  the store goes through the null pointer.\<close>

definition insert_into_queues :: "nat \<Rightarrow> unit kop" where
  "insert_into_queues bh s =
    (let s = upd_buf bh (\<lambda>b. b\<lparr>b_next_free := Some (free_list s)\<rparr>) s;
         s = upd_buf bh (\<lambda>b. b\<lparr>b_prev_free := b_prev_free (buf s (free_list s))\<rparr>) s
     in case b_prev_free (buf s (free_list s)) of
          None \<Rightarrow> fault s
        | Some p \<Rightarrow>
            let s = upd_buf p (\<lambda>b. b\<lparr>b_next_free := Some bh\<rparr>) s;
                s = upd_buf (free_list s) (\<lambda>b. b\<lparr>b_prev_free := Some bh\<rparr>) s;
                s = upd_buf bh (\<lambda>b. b\<lparr>b_prev := None, b_next := None\<rparr>) s
            in if b_dev (buf s bh) = 0 then ret () s
               else
                 let h = hashfn (b_dev (buf s bh)) (b_blocknr (buf s bh));
                     s = upd_buf bh (\<lambda>b. b\<lparr>b_next := hash_table s h\<rparr>) s;
                     s = set_hash h (Some bh) s
                 in ret () (case b_next (buf s bh) of
                              None \<Rightarrow> s\<lparr>null_b_prev := Some bh\<rparr>
                            | Some n \<Rightarrow> upd_buf n (\<lambda>b. b\<lparr>b_prev := Some bh\<rparr>) s))"

text \<open>The walk along a hash chain; the chains have at most \<open>NR_BUFFERS\<close> buffers.\<close>

fun find_in_chain :: "nat \<Rightarrow> nat option \<Rightarrow> u16 \<Rightarrow> u32 \<Rightarrow> nat option kop" where
  "find_in_chain k None dev block s = ret None s"
| "find_in_chain 0 (Some b) dev block s = blocked s"
| "find_in_chain (Suc k) (Some b) dev block s =
    (if b_dev (buf s b) = dev \<and> b_blocknr (buf s b) = block then ret (Some b) s
     else find_in_chain k (b_next (buf s b)) dev block s)"

definition find_buffer :: "u16 \<Rightarrow> u32 \<Rightarrow> nat option kop" where
  "find_buffer dev block s = find_in_chain (Suc (NR_BUFFERS s)) (hash_table s (hashfn dev block)) dev block s"

text \<open>The loop of \<open>get_hash_table\<close> repeats only when the buffer changed during a sleep.\<close>

definition get_hash_table :: "u16 \<Rightarrow> u32 \<Rightarrow> nat option kop" where
  "get_hash_table dev block s =
    bindK (find_buffer dev block s) (\<lambda>r s.
      case r of
        None \<Rightarrow> ret None s
      | Some bh \<Rightarrow>
          bindK (wait_on_buffer bh (upd_buf bh (\<lambda>b. b\<lparr>b_count := b_count b + 1\<rparr>) s))
            (\<lambda>_ s. ret (Some bh) s))"

section \<open>getblk\<close>

definition BADNESS :: "buffer_head \<Rightarrow> nat" where
  "BADNESS b = 2 * unat (b_dirt b) + unat (b_lock b)"

text \<open>The scan of the free list for an unused buffer, the best one seen so far in \<open>bh\<close>.\<close>

primrec scan_free :: "nat \<Rightarrow> nat option \<Rightarrow> nat \<Rightarrow> nat option kop" where
  "scan_free 0 bh tmp s = blocked s"
| "scan_free (Suc k) bh tmp s =
    (let t = buf s tmp;
         better = (b_count t = 0 \<and> (case bh of None \<Rightarrow> True | Some b \<Rightarrow> BADNESS t < BADNESS (buf s b)));
         bh = (if better then Some tmp else bh)
     in if better \<and> BADNESS t = 0 then ret bh s
        else case b_next_free t of
               None \<Rightarrow> fault s
             | Some n \<Rightarrow> if n = free_list s then ret bh s else scan_free k bh n s)"

text \<open>\<open>while (bh->b_dirt)\<close>: the result tells whether to start over, because the buffer has been taken.\<close>

primrec clean_buffer :: "(u16 \<Rightarrow> unit kop) \<Rightarrow> nat \<Rightarrow> nat \<Rightarrow> bool kop" where
  "clean_buffer sync 0 bh s = blocked s"
| "clean_buffer sync (Suc k) bh s =
    (if b_dirt (buf s bh) = 0 then ret False s
     else bindK (sync (b_dev (buf s bh)) s) (\<lambda>_ s.
          bindK (wait_on_buffer bh s) (\<lambda>_ s.
          if b_count (buf s bh) \<noteq> 0 then ret True s else clean_buffer sync k bh s)))"

text \<open>The end of \<open>getblk\<close>: the buffer is unused, unlocked and clean.\<close>

definition take_buffer :: "u16 \<Rightarrow> u32 \<Rightarrow> nat \<Rightarrow> nat kop" where
  "take_buffer dev block bh s =
    bindK (remove_from_queues bh (upd_buf bh (\<lambda>b. b\<lparr>b_count := 1, b_dirt := 0, b_uptodate := 0\<rparr>) s)) (\<lambda>_ s.
    bindK (insert_into_queues bh (upd_buf bh (\<lambda>b. b\<lparr>b_dev := dev, b_blocknr := block\<rparr>) s)) (\<lambda>_ s.
    ret bh s))"

text \<open>\<open>goto repeat\<close> uses up fuel: a process that is alone repeats only after \<open>sync_dev\<close> has used the
  buffer itself.\<close>

primrec getblk_with :: "(u16 \<Rightarrow> unit kop) \<Rightarrow> nat \<Rightarrow> u16 \<Rightarrow> u32 \<Rightarrow> nat kop" where
  "getblk_with sync 0 dev block s = blocked s"
| "getblk_with sync (Suc k) dev block s =
    bindK (get_hash_table dev block s) (\<lambda>r s.
      case r of
        Some bh \<Rightarrow> ret bh s
      | None \<Rightarrow>
          bindK (scan_free (Suc (NR_BUFFERS s)) None (free_list s) s) (\<lambda>r s.
            case r of
              None \<Rightarrow> blocked s
            | Some bh \<Rightarrow>
                bindK (wait_on_buffer bh s) (\<lambda>_ s.
                if b_count (buf s bh) \<noteq> 0 then getblk_with sync k dev block s
                else
                  bindK (clean_buffer sync k bh s) (\<lambda>again s.
                  if again then getblk_with sync k dev block s
                  else
                    bindK (find_buffer dev block s) (\<lambda>r s.
                    if r \<noteq> None then getblk_with sync k dev block s
                    else take_buffer dev block bh s)))))"

definition brelse :: "nat option \<Rightarrow> unit kop" where
  "brelse b s =
    (case b of
       None \<Rightarrow> ret () s
     | Some bh \<Rightarrow>
         bindK (wait_on_buffer bh s) (\<lambda>_ s.
         if b_count (buf s bh) = 0 then panic ''Trying to free free buffer''
         else ret () (wake_buffer_wait (upd_buf bh (\<lambda>b. b\<lparr>b_count := b_count b - 1\<rparr>) s))))"

definition REPEAT_FUEL :: nat where "REPEAT_FUEL = 100"

definition bread_with :: "(u16 \<Rightarrow> unit kop) \<Rightarrow> u16 \<Rightarrow> u32 \<Rightarrow> nat option kop" where
  "bread_with sync dev block s =
    bindK (getblk_with sync REPEAT_FUEL dev block s) (\<lambda>bh s.
      if b_uptodate (buf s bh) \<noteq> 0 then ret (Some bh) s
      else
        bindK (ll_rw_block READ bh s) (\<lambda>_ s.
        bindK (wait_on_buffer bh s) (\<lambda>_ s.
        if b_uptodate (buf s bh) \<noteq> 0 then ret (Some bh) s
        else bindK (brelse (Some bh) s) (\<lambda>_ s. ret None s))))"

end
