(* ===== verification/Sync.thy ===== *)
theory Sync
  imports Buffer
begin

text \<open>
  Reading and writing inodes (\<open>read_inode\<close>, \<open>write_inode\<close>, \<open>sync_inodes\<close> of \<open>fs/inode.c\<close>), looking up
  super blocks (\<open>get_super\<close> of \<open>fs/super.c\<close>) and \<open>sync_dev\<close>, \<open>sys_sync\<close> of \<open>fs/buffer.c\<close>, which call each
  other; and with them \<open>getblk\<close>, \<open>bread\<close>, \<open>breada\<close> and \<open>bread_page\<close>.
\<close>

unbundle bit_operations_syntax

section \<open>Super blocks and inode locks\<close>

definition wait_on_super :: "nat \<Rightarrow> unit kop" where
  "wait_on_super sb s = (if s_lock (super_table s sb) \<noteq> 0 then blocked s else ret () s)"

definition lock_super :: "nat \<Rightarrow> unit kop" where
  "lock_super sb s =
    bindK (wait_on_super sb s) (\<lambda>_ s. ret () (upd_super sb (\<lambda>b. b\<lparr>s_lock := 1\<rparr>) s))"

definition free_super :: "nat \<Rightarrow> kstate \<Rightarrow> kstate" where
  "free_super sb s =
    (let (q, sc) = Sched.wake_up (s_wait (super_table s sb)) (sch s)
     in upd_super sb (\<lambda>b. b\<lparr>s_lock := 0, s_wait := q\<rparr>) (s\<lparr>sch := sc\<rparr>))"

definition get_super :: "u16 \<Rightarrow> nat option kop" where
  "get_super dev s =
    (if dev = 0 then ret None s
     else case find (\<lambda>i. s_dev (super_table s i) = dev) [0..<NR_SUPER] of
            None \<Rightarrow> ret None s
          | Some i \<Rightarrow> bindK (wait_on_super i s) (\<lambda>_ s. ret (Some i) s))"

definition wait_on_inode :: "nat \<Rightarrow> unit kop" where
  "wait_on_inode i s = (if i_lock (inode_table s i) \<noteq> 0 then blocked s else ret () s)"

definition lock_inode :: "nat \<Rightarrow> unit kop" where
  "lock_inode i s =
    bindK (wait_on_inode i s) (\<lambda>_ s. ret () (upd_inode i (\<lambda>n. n\<lparr>i_lock := 1\<rparr>) s))"

definition unlock_inode :: "nat \<Rightarrow> kstate \<Rightarrow> kstate" where
  "unlock_inode i s = wake_inode i (upd_inode i (\<lambda>n. n\<lparr>i_lock := 0\<rparr>) s)"

section \<open>The inode on disk\<close>

text \<open>The block of an inode and its offset there.\<close>

definition inode_block :: "super_block \<Rightarrow> u16 \<Rightarrow> u32" where
  "inode_block sb num = 2 + ucast (s_imap_blocks sb) + ucast (s_zmap_blocks sb) + (ucast num - 1) div 32"

definition inode_offset :: "u16 \<Rightarrow> nat" where
  "inode_offset num = unat ((ucast num - 1) mod 32 :: u32) * 32"

definition load_d_inode :: "block_data \<Rightarrow> nat \<Rightarrow> m_inode \<Rightarrow> m_inode" where
  "load_d_inode d k n =
    n\<lparr>i_mode := get_u16 d k, i_uid := get_u16 d (k + 2), i_size := get_u32 d (k + 4),
      i_mtime := get_u32 d (k + 8), i_gid := d (k + 12), i_nlinks := d (k + 13),
      i_zone := (\<lambda>z. if z < 9 then get_u16 d (k + 14 + 2 * z) else i_zone n z)\<rparr>"

definition store_d_inode :: "m_inode \<Rightarrow> nat \<Rightarrow> block_data \<Rightarrow> block_data" where
  "store_d_inode n k d =
    fold (\<lambda>z. put_u16 (k + 14 + 2 * z) (i_zone n z)) [0..<9]
      ((put_u16 k (i_mode n) (put_u16 (k + 2) (i_uid n) (put_u32 (k + 4) (i_size n)
        (put_u32 (k + 8) (i_mtime n) d))))(k + 12 := i_gid n, k + 13 := i_nlinks n))"

definition write_inode_with :: "(u16 \<Rightarrow> unit kop) \<Rightarrow> nat \<Rightarrow> unit kop" where
  "write_inode_with sync i s =
    bindK (lock_inode i s) (\<lambda>_ s.
      if i_dirt (inode_table s i) = 0 \<or> i_dev (inode_table s i) = 0 then ret () (unlock_inode i s)
      else
        bindK (get_super (i_dev (inode_table s i)) s) (\<lambda>r s.
        case r of
          None \<Rightarrow> panic ''trying to write inode without device''
        | Some sb \<Rightarrow>
            let num = i_num (inode_table s i)
            in bindK (bread_with sync (i_dev (inode_table s i)) (inode_block (super_table s sb) num) s) (\<lambda>r s.
               case r of
                 None \<Rightarrow> panic ''unable to read i-node block''
               | Some bh \<Rightarrow>
                   let s = upd_buf bh (\<lambda>b. b\<lparr>b_data := store_d_inode (inode_table s i) (inode_offset num) (b_data b),
                                           b_dirt := 1\<rparr>) s;
                       s = upd_inode i (\<lambda>n. n\<lparr>i_dirt := 0\<rparr>) s
                   in bindK (brelse (Some bh) s) (\<lambda>_ s. ret () (unlock_inode i s)))))"

definition sync_inodes_with :: "(u16 \<Rightarrow> unit kop) \<Rightarrow> unit kop" where
  "sync_inodes_with sync s =
    forK [0..<NR_INODE] (\<lambda>i s.
      bindK (wait_on_inode i s) (\<lambda>_ s.
        if i_dirt (inode_table s i) \<noteq> 0 \<and> i_pipe (inode_table s i) = 0
        then write_inode_with sync i s else ret () s)) s"

section \<open>sync\<close>

text \<open>One pass over the buffers of a device.\<close>

definition sync_buffers :: "u16 \<Rightarrow> unit kop" where
  "sync_buffers dev s =
    forK [0..<NR_BUFFERS s] (\<lambda>i s.
      if b_dev (buf s i) \<noteq> dev then ret () s
      else
        bindK (wait_on_buffer i s) (\<lambda>_ s.
          if b_dev (buf s i) = dev \<and> b_dirt (buf s i) \<noteq> 0 then ll_rw_block WRITE i s else ret () s)) s"

text \<open>Every nested call has one more inode locked; with all of them locked \<open>sync_inodes\<close> sleeps at the
  first, so that the fuel is never used up.\<close>

primrec sync_dev_n :: "nat \<Rightarrow> u16 \<Rightarrow> unit kop" where
  "sync_dev_n 0 dev s = blocked s"
| "sync_dev_n (Suc n) dev s =
    bindK (sync_buffers dev s) (\<lambda>_ s.
    bindK (sync_inodes_with (sync_dev_n n) s) (\<lambda>_ s.
    sync_buffers dev s))"

definition SYNC_FUEL :: nat where "SYNC_FUEL = 33"

definition sync_dev :: "u16 \<Rightarrow> unit kop" where
  "sync_dev = sync_dev_n SYNC_FUEL"

definition sync_inodes :: "unit kop" where
  "sync_inodes = sync_inodes_with sync_dev"

definition write_inode :: "nat \<Rightarrow> unit kop" where
  "write_inode = write_inode_with sync_dev"

definition sys_sync :: "int kop" where
  "sys_sync s =
    bindK (sync_inodes s) (\<lambda>_ s.
    bindK (forK [0..<NR_BUFFERS s] (\<lambda>i s.
      bindK (wait_on_buffer i s) (\<lambda>_ s.
        if b_dirt (buf s i) \<noteq> 0 then ll_rw_block WRITE i s else ret () s)) s) (\<lambda>_ s.
    ret 0 s))"

section \<open>Reading blocks\<close>

definition getblk :: "u16 \<Rightarrow> u32 \<Rightarrow> nat kop" where
  "getblk = getblk_with sync_dev REPEAT_FUEL"

definition bread :: "u16 \<Rightarrow> u32 \<Rightarrow> nat option kop" where
  "bread = bread_with sync_dev"

text \<open>The read-ahead blocks of \<open>breada\<close>: the request is made for the first buffer, not for the one
  just found.\<close>

primrec breada_rest :: "u16 \<Rightarrow> nat \<Rightarrow> u32 list \<Rightarrow> unit kop" where
  "breada_rest dev bh [] s = ret () s"
| "breada_rest dev bh (blk # blks) s =
    bindK (getblk dev blk s) (\<lambda>tmp s.
    bindK (if b_uptodate (buf s tmp) = 0 then ll_rw_block READA bh s else ret () s) (\<lambda>_ s.
    breada_rest dev bh blks (upd_buf tmp (\<lambda>b. b\<lparr>b_count := b_count b - 1\<rparr>) s)))"

definition breada :: "u16 \<Rightarrow> u32 \<Rightarrow> u32 list \<Rightarrow> nat option kop" where
  "breada dev blk blks s =
    bindK (getblk dev blk s) (\<lambda>bh s.
    bindK (if b_uptodate (buf s bh) = 0 then ll_rw_block READ bh s else ret () s) (\<lambda>_ s.
    bindK (breada_rest dev bh blks s) (\<lambda>_ s.
    bindK (wait_on_buffer bh s) (\<lambda>_ s.
      if b_uptodate (buf s bh) \<noteq> 0 then ret (Some bh) s
      else bindK (brelse (Some bh) s) (\<lambda>_ s. ret None s)))))"

text \<open>\<open>COPYBLK\<close>: a block as 256 longs of physical memory.\<close>

definition copyblk :: "block_data \<Rightarrow> u32 \<Rightarrow> kstate \<Rightarrow> kstate" where
  "copyblk d address s =
    s\<lparr>mm := fold (\<lambda>k. set_long (address + 4 * of_nat k) (get_u32 d (4 * k))) [0..<256] (mm s)\<rparr>"

primrec bread_page_get :: "u16 \<Rightarrow> u32 list \<Rightarrow> nat option list kop" where
  "bread_page_get dev [] s = ret [] s"
| "bread_page_get dev (b # bs) s =
    bindK (if b \<noteq> 0 then
             bindK (getblk dev b s) (\<lambda>bh s.
               if b_uptodate (buf s bh) = 0 then bindK (ll_rw_block READ bh s) (\<lambda>_ s. ret (Some bh) s)
               else ret (Some bh) s)
           else ret None s) (\<lambda>r s.
    bindK (bread_page_get dev bs s) (\<lambda>rs s. ret (r # rs) s))"

fun bread_page_copy :: "u32 \<Rightarrow> nat option list \<Rightarrow> unit kop" where
  "bread_page_copy address [] s = ret () s"
| "bread_page_copy address (None # rs) s = bread_page_copy (address + 1024) rs s"
| "bread_page_copy address (Some bh # rs) s =
    bindK (wait_on_buffer bh s) (\<lambda>_ s.
      let s = (if b_uptodate (buf s bh) \<noteq> 0 then copyblk (b_data (buf s bh)) address s else s)
      in bindK (brelse (Some bh) s) (\<lambda>_ s. bread_page_copy (address + 1024) rs s))"

definition bread_page :: "u32 \<Rightarrow> u16 \<Rightarrow> u32 list \<Rightarrow> unit kop" where
  "bread_page address dev bs s =
    bindK (bread_page_get dev bs s) (\<lambda>rs s. bread_page_copy address rs s)"

definition read_inode :: "nat \<Rightarrow> unit kop" where
  "read_inode i s =
    bindK (lock_inode i s) (\<lambda>_ s.
    bindK (get_super (i_dev (inode_table s i)) s) (\<lambda>r s.
      case r of
        None \<Rightarrow> panic ''trying to read inode without dev''
      | Some sb \<Rightarrow>
          let num = i_num (inode_table s i)
          in bindK (bread (i_dev (inode_table s i)) (inode_block (super_table s sb) num) s) (\<lambda>r s.
             case r of
               None \<Rightarrow> panic ''unable to read i-node block''
             | Some bh \<Rightarrow>
                 let s = upd_inode i (load_d_inode (b_data (buf s bh)) (inode_offset num)) s
                 in bindK (brelse (Some bh) s) (\<lambda>_ s. ret () (unlock_inode i s)))))"

section \<open>Changed disks\<close>

definition invalidate_buffers :: "u16 \<Rightarrow> unit kop" where
  "invalidate_buffers dev s =
    forK [0..<NR_BUFFERS s] (\<lambda>i s.
      if b_dev (buf s i) \<noteq> dev then ret () s
      else bindK (wait_on_buffer i s) (\<lambda>_ s.
             ret () (if b_dev (buf s i) = dev then upd_buf i (\<lambda>b. b\<lparr>b_uptodate := 0, b_dirt := 0\<rparr>) s else s))) s"

definition invalidate_inodes :: "u16 \<Rightarrow> unit kop" where
  "invalidate_inodes dev s =
    forK [0..<NR_INODE] (\<lambda>i s.
      bindK (wait_on_inode i s) (\<lambda>_ s.
        ret () (if i_dev (inode_table s i) = dev then upd_inode i (\<lambda>n. n\<lparr>i_dev := 0, i_dirt := 0\<rparr>) s else s))) s"

definition put_super :: "u16 \<Rightarrow> unit kop" where
  "put_super dev s =
    (if dev = ROOT_DEV s then ret () s
     else bindK (get_super dev s) (\<lambda>r s.
       case r of
         None \<Rightarrow> ret () s
       | Some sb \<Rightarrow>
           if s_imount (super_table s sb) \<noteq> None then ret () s
           else
             bindK (lock_super sb s) (\<lambda>_ s.
             let s = upd_super sb (\<lambda>b. b\<lparr>s_dev := 0\<rparr>) s
             in bindK (forK [0..<I_MAP_SLOTS] (\<lambda>i s. brelse (s_imap (super_table s sb) i) s) s) (\<lambda>_ s.
                bindK (forK [0..<Z_MAP_SLOTS] (\<lambda>i s. brelse (s_zmap (super_table s sb) i) s) s) (\<lambda>_ s.
                ret () (free_super sb s))))))"

definition check_disk_change :: "u16 \<Rightarrow> unit kop" where
  "check_disk_change dev s =
    (if MAJOR dev \<noteq> 2 then ret () s
     else if \<not> fd_changed s (unat dev mod 4) then ret () s
     else
       bindK (forK [0..<NR_SUPER] (\<lambda>i s.
         if s_dev (super_table s i) = dev then put_super (s_dev (super_table s i)) s else ret () s) s) (\<lambda>_ s.
       bindK (invalidate_inodes dev s) (\<lambda>_ s.
       invalidate_buffers dev s)))"

text \<open>\<open>buffer_init\<close>: the heads grow up from \<open>start_buffer\<close>, the blocks down from the end of the buffer
  memory; here the number \<open>n > 0\<close> of buffers that fit is given.\<close>

definition buffer_init :: "nat \<Rightarrow> kstate \<Rightarrow> kstate" where
  "buffer_init n s =
    s\<lparr>buf := (\<lambda>i. if i < n then (buf s i)\<lparr>b_dev := 0, b_dirt := 0, b_count := 0, b_lock := 0, b_uptodate := 0,
                b_wait := None, b_next := None, b_prev := None,
                b_prev_free := Some (if i = 0 then n - 1 else i - 1),
                b_next_free := Some (if i = n - 1 then 0 else i + 1)\<rparr> else buf s i),
      NR_BUFFERS := n, free_list := 0, hash_table := (\<lambda>h. if h < NR_HASH then None else hash_table s h)\<rparr>"

section \<open>Inodes on the disk\<close>

text \<open>What \<open>write_inode\<close> stores of an inode, \<open>read_inode\<close> loads again.\<close>

lemma load_store_d_inode:
  assumes "j \<notin> {k..<k + 32}"
  shows "load_d_inode (store_d_inode n k d) k m = m\<lparr>i_mode := i_mode n, i_uid := i_uid n, i_size := i_size n,
      i_mtime := i_mtime n, i_gid := i_gid n, i_nlinks := i_nlinks n,
      i_zone := (\<lambda>z. if z < 9 then i_zone n z else i_zone m z)\<rparr>
    \<and> store_d_inode n k d j = d j"
proof -
  let ?h = "(put_u16 k (i_mode n) (put_u16 (k + 2) (i_uid n) (put_u32 (k + 4) (i_size n)
        (put_u32 (k + 8) (i_mtime n) d))))(k + 12 := i_gid n, k + 13 := i_nlinks n)"
  have st: "store_d_inode n k d = put_u16s (i_zone n) (k + 14) 9 ?h"
    by (simp add: store_d_inode_def put_u16s_def)
  have head: "store_d_inode n k d i = ?h i" if "i < k + 14 \<or> k + 32 \<le> i" for i
    unfolding st by (rule put_u16s_apply) (use that in auto)
  have g16: "get_u16 (store_d_inode n k d) i = get_u16 ?h i" if "i + 1 < k + 14" for i
    by (rule get_u16_cong; rule head) (use that in auto)
  then have g32: "get_u32 (store_d_inode n k d) i = get_u32 ?h i" if "i + 3 < k + 14" for i
    using that by (simp add: get_u32_def)
  have "get_u16 (store_d_inode n k d) (k + 14 + 2 * z) = i_zone n z" if "z < 9" for z
    unfolding st using put_u16s_get [OF that, of "i_zone n" "k + 14"] by simp
  then have zones: "(\<lambda>z. if z < 9 then get_u16 (store_d_inode n k d) (k + 14 + 2 * z) else i_zone m z)
      = (\<lambda>z. if z < 9 then i_zone n z else i_zone m z)"
    by auto
  have "store_d_inode n k d j = d j"
    using assms head [of j] by (auto simp: put_u16_apply put_u32_apply)
  then show ?thesis
    unfolding load_d_inode_def zones by (simp add: g16 g32 head)
qed

end
