(* ===== verification/Bitmap.thy ===== *)
theory Bitmap
  imports Sync Allocator
begin

text \<open>
  \<open>fs/bitmap.c\<close> and \<open>fs/truncate.c\<close>: the block and inode bitmaps of a disk, and freeing the blocks of a
  file.
\<close>

unbundle bit_operations_syntax

section \<open>Bits of a block\<close>

definition test_bit :: "nat \<Rightarrow> block_data \<Rightarrow> bool" where
  "test_bit nr d = bit (d (nr div 8)) (nr mod 8)"

text \<open>\<open>set_bit\<close> yields the old bit, \<open>clear_bit\<close> the negated old bit.\<close>

definition set_bit :: "nat \<Rightarrow> block_data \<Rightarrow> bool \<times> block_data" where
  "set_bit nr d = (test_bit nr d, d(nr div 8 := d (nr div 8) OR push_bit (nr mod 8) 1))"

definition clear_bit :: "nat \<Rightarrow> block_data \<Rightarrow> bool \<times> block_data" where
  "clear_bit nr d = (\<not> test_bit nr d, d(nr div 8 := d (nr div 8) AND NOT (push_bit (nr mod 8) 1)))"

definition find_first_zero :: "block_data \<Rightarrow> nat" where
  "find_first_zero d = (case find (\<lambda>nr. \<not> test_bit nr d) [0..<8192] of None \<Rightarrow> 8192 | Some nr \<Rightarrow> nr)"

section \<open>Blocks\<close>

definition free_block :: "u16 \<Rightarrow> u16 \<Rightarrow> unit kop" where
  "free_block dev block s =
    bindK (get_super dev s) (\<lambda>r s.
      case r of
        None \<Rightarrow> panic ''trying to free block on nonexistent device''
      | Some sb \<Rightarrow>
          if block < s_firstdatazone (super_table s sb) \<or> block \<ge> s_nzones (super_table s sb)
          then panic ''trying to free block not in datazone''
          else
            bindK (get_hash_table dev (ucast block) s) (\<lambda>r s.
            let busy = (case r of None \<Rightarrow> False | Some bh \<Rightarrow> b_count (buf s bh) \<noteq> 1)
            in if busy then ret () s
               else
                 bindK (case r of
                          None \<Rightarrow> ret () s
                        | Some bh \<Rightarrow> brelse (Some bh) (upd_buf bh (\<lambda>b. b\<lparr>b_dirt := 0, b_uptodate := 0\<rparr>) s)) (\<lambda>_ s.
                 let nr = unat block + 1 - unat (s_firstdatazone (super_table s sb))
                 in case s_zmap (super_table s sb) (nr div 8192) of
                      None \<Rightarrow> fault s
                    | Some zb \<Rightarrow>
                        let (was_clear, d) = clear_bit (nr mod 8192) (b_data (buf s zb));
                            s = upd_buf zb (\<lambda>b. b\<lparr>b_data := d\<rparr>) s
                        in if was_clear then panic ''free_block: bit already cleared''
                           else ret () (upd_buf zb (\<lambda>b. b\<lparr>b_dirt := 1\<rparr>) s))))"

text \<open>The loops over the eight bitmap blocks: the first one with a zero bit.\<close>

definition first_map :: "(nat \<Rightarrow> nat option) \<Rightarrow> kstate \<Rightarrow> (nat \<times> nat) option" where
  "first_map maps s =
    (case find (\<lambda>i. case maps i of None \<Rightarrow> False | Some bh \<Rightarrow> find_first_zero (b_data (buf s bh)) < 8192) [0..<8] of
       None \<Rightarrow> None
     | Some i \<Rightarrow> map_option (Pair i) (maps i))"

definition new_block :: "u16 \<Rightarrow> u16 kop" where
  "new_block dev s =
    bindK (get_super dev s) (\<lambda>r s.
      case r of
        None \<Rightarrow> panic ''trying to get new block from nonexistant device''
      | Some sb \<Rightarrow>
          (case first_map (s_zmap (super_table s sb)) s of
             None \<Rightarrow> ret 0 s
           | Some (i, zb) \<Rightarrow>
               let j = find_first_zero (b_data (buf s zb));
                   (was_set, d) = set_bit j (b_data (buf s zb))
               in if was_set then panic ''new_block: bit already set''
                  else
                    let s = upd_buf zb (\<lambda>b. b\<lparr>b_data := d, b_dirt := 1\<rparr>) s;
                        j = int (j + i * 8192) + int (unat (s_firstdatazone (super_table s sb))) - 1
                    in if j \<ge> int (unat (s_nzones (super_table s sb))) then ret 0 s
                       else
                         bindK (getblk dev (of_int j) s) (\<lambda>bh s.
                         if b_count (buf s bh) \<noteq> 1 then panic ''new block: count is != 1''
                         else
                           bindK (brelse (Some bh)
                             (upd_buf bh (\<lambda>b. b\<lparr>b_data := (\<lambda>_. 0), b_uptodate := 1, b_dirt := 1\<rparr>) s)) (\<lambda>_ s.
                           ret (of_int j) s))))"

section \<open>Inodes\<close>

definition free_inode :: "nat \<Rightarrow> unit kop" where
  "free_inode i s =
    (let n = inode_table s i
     in if i_dev n = 0 then ret () (upd_inode i (\<lambda>_. zero_inode) s)
        else if i_count n > 1 then panic ''free_inode''
        else if i_nlinks n \<noteq> 0 then panic ''trying to free inode with links''
        else bindK (get_super (i_dev n) s) (\<lambda>r s.
          case r of
            None \<Rightarrow> panic ''trying to free inode on nonexistent device''
          | Some sb \<Rightarrow>
              if i_num n < 1 \<or> i_num n > s_ninodes (super_table s sb)
              then panic ''trying to free inode 0 or nonexistant inode''
              else
                (case s_imap (super_table s sb) (unat (i_num n) div 8192) of
                   None \<Rightarrow> panic ''nonexistent imap in superblock''
                 | Some bh \<Rightarrow>
                     let d = snd (clear_bit (unat (i_num n) mod 8192) (b_data (buf s bh)))
                     in ret () (upd_inode i (\<lambda>_. zero_inode)
                          (upd_buf bh (\<lambda>b. b\<lparr>b_data := d, b_dirt := 1\<rparr>) s)))))"

section \<open>Truncation\<close>

definition S_IFMT :: u16 where "S_IFMT = 0xF000"
definition S_ISREG :: "u16 \<Rightarrow> bool" where "S_ISREG m \<longleftrightarrow> m AND S_IFMT = 0x8000"
definition S_ISDIR :: "u16 \<Rightarrow> bool" where "S_ISDIR m \<longleftrightarrow> m AND S_IFMT = 0x4000"
definition S_ISBLK :: "u16 \<Rightarrow> bool" where "S_ISBLK m \<longleftrightarrow> m AND S_IFMT = 0x6000"
definition S_ISCHR :: "u16 \<Rightarrow> bool" where "S_ISCHR m \<longleftrightarrow> m AND S_IFMT = 0x2000"
definition S_ISFIFO :: "u16 \<Rightarrow> bool" where "S_ISFIFO m \<longleftrightarrow> m AND S_IFMT = 0x1000"

text \<open>The loop over the 512 block numbers of an indirect block.\<close>

definition free_each :: "(u16 \<Rightarrow> unit kop) \<Rightarrow> nat \<Rightarrow> unit kop" where
  "free_each free bh s =
    forK [0..<512] (\<lambda>i s.
      let p = get_u16 (b_data (buf s bh)) (2 * i) in if p \<noteq> 0 then free p s else ret () s) s"

definition free_ind :: "u16 \<Rightarrow> u16 \<Rightarrow> unit kop" where
  "free_ind dev block s =
    (if block = 0 then ret () s
     else
       bindK (bread dev (ucast block) s) (\<lambda>r s.
       bindK (case r of
                None \<Rightarrow> ret () s
              | Some bh \<Rightarrow> bindK (free_each (free_block dev) bh s) (\<lambda>_ s. brelse (Some bh) s)) (\<lambda>_ s.
       free_block dev block s)))"

definition free_dind :: "u16 \<Rightarrow> u16 \<Rightarrow> unit kop" where
  "free_dind dev block s =
    (if block = 0 then ret () s
     else
       bindK (bread dev (ucast block) s) (\<lambda>r s.
       bindK (case r of
                None \<Rightarrow> ret () s
              | Some bh \<Rightarrow> bindK (free_each (free_ind dev) bh s) (\<lambda>_ s. brelse (Some bh) s)) (\<lambda>_ s.
       free_block dev block s)))"

definition set_zone :: "nat \<Rightarrow> nat \<Rightarrow> u16 \<Rightarrow> kstate \<Rightarrow> kstate" where
  "set_zone i z v = upd_inode i (\<lambda>n. n\<lparr>i_zone := (i_zone n)(z := v)\<rparr>)"

definition truncate :: "nat \<Rightarrow> unit kop" where
  "truncate i s =
    (if \<not> (S_ISREG (i_mode (inode_table s i)) \<or> S_ISDIR (i_mode (inode_table s i))) then ret () s
     else
       bindK (forK [0..<7] (\<lambda>z s.
         if i_zone (inode_table s i) z \<noteq> 0
         then bindK (free_block (i_dev (inode_table s i)) (i_zone (inode_table s i) z) s)
                (\<lambda>_ s. ret () (set_zone i z 0 s))
         else ret () s) s) (\<lambda>_ s.
       bindK (free_ind (i_dev (inode_table s i)) (i_zone (inode_table s i) 7) s) (\<lambda>_ s.
       bindK (free_dind (i_dev (inode_table s i)) (i_zone (inode_table s i) 8) s) (\<lambda>_ s.
       ret () (upd_inode i (\<lambda>n. n\<lparr>i_size := 0, i_dirt := 1, i_mtime := now s, i_ctime := now s\<rparr>)
                 (set_zone i 7 0 (set_zone i 8 0 s)))))))"

section \<open>The bits of a map as an allocator\<close>

lemma same_bit: "(m :: nat) div 8 = n div 8 \<and> m mod 8 = n mod 8 \<longleftrightarrow> m = n"
  by (metis div_mult_mod_eq)

lemma test_set_bit [simp]: "test_bit m (snd (set_bit n d)) \<longleftrightarrow> m = n \<or> test_bit m d"
proof (cases "m div 8 = n div 8")
  case True
  then show ?thesis
    using same_bit [of m n] by (auto simp: set_bit_def test_bit_def bit_simps)
next
  case False
  then show ?thesis
    by (auto simp: set_bit_def test_bit_def)
qed

lemma test_clear_bit [simp]: "test_bit m (snd (clear_bit n d)) \<longleftrightarrow> m \<noteq> n \<and> test_bit m d"
proof (cases "m div 8 = n div 8")
  case True
  then show ?thesis
    using same_bit [of m n] by (auto simp: clear_bit_def test_bit_def bit_simps)
next
  case False
  then show ?thesis
    by (auto simp: clear_bit_def test_bit_def)
qed

lemma fst_set_clear [simp]: "fst (set_bit n d) = test_bit n d" "fst (clear_bit n d) = (\<not> test_bit n d)"
  by (simp_all add: set_bit_def clear_bit_def)

lemma find_first_zero_cases:
  obtains (full) "\<forall>n < 8192. test_bit n d" "find_first_zero d = 8192"
  | (zero) "find_first_zero d < 8192" "\<not> test_bit (find_first_zero d) d" "\<forall>n < find_first_zero d. test_bit n d"
proof (cases "find (\<lambda>nr. \<not> test_bit nr d) [0..<8192]")
  case None
  have "\<forall>n < 8192. test_bit n d"
    using iffD1 [OF find_None_iff None] by auto
  then show ?thesis
    using full None by (simp add: find_first_zero_def del: upt_rec_numeral)
next
  case (Some k)
  have k: "k < 8192" "\<not> test_bit k d" "\<forall>n < k. test_bit n d"
    using iffD1 [OF find_Some_iff Some] by (auto simp: nth_upt simp del: upt_rec_numeral)
  have "find_first_zero d = k"
    by (simp add: find_first_zero_def Some del: upt_rec_numeral)
  then show ?thesis
    using zero k by simp
qed

text \<open>What \<open>new_block\<close>, \<open>new_inode\<close>, \<open>free_block\<close> and \<open>free_inode\<close> do with the map: take the first zero bit,
  and clear a bit that must be set.\<close>

definition alloc_bit :: "block_data \<Rightarrow> (nat \<times> block_data) option" where
  "alloc_bit d =
    (let j = find_first_zero d
     in if j < 8192 \<and> \<not> fst (set_bit j d) then Some (j, snd (set_bit j d)) else None)"

definition release_bit :: "nat \<Rightarrow> block_data \<Rightarrow> block_data option" where
  "release_bit nr d = (if fst (clear_bit nr d) then None else Some (snd (clear_bit nr d)))"

definition bit_refs :: "block_data \<Rightarrow> nat \<Rightarrow> nat" where
  "bit_refs d nr = (if test_bit nr d then 1 else 0)"

interpretation bits: counted_allocator "\<lambda>_. True" bit_refs alloc_bit release_bit
proof
  fix d d' :: block_data and r
  assume "alloc_bit d = Some (r, d')"
  then have r: "r = find_first_zero d" "r < 8192" "d' = snd (set_bit r d)"
    by (auto simp: alloc_bit_def Let_def split: if_splits)
  show "bit_refs d r = 0"
    using r(1,2) by (cases d rule: find_first_zero_cases) (auto simp: bit_refs_def)
  show "bit_refs d' = (bit_refs d)(r := 1)"
    unfolding r(3) by (auto simp: bit_refs_def)
next
  fix d :: block_data and r
  assume "0 < bit_refs d r"
  then show "\<exists>d'. release_bit r d = Some d' \<and> True \<and> bit_refs d' = (bit_refs d)(r := bit_refs d r - 1)"
    by (auto simp: bit_refs_def release_bit_def fun_eq_iff split: if_splits)
qed simp

lemma alloc_bit_None: "alloc_bit d = None \<longleftrightarrow> (\<forall>n < 8192. test_bit n d)"
  by (cases d rule: find_first_zero_cases) (auto simp: alloc_bit_def Let_def)

text \<open>C22. The bits that a map of blocks or inodes hands out are distinct, were clear, and are below 8192; as long
  as a bit is clear there is one to hand out; and giving all of them back, in any order, restores the
  map.\<close>

theorem bitmap_allocation:
  assumes "alloc_many alloc_bit n d = Some (rs, d')" "distinct qs" "set qs = set rs"
  shows "distinct rs \<and> (\<forall>r \<in> set rs. \<not> test_bit r d) \<and> (\<forall>r. test_bit r d' \<longleftrightarrow> test_bit r d \<or> r \<in> set rs)
    \<and> (alloc_bit d' = None \<longleftrightarrow> (\<forall>r < 8192. test_bit r d'))
    \<and> (\<exists>e. release_all release_bit qs d' = Some e \<and> (\<forall>r. test_bit r e \<longleftrightarrow> test_bit r d))"
proof -
  have iff: "bit_refs d r = bit_refs e r \<longleftrightarrow> test_bit r d = test_bit r e" for d e r
    by (simp add: bit_refs_def)
  obtain e where e: "release_all release_bit qs d' = Some e" "bit_refs e = bit_refs d"
    using bits.alloc_release_all [OF TrueI assms] by blast
  have "test_bit r e \<longleftrightarrow> test_bit r d" for r
    using iff [of e r d] e(2) by simp
  moreover have "distinct rs" "\<forall>r \<in> set rs. \<not> test_bit r d"
    "bit_refs d' = (\<lambda>r. if r \<in> set rs then 1 else bit_refs d r)"
    using bits.alloc_many_fresh [OF TrueI assms(1)] by (auto simp: bit_refs_def split: if_splits)
  moreover from this(3) have "test_bit r d' \<longleftrightarrow> test_bit r d \<or> r \<in> set rs" for r
    by (drule_tac fun_cong [of _ _ r]) (auto simp: bit_refs_def split: if_splits)
  ultimately show ?thesis
    using e(1) alloc_bit_None by blast
qed

text \<open>A map with the bits 0 and 2 set.\<close>

theorem bitmap_allocation_witness:
  "\<exists>d' e. alloc_many alloc_bit 2 ((\<lambda>_. 0)(0 := 5)) = Some ([1, 3], d')
    \<and> release_all release_bit [3, 1] d' = Some e \<and> test_bit 2 e \<and> \<not> test_bit 3 e"
proof -
  define d :: block_data where "d = (\<lambda>_. 0)(0 := 5)"
  have ffz: "find_first_zero e = k" if "k < 8192" "\<not> test_bit k e" "\<forall>n < k. test_bit n e" for e k
    using that by (cases e rule: find_first_zero_cases) (auto, metis nat_neq_iff)
  have b: "test_bit 0 d" "\<not> test_bit 1 d" "test_bit 2 d" "\<not> test_bit 3 d"
    by (simp_all add: d_def test_bit_def bit_numeral_rec)
  have 1: "alloc_bit d = Some (1, snd (set_bit 1 d))"
    using ffz [of 1 d] b by (simp add: alloc_bit_def Let_def)
  have "\<forall>n < 3. test_bit n (snd (set_bit 1 d))"
    using b by (auto simp: less_Suc_eq numeral_3_eq_3 numeral_2_eq_2)
  then have 3: "alloc_bit (snd (set_bit 1 d)) = Some (3, snd (set_bit 3 (snd (set_bit 1 d))))"
    using ffz [of 3 "snd (set_bit 1 d)"] b by (simp add: alloc_bit_def Let_def)
  have all: "alloc_many alloc_bit 2 d = Some ([1, 3], snd (set_bit 3 (snd (set_bit 1 d))))"
    using 1 3 by (simp add: numeral_2_eq_2)
  have "set [3, 1] = set [1, 3 :: nat]"
    by auto
  then obtain e where "release_all release_bit [3, 1] (snd (set_bit 3 (snd (set_bit 1 d)))) = Some e"
    "\<forall>r. test_bit r e \<longleftrightarrow> test_bit r d"
    using bitmap_allocation [OF all, of "[3, 1]"] by auto
  then show ?thesis
    using all b unfolding d_def [symmetric] by blast
qed

end
