(* ===== verification/Inode.thy ===== *)
theory Inode
  imports Bitmap
begin

text \<open>
  \<open>fs/inode.c\<close>: the table of inodes in memory with their reference counts (\<open>iget\<close>, \<open>iput\<close>,
  \<open>get_empty_inode\<close>), the map from the blocks of a file to those of the disk (\<open>bmap\<close>), and \<open>new_inode\<close> of
  \<open>fs/bitmap.c\<close>.
\<close>

unbundle bit_operations_syntax

section \<open>bmap\<close>

text \<open>An entry of an indirect block; with \<open>create\<close> an spare one gets a new block.\<close>

definition indirect_entry :: "u16 \<Rightarrow> bool \<Rightarrow> nat \<Rightarrow> nat \<Rightarrow> u16 kop" where
  "indirect_entry dev create bh k s =
    (let i = get_u16 (b_data (buf s bh)) (2 * k)
     in bindK (if create \<and> i = 0 then
                 bindK (new_block dev s) (\<lambda>i s.
                   ret i (if i \<noteq> 0 then upd_buf bh (\<lambda>b. b\<lparr>b_data := put_u16 (2 * k) i (b_data b), b_dirt := 1\<rparr>) s
                          else s))
               else ret i s) (\<lambda>i s.
        bindK (brelse (Some bh) s) (\<lambda>_ s. ret i s)))"

text \<open>\<open>if (create && !inode->i_zone[z]) ...\<close>: a block number of the inode itself.\<close>

definition zone_entry :: "nat \<Rightarrow> bool \<Rightarrow> nat \<Rightarrow> u16 kop" where
  "zone_entry i create z s =
    bindK (if create \<and> i_zone (inode_table s i) z = 0 then
             bindK (new_block (i_dev (inode_table s i)) s) (\<lambda>b s.
               let s = set_zone i z b s
               in ret () (if b \<noteq> 0 then upd_inode i (\<lambda>n. n\<lparr>i_ctime := now s, i_dirt := 1\<rparr>) s else s))
           else ret () s) (\<lambda>_ s. ret (i_zone (inode_table s i) z) s)"

definition bmap_with :: "bool \<Rightarrow> nat \<Rightarrow> int \<Rightarrow> u16 kop" where
  "bmap_with create i block s =
    (if block < 0 then panic ''_bmap: block<0''
     else if block \<ge> 7 + 512 + 512 * 512 then panic ''_bmap: block>big''
     else if block < 7 then zone_entry i create (nat block) s
     else if block - 7 < 512 then
       bindK (zone_entry i create 7 s) (\<lambda>z s.
       if z = 0 then ret 0 s
       else bindK (bread (i_dev (inode_table s i)) (ucast z) s) (\<lambda>r s.
         case r of
           None \<Rightarrow> ret 0 s
         | Some bh \<Rightarrow> indirect_entry (i_dev (inode_table s i)) create bh (nat (block - 7)) s))
     else
       let block = nat (block - 7 - 512)
       in bindK (zone_entry i create 8 s) (\<lambda>z s.
          if z = 0 then ret 0 s
          else bindK (bread (i_dev (inode_table s i)) (ucast z) s) (\<lambda>r s.
            case r of
              None \<Rightarrow> ret 0 s
            | Some bh \<Rightarrow>
                bindK (indirect_entry (i_dev (inode_table s i)) create bh (block div 512) s) (\<lambda>z s.
                if z = 0 then ret 0 s
                else bindK (bread (i_dev (inode_table s i)) (ucast z) s) (\<lambda>r s.
                  case r of
                    None \<Rightarrow> ret 0 s
                  | Some bh \<Rightarrow> indirect_entry (i_dev (inode_table s i)) create bh (block mod 512) s)))))"

definition bmap :: "nat \<Rightarrow> int \<Rightarrow> u16 kop" where
  "bmap = bmap_with False"

definition create_block :: "nat \<Rightarrow> int \<Rightarrow> u16 kop" where
  "create_block = bmap_with True"

section \<open>iput\<close>

text \<open>From \<open>repeat:\<close> on. \<open>write_inode\<close> leaves the inode clean, so that the loop is left after at most two
  writes.\<close>

primrec iput_loop :: "nat \<Rightarrow> nat \<Rightarrow> unit kop" where
  "iput_loop 0 i s = blocked s"
| "iput_loop (Suc k) i s =
    (let n = inode_table s i
     in if i_count n > 1 then ret () (upd_inode i (\<lambda>n. n\<lparr>i_count := i_count n - 1\<rparr>) s)
        else if i_nlinks n = 0 then bindK (truncate i s) (\<lambda>_ s. free_inode i s)
        else if i_dirt n \<noteq> 0 then
          bindK (write_inode i s) (\<lambda>_ s. bindK (wait_on_inode i s) (\<lambda>_ s. iput_loop k i s))
        else ret () (upd_inode i (\<lambda>n. n\<lparr>i_count := i_count n - 1\<rparr>) s))"

definition iput :: "nat option \<Rightarrow> unit kop" where
  "iput inode s =
    (case inode of
       None \<Rightarrow> ret () s
     | Some i \<Rightarrow>
         bindK (wait_on_inode i s) (\<lambda>_ s.
         if i_count (inode_table s i) = 0 then panic ''iput: trying to free free inode''
         else if i_pipe (inode_table s i) \<noteq> 0 then
           let s = upd_inode i (\<lambda>n. n\<lparr>i_count := i_count n - 1\<rparr>) (wake_inode i s)
           in if i_count (inode_table s i) \<noteq> 0 then ret () s
              else
                bindK (lift_mm (free_page (i_size (inode_table s i))) s) (\<lambda>_ s.
                ret () (upd_inode i (\<lambda>n. n\<lparr>i_count := 0, i_dirt := 0, i_pipe := 0\<rparr>) s))
         else if i_dev (inode_table s i) = 0 then
           ret () (upd_inode i (\<lambda>n. n\<lparr>i_count := i_count n - 1\<rparr>) s)
         else
           bindK (if S_ISBLK (i_mode (inode_table s i))
                  then bindK (sync_dev (i_zone (inode_table s i) 0) s) (\<lambda>_ s. wait_on_inode i s)
                  else ret () s) (\<lambda>_ s.
           iput_loop 3 i s)))"

section \<open>Inodes of the table\<close>

text \<open>The scan of \<open>get_empty_inode\<close>, starting behind \<open>last_inode\<close>: an unused inode, if possible one that
  is clean and unlocked.\<close>

primrec scan_inodes :: "nat \<Rightarrow> nat option \<Rightarrow> kstate \<Rightarrow> nat option \<times> kstate" where
  "scan_inodes 0 inode s = (inode, s)"
| "scan_inodes (Suc k) inode s =
    (let s = s\<lparr>last_inode := (if last_inode s + 1 \<ge> NR_INODE then 0 else last_inode s + 1)\<rparr>;
         n = inode_table s (last_inode s)
     in if i_count n = 0 then
          if i_dirt n = 0 \<and> i_lock n = 0 then (Some (last_inode s), s)
          else scan_inodes k (Some (last_inode s)) s
        else scan_inodes k inode s)"

primrec clean_inode :: "nat \<Rightarrow> nat \<Rightarrow> unit kop" where
  "clean_inode 0 i s = blocked s"
| "clean_inode (Suc k) i s =
    (if i_dirt (inode_table s i) = 0 then ret () s
     else bindK (write_inode i s) (\<lambda>_ s. bindK (wait_on_inode i s) (\<lambda>_ s. clean_inode k i s)))"

primrec get_empty_loop :: "nat \<Rightarrow> nat kop" where
  "get_empty_loop 0 s = blocked s"
| "get_empty_loop (Suc k) s =
    (let (r, s) = scan_inodes NR_INODE None s
     in case r of
          None \<Rightarrow> panic ''No free inodes in mem''
        | Some i \<Rightarrow>
            bindK (wait_on_inode i s) (\<lambda>_ s.
            bindK (clean_inode 3 i s) (\<lambda>_ s.
            if i_count (inode_table s i) \<noteq> 0 then get_empty_loop k s
            else ret i (upd_inode i (\<lambda>_. zero_inode\<lparr>i_count := 1\<rparr>) s))))"

definition get_empty_inode :: "nat kop" where
  "get_empty_inode = get_empty_loop REPEAT_FUEL"

definition get_pipe_inode :: "nat option kop" where
  "get_pipe_inode s =
    bindK (get_empty_inode s) (\<lambda>i s.
      let (page, m) = get_free_page (mm s);
          s = upd_inode i (\<lambda>n. n\<lparr>i_size := page\<rparr>) (s\<lparr>mm := m\<rparr>)
      in if page = 0 then ret None (upd_inode i (\<lambda>n. n\<lparr>i_count := 0\<rparr>) s)
         else ret (Some i) (upd_inode i (\<lambda>n. n\<lparr>i_count := 2, i_zone := (i_zone n)(0 := 0, 1 := 0), i_pipe := 1\<rparr>) s))"

text \<open>The loop of \<open>iget\<close> restarts when it crosses a mount point.\<close>

primrec iget_loop :: "nat \<Rightarrow> u16 \<Rightarrow> u16 \<Rightarrow> nat \<Rightarrow> nat kop" where
  "iget_loop 0 dev nr spare s = blocked s"
| "iget_loop (Suc k) dev nr spare s =
    (case find (\<lambda>i. i_dev (inode_table s i) = dev \<and> i_num (inode_table s i) = nr) [0..<NR_INODE] of
       None \<Rightarrow>
         bindK (read_inode spare (upd_inode spare (\<lambda>n. n\<lparr>i_dev := dev, i_num := nr\<rparr>) s)) (\<lambda>_ s. ret spare s)
     | Some i \<Rightarrow>
         bindK (wait_on_inode i s) (\<lambda>_ s.
         let s = upd_inode i (\<lambda>n. n\<lparr>i_count := i_count n + 1\<rparr>) s
         in if i_mount (inode_table s i) \<noteq> 0 then
              (case find (\<lambda>j. s_imount (super_table s j) = Some i) [0..<NR_SUPER] of
                 None \<Rightarrow> bindK (iput (Some spare) s) (\<lambda>_ s. ret i s)
               | Some j \<Rightarrow>
                   bindK (iput (Some i) s) (\<lambda>_ s.
                   iget_loop k (s_dev (super_table s j)) ROOT_INO spare s))
            else bindK (iput (Some spare) s) (\<lambda>_ s. ret i s)))"

definition iget :: "u16 \<Rightarrow> u16 \<Rightarrow> nat kop" where
  "iget dev nr s =
    (if dev = 0 then panic ''iget with dev==0''
     else bindK (get_empty_inode s) (\<lambda>spare s. iget_loop REPEAT_FUEL dev nr spare s))"

definition new_inode :: "u16 \<Rightarrow> nat option kop" where
  "new_inode dev s =
    bindK (get_empty_inode s) (\<lambda>inode s.
    bindK (get_super dev s) (\<lambda>r s.
      case r of
        None \<Rightarrow> panic ''new_inode with unknown device''
      | Some sb \<Rightarrow>
          let slot = first_map (s_imap (super_table s sb)) s;
              full = (case slot of
                        None \<Rightarrow> True
                      | Some (i, bh) \<Rightarrow>
                          find_first_zero (b_data (buf s bh)) + i * 8192 > unat (s_ninodes (super_table s sb)))
          in if full then bindK (iput (Some inode) s) (\<lambda>_ s. ret None s)
             else
               (case slot of
                  None \<Rightarrow> ret None s
                | Some (i, bh) \<Rightarrow>
                    let j = find_first_zero (b_data (buf s bh));
                        (was_set, d) = set_bit j (b_data (buf s bh))
                    in if was_set then panic ''new_inode: bit already set''
                       else
                         let s = upd_buf bh (\<lambda>b. b\<lparr>b_data := d, b_dirt := 1\<rparr>) s
                         in ret (Some inode)
                              (upd_inode inode (\<lambda>n. n\<lparr>i_count := 1, i_nlinks := 1, i_dev := dev,
                                 i_uid := t_euid (me s), i_gid := ucast (t_egid (me s)), i_dirt := 1,
                                 i_num := of_nat (j + i * 8192),
                                 i_mtime := now s, i_atime := now s, i_ctime := now s\<rparr>) s))))"

end
