(* ===== verification/Namei.thy ===== *)
theory Namei
  imports Inode
begin

text \<open>
  \<open>fs/namei.c\<close>: permissions, directory entries, the walk along a pathname, and the system calls that
  make and remove names. A pathname is an address of the user's memory. A directory entry is a buffer
  and the offset of the entry in it.
\<close>

unbundle bit_operations_syntax

section \<open>Permissions\<close>

definition MAY_EXEC :: u16 where "MAY_EXEC = 1"
definition MAY_WRITE :: u16 where "MAY_WRITE = 2"
definition MAY_READ :: u16 where "MAY_READ = 4"

definition O_ACCMODE :: u32 where "O_ACCMODE = 3"
definition O_WRONLY :: u32 where "O_WRONLY = 1"
definition O_CREAT :: u32 where "O_CREAT = 0x40"
definition O_EXCL :: u32 where "O_EXCL = 0x80"
definition O_TRUNC :: u32 where "O_TRUNC = 0x200"
definition O_APPEND :: u32 where "O_APPEND = 0x400"
definition O_NONBLOCK :: u32 where "O_NONBLOCK = 0x800"

definition ACC_MODE :: "u32 \<Rightarrow> u16" where
  "ACC_MODE x = (let k = x AND O_ACCMODE in if k = 0 then 4 else if k = 1 then 2 else if k = 2 then 6 else 0xFFFF)"

definition permission :: "nat \<Rightarrow> u16 \<Rightarrow> kstate \<Rightarrow> bool" where
  "permission i want s =
    (let n = inode_table s i; mode = i_mode n
     in if i_dev n \<noteq> 0 \<and> i_nlinks n = 0 then False
        else
          let mode = (if t_euid (me s) = i_uid n then drop_bit 6 mode
                      else if t_egid (me s) = ucast (i_gid n) then drop_bit 3 mode else mode)
          in (mode AND want AND 7) = want \<or> suser s)"

section \<open>Directory entries\<close>

definition de_inode :: "block_data \<Rightarrow> nat \<Rightarrow> u16" where
  "de_inode d de = get_u16 d de"

text \<open>\<open>match\<close>: the name of \<open>len\<close> characters in the user's memory against an entry.\<close>

definition match :: "nat \<Rightarrow> (u32 \<Rightarrow> u8) \<Rightarrow> u32 \<Rightarrow> block_data \<Rightarrow> nat \<Rightarrow> bool" where
  "match len m name d de \<longleftrightarrow>
    de_inode d de \<noteq> 0 \<and> len \<le> NAME_LEN \<and> (len < NAME_LEN \<longrightarrow> d (de + 2 + len) = 0)
    \<and> list_all (\<lambda>k. m (name + of_nat k) = d (de + 2 + k)) [0..<len]"

text \<open>
  The loop of \<open>find_entry\<close>; every pass takes at least one entry, so that the number of entries is fuel
  enough. A missing block is skipped; then there is no buffer, and the entry pointer, left from the
  buffer before, compares as beyond its end.
\<close>

primrec find_loop :: "nat \<Rightarrow> nat \<Rightarrow> nat \<Rightarrow> nat option \<Rightarrow> nat \<Rightarrow> nat \<Rightarrow> u32 \<Rightarrow> nat \<Rightarrow> (nat \<times> nat) option kop" where
  "find_loop 0 entries i bh de dir name len s = leave [brelse bh] None s"
| "find_loop (Suc k) entries i bh de dir name len s =
    (if i \<ge> entries then leave [brelse bh] None s
     else
       let next_block = (bh = None \<or> de \<ge> BLOCK_SIZE)
       in bindK (if next_block then
                   bindK (brelse bh s) (\<lambda>_ s.
                   bindK (bmap dir (int (i div DIR_ENTRIES_PER_BLOCK)) s) (\<lambda>block s.
                   if block = 0 then ret None s else bread (i_dev (inode_table s dir)) (ucast block) s))
                 else ret bh s) (\<lambda>r s.
          case r of
            None \<Rightarrow> find_loop k entries (i + DIR_ENTRIES_PER_BLOCK) None de dir name len s
          | Some b \<Rightarrow>
              let de = (if next_block then 0 else de)
              in if match len (umem s) name (b_data (buf s b)) de then ret (Some (b, de)) s
                 else find_loop k entries (i + 1) (Some b) (de + 16) dir name len s))"

definition is_dotdot :: "(u32 \<Rightarrow> u8) \<Rightarrow> u32 \<Rightarrow> nat \<Rightarrow> bool" where
  "is_dotdot m name len \<longleftrightarrow> len = 2 \<and> m name = 46 \<and> m (name + 1) = 46"

text \<open>The result is the directory, exchanged when \<open>..\<close> crosses a mount point, and the entry.\<close>

definition find_entry :: "nat \<Rightarrow> u32 \<Rightarrow> nat \<Rightarrow> (nat \<times> (nat \<times> nat) option) kop" where
  "find_entry dir name namelen s =
    (let len = min namelen NAME_LEN;
         entries = unat (i_size (inode_table s dir)) div 16
     in if len = 0 then ret (dir, None) s
        else
          bindK (if is_dotdot (umem s) name len then
                   if Some dir = t_root (me s) then ret (dir, 1) s
                   else if i_num (inode_table s dir) = ROOT_INO then
                     bindK (get_super (i_dev (inode_table s dir)) s) (\<lambda>r s.
                     case r of
                       None \<Rightarrow> fault s
                     | Some sb \<Rightarrow>
                         if s_imount (super_table s sb) \<noteq> None then
                           bindK (iput (Some dir) s) (\<lambda>_ s.
                           case s_imount (super_table s sb) of
                             None \<Rightarrow> fault s
                           | Some d \<Rightarrow> ret (d, len) (upd_inode d (\<lambda>n. n\<lparr>i_count := i_count n + 1\<rparr>) s))
                         else ret (dir, len) s)
                   else ret (dir, len) s
                 else ret (dir, len) s) (\<lambda>(dir, len) s.
          let block = i_zone (inode_table s dir) 0
          in if block = 0 then ret (dir, None) s
             else
               bindK (bread (i_dev (inode_table s dir)) (ucast block) s) (\<lambda>r s.
               case r of
                 None \<Rightarrow> ret (dir, None) s
               | Some bh \<Rightarrow>
                   bindK (find_loop (Suc entries) entries 0 (Some bh) 0 dir name len s)
                     (\<lambda>r s. ret (dir, r) s))))"

text \<open>The copy of a name into an entry, padded with zeros.\<close>

definition put_name :: "(u32 \<Rightarrow> u8) \<Rightarrow> u32 \<Rightarrow> nat \<Rightarrow> nat \<Rightarrow> block_data \<Rightarrow> block_data" where
  "put_name m name len de d =
    fold (\<lambda>k d. d(de + 2 + k := (if k < len then m (name + of_nat k) else 0))) [0..<NAME_LEN] d"

text \<open>The largest entry number: there \<open>create_block\<close> panics.\<close>

definition MAX_ENTRIES :: nat where "MAX_ENTRIES = 64 * (7 + 512 + 512 * 512)"

function add_loop :: "nat \<Rightarrow> nat option \<Rightarrow> nat \<Rightarrow> nat \<Rightarrow> u32 \<Rightarrow> nat \<Rightarrow> (nat \<times> nat) option kop" where
  "add_loop i bh de dir name len s =
    (if i \<ge> MAX_ENTRIES then panic ''_bmap: block>big''
     else
       let next_block = (bh = None \<or> de \<ge> BLOCK_SIZE)
       in bindK (if next_block then
                   bindK (brelse bh s) (\<lambda>_ s.
                   bindK (create_block dir (int (i div DIR_ENTRIES_PER_BLOCK)) s) (\<lambda>block s.
                   if block = 0 then ret (True, None) s
                   else bindK (bread (i_dev (inode_table s dir)) (ucast block) s) (\<lambda>r s. ret (False, r) s)))
                 else ret (False, bh) s) (\<lambda>(full, r) s.
          if full then ret None s
          else
            case r of
              None \<Rightarrow> add_loop (i + DIR_ENTRIES_PER_BLOCK) None de dir name len s
            | Some b \<Rightarrow>
                let de = (if next_block then 0 else de);
                    s = (if i * 16 \<ge> unat (i_size (inode_table s dir)) then
                           upd_inode dir (\<lambda>n. n\<lparr>i_size := of_nat ((i + 1) * 16), i_dirt := 1, i_ctime := now s\<rparr>)
                             (upd_buf b (\<lambda>b. b\<lparr>b_data := put_u16 de 0 (b_data b)\<rparr>) s)
                         else s)
                in if de_inode (b_data (buf s b)) de = 0 then
                     ret (Some (b, de))
                       (upd_buf b (\<lambda>b. b\<lparr>b_data := put_name (umem s) name len de (b_data b), b_dirt := 1\<rparr>)
                         (upd_inode dir (\<lambda>n. n\<lparr>i_mtime := now s\<rparr>) s))
                   else add_loop (i + 1) (Some b) (de + 16) dir name len s))"
  by pat_completeness auto
termination
  by (relation "measure (\<lambda>(i, _). MAX_ENTRIES - i)") (auto simp: DIR_ENTRIES_PER_BLOCK_def)

definition add_entry :: "nat \<Rightarrow> u32 \<Rightarrow> nat \<Rightarrow> (nat \<times> nat) option kop" where
  "add_entry dir name namelen s =
    (let len = min namelen NAME_LEN; block = i_zone (inode_table s dir) 0
     in if len = 0 then ret None s
        else if block = 0 then ret None s
        else bindK (bread (i_dev (inode_table s dir)) (ucast block) s) (\<lambda>r s.
          case r of None \<Rightarrow> ret None s | Some bh \<Rightarrow> add_loop 0 (Some bh) 0 dir name len s))"

section \<open>Pathnames\<close>

text \<open>A pathname ends within the 64 MB of the segment of a process.\<close>

definition PATH_FUEL :: nat where "PATH_FUEL = 0x4000000"

text \<open>The scan of one component: its length, the address behind the character that ends it, and that
  character.\<close>

primrec scan_name :: "nat \<Rightarrow> (u32 \<Rightarrow> u8) \<Rightarrow> u32 \<Rightarrow> nat \<Rightarrow> (nat \<times> u32 \<times> u8) option" where
  "scan_name 0 m p len = None"
| "scan_name (Suc k) m p len =
    (let c = m p in if c \<noteq> 0 \<and> c \<noteq> 47 then scan_name k m (p + 1) (len + 1) else Some (len, p + 1, c))"

primrec get_dir_loop :: "nat \<Rightarrow> u32 \<Rightarrow> nat \<Rightarrow> nat option kop" where
  "get_dir_loop 0 pathname inode s = blocked s"
| "get_dir_loop (Suc k) pathname inode s =
    (if \<not> S_ISDIR (i_mode (inode_table s inode)) \<or> \<not> permission inode MAY_EXEC s
     then leave [iput (Some inode)] None s
     else
       case scan_name PATH_FUEL (umem s) pathname 0 of
         None \<Rightarrow> blocked s
       | Some (namelen, p, c) \<Rightarrow>
           if c = 0 then ret (Some inode) s
           else
             bindK (find_entry inode pathname namelen s) (\<lambda>(inode, r) s.
             case r of
               None \<Rightarrow> leave [iput (Some inode)] None s
             | Some (bh, de) \<Rightarrow>
                 let inr = de_inode (b_data (buf s bh)) de; idev = i_dev (inode_table s inode)
                 in bindK (brelse (Some bh) s) (\<lambda>_ s.
                    bindK (iput (Some inode) s) (\<lambda>_ s.
                    bindK (iget idev inr s) (\<lambda>inode s.
                    get_dir_loop k p inode s)))))"

definition get_dir :: "u32 \<Rightarrow> nat option kop" where
  "get_dir pathname s =
    (case (t_root (me s), t_pwd (me s)) of
       (Some root, pwd) \<Rightarrow>
         if i_count (inode_table s root) = 0 then panic ''No root inode''
         else
           (case pwd of
              None \<Rightarrow> panic ''No cwd inode''
            | Some pwd \<Rightarrow>
                if i_count (inode_table s pwd) = 0 then panic ''No cwd inode''
                else
                  let c = umem s pathname
                  in if c = 0 then ret None s
                     else
                       let (inode, p) = (if c = 47 then (root, pathname + 1) else (pwd, pathname))
                       in get_dir_loop PATH_FUEL p inode (upd_inode inode (\<lambda>n. n\<lparr>i_count := i_count n + 1\<rparr>) s))
     | (None, _) \<Rightarrow> panic ''No root inode'')"

text \<open>The last component of a pathname: its address and its length.\<close>

primrec last_name :: "nat \<Rightarrow> (u32 \<Rightarrow> u8) \<Rightarrow> u32 \<Rightarrow> u32 \<Rightarrow> (nat \<times> u32) option" where
  "last_name 0 m p base = None"
| "last_name (Suc k) m p base =
    (if m p = 0 then Some (unat (p - base), base)
     else last_name k m (p + 1) (if m p = 47 then p + 1 else base))"

definition dir_namei :: "u32 \<Rightarrow> (nat \<times> nat \<times> u32) option kop" where
  "dir_namei pathname s =
    bindK (get_dir pathname s) (\<lambda>r s.
      case r of
        None \<Rightarrow> ret None s
      | Some dir \<Rightarrow>
          (case last_name PATH_FUEL (umem s) pathname pathname of
             None \<Rightarrow> blocked s
           | Some (namelen, name) \<Rightarrow> ret (Some (dir, namelen, name)) s))"

definition namei :: "u32 \<Rightarrow> nat option kop" where
  "namei pathname s =
    bindK (dir_namei pathname s) (\<lambda>r s.
      case r of
        None \<Rightarrow> ret None s
      | Some (dir, namelen, name) \<Rightarrow>
          if namelen = 0 then ret (Some dir) s
          else
            bindK (find_entry dir name namelen s) (\<lambda>(dir, r) s.
            case r of
              None \<Rightarrow> leave [iput (Some dir)] None s
            | Some (bh, de) \<Rightarrow>
                let inr = de_inode (b_data (buf s bh)) de; dev = i_dev (inode_table s dir)
                in bindK (brelse (Some bh) s) (\<lambda>_ s.
                   bindK (iput (Some dir) s) (\<lambda>_ s.
                   bindK (iget dev inr s) (\<lambda>i s.
                   ret (Some i) (upd_inode i (\<lambda>n. n\<lparr>i_atime := now s, i_dirt := 1\<rparr>) s))))))"

end
