(* ===== verification/Names.thy ===== *)
theory Names
  imports Namei
begin

text \<open>
  The second half of \<open>fs/namei.c\<close>: opening and creating files, \<open>mknod\<close>, \<open>mkdir\<close>, \<open>rmdir\<close>, \<open>unlink\<close> and
  \<open>link\<close>. An error leaves through \<open>leave\<close>, which gives back the buffers and inodes in the order of the
  source.
\<close>

unbundle bit_operations_syntax

definition put_entry :: "nat \<Rightarrow> nat \<Rightarrow> u16 \<Rightarrow> kstate \<Rightarrow> kstate" where
  "put_entry bh de v = upd_buf bh (\<lambda>b. b\<lparr>b_data := put_u16 de v (b_data b), b_dirt := 1\<rparr>)"

section \<open>open\<close>

definition open_namei :: "u32 \<Rightarrow> u32 \<Rightarrow> u16 \<Rightarrow> (int + nat) kop" where
  "open_namei pathname flag mode s =
    (let flag = (if flag AND O_TRUNC \<noteq> 0 \<and> flag AND O_ACCMODE = 0 then flag OR O_WRONLY else flag);
         mode = (mode AND 0x1FF AND NOT (t_umask (me s))) OR 0x8000
     in bindK (dir_namei pathname s) (\<lambda>r s.
        case r of
          None \<Rightarrow> ret (Inl (- ENOENT)) s
        | Some (dir, namelen, name) \<Rightarrow>
            if namelen = 0 then
              if flag AND (O_ACCMODE OR O_CREAT OR O_TRUNC) = 0 then ret (Inr dir) s
              else leave [iput (Some dir)] (Inl (- EISDIR)) s
            else
              bindK (find_entry dir name namelen s) (\<lambda>(dir, r) s.
              case r of
                None \<Rightarrow>
                  if flag AND O_CREAT = 0 then leave [iput (Some dir)] (Inl (- ENOENT)) s
                  else if \<not> permission dir MAY_WRITE s then leave [iput (Some dir)] (Inl (- EACCES)) s
                  else
                    bindK (new_inode (i_dev (inode_table s dir)) s) (\<lambda>r s.
                    case r of
                      None \<Rightarrow> leave [iput (Some dir)] (Inl (- ENOSPC)) s
                    | Some inode \<Rightarrow>
                        let s = upd_inode inode (\<lambda>n. n\<lparr>i_uid := t_euid (me s), i_mode := mode, i_dirt := 1\<rparr>) s
                        in bindK (add_entry dir name namelen s) (\<lambda>r s.
                           case r of
                             None \<Rightarrow>
                               leave [iput (Some inode), iput (Some dir)] (Inl (- ENOSPC))
                                 (upd_inode inode (\<lambda>n. n\<lparr>i_nlinks := i_nlinks n - 1\<rparr>) s)
                           | Some (bh, de) \<Rightarrow>
                               leave [brelse (Some bh), iput (Some dir)] (Inr inode)
                                 (put_entry bh de (i_num (inode_table s inode)) s)))
              | Some (bh, de) \<Rightarrow>
                  let inr = de_inode (b_data (buf s bh)) de; dev = i_dev (inode_table s dir)
                  in bindK (brelse (Some bh) s) (\<lambda>_ s.
                     bindK (iput (Some dir) s) (\<lambda>_ s.
                     if flag AND O_EXCL \<noteq> 0 then ret (Inl (- EEXIST)) s
                     else
                       bindK (iget dev inr s) (\<lambda>inode s.
                       if (S_ISDIR (i_mode (inode_table s inode)) \<and> flag AND O_ACCMODE \<noteq> 0)
                          \<or> \<not> permission inode (ACC_MODE flag) s
                       then leave [iput (Some inode)] (Inl (- EPERM)) s
                       else
                         let s = upd_inode inode (\<lambda>n. n\<lparr>i_atime := now s\<rparr>) s
                         in bindK (if flag AND O_TRUNC \<noteq> 0 then truncate inode s else ret () s) (\<lambda>_ s.
                            ret (Inr inode) s)))))))"

section \<open>Making nodes and directories\<close>

definition sys_mknod :: "u32 \<Rightarrow> u16 \<Rightarrow> u16 \<Rightarrow> int kop" where
  "sys_mknod filename mode dev s =
    (if \<not> suser s then ret (- EPERM) s
     else bindK (dir_namei filename s) (\<lambda>r s.
       case r of
         None \<Rightarrow> ret (- ENOENT) s
       | Some (dir, namelen, name) \<Rightarrow>
           if namelen = 0 then leave [iput (Some dir)] (- ENOENT) s
           else if \<not> permission dir MAY_WRITE s then leave [iput (Some dir)] (- EPERM) s
           else
             bindK (find_entry dir name namelen s) (\<lambda>(dir, r) s.
             case r of
               Some (bh, de) \<Rightarrow> leave [brelse (Some bh), iput (Some dir)] (- EEXIST) s
             | None \<Rightarrow>
                 bindK (new_inode (i_dev (inode_table s dir)) s) (\<lambda>r s.
                 case r of
                   None \<Rightarrow> leave [iput (Some dir)] (- ENOSPC) s
                 | Some inode \<Rightarrow>
                     let s = upd_inode inode (\<lambda>n. n\<lparr>i_mode := mode\<rparr>) s;
                         s = (if S_ISBLK mode \<or> S_ISCHR mode then set_zone inode 0 dev s else s);
                         s = upd_inode inode (\<lambda>n. n\<lparr>i_mtime := now s, i_atime := now s, i_dirt := 1\<rparr>) s
                     in bindK (add_entry dir name namelen s) (\<lambda>r s.
                        case r of
                          None \<Rightarrow>
                            leave [iput (Some dir),
                                   \<lambda>s. iput (Some inode) (upd_inode inode (\<lambda>n. n\<lparr>i_nlinks := 0\<rparr>) s)]
                              (- ENOSPC) s
                        | Some (bh, de) \<Rightarrow>
                            leave [iput (Some dir), iput (Some inode), brelse (Some bh)] 0
                              (put_entry bh de (i_num (inode_table s inode)) s))))))"

text \<open>The first two entries of a new directory.\<close>

definition dot_entries :: "u16 \<Rightarrow> u16 \<Rightarrow> block_data \<Rightarrow> block_data" where
  "dot_entries self up d =
    (put_u16 16 up ((put_u16 0 self d)(2 := 46, 3 := 0)))(18 := 46, 19 := 46, 20 := 0)"

definition sys_mkdir :: "u32 \<Rightarrow> u16 \<Rightarrow> int kop" where
  "sys_mkdir pathname mode s =
    (if \<not> suser s then ret (- EPERM) s
     else bindK (dir_namei pathname s) (\<lambda>r s.
       case r of
         None \<Rightarrow> ret (- ENOENT) s
       | Some (dir, namelen, name) \<Rightarrow>
           if namelen = 0 then leave [iput (Some dir)] (- ENOENT) s
           else if \<not> permission dir MAY_WRITE s then leave [iput (Some dir)] (- EPERM) s
           else
             bindK (find_entry dir name namelen s) (\<lambda>(dir, r) s.
             case r of
               Some (bh, de) \<Rightarrow> leave [brelse (Some bh), iput (Some dir)] (- EEXIST) s
             | None \<Rightarrow>
                 bindK (new_inode (i_dev (inode_table s dir)) s) (\<lambda>r s.
                 case r of
                   None \<Rightarrow> leave [iput (Some dir)] (- ENOSPC) s
                 | Some inode \<Rightarrow>
                     let s = upd_inode inode (\<lambda>n. n\<lparr>i_size := 32, i_dirt := 1, i_mtime := now s, i_atime := now s\<rparr>) s
                     in bindK (new_block (i_dev (inode_table s inode)) s) (\<lambda>blk s.
                        let s = set_zone inode 0 blk s
                        in if blk = 0 then
                             leave [iput (Some dir),
                                    \<lambda>s. iput (Some inode) (upd_inode inode (\<lambda>n. n\<lparr>i_nlinks := i_nlinks n - 1\<rparr>) s)]
                               (- ENOSPC) s
                           else
                             let s = upd_inode inode (\<lambda>n. n\<lparr>i_dirt := 1\<rparr>) s
                             in bindK (bread (i_dev (inode_table s inode)) (ucast (i_zone (inode_table s inode) 0)) s) (\<lambda>r s.
                                case r of
                                  None \<Rightarrow>
                                    leave [iput (Some dir),
                                           \<lambda>s. free_block (i_dev (inode_table s inode)) (i_zone (inode_table s inode) 0) s,
                                           \<lambda>s. iput (Some inode) (upd_inode inode (\<lambda>n. n\<lparr>i_nlinks := i_nlinks n - 1\<rparr>) s)]
                                      (- ERROR) s
                                | Some db \<Rightarrow>
                                    let s = upd_buf db (\<lambda>b. b\<lparr>b_data := dot_entries (i_num (inode_table s inode))
                                                  (i_num (inode_table s dir)) (b_data b), b_dirt := 1\<rparr>) s;
                                        s = upd_inode inode (\<lambda>n. n\<lparr>i_nlinks := 2\<rparr>) s
                                    in bindK (brelse (Some db) s) (\<lambda>_ s.
                                       let s = upd_inode inode (\<lambda>n. n\<lparr>i_mode := 0x4000 OR (mode AND 0x1FF AND NOT (t_umask (me s))),
                                                   i_dirt := 1\<rparr>) s
                                       in bindK (add_entry dir name namelen s) (\<lambda>r s.
                                          case r of
                                            None \<Rightarrow>
                                              leave [iput (Some dir),
                                                     \<lambda>s. free_block (i_dev (inode_table s inode)) (i_zone (inode_table s inode) 0) s,
                                                     \<lambda>s. iput (Some inode) (upd_inode inode (\<lambda>n. n\<lparr>i_nlinks := 0\<rparr>) s)]
                                                (- ENOSPC) s
                                          | Some (bh, de) \<Rightarrow>
                                              leave [iput (Some dir), iput (Some inode), brelse (Some bh)] 0
                                                (upd_inode dir (\<lambda>n. n\<lparr>i_nlinks := i_nlinks n + 1, i_dirt := 1\<rparr>)
                                                  (put_entry bh de (i_num (inode_table s inode)) s))))))))))"

section \<open>Removing names\<close>

text \<open>The loop of \<open>empty_dir\<close>: over a missing block the pointers stay at the buffer already released.\<close>

primrec empty_loop :: "nat \<Rightarrow> nat \<Rightarrow> nat \<Rightarrow> nat \<Rightarrow> nat \<Rightarrow> nat \<Rightarrow> bool kop" where
  "empty_loop 0 len nr bh de inode s = leave [brelse (Some bh)] True s"
| "empty_loop (Suc k) len nr bh de inode s =
    (if nr \<ge> len then leave [brelse (Some bh)] True s
     else if de \<ge> BLOCK_SIZE then
       bindK (brelse (Some bh) s) (\<lambda>_ s.
       bindK (bmap inode (int (nr div DIR_ENTRIES_PER_BLOCK)) s) (\<lambda>block s.
       if block = 0 then empty_loop k len (nr + DIR_ENTRIES_PER_BLOCK) bh de inode s
       else
         bindK (bread (i_dev (inode_table s inode)) (ucast block) s) (\<lambda>r s.
         case r of
           None \<Rightarrow> ret False s
         | Some bh \<Rightarrow>
             if de_inode (b_data (buf s bh)) 0 \<noteq> 0 then leave [brelse (Some bh)] False s
             else empty_loop k len (nr + 1) bh 16 inode s)))
     else if de_inode (b_data (buf s bh)) de \<noteq> 0 then leave [brelse (Some bh)] False s
     else empty_loop k len (nr + 1) bh (de + 16) inode s)"

definition empty_dir :: "nat \<Rightarrow> bool kop" where
  "empty_dir inode s =
    (let n = inode_table s inode; len = unat (i_size n) div 16
     in if len < 2 \<or> i_zone n 0 = 0 then ret False s
        else
          bindK (bread (i_dev n) (ucast (i_zone n 0)) s) (\<lambda>r s.
          case r of
            None \<Rightarrow> ret False s
          | Some bh \<Rightarrow>
              let d = b_data (buf s bh)
              in if de_inode d 0 \<noteq> i_num (inode_table s inode) \<or> de_inode d 16 = 0
                    \<or> \<not> (d 2 = 46 \<and> d 3 = 0) \<or> \<not> (d 18 = 46 \<and> d 19 = 46 \<and> d 20 = 0)
                 then ret False s
                 else empty_loop len len 2 bh 32 inode s))"

definition S_ISVTX :: u16 where "S_ISVTX = 0x200"

definition sys_rmdir :: "u32 \<Rightarrow> int kop" where
  "sys_rmdir name s =
    (if \<not> suser s then ret (- EPERM) s
     else bindK (dir_namei name s) (\<lambda>r s.
       case r of
         None \<Rightarrow> ret (- ENOENT) s
       | Some (dir, namelen, basename) \<Rightarrow>
           if namelen = 0 then leave [iput (Some dir)] (- ENOENT) s
           else if \<not> permission dir MAY_WRITE s then leave [iput (Some dir)] (- EPERM) s
           else
             bindK (find_entry dir basename namelen s) (\<lambda>(dir, r) s.
             case r of
               None \<Rightarrow> leave [iput (Some dir)] (- ENOENT) s
             | Some (bh, de) \<Rightarrow>
                 bindK (iget (i_dev (inode_table s dir)) (de_inode (b_data (buf s bh)) de) s) (\<lambda>inode s.
                 let n = inode_table s inode; d = inode_table s dir; uid = t_euid (me s)
                 in if i_mode d AND S_ISVTX \<noteq> 0 \<and> uid \<noteq> 0 \<and> i_uid n \<noteq> uid
                    then leave [iput (Some dir), iput (Some inode), brelse (Some bh)] (- EPERM) s
                    else if i_dev n \<noteq> i_dev d \<or> i_count n > 1
                    then leave [iput (Some dir), iput (Some inode), brelse (Some bh)] (- EPERM) s
                    else if inode = dir
                    then leave [iput (Some inode), iput (Some dir), brelse (Some bh)] (- EPERM) s
                    else if \<not> S_ISDIR (i_mode n)
                    then leave [iput (Some inode), iput (Some dir), brelse (Some bh)] (- ENOTDIR) s
                    else
                      bindK (empty_dir inode s) (\<lambda>e s.
                      if \<not> e then leave [iput (Some inode), iput (Some dir), brelse (Some bh)] (- ENOTEMPTY) s
                      else
                        bindK (brelse (Some bh) (put_entry bh de 0 s)) (\<lambda>_ s.
                        leave [iput (Some dir), iput (Some inode)] 0
                          (upd_inode dir (\<lambda>n. n\<lparr>i_nlinks := i_nlinks n - 1, i_ctime := now s, i_mtime := now s,
                             i_dirt := 1\<rparr>)
                            (upd_inode inode (\<lambda>n. n\<lparr>i_nlinks := 0, i_dirt := 1\<rparr>) s))))))))"

definition sys_unlink :: "u32 \<Rightarrow> int kop" where
  "sys_unlink name s =
    bindK (dir_namei name s) (\<lambda>r s.
      case r of
        None \<Rightarrow> ret (- ENOENT) s
      | Some (dir, namelen, basename) \<Rightarrow>
          if namelen = 0 then leave [iput (Some dir)] (- ENOENT) s
          else if \<not> permission dir MAY_WRITE s then leave [iput (Some dir)] (- EPERM) s
          else
            bindK (find_entry dir basename namelen s) (\<lambda>(dir, r) s.
            case r of
              None \<Rightarrow> leave [iput (Some dir)] (- ENOENT) s
            | Some (bh, de) \<Rightarrow>
                bindK (iget (i_dev (inode_table s dir)) (de_inode (b_data (buf s bh)) de) s) (\<lambda>inode s.
                let n = inode_table s inode; d = inode_table s dir; uid = t_euid (me s)
                in if i_mode d AND S_ISVTX \<noteq> 0 \<and> \<not> suser s \<and> uid \<noteq> i_uid n \<and> uid \<noteq> i_uid d
                   then leave [iput (Some dir), iput (Some inode), brelse (Some bh)] (- EPERM) s
                   else if S_ISDIR (i_mode n)
                   then leave [iput (Some inode), iput (Some dir), brelse (Some bh)] (- EPERM) s
                   else
                     let s = (if i_nlinks n = 0 then upd_inode inode (\<lambda>n. n\<lparr>i_nlinks := 1\<rparr>) s else s)
                     in bindK (brelse (Some bh) (put_entry bh de 0 s)) (\<lambda>_ s.
                        leave [iput (Some inode), iput (Some dir)] 0
                          (upd_inode inode (\<lambda>n. n\<lparr>i_nlinks := i_nlinks n - 1, i_dirt := 1, i_ctime := now s\<rparr>) s)))))"

definition sys_link :: "u32 \<Rightarrow> u32 \<Rightarrow> int kop" where
  "sys_link oldname newname s =
    bindK (namei oldname s) (\<lambda>r s.
      case r of
        None \<Rightarrow> ret (- ENOENT) s
      | Some old \<Rightarrow>
          if S_ISDIR (i_mode (inode_table s old)) then leave [iput (Some old)] (- EPERM) s
          else
            bindK (dir_namei newname s) (\<lambda>r s.
            case r of
              None \<Rightarrow> leave [iput (Some old)] (- EACCES) s
            | Some (dir, namelen, name) \<Rightarrow>
                if namelen = 0 then leave [iput (Some old), iput (Some dir)] (- EPERM) s
                else if i_dev (inode_table s dir) \<noteq> i_dev (inode_table s old)
                then leave [iput (Some dir), iput (Some old)] (- EXDEV) s
                else if \<not> permission dir MAY_WRITE s
                then leave [iput (Some dir), iput (Some old)] (- EACCES) s
                else
                  bindK (find_entry dir name namelen s) (\<lambda>(dir, r) s.
                  case r of
                    Some (bh, de) \<Rightarrow> leave [brelse (Some bh), iput (Some dir), iput (Some old)] (- EEXIST) s
                  | None \<Rightarrow>
                      bindK (add_entry dir name namelen s) (\<lambda>r s.
                      case r of
                        None \<Rightarrow> leave [iput (Some dir), iput (Some old)] (- ENOSPC) s
                      | Some (bh, de) \<Rightarrow>
                          bindK (brelse (Some bh) (put_entry bh de (i_num (inode_table s old)) s)) (\<lambda>_ s.
                          bindK (iput (Some dir) s) (\<lambda>_ s.
                          leave [iput (Some old)] 0
                            (upd_inode old (\<lambda>n. n\<lparr>i_nlinks := i_nlinks n + 1, i_ctime := now s, i_dirt := 1\<rparr>) s)))))))"

end
