(* ===== verification/File_Dev.thy ===== *)
theory File_Dev
  imports Inode
begin

text \<open>
  \<open>fs/file_dev.c\<close> and \<open>fs/block_dev.c\<close>: reading and writing the blocks of a regular file and of a block
  device through the buffer cache, to and from the user's memory. Every pass of a loop moves at least
  one byte, so that the byte count is fuel enough.
\<close>

unbundle bit_operations_syntax

text \<open>The byte loops: from a block to the user, and from the user into a block.\<close>

definition copy_to_user :: "(nat \<Rightarrow> u8) \<Rightarrow> u32 \<Rightarrow> nat \<Rightarrow> kstate \<Rightarrow> kstate" where
  "copy_to_user f ubuf n s = s\<lparr>umem := fold (\<lambda>k m. m(ubuf + of_nat k := f k)) [0..<n] (umem s)\<rparr>"

definition copy_from_user :: "(u32 \<Rightarrow> u8) \<Rightarrow> u32 \<Rightarrow> nat \<Rightarrow> nat \<Rightarrow> block_data \<Rightarrow> block_data" where
  "copy_from_user m ubuf off n d = fold (\<lambda>k d. d(off + k := m (ubuf + of_nat k))) [0..<n] d"

text \<open>Quotient and remainder of a file position, truncated as in C: the remainder of a negative position is negative, and
  the bytes there are not in the buffer.\<close>

definition pos_block :: "int \<Rightarrow> int" where "pos_block pos = trunc_div pos 1024"
definition pos_offset :: "int \<Rightarrow> int" where "pos_offset pos = pos - 1024 * trunc_div pos 1024"

section \<open>Regular files\<close>

primrec file_read_loop :: "nat \<Rightarrow> nat \<Rightarrow> nat \<Rightarrow> u32 \<Rightarrow> nat \<Rightarrow> nat kop" where
  "file_read_loop 0 inode filp ubuf left s = blocked s"
| "file_read_loop (Suc k) inode filp ubuf left s =
    (if left = 0 then ret 0 s
     else
       bindK (bmap inode (pos_block (f_pos (file_table s filp))) s) (\<lambda>nr s.
       bindK (if nr \<noteq> 0 then
                bindK (bread (i_dev (inode_table s inode)) (ucast nr) s) (\<lambda>r s. ret (r = None, r) s)
              else ret (False, None) s) (\<lambda>(failed, bh) s.
       if failed then ret left s
       else
         let off = pos_offset (f_pos (file_table s filp));
             chars = min (nat (int BLOCK_SIZE - off)) left;
             s = upd_file filp (\<lambda>f. f\<lparr>f_pos := s32 (f_pos f + int chars)\<rparr>) s
         in bindK (case bh of
                     Some b \<Rightarrow>
                       if off < 0 then Inl (Fault s)
                       else brelse (Some b) (copy_to_user (\<lambda>k. b_data (buf s b) (nat off + k)) ubuf chars s)
                   | None \<Rightarrow> ret () (copy_to_user (\<lambda>_. 0) ubuf chars s)) (\<lambda>_ s.
            file_read_loop k inode filp (ubuf + of_nat chars) (left - chars) s))))"

definition file_read :: "nat \<Rightarrow> nat \<Rightarrow> u32 \<Rightarrow> int \<Rightarrow> int kop" where
  "file_read inode filp ubuf count s =
    (if count \<le> 0 then ret 0 s
     else
       bindK (file_read_loop (Suc (nat count)) inode filp ubuf (nat count) s) (\<lambda>left s.
       ret (if int left \<noteq> count then count - int left else - ERROR)
         (upd_inode inode (\<lambda>n. n\<lparr>i_atime := now s\<rparr>) s)))"

text \<open>\<open>c\<close> bytes go into the buffer of the block; \<open>pos\<close> is the position behind them.\<close>

definition write_block :: "nat \<Rightarrow> nat \<Rightarrow> u32 \<Rightarrow> nat \<Rightarrow> nat \<Rightarrow> int \<Rightarrow> kstate \<Rightarrow> kstate" where
  "write_block inode bh ubuf off c pos s =
    (let s = upd_buf bh (\<lambda>b. b\<lparr>b_dirt := 1\<rparr>) s;
         s = (if (of_int pos :: u32) > i_size (inode_table s inode)
              then upd_inode inode (\<lambda>n. n\<lparr>i_size := of_int pos, i_dirt := 1\<rparr>) s else s)
     in upd_buf bh (\<lambda>b. b\<lparr>b_data := copy_from_user (umem s) ubuf off c (b_data b)\<rparr>) s)"

text \<open>The result of the loop: the bytes written and the position reached.\<close>

primrec file_write_loop :: "nat \<Rightarrow> nat \<Rightarrow> u32 \<Rightarrow> int \<Rightarrow> nat \<Rightarrow> nat \<Rightarrow> (nat \<times> int) kop" where
  "file_write_loop 0 inode ubuf pos i count s = blocked s"
| "file_write_loop (Suc k) inode ubuf pos i count s =
    (if i \<ge> count then ret (i, pos) s
     else
       bindK (create_block inode (pos_block pos) s) (\<lambda>block s.
       if block = 0 then ret (i, pos) s
       else
         bindK (bread (i_dev (inode_table s inode)) (ucast block) s) (\<lambda>r s.
         case r of
           None \<Rightarrow> ret (i, pos) s
         | Some bh \<Rightarrow>
             let off = pos_offset pos;
                 c = min (nat (int BLOCK_SIZE - off)) (count - i);
                 pos = s32 (pos + int c)
             in if off < 0 then Inl (Fault s)
                else bindK (brelse (Some bh) (write_block inode bh ubuf (nat off) c pos s)) (\<lambda>_ s.
                file_write_loop k inode (ubuf + of_nat c) pos (i + c) count s))))"

definition file_write :: "nat \<Rightarrow> nat \<Rightarrow> u32 \<Rightarrow> int \<Rightarrow> int kop" where
  "file_write inode filp ubuf count s =
    (let append = (f_flags (file_table s filp) AND 0x400 \<noteq> 0);
         pos = (if append then sint (i_size (inode_table s inode)) else f_pos (file_table s filp))
     in bindK (file_write_loop (Suc (nat count)) inode ubuf pos 0 (nat count) s) (\<lambda>(i, pos) s.
        let s = upd_inode inode (\<lambda>n. n\<lparr>i_mtime := now s\<rparr>) s;
            s = (if append then s
                 else upd_inode inode (\<lambda>n. n\<lparr>i_ctime := now s\<rparr>) (upd_file filp (\<lambda>f. f\<lparr>f_pos := pos\<rparr>) s))
        in ret (if i \<noteq> 0 then int i else - 1) s))"

section \<open>Block devices\<close>

text \<open>\<open>*pos >> BLOCK_SIZE_BITS\<close> and \<open>*pos & (BLOCK_SIZE-1)\<close>.\<close>

primrec block_write_loop :: "nat \<Rightarrow> u16 \<Rightarrow> nat \<Rightarrow> u32 \<Rightarrow> nat \<Rightarrow> u32 \<Rightarrow> nat \<Rightarrow> nat \<Rightarrow> int kop" where
  "block_write_loop 0 dev filp block off ubuf count written s = blocked s"
| "block_write_loop (Suc k) dev filp block off ubuf count written s =
    (if count = 0 then ret (int written) s
     else
       let chars = min (BLOCK_SIZE - off) count
       in bindK (if chars = BLOCK_SIZE then bindK (getblk dev block s) (\<lambda>b s. ret (Some b) s)
                 else breada dev block [block + 1, block + 2] s) (\<lambda>r s.
          case r of
            None \<Rightarrow> ret (if written \<noteq> 0 then int written else - EIO) s
          | Some bh \<Rightarrow>
              let s = upd_file filp (\<lambda>f. f\<lparr>f_pos := s32 (f_pos f + int chars)\<rparr>) s
              in bindK (brelse (Some bh) (upd_buf bh (\<lambda>b. b\<lparr>b_data := copy_from_user (umem s) ubuf off chars (b_data b),
                                                      b_dirt := 1\<rparr>) s)) (\<lambda>_ s.
                 block_write_loop k dev filp (block + 1) 0 (ubuf + of_nat chars) (count - chars)
                   (written + chars) s)))"

definition block_write :: "u16 \<Rightarrow> nat \<Rightarrow> u32 \<Rightarrow> int \<Rightarrow> int kop" where
  "block_write dev filp ubuf count s =
    (let pos = f_pos (file_table s filp)
     in block_write_loop (Suc (nat count)) dev filp (of_int (pos div 1024)) (nat (pos mod 1024)) ubuf
          (nat count) 0 s)"

primrec block_read_loop :: "nat \<Rightarrow> u16 \<Rightarrow> nat \<Rightarrow> u32 \<Rightarrow> nat \<Rightarrow> u32 \<Rightarrow> nat \<Rightarrow> nat \<Rightarrow> int kop" where
  "block_read_loop 0 dev filp block off ubuf count rd s = blocked s"
| "block_read_loop (Suc k) dev filp block off ubuf count rd s =
    (if count = 0 then ret (int rd) s
     else
       let chars = min (BLOCK_SIZE - off) count
       in bindK (breada dev block [block + 1, block + 2] s) (\<lambda>r s.
          case r of
            None \<Rightarrow> ret (if rd \<noteq> 0 then int rd else - EIO) s
          | Some bh \<Rightarrow>
              let s = upd_file filp (\<lambda>f. f\<lparr>f_pos := s32 (f_pos f + int chars)\<rparr>) s
              in bindK (brelse (Some bh) (copy_to_user (\<lambda>k. b_data (buf s bh) (off + k)) ubuf chars s)) (\<lambda>_ s.
                 block_read_loop k dev filp (block + 1) 0 (ubuf + of_nat chars) (count - chars)
                   (rd + chars) s)))"

text \<open>\<open>block_read\<close> takes the position as unsigned.\<close>

definition block_read :: "u16 \<Rightarrow> nat \<Rightarrow> u32 \<Rightarrow> int \<Rightarrow> int kop" where
  "block_read dev filp ubuf count s =
    (let pos = (of_int (f_pos (file_table s filp)) :: u32)
     in block_read_loop (Suc (nat count)) dev filp (drop_bit 10 pos) (unat pos mod 1024) ubuf
          (nat count) 0 s)"

end
