(* ===== verification/Ring.thy ===== *)
theory Ring
  imports Prelude
begin

text \<open>
  Circular buffers: the abstraction of a ring to the list of its elements, shared by the pipes and the
  queues of the terminals, and the contract of a bounded first-in first-out queue with what it gives its
  clients.
\<close>

section \<open>The elements of a ring\<close>

text \<open>\<open>n\<close> elements from place \<open>t\<close> on, in a ring of \<open>N\<close> places.\<close>

definition ring :: "nat \<Rightarrow> (nat \<Rightarrow> 'a) \<Rightarrow> nat \<Rightarrow> nat \<Rightarrow> 'a list" where
  "ring N f t n = map (\<lambda>k. f ((t + k) mod N)) [0..<n]"

lemma length_ring [simp]: "length (ring N f t n) = n"
  by (simp add: ring_def)

lemma ring_nth: "k < n \<Longrightarrow> ring N f t n ! k = f ((t + k) mod N)"
  by (simp add: ring_def)

lemma ring_0 [simp]: "ring N f t 0 = []"
  by (simp add: ring_def)

lemma ring_eq_Nil [simp]: "ring N f t n = [] \<longleftrightarrow> n = 0"
  by (simp add: ring_def)

lemma ring_cong: "(\<And>k. k < n \<Longrightarrow> f ((t + k) mod N) = g ((t + k) mod N)) \<Longrightarrow> ring N f t n = ring N g t n"
  by (simp add: ring_def)

lemma ring_drop: "m \<le> n \<Longrightarrow> drop m (ring N f t n) = ring N f ((t + m) mod N) (n - m)"
  by (rule nth_equalityI) (simp_all add: ring_nth mod_add_left_eq add.assoc)

lemma ring_take: "m \<le> n \<Longrightarrow> take m (ring N f t n) = ring N f t m"
  by (rule nth_equalityI) (simp_all add: ring_nth)

lemma ring_Suc: "t < N \<Longrightarrow> ring N f t (Suc n) = f t # ring N f ((t + 1) mod N) n"
  by (rule nth_equalityI) (auto simp: ring_nth nth_Cons mod_add_left_eq split: nat.splits)

lemma ring_append: "ring N f t (n + m) = ring N f t n @ ring N f ((t + n) mod N) m"
  using append_take_drop_id [of n "ring N f t (n + m)"] ring_take [of n "n + m" N f t] ring_drop [of n "n + m" N f t]
  by simp

lemma ring_place_inj:
  fixes j k t N :: nat
  assumes "j < N" "k < N" "(t + j) mod N = (t + k) mod N"
  shows "j = k"
proof -
  have "int (t + j) mod int N = int (t + k) mod int N"
    using assms(3) by (metis of_nat_mod)
  then have "int N dvd int j - int k"
    by (simp add: mod_eq_dvd_iff)
  moreover have "\<bar>int j - int k\<bar> < int N"
    using assms(1,2) by linarith
  ultimately have "int j - int k = 0"
    using dvd_imp_le_int [of "int j - int k" "int N"] by force
  then show ?thesis
    by simp
qed

text \<open>Elements written behind the last one do not disturb the ring as long as they fit.\<close>

lemma ring_put:
  assumes "n < N"
  shows "ring N (f((t + n) mod N := c)) t (Suc n) = ring N f t n @ [c]"
proof (rule nth_equalityI)
  fix k assume "k < length (ring N (f((t + n) mod N := c)) t (Suc n))"
  then show "ring N (f((t + n) mod N := c)) t (Suc n) ! k = (ring N f t n @ [c]) ! k"
    using assms ring_place_inj [of k N n t] by (auto simp: ring_nth nth_append less_Suc_eq)
qed simp

lemma ring_count:
  fixes h t N n :: nat
  assumes "t < N" "n < N" "h = (t + n) mod N"
  shows "(int h - int t) mod int N = int n"
proof -
  have "(int h - int t) mod int N = (int (t + n) - int t) mod int N"
    using assms(3) by (simp add: zmod_int mod_diff_left_eq)
  then show ?thesis
    using assms(2) by simp
qed

section \<open>Bounded queues\<close>

primrec put_all :: "('e \<Rightarrow> 'q \<Rightarrow> 'q) \<Rightarrow> 'e list \<Rightarrow> 'q \<Rightarrow> 'q" where
  "put_all put [] q = q"
| "put_all put (c # cs) q = put_all put cs (put c q)"

primrec get_all :: "('q \<Rightarrow> 'e \<times> 'q) \<Rightarrow> nat \<Rightarrow> 'q \<Rightarrow> 'e list \<times> 'q" where
  "get_all get 0 q = ([], q)"
| "get_all get (Suc n) q =
    (let (c, q) = get q; (cs, q) = get_all get n q in (c # cs, q))"

text \<open>A queue of at most \<open>cap\<close> elements, whose contents is the list \<open>elems q\<close>.\<close>

locale bounded_fifo =
  fixes inv :: "'q \<Rightarrow> bool"
    and elems :: "'q \<Rightarrow> 'e list"
    and cap :: nat
    and put :: "'e \<Rightarrow> 'q \<Rightarrow> 'q"
    and get :: "'q \<Rightarrow> 'e \<times> 'q"
  assumes put_elems: "inv q \<Longrightarrow> length (elems q) < cap \<Longrightarrow> elems (put c q) = elems q @ [c]"
    and put_inv: "inv q \<Longrightarrow> inv (put c q)"
    and get_elems: "inv q \<Longrightarrow> elems q \<noteq> [] \<Longrightarrow> get q = (c, q') \<Longrightarrow> elems q = c # elems q'"
    and get_inv: "inv q \<Longrightarrow> get q = (c, q') \<Longrightarrow> inv q'"
begin

lemma put_all_elems:
  "inv q \<Longrightarrow> length (elems q) + length cs \<le> cap \<Longrightarrow> inv (put_all put cs q) \<and> elems (put_all put cs q) = elems q @ cs"
proof (induction cs arbitrary: q)
  case (Cons c cs)
  then have "inv (put c q)" "elems (put c q) = elems q @ [c]"
    using put_elems [of q c] put_inv by simp_all
  then show ?case
    using Cons by simp
qed simp

lemma get_all_elems:
  "inv q \<Longrightarrow> n \<le> length (elems q) \<Longrightarrow> get_all get n q = (cs, q') \<Longrightarrow>
    inv q' \<and> cs = take n (elems q) \<and> elems q' = drop n (elems q)"
proof (induction n arbitrary: q cs)
  case (Suc n)
  obtain c r where r: "get q = (c, r)"
    by fastforce
  have "elems q \<noteq> []"
    using Suc.prems(2) by auto
  then have "elems q = c # elems r" "inv r"
    using get_elems [OF Suc.prems(1) _ r] get_inv [OF Suc.prems(1) r] by blast+
  moreover obtain ds where "get_all get n r = (ds, q')" "cs = c # ds"
    using Suc.prems(3) r by (auto split: prod.splits)
  ultimately show ?case
    using Suc by auto
qed simp

text \<open>Elements come out in the order they went in, behind those that were there before.\<close>

lemma put_get_all:
  assumes "inv q" "length (elems q) + length cs \<le> cap" "n \<le> length (elems q) + length cs"
    "get_all get n (put_all put cs q) = (ds, q')"
  shows "ds = take n (elems q @ cs) \<and> elems q' = drop n (elems q @ cs) \<and> inv q'"
  using put_all_elems [OF assms(1,2)] get_all_elems [of "put_all put cs q" n ds q'] assms(3,4) by auto

end

end
