(* ===== verification/Phys_Bytes.thy ===== *)
theory Phys_Bytes
  imports Memory
begin

text \<open>
  Physical memory by bytes. The memory manager works on the aligned longs of the memory; the pipes and the
  ram disk move bytes.
\<close>

unbundle bit_operations_syntax

section \<open>Access\<close>

definition get_byte :: "mm_state \<Rightarrow> u32 \<Rightarrow> u8" where
  "get_byte m a = ucast (drop_bit (8 * unat (a AND 3)) (pmem m (a AND NOT 3)))"

definition set_byte :: "u32 \<Rightarrow> u8 \<Rightarrow> mm_state \<Rightarrow> mm_state" where
  "set_byte a c m =
    (let k = 8 * unat (a AND 3)
     in set_long (a AND NOT 3) ((pmem m (a AND NOT 3) AND NOT (push_bit k 0xff)) OR push_bit k (ucast c)) m)"

section \<open>A byte is read back, the others stay\<close>

lemma byte_address:
  fixes a b :: u32
  shows "a = b \<longleftrightarrow> a AND 3 = b AND 3 \<and> a AND NOT 3 = b AND NOT 3"
proof
  assume "a AND 3 = b AND 3 \<and> a AND NOT 3 = b AND NOT 3"
  then have "(a AND 3) OR (a AND NOT 3) = (b AND 3) OR (b AND NOT 3)"
    by simp
  moreover have "(x AND 3) OR (x AND NOT 3) = x" for x :: u32
    by (rule bit_word_eqI) (auto simp only: word_bits)
  ultimately show "a = b"
    by simp
qed simp

lemma byte_lane: "unat ((a :: u32) AND 3) \<in> {0, 1, 2, 3}"
proof -
  have "a AND 3 = a AND mask 2"
    by (simp add: mask_eq_exp_minus_1)
  then have "unat (a AND 3) = take_bit 2 (unat a)"
    by (simp only: take_bit_eq_mask [symmetric] unsigned_take_bit_eq)
  then have "unat (a AND 3) < 4"
    by (simp add: take_bit_eq_mod)
  then show ?thesis
    by auto
qed

lemma get_set_byte: "get_byte (set_byte a c m) b = (if a = b then c else get_byte m b)"
proof -
  let ?i = "unat (a AND 3)" and ?j = "unat (b AND 3)"
  define w where "w = (pmem m (a AND NOT 3) AND NOT (push_bit (8 * ?i) 0xff)) OR push_bit (8 * ?i) (ucast c)"
  have lane: "bit (ucast (drop_bit (8 * ?j) w) :: u8) n
      \<longleftrightarrow> (if ?i = ?j then bit c n else bit (ucast (drop_bit (8 * ?j) (pmem m (a AND NOT 3))) :: u8) n)" for n
  proof (cases "n < 8")
    case True
    then have "8 * ?j + n < 32" "8 * ?i \<le> 8 * ?j + n \<and> 8 * ?j + n - 8 * ?i < 8 \<longleftrightarrow> ?i = ?j"
      using byte_lane [of a] byte_lane [of b] by auto
    then show ?thesis
      unfolding w_def bit_ucast_iff word_bits bits_of_masks using True by (auto dest: bit_imp_le_length)
  next
    case False
    then show ?thesis
      by (auto dest: bit_imp_le_length)
  qed
  show ?thesis
  proof (cases "a AND NOT 3 = b AND NOT 3")
    case True
    then have "get_byte (set_byte a c m) b = ucast (drop_bit (8 * ?j) w)"
      by (simp add: get_byte_def set_byte_def w_def Let_def)
    moreover have "?i = ?j \<longleftrightarrow> a = b"
      using True byte_address [of a b] by (simp add: word_unat_eq_iff)
    moreover have "get_byte m b = ucast (drop_bit (8 * ?j) (pmem m (a AND NOT 3)))"
      using True by (simp add: get_byte_def)
    ultimately show ?thesis
      by (auto simp: lane intro!: bit_word_eqI)
  next
    case False
    then have "a \<noteq> b"
      by auto
    then show ?thesis
      using False by (simp add: get_byte_def set_byte_def Let_def)
  qed
qed

lemma of_nat_inj: "i < 2 ^ 32 \<Longrightarrow> j < 2 ^ 32 \<Longrightarrow> (of_nat i :: u32) = of_nat j \<longleftrightarrow> i = j"
  by (auto simp: word_of_nat_eq_iff take_bit_nat_eq_self)

text \<open>A run of bytes.\<close>

definition get_bytes :: "mm_state \<Rightarrow> u32 \<Rightarrow> nat \<Rightarrow> nat \<Rightarrow> u8" where
  "get_bytes m a n k = (if k < n then get_byte m (a + of_nat k) else 0)"

primrec set_bytes :: "u32 \<Rightarrow> (nat \<Rightarrow> u8) \<Rightarrow> nat \<Rightarrow> mm_state \<Rightarrow> mm_state" where
  "set_bytes a d 0 m = m"
| "set_bytes a d (Suc n) m = set_byte (a + of_nat n) (d n) (set_bytes a d n m)"

lemma get_set_bytes: "n \<le> 2 ^ 32 \<Longrightarrow> k < n \<Longrightarrow> get_byte (set_bytes a d n m) (a + of_nat k) = d k"
proof (induction n)
  case (Suc n)
  then show ?case
    using of_nat_inj [of n k] by (cases "k = n") (auto simp: get_set_byte)
qed simp

lemma get_set_bytes_other: "(\<And>k. k < n \<Longrightarrow> x \<noteq> a + of_nat k) \<Longrightarrow> get_byte (set_bytes a d n m) x = get_byte m x"
  by (induction n) (auto simp: get_set_byte)

end
