(* ===== verification/Pipe.thy ===== *)
theory Pipe
  imports Inode Ring Phys_Bytes
begin

text \<open>
  \<open>fs/pipe.c\<close>: a pipe is an inode whose \<open>i_size\<close> is the address of a page, used as a ring of bytes;
  \<open>i_zone[0]\<close> is the place of the next byte written, \<open>i_zone[1]\<close> that of the next byte read. A reader of
  an empty pipe and a writer of a full one sleep, as \<open>Blocked\<close>.
\<close>

unbundle bit_operations_syntax

section \<open>The ring\<close>

definition PIPE_HEAD :: "m_inode \<Rightarrow> nat" where "PIPE_HEAD n = unat (i_zone n 0)"
definition PIPE_TAIL :: "m_inode \<Rightarrow> nat" where "PIPE_TAIL n = unat (i_zone n 1)"

definition PIPE_SIZE :: "m_inode \<Rightarrow> nat" where
  "PIPE_SIZE n = nat ((int (PIPE_HEAD n) - int (PIPE_TAIL n)) mod 4096)"

text \<open>One pass of \<open>read_pipe\<close> over a pipe that is not empty: the bytes moved, and the state.\<close>

definition read_chunk :: "nat \<Rightarrow> u32 \<Rightarrow> nat \<Rightarrow> kstate \<Rightarrow> nat \<times> kstate" where
  "read_chunk inode ubuf count s =
    (let n = inode_table s inode; tail = PIPE_TAIL n;
         chars = min (min (4096 - tail) count) (PIPE_SIZE n);
         s = set_zone inode 1 (of_nat ((tail + chars) mod 4096)) s
     in (chars, s\<lparr>umem := fold (\<lambda>k m. m(ubuf + of_nat k := get_byte (mm s) (i_size n + of_nat (tail + k)))) [0..<chars] (umem s)\<rparr>))"

definition write_chunk :: "nat \<Rightarrow> u32 \<Rightarrow> nat \<Rightarrow> kstate \<Rightarrow> nat \<times> kstate" where
  "write_chunk inode ubuf count s =
    (let n = inode_table s inode; head = PIPE_HEAD n;
         chars = min (min (4096 - head) count) (4095 - PIPE_SIZE n);
         s = set_zone inode 0 (of_nat ((head + chars) mod 4096)) s
     in (chars, s\<lparr>mm := fold (\<lambda>k. set_byte (i_size n + of_nat (head + k)) (umem s (ubuf + of_nat k))) [0..<chars] (mm s)\<rparr>))"

text \<open>Every pass moves at least one byte.\<close>

primrec read_pipe_loop :: "nat \<Rightarrow> nat \<Rightarrow> u32 \<Rightarrow> nat \<Rightarrow> nat \<Rightarrow> int kop" where
  "read_pipe_loop 0 inode ubuf count rd s = blocked s"
| "read_pipe_loop (Suc k) inode ubuf count rd s =
    (if count = 0 then ret (int rd) (wake_inode inode s)
     else if PIPE_SIZE (inode_table s inode) = 0 then
       let s = wake_inode inode s
       in if i_count (inode_table s inode) \<noteq> 2 then ret (int rd) s else blocked s
     else
       let (chars, s) = read_chunk inode ubuf count s
       in read_pipe_loop k inode (ubuf + of_nat chars) (count - chars) (rd + chars) s)"

definition read_pipe :: "nat \<Rightarrow> u32 \<Rightarrow> int \<Rightarrow> int kop" where
  "read_pipe inode ubuf count s = read_pipe_loop (Suc (nat count)) inode ubuf (nat count) 0 s"

primrec write_pipe_loop :: "nat \<Rightarrow> nat \<Rightarrow> u32 \<Rightarrow> nat \<Rightarrow> nat \<Rightarrow> int kop" where
  "write_pipe_loop 0 inode ubuf count written s = blocked s"
| "write_pipe_loop (Suc k) inode ubuf count written s =
    (if count = 0 then ret (int written) (wake_inode inode s)
     else if PIPE_SIZE (inode_table s inode) = 4095 then
       let s = wake_inode inode s
       in if i_count (inode_table s inode) \<noteq> 2
          then ret (if written \<noteq> 0 then int written else - 1)
                 (upd_me (\<lambda>p. p\<lparr>t_signal := t_signal p OR sigbit SIGPIPE\<rparr>) s)
          else blocked s
     else
       let (chars, s) = write_chunk inode ubuf count s
       in write_pipe_loop k inode (ubuf + of_nat chars) (count - chars) (written + chars) s)"

definition write_pipe :: "nat \<Rightarrow> u32 \<Rightarrow> int \<Rightarrow> int kop" where
  "write_pipe inode ubuf count s = write_pipe_loop (Suc (nat count)) inode ubuf (nat count) 0 s"

section \<open>sys_pipe\<close>

definition free_files :: "kstate \<Rightarrow> nat list" where
  "free_files s = filter (\<lambda>i. f_count (file_table s i) = 0) [0..<NR_FILE]"

definition free_fds :: "kstate \<Rightarrow> nat list" where
  "free_fds s = filter (\<lambda>i. t_filp (me s) i = None) [0..<NR_OPEN]"

definition set_filp :: "nat \<Rightarrow> nat option \<Rightarrow> kstate \<Rightarrow> kstate" where
  "set_filp fd f = upd_me (\<lambda>p. p\<lparr>t_filp := (t_filp p)(fd := f)\<rparr>)"

definition set_count2 :: "nat \<Rightarrow> nat \<Rightarrow> u16 \<Rightarrow> kstate \<Rightarrow> kstate" where
  "set_count2 f g c s = upd_file g (\<lambda>x. x\<lparr>f_count := c\<rparr>) (upd_file f (\<lambda>x. x\<lparr>f_count := c\<rparr>) s)"

text \<open>The two loops take the first two free files and the first two free descriptors; with fewer, what
  was taken is given back.\<close>

definition sys_pipe :: "u32 \<Rightarrow> int kop" where
  "sys_pipe fildes s =
    (case free_files s of
       f0 # f1 # _ \<Rightarrow>
         let s = set_count2 f0 f1 1 s
         in (case free_fds s of
               d0 # d1 # _ \<Rightarrow>
                 let s = set_filp d1 (Some f1) (set_filp d0 (Some f0) s)
                 in bindK (get_pipe_inode s) (\<lambda>r s.
                    case r of
                      None \<Rightarrow> ret (- 1) (set_count2 f0 f1 0 (set_filp d0 None (set_filp d1 None s)))
                    | Some i \<Rightarrow>
                        let s = upd_file f0 (\<lambda>f. f\<lparr>f_inode := Some i, f_pos := 0, f_mode := 1\<rparr>) s;
                            s = upd_file f1 (\<lambda>f. f\<lparr>f_inode := Some i, f_pos := 0, f_mode := 2\<rparr>) s;
                            s = s\<lparr>umem := put_fs_long (of_nat d0) fildes (umem s)\<rparr>;
                            s = s\<lparr>umem := put_fs_long (of_nat d1) (fildes + 4) (umem s)\<rparr>
                        in ret 0 s)
             | _ \<Rightarrow> ret (- 1) (set_count2 f0 f1 0 s))
     | _ \<Rightarrow> ret (- 1) s)"

section \<open>The contents of a pipe\<close>

definition pipe_ok :: "m_inode \<Rightarrow> bool" where
  "pipe_ok n \<longleftrightarrow> PIPE_HEAD n < 4096 \<and> PIPE_TAIL n < 4096"

definition page_byte :: "mm_state \<Rightarrow> u32 \<Rightarrow> nat \<Rightarrow> u8" where
  "page_byte m p k = get_byte m (p + of_nat k)"

definition pipe_bytes :: "nat \<Rightarrow> kstate \<Rightarrow> u8 list" where
  "pipe_bytes i s =
    (let n = inode_table s i in ring 4096 (page_byte (mm s) (i_size n)) (PIPE_TAIL n) (PIPE_SIZE n))"

lemma length_pipe_bytes [simp]: "length (pipe_bytes i s) = PIPE_SIZE (inode_table s i)"
  by (simp add: pipe_bytes_def Let_def)

lemma PIPE_SIZE_less: "PIPE_SIZE n < 4096"
proof -
  have "(int (PIPE_HEAD n) - int (PIPE_TAIL n)) mod 4096 < 4096"
    by simp
  then show ?thesis
    unfolding PIPE_SIZE_def by linarith
qed

lemma pipe_head: "pipe_ok n \<Longrightarrow> PIPE_HEAD n = (PIPE_TAIL n + PIPE_SIZE n) mod 4096"
proof -
  assume ok: "pipe_ok n"
  have "int (PIPE_SIZE n) = (int (PIPE_HEAD n) - int (PIPE_TAIL n)) mod 4096"
    by (simp add: PIPE_SIZE_def)
  then have "int ((PIPE_TAIL n + PIPE_SIZE n) mod 4096) = int (PIPE_HEAD n) mod 4096"
    by (simp add: zmod_int mod_simps)
  then show ?thesis
    using ok by (simp add: pipe_ok_def)
qed

lemma PIPE_SIZE_eq: "PIPE_TAIL n < 4096 \<Longrightarrow> k < 4096 \<Longrightarrow> PIPE_HEAD n = (PIPE_TAIL n + k) mod 4096 \<Longrightarrow> PIPE_SIZE n = k"
  using ring_count [of "PIPE_TAIL n" 4096 k] by (simp add: PIPE_SIZE_def)

lemma zone_simps [simp]:
  "inode_table (set_zone i z v s) = (inode_table s)(i := (inode_table s i)\<lparr>i_zone := (i_zone (inode_table s i))(z := v)\<rparr>)"
  "mm (set_zone i z v s) = mm s" "umem (set_zone i z v s) = umem s" "sch (set_zone i z v s) = sch s"
  by (simp_all add: set_zone_def upd_inode_def)

lemma unat_of_nat16: "k < 4096 \<Longrightarrow> unat (of_nat k :: u16) = k"
  by (simp add: unat_of_nat)

text \<open>The user's bytes at an address.\<close>

definition user_bytes :: "(u32 \<Rightarrow> u8) \<Rightarrow> u32 \<Rightarrow> nat \<Rightarrow> u8 list" where
  "user_bytes m a n = map (\<lambda>k. m (a + of_nat k)) [0..<n]"

lemma user_bytes_0 [simp]: "user_bytes m a 0 = []"
  by (simp add: user_bytes_def)

lemma user_bytes_Suc: "user_bytes m a (Suc n) = user_bytes m a n @ [m (a + of_nat n)]"
  by (simp add: user_bytes_def)

lemma user_bytes_upd: "n < 2 ^ 32 \<Longrightarrow> user_bytes (m(a + of_nat n := c)) a n = user_bytes m a n"
  by (auto simp: user_bytes_def of_nat_inj)

lemma user_bytes_written:
  "n < 2 ^ 32 \<Longrightarrow> user_bytes (fold (\<lambda>k m. m(a + of_nat k := f k)) [0..<n] m) a n = map f [0..<n]"
  by (induction n) (simp_all add: user_bytes_Suc user_bytes_upd)

text \<open>The bytes before those that a routine writes.\<close>

lemma user_bytes_before:
  assumes "d + n < 2 ^ 32"
  shows "user_bytes (fold (\<lambda>k m. m(a + of_nat d + of_nat k := f k)) [0..<n] m) a d = user_bytes m a d"
  using assms
proof (induction n)
  case (Suc n)
  have "user_bytes (g(a + of_nat d + of_nat n := c)) a d = user_bytes g a d" for g c
  proof -
    have "a + of_nat x \<noteq> a + of_nat d + of_nat n" if "x < d" for x
      using of_nat_inj [of x "d + n"] that Suc.prems by (simp add: add.assoc)
    then show ?thesis
      by (simp add: user_bytes_def)
  qed
  then show ?case
    using Suc by (simp del: fun_upd_apply add: fun_upd_def [symmetric])
qed simp

lemma user_bytes_append: "user_bytes m a (d + n) = user_bytes m a d @ user_bytes m (a + of_nat d) n"
  by (rule nth_equalityI) (auto simp: user_bytes_def nth_append algebra_simps simp flip: of_nat_add)

section \<open>One pass\<close>

lemma page_byte_written:
  assumes "j < 4096" "h + n \<le> 4096"
  shows "page_byte (fold (\<lambda>k. set_byte (p + of_nat (h + k)) (f k)) [0..<n] m) p j =
    (if h \<le> j \<and> j < h + n then f (j - h) else page_byte m p j)"
  using assms(2)
proof (induction n)
  case (Suc n)
  have "p + of_nat (h + n) = p + of_nat j \<longleftrightarrow> h + n = j"
    using of_nat_inj [of "h + n" j] assms(1) Suc.prems by simp
  then show ?case
    using Suc by (auto simp: page_byte_def get_set_byte simp del: of_nat_add)
qed auto

lemma get_bytes_untouched:
  "(\<And>k. k < n \<Longrightarrow> a \<noteq> p + of_nat (h + k)) \<Longrightarrow> get_byte (fold (\<lambda>k. set_byte (p + of_nat (h + k)) (f k)) [0..<n] m) a = get_byte m a"
  by (induction n) (auto simp: get_set_byte simp del: of_nat_add)

text \<open>\<open>read_chunk\<close> takes bytes from the front of the pipe.\<close>

lemma read_chunk:
  assumes ok: "pipe_ok (inode_table s i)" and ne: "PIPE_SIZE (inode_table s i) \<noteq> 0" "count \<noteq> 0"
    and r: "read_chunk i ubuf count s = (n, s')"
  shows "1 \<le> n \<and> n \<le> count \<and> n \<le> PIPE_SIZE (inode_table s i) \<and> pipe_ok (inode_table s' i)
    \<and> pipe_bytes i s' = drop n (pipe_bytes i s) \<and> i_count (inode_table s' i) = i_count (inode_table s i)
    \<and> umem s' = fold (\<lambda>k m. m(ubuf + of_nat k := pipe_bytes i s ! k)) [0..<n] (umem s)"
proof -
  let ?n = "inode_table s i" and ?n' = "inode_table s' i"
  have n: "n = min (min (4096 - PIPE_TAIL ?n) count) (PIPE_SIZE ?n)"
    and n': "?n' = ?n\<lparr>i_zone := (i_zone ?n)(1 := of_nat ((PIPE_TAIL ?n + n) mod 4096))\<rparr>" and mm: "mm s' = mm s"
    using r by (auto simp: read_chunk_def Let_def)
  have tl: "PIPE_TAIL ?n < 4096"
    using ok by (simp add: pipe_ok_def)
  have fields: "PIPE_TAIL ?n' = (PIPE_TAIL ?n + n) mod 4096" "PIPE_HEAD ?n' = PIPE_HEAD ?n" "i_size ?n' = i_size ?n"
    by (simp_all add: n' PIPE_TAIL_def PIPE_HEAD_def unat_of_nat16)
  have le: "n \<le> PIPE_SIZE ?n" "1 \<le> n" "n \<le> count" "PIPE_TAIL ?n + n \<le> 4096"
    using n ne tl by auto
  have ok': "pipe_ok ?n'"
    using ok by (simp add: pipe_ok_def fields)
  have sz: "PIPE_SIZE ?n' = PIPE_SIZE ?n - n"
  proof (rule PIPE_SIZE_eq)
    have "PIPE_TAIL ?n + n + (PIPE_SIZE ?n - n) = PIPE_TAIL ?n + PIPE_SIZE ?n"
      using le by simp
    then show "PIPE_HEAD ?n' = (PIPE_TAIL ?n' + (PIPE_SIZE ?n - n)) mod 4096"
      unfolding fields pipe_head [OF ok] by (metis mod_add_left_eq)
  qed (use PIPE_SIZE_less [of ?n] in \<open>simp_all add: fields\<close>)
  have "pipe_bytes i s' = drop n (pipe_bytes i s)"
    using le by (simp add: pipe_bytes_def Let_def sz mm fields ring_drop)
  moreover have "umem s' = fold (\<lambda>k m. m(ubuf + of_nat k := pipe_bytes i s ! k)) [0..<n] (umem s)"
  proof -
    have "pipe_bytes i s ! k = get_byte (mm s) (i_size ?n + of_nat (PIPE_TAIL ?n + k))" if "k \<in> set [0..<n]" for k
      using that le by (simp add: pipe_bytes_def Let_def ring_nth page_byte_def)
    then show ?thesis
      using r n by (auto simp: read_chunk_def Let_def intro!: fold_cong)
  qed
  ultimately show ?thesis
    using le ok' n' by simp
qed

text \<open>The places in memory of the next \<open>n\<close> bytes written; and what a write of them leaves alone: all other bytes of
  memory, the user's memory, the other inodes and where the page of the pipe is.\<close>

definition pipe_places :: "m_inode \<Rightarrow> nat \<Rightarrow> u32 set" where
  "pipe_places n k = (\<lambda>d. i_size n + of_nat ((PIPE_HEAD n + d) mod 4096)) ` {..<k}"

definition pipe_frame :: "nat \<Rightarrow> nat \<Rightarrow> kstate \<Rightarrow> kstate \<Rightarrow> bool" where
  "pipe_frame i n s s' \<longleftrightarrow> (\<forall>a. a \<notin> pipe_places (inode_table s i) n \<longrightarrow> get_byte (mm s') a = get_byte (mm s) a)
    \<and> umem s' = umem s \<and> (\<forall>j. j \<noteq> i \<longrightarrow> inode_table s' j = inode_table s j)
    \<and> i_size (inode_table s' i) = i_size (inode_table s i) \<and> PIPE_TAIL (inode_table s' i) = PIPE_TAIL (inode_table s i)"

lemma pipe_frame_trans:
  assumes "pipe_frame i m s t" "pipe_frame i q t u" "PIPE_HEAD (inode_table t i) = (PIPE_HEAD (inode_table s i) + m) mod 4096"
  shows "pipe_frame i (m + q) s u"
proof -
  let ?f = "\<lambda>d. i_size (inode_table s i) + of_nat ((PIPE_HEAD (inode_table s i) + d) mod 4096)"
  have "pipe_places (inode_table t i) q = (\<lambda>d. ?f (m + d)) ` {..<q}"
    using assms(1,3) by (simp add: pipe_places_def pipe_frame_def mod_add_left_eq add.assoc)
  also have "\<dots> \<subseteq> ?f ` {..<m + q}"
    by auto
  finally have "pipe_places (inode_table t i) q \<subseteq> pipe_places (inode_table s i) (m + q)"
    by (simp add: pipe_places_def)
  moreover have "pipe_places (inode_table s i) m \<subseteq> pipe_places (inode_table s i) (m + q)"
    by (auto simp: pipe_places_def)
  ultimately have "get_byte (mm u) a = get_byte (mm s) a" if "a \<notin> pipe_places (inode_table s i) (m + q)" for a
    using assms(1,2) that unfolding pipe_frame_def by (metis subsetD)
  then show ?thesis
    using assms(1,2) by (simp add: pipe_frame_def)
qed

text \<open>\<open>write_chunk\<close> adds bytes of the user behind the others.\<close>

lemma write_chunk:
  assumes ok: "pipe_ok (inode_table s i)" and room: "PIPE_SIZE (inode_table s i) \<noteq> 4095" "count \<noteq> 0"
    and r: "write_chunk i ubuf count s = (n, s')"
  shows "1 \<le> n \<and> n \<le> count \<and> PIPE_SIZE (inode_table s i) + n \<le> 4095 \<and> pipe_ok (inode_table s' i)
    \<and> pipe_bytes i s' = pipe_bytes i s @ user_bytes (umem s) ubuf n
    \<and> i_count (inode_table s' i) = i_count (inode_table s i) \<and> umem s' = umem s
    \<and> pipe_frame i n s s' \<and> PIPE_HEAD (inode_table s' i) = (PIPE_HEAD (inode_table s i) + n) mod 4096"
proof -
  let ?n = "inode_table s i" and ?n' = "inode_table s' i"
  have n: "n = min (min (4096 - PIPE_HEAD ?n) count) (4095 - PIPE_SIZE ?n)"
    and n': "?n' = ?n\<lparr>i_zone := (i_zone ?n)(0 := of_nat ((PIPE_HEAD ?n + n) mod 4096))\<rparr>" and um: "umem s' = umem s"
    and mm: "mm s' = fold (\<lambda>k. set_byte (i_size ?n + of_nat (PIPE_HEAD ?n + k)) (umem s (ubuf + of_nat k))) [0..<n] (mm s)"
    using r by (auto simp: write_chunk_def Let_def)
  have hd: "PIPE_HEAD ?n < 4096" and tl: "PIPE_TAIL ?n < 4096"
    using ok by (simp_all add: pipe_ok_def)
  have fields: "PIPE_HEAD ?n' = (PIPE_HEAD ?n + n) mod 4096" "PIPE_TAIL ?n' = PIPE_TAIL ?n" "i_size ?n' = i_size ?n"
    by (simp_all add: n' PIPE_TAIL_def PIPE_HEAD_def unat_of_nat16)
  have le: "PIPE_SIZE ?n + n \<le> 4095" "1 \<le> n" "n \<le> count" "PIPE_HEAD ?n + n \<le> 4096"
    using n room hd PIPE_SIZE_less [of ?n] by auto
  have ok': "pipe_ok ?n'"
    using ok by (simp add: pipe_ok_def fields)
  have sz: "PIPE_SIZE ?n' = PIPE_SIZE ?n + n"
    by (rule PIPE_SIZE_eq) (use tl le pipe_head [OF ok] in \<open>simp_all add: fields mod_add_left_eq add.assoc\<close>)
  let ?f = "page_byte (mm s) (i_size ?n)" and ?g = "page_byte (mm s') (i_size ?n)"
  have g: "?g j = (if PIPE_HEAD ?n \<le> j \<and> j < PIPE_HEAD ?n + n then umem s (ubuf + of_nat (j - PIPE_HEAD ?n)) else ?f j)"
    if "j < 4096" for j
    unfolding mm using page_byte_written [OF that le(4)] by simp
  have old: "?g ((PIPE_TAIL ?n + k) mod 4096) = ?f ((PIPE_TAIL ?n + k) mod 4096)" if "k < PIPE_SIZE ?n" for k
  proof -
    have "(PIPE_TAIL ?n + k) mod 4096 \<noteq> PIPE_HEAD ?n + d" if "d < n" for d
    proof
      assume "(PIPE_TAIL ?n + k) mod 4096 = PIPE_HEAD ?n + d"
      then have "PIPE_HEAD ?n + d < 4096" "(PIPE_TAIL ?n + k) mod 4096 = (PIPE_TAIL ?n + (PIPE_SIZE ?n + d)) mod 4096"
        using pipe_head [OF ok] by (auto, metis mod_add_left_eq add.assoc mod_mod_trivial)
      then have "k = PIPE_SIZE ?n + d"
        using ring_place_inj [of k 4096 "PIPE_SIZE ?n + d" "PIPE_TAIL ?n"] that le \<open>k < PIPE_SIZE ?n\<close> by simp
      then show False
        using \<open>k < PIPE_SIZE ?n\<close> by simp
    qed
    then show ?thesis
      using g [of "(PIPE_TAIL ?n + k) mod 4096"] by (metis le_add_diff_inverse mod_less_divisor nat_add_left_cancel_less zero_less_numeral)
  qed
  have new: "ring 4096 ?g (PIPE_HEAD ?n) n = user_bytes (umem s) ubuf n"
  proof (rule nth_equalityI)
    fix k assume "k < length (ring 4096 ?g (PIPE_HEAD ?n) n)"
    then show "ring 4096 ?g (PIPE_HEAD ?n) n ! k = user_bytes (umem s) ubuf n ! k"
      using le(4) g [of "PIPE_HEAD ?n + k"] by (simp add: ring_nth user_bytes_def)
  qed (simp add: user_bytes_def)
  have "pipe_bytes i s' = ring 4096 ?g (PIPE_TAIL ?n) (PIPE_SIZE ?n) @ ring 4096 ?g (PIPE_HEAD ?n) n"
    by (simp add: pipe_bytes_def Let_def sz fields ring_append pipe_head [OF ok])
  then have "pipe_bytes i s' = pipe_bytes i s @ user_bytes (umem s) ubuf n"
    using new old by (simp add: pipe_bytes_def Let_def ring_cong [of _ ?g _ _ ?f])
  moreover have "pipe_frame i n s s'"
  proof -
    have "get_byte (mm s') a = get_byte (mm s) a" if a: "a \<notin> pipe_places ?n n" for a
    proof -
      have "a \<noteq> i_size ?n + of_nat (PIPE_HEAD ?n + k)" if "k < n" for k
        using a that le(4) by (force simp: pipe_places_def)
      then show ?thesis
        unfolding mm by (rule get_bytes_untouched)
    qed
    moreover have "inode_table s' j = inode_table s j" if "j \<noteq> i" for j
      using r that by (auto simp: write_chunk_def Let_def)
    ultimately show ?thesis
      using um fields by (simp add: pipe_frame_def)
  qed
  ultimately show ?thesis
    using le ok' n' um fields(1) by simp
qed

section \<open>read\_pipe and write\_pipe\<close>

lemma wake_inode_simps [simp]:
  "umem (wake_inode j s) = umem s" "mm (wake_inode j s) = mm s"
  "i_zone (inode_table (wake_inode j s) i) = i_zone (inode_table s i)"
  "i_size (inode_table (wake_inode j s) i) = i_size (inode_table s i)"
  "i_count (inode_table (wake_inode j s) i) = i_count (inode_table s i)"
  by (simp_all add: wake_inode_def upd_inode_def split: prod.splits)

lemma pipe_wake [simp]:
  "PIPE_SIZE (inode_table (wake_inode j s) i) = PIPE_SIZE (inode_table s i)"
  "PIPE_TAIL (inode_table (wake_inode j s) i) = PIPE_TAIL (inode_table s i)"
  "pipe_ok (inode_table (wake_inode j s) i) = pipe_ok (inode_table s i)"
  "pipe_bytes i (wake_inode j s) = pipe_bytes i s"
  by (simp_all add: PIPE_SIZE_def PIPE_HEAD_def PIPE_TAIL_def pipe_ok_def pipe_bytes_def Let_def)

lemma pipe_upd_me [simp]:
  "inode_table (upd_me f s) = inode_table s" "pipe_bytes i (upd_me f s) = pipe_bytes i s"
  by (simp_all add: upd_me_def pipe_bytes_def)

lemma read_pipe_loop:
  assumes "count < k" "pipe_ok (inode_table s i)" "d + count < 2 ^ 32"
    "n = min count (PIPE_SIZE (inode_table s i))"
  shows "\<exists>s'. read_pipe_loop k i (a + of_nat d) count d s =
      (if n = count \<or> i_count (inode_table s i) \<noteq> 2 then Inr (int (d + n), s') else Inl (Blocked s'))
    \<and> pipe_ok (inode_table s' i) \<and> pipe_bytes i s' = drop n (pipe_bytes i s)
    \<and> user_bytes (umem s') a (d + n) = user_bytes (umem s) a d @ take n (pipe_bytes i s)"
  using assms
proof (induction k arbitrary: count d s n)
  case (Suc k)
  consider "count = 0" | "count \<noteq> 0" "PIPE_SIZE (inode_table s i) = 0"
    | "count \<noteq> 0" "PIPE_SIZE (inode_table s i) \<noteq> 0"
    by blast
  then show ?case
  proof cases
    case 3
    obtain m t where c: "read_chunk i (a + of_nat d) count s = (m, t)"
      by fastforce
    note r = read_chunk [OF Suc.prems(2) 3(2,1) c]
    have small: "d + m < 2 ^ 32" "m < 2 ^ 32"
      using r Suc.prems(3) by auto
    have sz: "PIPE_SIZE (inode_table t i) = PIPE_SIZE (inode_table s i) - m"
      using r length_pipe_bytes [of i t] by simp
    have written: "user_bytes (umem t) a (d + m) = user_bytes (umem s) a d @ take m (pipe_bytes i s)"
    proof -
      have "map ((!) (pipe_bytes i s)) [0..<m] = take m (pipe_bytes i s)"
        using r by (intro nth_equalityI) auto
      then show ?thesis
        using r small by (simp add: user_bytes_append user_bytes_before user_bytes_written)
    qed
    define q where "q = min (count - m) (PIPE_SIZE (inode_table t i))"
    have prems: "count - m < k" "pipe_ok (inode_table t i)" "d + m + (count - m) < 2 ^ 32"
      using r Suc.prems by auto
    obtain s' where IH: "read_pipe_loop k i (a + of_nat (d + m)) (count - m) (d + m) t =
        (if q = count - m \<or> i_count (inode_table t i) \<noteq> 2 then Inr (int (d + m + q), s') else Inl (Blocked s'))"
      "pipe_ok (inode_table s' i)" "pipe_bytes i s' = drop q (pipe_bytes i t)"
      "user_bytes (umem s') a (d + m + q) = user_bytes (umem t) a (d + m) @ take q (pipe_bytes i t)"
      using Suc.IH [OF _ _ _ q_def, of "d + m"] prems by blast
    have "n = m + q"
      using Suc.prems(4) r sz by (auto simp: q_def)
    moreover have "q = count - m \<longleftrightarrow> m + q = count"
      using r q_def by auto
    moreover have "drop q (pipe_bytes i t) = drop (m + q) (pipe_bytes i s)"
      "take m (pipe_bytes i s) @ take q (pipe_bytes i t) = take (m + q) (pipe_bytes i s)"
      using r by (simp_all add: take_add add.commute)
    moreover have cnt: "i_count (inode_table t i) = i_count (inode_table s i)"
      using r by blast
    moreover have "read_pipe_loop (Suc k) i (a + of_nat d) count d s = read_pipe_loop k i (a + of_nat (d + m)) (count - m) (d + m) t"
      using 3 c by (simp add: add.assoc)
    ultimately show ?thesis
      using IH(2-4) unfolding IH(1) written cnt by (intro exI [of _ s']) (simp add: add.assoc)
  qed (use Suc.prems in \<open>cases "i_count (inode_table s i) = 2"; auto simp: ret_def blocked_def\<close>)+
qed simp

text \<open>C25. \<open>read_pipe\<close> takes the oldest bytes of a pipe, as many as there are or as were asked for, and gives them to
  the reader in order; it waits for the rest only while there is a writer.\<close>

theorem read_pipe_fifo:
  assumes "pipe_ok (inode_table s i)" "0 \<le> count" "count < 2 ^ 31"
  shows "\<exists>s'. let xs = pipe_bytes i s; n = min (nat count) (length xs) in
    read_pipe i ubuf count s =
      (if int n = count \<or> i_count (inode_table s i) \<noteq> 2 then Inr (int n, s') else Inl (Blocked s'))
    \<and> pipe_ok (inode_table s' i) \<and> pipe_bytes i s' = drop n xs \<and> user_bytes (umem s') ubuf n = take n xs"
proof -
  let ?n = "min (nat count) (PIPE_SIZE (inode_table s i))"
  have small: "nat count < Suc (nat count)" "0 + nat count < 2 ^ 32"
    using assms(3) by simp_all
  obtain s' where s': "read_pipe_loop (Suc (nat count)) i ubuf (nat count) 0 s =
      (if ?n = nat count \<or> i_count (inode_table s i) \<noteq> 2 then Inr (int ?n, s') else Inl (Blocked s'))"
    "pipe_ok (inode_table s' i)" "pipe_bytes i s' = drop ?n (pipe_bytes i s)"
    "user_bytes (umem s') ubuf ?n = take ?n (pipe_bytes i s)"
    using read_pipe_loop [OF small(1) assms(1) small(2) refl, of ubuf]
    unfolding Nat.of_nat_0 add_0 add_0_right user_bytes_0 append_Nil by blast
  moreover have "int ?n = count \<longleftrightarrow> ?n = nat count"
    using assms(2) by auto
  ultimately show ?thesis
    unfolding Let_def read_pipe_def length_pipe_bytes
    by (intro exI [of _ s']) (simp del: read_pipe_loop.simps)
qed

lemma pipe_frame_wake [simp]: "pipe_frame i 0 s (wake_inode i s)" "pipe_frame i 0 s (upd_me f (wake_inode i s))"
proof -
  have "inode_table (wake_inode i s) j = inode_table s j" if "j \<noteq> i" for j
    using that by (simp add: wake_inode_def upd_inode_def case_prod_beta)
  then show "pipe_frame i 0 s (wake_inode i s)" "pipe_frame i 0 s (upd_me f (wake_inode i s))"
    by (simp_all add: pipe_frame_def PIPE_TAIL_def)
qed

lemma write_pipe_loop:
  assumes "count < k" "pipe_ok (inode_table s i)"
    "n = min count (4095 - PIPE_SIZE (inode_table s i))"
  shows "\<exists>s'. write_pipe_loop k i (a + of_nat d) count d s =
      (if n = count then Inr (int (d + n), s')
       else if i_count (inode_table s i) \<noteq> 2 then Inr (if d + n = 0 then -1 else int (d + n), s') else Inl (Blocked s'))
    \<and> pipe_ok (inode_table s' i) \<and> pipe_bytes i s' = pipe_bytes i s @ user_bytes (umem s) (a + of_nat d) n
    \<and> pipe_frame i n s s'"
  using assms
proof (induction k arbitrary: count d s n)
  case (Suc k)
  consider "count = 0" | "count \<noteq> 0" "PIPE_SIZE (inode_table s i) = 4095"
    | "count \<noteq> 0" "PIPE_SIZE (inode_table s i) \<noteq> 4095"
    by blast
  then show ?case
  proof cases
    case 3
    obtain m t where c: "write_chunk i (a + of_nat d) count s = (m, t)"
      by fastforce
    note r = write_chunk [OF Suc.prems(2) 3(2,1) c]
    have sz: "PIPE_SIZE (inode_table t i) = PIPE_SIZE (inode_table s i) + m"
      using r length_pipe_bytes [of i t] by (simp add: user_bytes_def)
    define q where "q = min (count - m) (4095 - PIPE_SIZE (inode_table t i))"
    have prems: "count - m < k" "pipe_ok (inode_table t i)"
      using r Suc.prems by auto
    obtain s' where IH: "write_pipe_loop k i (a + of_nat (d + m)) (count - m) (d + m) t =
        (if q = count - m then Inr (int (d + m + q), s')
         else if i_count (inode_table t i) \<noteq> 2 then Inr (if d + m + q = 0 then -1 else int (d + m + q), s') else Inl (Blocked s'))"
      "pipe_ok (inode_table s' i)" "pipe_bytes i s' = pipe_bytes i t @ user_bytes (umem t) (a + of_nat (d + m)) q"
      "pipe_frame i q t s'"
      using Suc.IH [OF prems q_def, of "d + m"] by blast
    have "n = m + q"
      using Suc.prems(3) r sz by (auto simp: q_def)
    moreover have "q = count - m \<longleftrightarrow> m + q = count"
      using r q_def by auto
    moreover have "write_pipe_loop (Suc k) i (a + of_nat d) count d s = write_pipe_loop k i (a + of_nat (d + m)) (count - m) (d + m) t"
      using 3 c by (simp add: add.assoc)
    moreover have "pipe_frame i (m + q) s s'"
      using r IH(4) by (blast intro: pipe_frame_trans)
    ultimately show ?thesis
      using IH(2,3) r unfolding IH(1) by (intro exI [of _ s']) (simp add: add.assoc user_bytes_append)
  qed (use Suc.prems in \<open>cases "i_count (inode_table s i) = 2"; auto simp: ret_def blocked_def\<close>)+
qed simp

text \<open>C26. \<open>write_pipe\<close> appends the bytes of the writer to the pipe, which holds at most 4095; a writer that finds no
  room and no reader gets the count of what it has written, or -1 when that is nothing, and otherwise
  waits. Of the memory it writes those places of the ring alone, no other byte of the page or outside it; the writer's
  memory, the other inodes and the place of the reader stay as they were.\<close>

theorem write_pipe_fifo:
  assumes "pipe_ok (inode_table s i)" "0 \<le> count"
  shows "\<exists>s'. let xs = pipe_bytes i s; n = min (nat count) (4095 - length xs) in
    write_pipe i ubuf count s =
      (if int n = count then Inr (int n, s')
       else if i_count (inode_table s i) \<noteq> 2 then Inr (if n = 0 then -1 else int n, s') else Inl (Blocked s'))
    \<and> pipe_ok (inode_table s' i) \<and> pipe_bytes i s' = xs @ user_bytes (umem s) ubuf n
    \<and> (\<forall>a. (\<forall>k<n. a \<noteq> i_size (inode_table s i) + of_nat ((PIPE_HEAD (inode_table s i) + k) mod 4096)) \<longrightarrow>
         get_byte (mm s') a = get_byte (mm s) a)
    \<and> umem s' = umem s \<and> (\<forall>j. j \<noteq> i \<longrightarrow> inode_table s' j = inode_table s j)
    \<and> i_size (inode_table s' i) = i_size (inode_table s i) \<and> PIPE_TAIL (inode_table s' i) = PIPE_TAIL (inode_table s i)"
proof -
  let ?n = "min (nat count) (4095 - PIPE_SIZE (inode_table s i))"
  obtain s' where s': "write_pipe_loop (Suc (nat count)) i ubuf (nat count) 0 s =
      (if ?n = nat count then Inr (int ?n, s')
       else if i_count (inode_table s i) \<noteq> 2 then Inr (if ?n = 0 then -1 else int ?n, s') else Inl (Blocked s'))"
    "pipe_ok (inode_table s' i)" "pipe_bytes i s' = pipe_bytes i s @ user_bytes (umem s) ubuf ?n"
    "pipe_frame i ?n s s'"
    using write_pipe_loop [OF lessI assms(1) refl, of "nat count" ubuf 0]
    unfolding Nat.of_nat_0 add_0 add_0_right by blast
  moreover have "int ?n = count \<longleftrightarrow> ?n = nat count"
    using assms(2) by auto
  moreover have "a \<in> pipe_places (inode_table s i) ?n \<longleftrightarrow>
      (\<exists>k<?n. a = i_size (inode_table s i) + of_nat ((PIPE_HEAD (inode_table s i) + k) mod 4096))" for a
    by (auto simp: pipe_places_def)
  ultimately show ?thesis
    unfolding Let_def write_pipe_def length_pipe_bytes
    by (intro exI [of _ s']) (simp add: pipe_frame_def del: write_pipe_loop.simps)
qed

text \<open>A pipe with one end left, and a process that writes three bytes and reads them back.\<close>

definition pipe_kernel :: kstate where
  "pipe_kernel = demo_kernel\<lparr>inode_table := (\<lambda>_. zero_inode)(2 := zero_inode\<lparr>i_size := 0x200000, i_count := 1, i_pipe := 1\<rparr>),
     umem := (\<lambda>a. ucast a)\<rparr>"

lemma pipe_kernel_ok: "pipe_ok (inode_table pipe_kernel 2)" "pipe_bytes 2 pipe_kernel = []"
  "i_count (inode_table pipe_kernel 2) = 1"
  by (simp_all add: pipe_kernel_def pipe_ok_def PIPE_HEAD_def PIPE_TAIL_def zero_inode_def pipe_bytes_def
      PIPE_SIZE_def Let_def)

theorem write_pipe_fifo_witness:
  "\<exists>s'. write_pipe 2 0x40 3 pipe_kernel = Inr (3, s') \<and> pipe_bytes 2 s' = [0x40, 0x41, 0x42]"
  using write_pipe_fifo [OF pipe_kernel_ok(1), where count = 3 and ubuf = "0x40"]
  by (auto simp: Let_def pipe_kernel_ok(2) user_bytes_def numeral_3_eq_3) (simp_all add: pipe_kernel_def)

text \<open>The same pipe with the three bytes \<open>ABC\<close> in it.\<close>

definition full_pipe_kernel :: kstate where
  "full_pipe_kernel = pipe_kernel\<lparr>mm := set_long 0x200000 0x434241 cow_mm,
     inode_table := (inode_table pipe_kernel)(2 := (inode_table pipe_kernel 2)\<lparr>i_zone := (\<lambda>_. 0)(0 := 3)\<rparr>)\<rparr>"

theorem read_pipe_fifo_witness:
  "\<exists>s'. read_pipe 2 0x80 5 full_pipe_kernel = Inr (3, s') \<and> user_bytes (umem s') 0x80 3 = [0x41, 0x42, 0x43]
    \<and> pipe_bytes 2 s' = []"
proof -
  let ?n = "inode_table full_pipe_kernel 2"
  have f: "PIPE_HEAD ?n = 3" "PIPE_TAIL ?n = 0" "PIPE_SIZE ?n = 3" "i_size ?n = 0x200000" "i_count ?n = 1"
    by (simp_all add: full_pipe_kernel_def pipe_kernel_def PIPE_SIZE_def PIPE_HEAD_def PIPE_TAIL_def zero_inode_def)
  have "page_byte (mm full_pipe_kernel) 0x200000 0 = 0x41" "page_byte (mm full_pipe_kernel) 0x200000 1 = 0x42"
    "page_byte (mm full_pipe_kernel) 0x200000 2 = 0x43"
    by (simp_all add: page_byte_def get_byte_def full_pipe_kernel_def set_long_def drop_bit_eq_div)
  then have b: "pipe_bytes 2 full_pipe_kernel = [0x41, 0x42, 0x43]"
    unfolding pipe_bytes_def Let_def f ring_def by (simp add: upt_rec numeral_2_eq_2)
  have "pipe_ok ?n"
    by (simp add: pipe_ok_def f)
  from read_pipe_fifo [OF this, where count = 5 and ubuf = "0x80"] show ?thesis
    by (auto simp: Let_def b f numeral_3_eq_3)
qed

end
