(* ===== verification/Tty.thy ===== *)
theory Tty
  imports Kstate Ring
begin

text \<open>
  \<open>kernel/chr_drv/tty_io.c\<close> and \<open>tty_ioctl.c\<close>: the line discipline of the terminals. Characters come in
  through \<open>read_q\<close>, are edited into \<open>secondary\<close> by \<open>copy_to_cooked\<close>, and go out through \<open>write_q\<close>. The
  device routine \<open>tty->write\<close> (\<open>con_write\<close> or \<open>rs_write\<close>) is the parameter \<open>wr\<close> of the routines that call
  it. A character is compared as the signed \<open>char\<close> of the source: one from 0x80 on is negative.
\<close>

unbundle bit_operations_syntax

section \<open>Queues\<close>

definition q_inc :: "nat \<Rightarrow> nat" where "q_inc a = (a + 1) mod TTY_BUF_SIZE"
definition q_dec :: "nat \<Rightarrow> nat" where "q_dec a = (a + TTY_BUF_SIZE - 1) mod TTY_BUF_SIZE"

definition EMPTY :: "tty_queue \<Rightarrow> bool" where "EMPTY q \<longleftrightarrow> q_head q = q_tail q"
definition LEFTQ :: "tty_queue \<Rightarrow> nat" where
  "LEFTQ q = (q_tail q + 2 * TTY_BUF_SIZE - q_head q - 1) mod TTY_BUF_SIZE"
definition FULL :: "tty_queue \<Rightarrow> bool" where "FULL q \<longleftrightarrow> LEFTQ q = 0"
definition CHARS :: "tty_queue \<Rightarrow> nat" where
  "CHARS q = (q_head q + TTY_BUF_SIZE - q_tail q) mod TTY_BUF_SIZE"
definition LAST :: "tty_queue \<Rightarrow> u8" where "LAST q = q_buf q (q_dec (q_head q))"

definition PUTCH :: "u8 \<Rightarrow> tty_queue \<Rightarrow> tty_queue" where
  "PUTCH c q = q\<lparr>q_buf := (q_buf q)(q_head q := c), q_head := q_inc (q_head q)\<rparr>"

definition GETCH :: "tty_queue \<Rightarrow> u8 \<times> tty_queue" where
  "GETCH q = (q_buf q (q_tail q), q\<lparr>q_tail := q_inc (q_tail q)\<rparr>)"

section \<open>Settings\<close>

definition L_FLAG :: "tty_struct \<Rightarrow> u32 \<Rightarrow> bool" where "L_FLAG t f \<longleftrightarrow> c_lflag (termios t) AND f \<noteq> 0"
definition I_FLAG :: "tty_struct \<Rightarrow> u32 \<Rightarrow> bool" where "I_FLAG t f \<longleftrightarrow> c_iflag (termios t) AND f \<noteq> 0"
definition O_FLAG :: "tty_struct \<Rightarrow> u32 \<Rightarrow> bool" where "O_FLAG t f \<longleftrightarrow> c_oflag (termios t) AND f \<noteq> 0"

definition L_ISIG :: "tty_struct \<Rightarrow> bool" where "L_ISIG t = L_FLAG t 1"
definition L_CANON :: "tty_struct \<Rightarrow> bool" where "L_CANON t = L_FLAG t 2"
definition L_ECHO :: "tty_struct \<Rightarrow> bool" where "L_ECHO t = L_FLAG t 8"
definition L_ECHOCTL :: "tty_struct \<Rightarrow> bool" where "L_ECHOCTL t = L_FLAG t 0x200"
definition I_NLCR :: "tty_struct \<Rightarrow> bool" where "I_NLCR t = I_FLAG t 0x40"
definition I_NOCR :: "tty_struct \<Rightarrow> bool" where "I_NOCR t = I_FLAG t 0x80"
definition I_CRNL :: "tty_struct \<Rightarrow> bool" where "I_CRNL t = I_FLAG t 0x100"
definition I_UCLC :: "tty_struct \<Rightarrow> bool" where "I_UCLC t = I_FLAG t 0x200"
definition O_POST :: "tty_struct \<Rightarrow> bool" where "O_POST t = O_FLAG t 1"
definition O_LCUC :: "tty_struct \<Rightarrow> bool" where "O_LCUC t = O_FLAG t 2"
definition O_NLCR :: "tty_struct \<Rightarrow> bool" where "O_NLCR t = O_FLAG t 4"
definition O_CRNL :: "tty_struct \<Rightarrow> bool" where "O_CRNL t = O_FLAG t 8"
definition O_NLRET :: "tty_struct \<Rightarrow> bool" where "O_NLRET t = O_FLAG t 0x20"

text \<open>\<open>c == XXX_CHAR(tty)\<close>: the control character \<open>k\<close> of the terminal; a signed character is never equal
  to one from 0x80 on.\<close>

definition is_cc :: "tty_struct \<Rightarrow> nat \<Rightarrow> u8 \<Rightarrow> bool" where
  "is_cc t k c \<longleftrightarrow> c_cc (termios t) k = c \<and> c < 128"

definition VINTR :: nat where "VINTR = 0"
definition VQUIT :: nat where "VQUIT = 1"
definition VERASE :: nat where "VERASE = 2"
definition VKILL :: nat where "VKILL = 3"
definition VEOF :: nat where "VEOF = 4"
definition VTIME :: nat where "VTIME = 5"
definition VMIN :: nat where "VMIN = 6"
definition VSTART :: nat where "VSTART = 8"
definition VSTOP :: nat where "VSTOP = 9"

text \<open>\<open>c < 32\<close> for the signed character, and the case conversions of \<open>ctype.h\<close>. For a character from 128 on the macros index \<open>_ctype\<close> with a negative \<open>char\<close> and test what lies in
  front of the table; here such a character is no letter.\<close>

definition is_ctl :: "u8 \<Rightarrow> bool" where "is_ctl c \<longleftrightarrow> c < 32 \<or> c \<ge> 128"
definition tolower :: "u8 \<Rightarrow> u8" where "tolower c = (if 65 \<le> c \<and> c \<le> 90 then c + 32 else c)"
definition toupper :: "u8 \<Rightarrow> u8" where "toupper c = (if 97 \<le> c \<and> c \<le> 122 then c - 32 else c)"

section \<open>Signals of the keyboard\<close>

definition tty_intr :: "nat \<Rightarrow> u32 \<Rightarrow> kstate \<Rightarrow> kstate" where
  "tty_intr t sigs s =
    (if tty_pgrp (tty_table s t) \<le> 0 then s
     else s\<lparr>sch := (sch s)\<lparr>task := (\<lambda>i. if i < NR_TASKS then
              map_option (\<lambda>p. if t_pgrp p = tty_pgrp (tty_table s t) then p\<lparr>t_signal := t_signal p OR sigs\<rparr> else p)
                (task (sch s) i) else task (sch s) i)\<rparr>\<rparr>)"

section \<open>Editing the input\<close>

definition put_write :: "u8 \<Rightarrow> nat \<Rightarrow> kstate \<Rightarrow> kstate" where
  "put_write c t = upd_tty t (\<lambda>t. t\<lparr>write_q := PUTCH c (write_q t)\<rparr>)"

text \<open>Rubbing out one character of the secondary queue, with its echo.\<close>

definition rub_out :: "(nat \<Rightarrow> kstate \<Rightarrow> kstate) \<Rightarrow> nat \<Rightarrow> kstate \<Rightarrow> kstate" where
  "rub_out wr t s =
    (let c = LAST (secondary (tty_table s t));
         s = (if L_ECHO (tty_table s t)
              then wr t (put_write 127 t (if is_ctl c then put_write 127 t s else s)) else s)
     in upd_tty t (\<lambda>t. t\<lparr>secondary := (secondary t)\<lparr>q_head := q_dec (q_head (secondary t))\<rparr>\<rparr>) s)"

text \<open>The last character of the line: nothing of this line is left in the secondary queue.\<close>

definition line_start :: "tty_struct \<Rightarrow> bool" where
  "line_start t \<longleftrightarrow>
    EMPTY (secondary t) \<or> LAST (secondary t) = 10 \<or> is_cc t VEOF (LAST (secondary t))"

text \<open>The loop that kills a line: the queue has at most \<open>TTY_BUF_SIZE\<close> characters.\<close>

primrec kill_line :: "(nat \<Rightarrow> kstate \<Rightarrow> kstate) \<Rightarrow> nat \<Rightarrow> nat \<Rightarrow> kstate \<Rightarrow> kstate" where
  "kill_line wr 0 t s = s"
| "kill_line wr (Suc k) t s =
    (if line_start (tty_table s t) then s else kill_line wr k t (rub_out wr t s))"

definition echo :: "(nat \<Rightarrow> kstate \<Rightarrow> kstate) \<Rightarrow> nat \<Rightarrow> u8 \<Rightarrow> kstate \<Rightarrow> kstate" where
  "echo wr t c s =
    (if L_ECHO (tty_table s t) then
       wr t (if c = 10 then put_write 13 t (put_write 10 t s)
             else if is_ctl c then
               (if L_ECHOCTL (tty_table s t) then put_write (c + 64) t (put_write 94 t s) else s)
             else put_write c t s)
     else s)"

text \<open>One character taken from the read queue and translated.\<close>

definition cook_edit :: "(nat \<Rightarrow> kstate \<Rightarrow> kstate) \<Rightarrow> nat \<Rightarrow> u8 \<Rightarrow> kstate \<Rightarrow> kstate" where
  "cook_edit wr t c s =
    (let tty = tty_table s t
     in if L_CANON tty \<and> is_cc tty VKILL c then kill_line wr TTY_BUF_SIZE t s
        else if L_CANON tty \<and> is_cc tty VERASE c then
          (if line_start tty then s else rub_out wr t s)
        else if L_CANON tty \<and> is_cc tty VSTOP c then upd_tty t (\<lambda>t. t\<lparr>stopped := True\<rparr>) s
        else if L_CANON tty \<and> is_cc tty VSTART c then upd_tty t (\<lambda>t. t\<lparr>stopped := False\<rparr>) s
        else if L_ISIG tty \<and> is_cc tty VINTR c then tty_intr t (sigbit 2) s
        else if L_ISIG tty \<and> is_cc tty VQUIT c then tty_intr t (sigbit 3) s
        else
          let s = (if c = 10 \<or> is_cc tty VEOF c
                   then upd_tty t (\<lambda>t. t\<lparr>secondary := (secondary t)\<lparr>q_data := q_data (secondary t) + 1\<rparr>\<rparr>) s
                   else s);
              s = echo wr t c s
          in upd_tty t (\<lambda>t. t\<lparr>secondary := PUTCH c (secondary t)\<rparr>) s)"

definition cook_char :: "(nat \<Rightarrow> kstate \<Rightarrow> kstate) \<Rightarrow> nat \<Rightarrow> u8 \<Rightarrow> kstate \<Rightarrow> kstate" where
  "cook_char wr t c s =
    (let tty = tty_table s t
     in if c = 13 \<and> \<not> I_CRNL tty \<and> I_NOCR tty then s
        else
          let c = (if c = 13 then (if I_CRNL tty then 10 else c)
                   else if c = 10 \<and> I_NLCR tty then 13 else c)
          in cook_edit wr t (if I_UCLC tty then tolower c else c) s)"

text \<open>Every pass takes a character of the read queue, which has at most \<open>TTY_BUF_SIZE\<close> of them.\<close>

primrec cook_loop :: "(nat \<Rightarrow> kstate \<Rightarrow> kstate) \<Rightarrow> nat \<Rightarrow> nat \<Rightarrow> kstate \<Rightarrow> kstate" where
  "cook_loop wr 0 t s = s"
| "cook_loop wr (Suc k) t s =
    (if EMPTY (read_q (tty_table s t)) \<or> FULL (secondary (tty_table s t)) then s
     else
       let (c, q) = GETCH (read_q (tty_table s t))
       in cook_loop wr k t (cook_char wr t c (upd_tty t (\<lambda>t. t\<lparr>read_q := q\<rparr>) s)))"

definition copy_to_cooked :: "(nat \<Rightarrow> kstate \<Rightarrow> kstate) \<Rightarrow> nat \<Rightarrow> kstate \<Rightarrow> kstate" where
  "copy_to_cooked wr t s =
    (let s = cook_loop wr TTY_BUF_SIZE t s;
         (p, sc) = Sched.wake_up (q_proc_list (secondary (tty_table s t))) (sch s)
     in upd_tty t (\<lambda>t. t\<lparr>secondary := (secondary t)\<lparr>q_proc_list := p\<rparr>\<rparr>) (s\<lparr>sch := sc\<rparr>))"

definition do_tty_interrupt :: "(nat \<Rightarrow> kstate \<Rightarrow> kstate) \<Rightarrow> nat \<Rightarrow> kstate \<Rightarrow> kstate" where
  "do_tty_interrupt wr t s = copy_to_cooked wr t s"

section \<open>Reading\<close>

definition sleep_if_empty :: "tty_queue \<Rightarrow> unit kop" where
  "sleep_if_empty q s = (if t_signal (me s) = 0 \<and> EMPTY q then blocked s else ret () s)"

definition sleep_if_full :: "tty_queue \<Rightarrow> unit kop" where
  "sleep_if_full q s =
    (if \<not> FULL q then ret () s
     else if t_signal (me s) = 0 \<and> LEFTQ q < 128 then blocked s else ret () s)"

text \<open>The inner loop of \<open>tty_read\<close>: at most \<open>k\<close> more characters go to the user. The result is the new
  address, and whether an end of file ended the call.\<close>

primrec tty_take :: "nat \<Rightarrow> nat \<Rightarrow> u32 \<Rightarrow> kstate \<Rightarrow> (nat \<times> u32 \<times> bool) \<times> kstate" where
  "tty_take t 0 b s = ((0, b, False), s)"
| "tty_take t (Suc k) b s =
    (let (c, q) = GETCH (secondary (tty_table s t));
         tty = tty_table s t;
         q = (if is_cc tty VEOF c \<or> c = 10 then q\<lparr>q_data := q_data q - 1\<rparr> else q);
         s = upd_tty t (\<lambda>t. t\<lparr>secondary := q\<rparr>) s
     in if is_cc tty VEOF c \<and> L_CANON tty then ((Suc k, b, True), s)
        else
          let s = s\<lparr>umem := (umem s)(b := c)\<rparr>
          in if k = 0 \<or> EMPTY q then ((k, b + 1, False), s) else tty_take t k (b + 1) s)"

definition ALRMMASK :: u32 where "ALRMMASK = sigbit 14"

text \<open>The outer loop: every pass takes at least one character. A process that waits for the rest of a
  line, with characters of it in the queue already, does not sleep but stays in the loop.\<close>

primrec tty_read_loop :: "nat \<Rightarrow> nat \<Rightarrow> u32 \<Rightarrow> u32 \<Rightarrow> nat \<Rightarrow> int \<Rightarrow> int \<Rightarrow> int \<Rightarrow> bool \<Rightarrow> int kop" where
  "tty_read_loop 0 t ubuf b nr minimum time oldalarm flag s = blocked s"
| "tty_read_loop (Suc k) t ubuf b nr minimum time oldalarm flag s =
    (let stop = (\<lambda>s. let s = upd_me (\<lambda>p. p\<lparr>t_alarm := oldalarm\<rparr>) s
                    in if t_signal (me s) \<noteq> 0 \<and> b = ubuf then ret (- EINTR) s
                       else ret (int (unat (b - ubuf))) s)
     in if nr = 0 then stop s
        else if flag \<and> t_signal (me s) AND ALRMMASK \<noteq> 0
        then stop (upd_me (\<lambda>p. p\<lparr>t_signal := t_signal p AND NOT ALRMMASK\<rparr>) s)
        else if t_signal (me s) \<noteq> 0 then stop s
        else
          let tty = tty_table s t
          in if EMPTY (secondary tty) \<or> (L_CANON tty \<and> q_data (secondary tty) = 0 \<and> LEFTQ (secondary tty) > 20)
             then bindK (sleep_if_empty (secondary tty) s) (\<lambda>_ s.
                    tty_read_loop k t ubuf b nr minimum time oldalarm flag s)
             else
               let ((nr, b, eof), s) = tty_take t nr b s
               in if eof then ret (int (unat (b - ubuf))) s
                  else
                    let set_alarm = (time \<noteq> 0 \<and> \<not> L_CANON tty);
                        early = (oldalarm = 0 \<or> time + jiffies (sch s) < oldalarm);
                        flag = (if set_alarm then early else flag);
                        s = (if set_alarm
                             then upd_me (\<lambda>p. p\<lparr>t_alarm := (if early then time + jiffies (sch s) else oldalarm)\<rparr>) s
                             else s);
                        stop = (\<lambda>s. let s = upd_me (\<lambda>p. p\<lparr>t_alarm := oldalarm\<rparr>) s
                                    in if t_signal (me s) \<noteq> 0 \<and> b = ubuf then ret (- EINTR) s
                                       else ret (int (unat (b - ubuf))) s)
                    in if (if L_CANON tty then b \<noteq> ubuf else int (unat (b - ubuf)) \<ge> minimum) then stop s
                       else tty_read_loop k t ubuf b nr minimum time oldalarm flag s)"

definition tty_read :: "nat \<Rightarrow> u32 \<Rightarrow> int \<Rightarrow> int kop" where
  "tty_read channel ubuf nr s =
    (if channel > 2 \<or> nr < 0 then ret (- 1) s
     else
       let tty = tty_table s channel;
           oldalarm = t_alarm (me s);
           time = 10 * int (unat (c_cc (termios tty) VTIME));
           minimum = int (unat (c_cc (termios tty) VMIN));
           timed = (time \<noteq> 0 \<and> minimum = 0);
           flag = (timed \<and> (oldalarm = 0 \<or> time + jiffies (sch s) < oldalarm));
           s = (if flag then upd_me (\<lambda>p. p\<lparr>t_alarm := time + jiffies (sch s)\<rparr>) s else s);
           minimum = min (if timed then 1 else minimum) nr
       in tty_read_loop (nat nr + 2) channel ubuf ubuf (nat nr) minimum time oldalarm flag s)"

section \<open>Writing\<close>

text \<open>The inner loop of \<open>tty_write\<close>: a newline takes two passes.\<close>

primrec tty_fill :: "nat \<Rightarrow> nat \<Rightarrow> u32 \<Rightarrow> nat \<Rightarrow> kstate \<Rightarrow> (u32 \<times> nat) \<times> kstate" where
  "tty_fill 0 t b nr s = ((b, nr), s)"
| "tty_fill (Suc k) t b nr s =
    (let tty = tty_table s t
     in if nr = 0 \<or> FULL (write_q tty) then ((b, nr), s)
        else
          let c = umem s b;
              c = (if O_POST tty then
                     (if c = 13 \<and> O_CRNL tty then 10 else if c = 10 \<and> O_NLRET tty then 13 else c) else c)
          in if O_POST tty \<and> c = 10 \<and> \<not> cr_flag s \<and> O_NLCR tty
             then tty_fill k t b nr (put_write 13 t (s\<lparr>cr_flag := True\<rparr>))
             else
               let c = (if O_POST tty \<and> O_LCUC tty then toupper c else c)
               in tty_fill k t (b + 1) (nr - 1) (put_write c t (s\<lparr>cr_flag := False\<rparr>)))"

primrec tty_write_loop :: "(nat \<Rightarrow> kstate \<Rightarrow> kstate) \<Rightarrow> nat \<Rightarrow> nat \<Rightarrow> u32 \<Rightarrow> u32 \<Rightarrow> nat \<Rightarrow> int kop" where
  "tty_write_loop wr 0 t ubuf b nr s = blocked s"
| "tty_write_loop wr (Suc k) t ubuf b nr s =
    (if nr = 0 then ret (int (unat (b - ubuf))) s
     else
       bindK (sleep_if_full (write_q (tty_table s t)) s) (\<lambda>_ s.
       if t_signal (me s) \<noteq> 0 then ret (int (unat (b - ubuf))) s
       else
         let ((b, nr), s) = tty_fill (2 * nr) t b nr s;
             s = wr t s
         in if nr > 0 then bindK (yield s) (\<lambda>_ s. tty_write_loop wr k t ubuf b nr s)
            else ret (int (unat (b - ubuf))) s))"

definition tty_write :: "(nat \<Rightarrow> kstate \<Rightarrow> kstate) \<Rightarrow> nat \<Rightarrow> u32 \<Rightarrow> int \<Rightarrow> int kop" where
  "tty_write wr channel ubuf nr s =
    (if channel > 2 \<or> nr < 0 then ret (- 1) s
     else tty_write_loop wr (2 * nat nr + 1) channel ubuf ubuf (nat nr) s)"

section \<open>The queues as bounded queues of characters\<close>

definition queue_ok :: "tty_queue \<Rightarrow> bool" where
  "queue_ok q \<longleftrightarrow> q_head q < TTY_BUF_SIZE \<and> q_tail q < TTY_BUF_SIZE"

definition queue_chars :: "tty_queue \<Rightarrow> u8 list" where
  "queue_chars q = ring TTY_BUF_SIZE (q_buf q) (q_tail q) (CHARS q)"

lemma q_step_less [simp]: "q_inc a < TTY_BUF_SIZE" "q_dec a < TTY_BUF_SIZE" "CHARS q < TTY_BUF_SIZE"
  by (simp_all add: q_inc_def q_dec_def CHARS_def TTY_BUF_SIZE_def)

lemma queue_head: "queue_ok q \<Longrightarrow> q_head q = (q_tail q + CHARS q) mod TTY_BUF_SIZE"
  by (auto simp: queue_ok_def CHARS_def TTY_BUF_SIZE_def mod_add_right_eq)

lemma chars_ring: "a < TTY_BUF_SIZE \<Longrightarrow> n < TTY_BUF_SIZE \<Longrightarrow> ((a + n) mod TTY_BUF_SIZE + TTY_BUF_SIZE - a) mod TTY_BUF_SIZE = n"
  by (cases "a + n < TTY_BUF_SIZE") (auto simp: TTY_BUF_SIZE_def mod_if)

lemma EMPTY_CHARS: "queue_ok q \<Longrightarrow> EMPTY q \<longleftrightarrow> CHARS q = 0"
  by (auto simp: EMPTY_def queue_ok_def CHARS_def TTY_BUF_SIZE_def mod_if split: if_splits)

lemma LEFTQ_CHARS: "queue_ok q \<Longrightarrow> LEFTQ q = TTY_BUF_SIZE - 1 - CHARS q"
  by (auto simp: LEFTQ_def queue_ok_def CHARS_def TTY_BUF_SIZE_def mod_if)

lemma CHARS_PUTCH: "queue_ok q \<Longrightarrow> CHARS q < TTY_BUF_SIZE - 1 \<Longrightarrow> CHARS (PUTCH c q) = Suc (CHARS q)"
  by (auto simp: CHARS_def PUTCH_def q_inc_def queue_ok_def TTY_BUF_SIZE_def mod_if split: if_splits)

lemma CHARS_GETCH: "queue_ok q \<Longrightarrow> CHARS q \<noteq> 0 \<Longrightarrow> CHARS (snd (GETCH q)) = CHARS q - 1"
  by (auto simp: CHARS_def GETCH_def q_inc_def queue_ok_def TTY_BUF_SIZE_def mod_if split: if_splits)

lemma length_queue_chars [simp]: "length (queue_chars q) = CHARS q"
  by (simp add: queue_chars_def)

lemma queue_chars_PUTCH:
  assumes "queue_ok q" "CHARS q < TTY_BUF_SIZE - 1"
  shows "queue_chars (PUTCH c q) = queue_chars q @ [c]"
  using ring_put [of "CHARS q" TTY_BUF_SIZE "q_buf q" "q_tail q" c] queue_head [OF assms(1)] assms
  by (simp add: queue_chars_def CHARS_PUTCH) (simp add: PUTCH_def)

lemma queue_chars_GETCH:
  assumes "queue_ok q" "CHARS q \<noteq> 0"
  shows "queue_chars q = fst (GETCH q) # queue_chars (snd (GETCH q))"
proof -
  obtain n where n: "CHARS q = Suc n"
    using assms(2) by (cases "CHARS q") auto
  then have "CHARS (snd (GETCH q)) = n"
    using CHARS_GETCH [OF assms] by simp
  then show ?thesis
    using assms(1) n by (simp add: queue_chars_def ring_Suc queue_ok_def) (simp add: GETCH_def q_inc_def)
qed

interpretation tq: bounded_fifo queue_ok queue_chars "TTY_BUF_SIZE - 1" PUTCH GETCH
proof
  fix q c
  assume "queue_ok q" "length (queue_chars q) < TTY_BUF_SIZE - 1"
  then show "queue_chars (PUTCH c q) = queue_chars q @ [c]"
    using queue_chars_PUTCH by simp
next
  fix q c q'
  assume "queue_ok q" "queue_chars q \<noteq> []" "GETCH q = (c, q')"
  then show "queue_chars q = c # queue_chars q'"
    using queue_chars_GETCH [of q] by (metis fst_conv snd_conv length_0_conv length_queue_chars)
qed (auto simp: queue_ok_def PUTCH_def GETCH_def)

text \<open>
  C32. The queues of the terminals keep the order of the characters: what is read behind what was there comes
  out as it was put in, as long as no more than 1023 characters are in the queue; nothing is lost or doubled.
\<close>

theorem tty_queue_fifo:
  assumes "queue_ok q" "length (queue_chars q) + length cs \<le> 1023" "n \<le> length (queue_chars q) + length cs"
    "get_all GETCH n (put_all PUTCH cs q) = (ds, q')"
  shows "ds = take n (queue_chars q @ cs) \<and> queue_chars q' = drop n (queue_chars q @ cs) \<and> queue_ok q'"
  using tq.put_get_all [of q cs n ds q'] assms by (simp add: TTY_BUF_SIZE_def)

theorem tty_queue_fifo_witness:
  "fst (get_all GETCH 2 (put_all PUTCH [1, 2, 3] \<lparr>q_data = 0, q_head = 1022, q_tail = 1022, q_proc_list = None, q_buf = \<lambda>_. 0\<rparr>)) = [1, 2]"
proof -
  let ?q = "\<lparr>q_data = 0, q_head = 1022, q_tail = 1022, q_proc_list = None, q_buf = \<lambda>_. 0 :: u8\<rparr>"
  have "queue_ok ?q" "queue_chars ?q = []"
    by (simp_all add: queue_ok_def queue_chars_def CHARS_def TTY_BUF_SIZE_def)
  then show ?thesis
    using tty_queue_fifo [of ?q "[1, 2, 3]" 2 "fst (get_all GETCH 2 (put_all PUTCH [1, 2, 3] ?q))"
        "snd (get_all GETCH 2 (put_all PUTCH [1, 2, 3] ?q))"] by simp
qed

end
