(* ===== verification/Con_Write.thy ===== *)
theory Con_Write
  imports Tty
begin

text \<open>
  The device routines of the terminals: \<open>con_write\<close> of \<open>kernel/chr_drv/console.c\<close>, which takes the characters
  from the write queue through the escape sequence interpreter of \<open>Console\<close>, and \<open>rs_write\<close> of
  \<open>kernel/chr_drv/serial.c\<close>. The console answers \<open>ESC Z\<close> through \<open>copy_to_cooked\<close>, which calls the device
  routine again to echo the answer: \<open>con_write\<close> has the called routine as its parameter \<open>ck\<close>, and
  \<open>con_device d\<close> is the console whose answers are nested at most \<open>d\<close> deep.
\<close>

unbundle bit_operations_syntax

section \<open>The console\<close>

text \<open>A step of the console, with what it writes to the ports.\<close>

definition on_console :: "(console \<Rightarrow> console) \<Rightarrow> kstate \<Rightarrow> kstate" where
  "on_console f s =
    (let c = f ((con s)\<lparr>con_out := []\<rparr>)
     in s\<lparr>con := c\<lparr>con_out := []\<rparr>, port_out := con_out c @ port_out s\<rparr>)"

definition sysbeep :: "kstate \<Rightarrow> kstate" where
  "sysbeep s =
    (outb 0x06 0x42 (outb 0x37 0x42 (outb 0xB6 0x43 (outb (port_in s 0x61 OR 3) 0x61 s))))\<lparr>beepcount := HZ div 8\<rparr>"

definition RESPONSE :: "u8 list" where "RESPONSE = [27, 91, 63, 49, 59, 50, 99]"

definition respond :: "(nat \<Rightarrow> kstate \<Rightarrow> kstate) \<Rightarrow> nat \<Rightarrow> kstate \<Rightarrow> kstate" where
  "respond ck t s = ck t (upd_tty t (\<lambda>t. t\<lparr>read_q := put_all PUTCH RESPONSE (read_q t)\<rparr>) s)"

definition con_char :: "(nat \<Rightarrow> kstate \<Rightarrow> kstate) \<Rightarrow> nat \<Rightarrow> u8 \<Rightarrow> kstate \<Rightarrow> kstate" where
  "con_char ck t ch s =
    (let tty = tty_table s t
     in if con_state (con s) = 0 \<and> ch = 7 \<and> \<not> is_cc tty VERASE ch then sysbeep s
        else if con_state (con s) = 1 \<and> ch = 90 then respond ck t (s\<lparr>con := (con s)\<lparr>con_state := 0\<rparr>\<rparr>)
        else on_console (con_step (c_cc (termios tty) VERASE) ch) s)"

text \<open>\<open>nr\<close> was the number of characters at the start.\<close>

primrec con_write_loop :: "(nat \<Rightarrow> kstate \<Rightarrow> kstate) \<Rightarrow> nat \<Rightarrow> nat \<Rightarrow> kstate \<Rightarrow> kstate" where
  "con_write_loop ck t 0 s = s"
| "con_write_loop ck t (Suc nr) s =
    (let (c, q) = GETCH (write_q (tty_table s t))
     in con_write_loop ck t nr (con_char ck t c (upd_tty t (\<lambda>t. t\<lparr>write_q := q\<rparr>) s)))"

definition con_write :: "(nat \<Rightarrow> kstate \<Rightarrow> kstate) \<Rightarrow> nat \<Rightarrow> kstate \<Rightarrow> kstate" where
  "con_write ck t s =
    (let nr = CHARS (write_q (tty_table s t)) in on_console set_cursor (con_write_loop ck t nr s))"

primrec con_device :: "nat \<Rightarrow> nat \<Rightarrow> kstate \<Rightarrow> kstate" where
  "con_device 0 t s = con_write (\<lambda>t s. s) t s"
| "con_device (Suc d) t s = con_write (copy_to_cooked (con_device d)) t s"

text \<open>The end of \<open>con_init\<close>: the keyboard interrupt is let through.\<close>

definition con_start :: "boot_video \<Rightarrow> kstate \<Rightarrow> kstate" where
  "con_start b s =
    (let s = on_console (con_init b) s;
         s = outb (port_in s 0x21 AND 0xfd) 0x21 s;
         a = port_in s 0x61
     in outb a 0x61 (outb (a OR 0x80) 0x61 s))"

section \<open>The serial lines\<close>

definition rs_init_port :: "nat \<Rightarrow> kstate \<Rightarrow> kstate" where
  "rs_init_port port s =
    outb 0x0d (port + 1) (outb 0x0b (port + 4) (outb 0x03 (port + 3) (outb 0x00 (port + 1)
      (outb 0x30 port (outb 0x80 (port + 3) s)))))"

definition rs_init :: "kstate \<Rightarrow> kstate" where
  "rs_init s =
    (let s = rs_init_port (unat (q_data (read_q (tty_table s 1)))) s;
         s = rs_init_port (unat (q_data (read_q (tty_table s 2)))) s
     in outb (port_in s 0x21 AND 0xE7) 0x21 s)"

definition tty_init :: "boot_video \<Rightarrow> kstate \<Rightarrow> kstate" where
  "tty_init b s = con_start b (rs_init s)"

definition rs_write :: "nat \<Rightarrow> kstate \<Rightarrow> kstate" where
  "rs_write t s =
    (let q = write_q (tty_table s t); port = unat (q_data q + 1)
     in if EMPTY q then s else outb (port_in s port OR 0x02) port s)"

text \<open>The routine \<open>tty->write\<close> of the three terminals.\<close>

definition tty_device :: "nat \<Rightarrow> nat \<Rightarrow> kstate \<Rightarrow> kstate" where
  "tty_device d t s = (if t = 0 then con_device d t s else rs_write t s)"

section \<open>What the routines leave alone\<close>

lemma on_console_simps [simp]:
  "tty_table (on_console f s) = tty_table s" "sch (on_console f s) = sch s" "umem (on_console f s) = umem s"
  "cr_flag (on_console f s) = cr_flag s"
  by (simp_all add: on_console_def Let_def)

lemma sysbeep_simps [simp]:
  "tty_table (sysbeep s) = tty_table s" "con (sysbeep s) = con s" "sch (sysbeep s) = sch s" "umem (sysbeep s) = umem s"
  "cr_flag (sysbeep s) = cr_flag s"
  by (simp_all add: sysbeep_def outb_def)

lemma upd_tty_simps [simp]:
  "tty_table (upd_tty i f s) j = (if i = j then f (tty_table s j) else tty_table s j)" "con (upd_tty i f s) = con s"
  "sch (upd_tty i f s) = sch s" "umem (upd_tty i f s) = umem s" "cr_flag (upd_tty i f s) = cr_flag s"
  by (simp_all add: upd_tty_def)

lemma con_on_console: "con (on_console f s) = (f ((con s)\<lparr>con_out := []\<rparr>))\<lparr>con_out := []\<rparr>"
  by (simp add: on_console_def Let_def)

section \<open>The whole queue is shown\<close>

text \<open>The console after the characters \<open>cs\<close>, with \<open>erase\<close> as the erase character.\<close>

definition shown :: "u8 \<Rightarrow> u8 list \<Rightarrow> console \<Rightarrow> console" where
  "shown erase cs c = fold (\<lambda>ch c. (con_step erase ch (c\<lparr>con_out := []\<rparr>))\<lparr>con_out := []\<rparr>) cs c"

text \<open>No \<open>ESC Z\<close> is among the characters.\<close>

primrec silent :: "u8 \<Rightarrow> u8 list \<Rightarrow> console \<Rightarrow> bool" where
  "silent erase [] c \<longleftrightarrow> True"
| "silent erase (ch # cs) c \<longleftrightarrow> \<not> (con_state c = 1 \<and> ch = 90) \<and> silent erase cs (shown erase [ch] c)"

lemma shown_Nil [simp]: "shown erase [] c = c"
  by (simp add: shown_def)

lemma shown_Cons: "shown erase (ch # cs) c = shown erase cs (shown erase [ch] c)"
  by (simp add: shown_def)

lemma shown_append: "shown erase (cs @ ds) c = shown erase ds (shown erase cs c)"
  by (simp add: shown_def)

lemma con_char_shown:
  assumes "\<not> (con_state (con s) = 1 \<and> ch = 90)" "con_out (con s) = []"
  shows "con (con_char ck t ch s) = shown (c_cc (termios (tty_table s t)) VERASE) [ch] (con s)"
    and "tty_table (con_char ck t ch s) = tty_table s" "sch (con_char ck t ch s) = sch s"
    and "umem (con_char ck t ch s) = umem s" "cr_flag (con_char ck t ch s) = cr_flag s"
proof -
  have bell: "con_step e 7 c = c" if "con_state c = 0" "e \<noteq> 7" for e c
    using that by (simp add: con_step_def con_text_def)
  have out: "c\<lparr>con_out := []\<rparr> = c" if "con_out c = []" for c :: console
    using that by simp
  show "con (con_char ck t ch s) = shown (c_cc (termios (tty_table s t)) VERASE) [ch] (con s)"
    using assms by (auto simp: con_char_def Let_def shown_def con_on_console is_cc_def bell out)
qed (use assms in \<open>auto simp: con_char_def Let_def\<close>)


lemma shown_out [simp]: "con_out c = [] \<Longrightarrow> con_out (shown erase cs c) = []"
  by (induction cs arbitrary: c) (simp_all add: shown_def)

text \<open>The whole loop: the queue is emptied, its characters are shown in their order.\<close>

lemma con_write_loop_shown:
  assumes "queue_ok (write_q (tty_table s t))" "con_out (con s) = []"
    "silent (c_cc (termios (tty_table s t)) VERASE) (queue_chars (write_q (tty_table s t))) (con s)"
    "s' = con_write_loop ck t (CHARS (write_q (tty_table s t))) s"
  shows "con s' = shown (c_cc (termios (tty_table s t)) VERASE) (queue_chars (write_q (tty_table s t))) (con s)
    \<and> (\<exists>q. queue_ok q \<and> queue_chars q = [] \<and> q_data q = q_data (write_q (tty_table s t))
         \<and> tty_table s' = (tty_table s)(t := (tty_table s t)\<lparr>write_q := q\<rparr>))
    \<and> sch s' = sch s \<and> umem s' = umem s \<and> cr_flag s' = cr_flag s"
  using assms
proof (induction "CHARS (write_q (tty_table s t))" arbitrary: s)
  case 0
  then have "queue_chars (write_q (tty_table s t)) = []"
    by (metis length_0_conv length_queue_chars)
  then show ?case
    using 0 by (intro conjI exI [of _ "write_q (tty_table s t)"]) simp_all
next
  case (Suc n)
  let ?q = "write_q (tty_table s t)" and ?e = "c_cc (termios (tty_table s t)) VERASE"
  obtain c q where g: "GETCH ?q = (c, q)"
    by fastforce
  have ne: "CHARS ?q \<noteq> 0"
    using Suc.hyps(2) by simp
  have cs: "queue_chars ?q = c # queue_chars q"
    using queue_chars_GETCH [OF Suc.prems(1) ne] g by simp
  have q: "CHARS q = n" "queue_ok q" "q_data q = q_data ?q"
    using CHARS_GETCH [OF Suc.prems(1) ne] g Suc.hyps(2) tq.get_inv [OF Suc.prems(1) g]
    by (simp_all add: GETCH_def) (auto simp: GETCH_def)
  let ?s = "upd_tty t (\<lambda>t. t\<lparr>write_q := q\<rparr>) s"
  let ?s1 = "con_char ck t c ?s"
  have step: "\<not> (con_state (con ?s) = 1 \<and> c = 90)" "con_out (con ?s) = []"
    using Suc.prems(2,3) cs by simp_all
  note one = con_char_shown [OF step, of ck t]
  have con1: "con ?s1 = shown ?e [c] (con s)"
    using one(1) by simp
  have tt1: "tty_table ?s1 = (tty_table s)(t := (tty_table s t)\<lparr>write_q := q\<rparr>)"
    using one(2) by (simp add: upd_tty_def)
  have s': "s' = con_write_loop ck t n ?s1"
    using Suc.prems(4) unfolding Suc.hyps(2) [symmetric] by (simp add: g)
  have ih: "con s' = shown ?e (queue_chars q) (con ?s1)
    \<and> (\<exists>q'. queue_ok q' \<and> queue_chars q' = [] \<and> q_data q' = q_data q
         \<and> tty_table s' = (tty_table ?s1)(t := (tty_table ?s1 t)\<lparr>write_q := q'\<rparr>))
    \<and> sch s' = sch ?s1 \<and> umem s' = umem ?s1 \<and> cr_flag s' = cr_flag ?s1"
    using Suc.hyps(1) [of ?s1] Suc.prems(2,3) q s' con1 cs by (simp add: tt1)
  then show ?case
    using one(3,4,5) con1 q(3) by (simp add: cs tt1 shown_Cons [of _ c "queue_chars q"])
qed

text \<open>
  C28. Unless the characters hold the query \<open>ESC Z\<close>, the device routine of the console takes the whole write
  queue in one call: the queue is empty afterwards, its characters have gone through the escape sequence
  interpreter in their order, and the other queues, the settings and the
  scheduler stay as they are, whatever routine the console would call back. If the console was consistent it
  still is.
\<close>

theorem con_write_shows_queue:
  assumes "queue_ok (write_q (tty_table s t))" "con_out (con s) = []"
    "silent (c_cc (termios (tty_table s t)) VERASE) (queue_chars (write_q (tty_table s t))) (con s)"
  shows "\<exists>q. queue_ok q \<and> queue_chars q = []
    \<and> tty_table (con_write ck t s) = (tty_table s)(t := (tty_table s t)\<lparr>write_q := q\<rparr>)
    \<and> con (con_write ck t s) =
        shown (c_cc (termios (tty_table s t)) VERASE) (queue_chars (write_q (tty_table s t))) (con s)
    \<and> sch (con_write ck t s) = sch s \<and> (con_ok (con s) \<longrightarrow> con_ok (con (con_write ck t s)))"
proof -
  define s' where "s' = con_write_loop ck t (CHARS (write_q (tty_table s t))) s"
  have cw: "con_write ck t s = on_console set_cursor s'"
    by (simp add: con_write_def s'_def)
  have cursor: "(set_cursor (c\<lparr>con_out := []\<rparr>))\<lparr>con_out := []\<rparr> = c" if "con_out c = []" for c :: console
    using that by (simp add: set_cursor_def put_port_def Let_def)
  have ok: "con_ok (shown e cs c)" if "con_ok c" for e cs c
    using that
  proof (induction cs arbitrary: c)
    case (Cons ch cs)
    have "con_safe (c\<lparr>con_out := []\<rparr>) (con_step e ch (c\<lparr>con_out := []\<rparr>))"
      by (rule con_step_safe) (simp add: Cons.prems)
    then have "con_ok (shown e [ch] c)"
      by (simp add: shown_def con_safe_def)
    then show ?case
      using Cons.IH by (subst shown_Cons)
  qed simp
  note loop = con_write_loop_shown [OF assms s'_def]
  obtain q where q: "queue_ok q" "queue_chars q = []" "tty_table s' = (tty_table s)(t := (tty_table s t)\<lparr>write_q := q\<rparr>)"
    using loop by blast
  have "con (con_write ck t s) = con s'"
    unfolding cw con_on_console by (rule cursor) (use loop assms(2) in simp)
  then show ?thesis
    using loop q ok by (intro exI [of _ q]) (simp add: cw)
qed


definition demo_output :: "u8 list \<Rightarrow> kstate" where
  "demo_output cs = demo_kernel\<lparr>con := con_init demo_boot blank_console,
    tty_table := (\<lambda>_. null_tty\<lparr>write_q := put_all PUTCH cs (write_q null_tty)\<rparr>)\<rparr>"

theorem con_write_shows_queue_witness:
  "queue_chars (write_q (tty_table (con_write (\<lambda>t s. s) 0 (demo_output [65, 10])) 0)) = []
    \<and> con (con_write (\<lambda>t s. s) 0 (demo_output [65, 10])) = shown 0 [65, 10] (con_init demo_boot blank_console)"
proof -
  let ?s = "demo_output [65, 10]"
  have "queue_ok (write_q null_tty)" "queue_chars (write_q null_tty) = []"
    by (simp_all add: null_tty_def Let_def queue_ok_def queue_chars_def CHARS_def TTY_BUF_SIZE_def)
  then have q: "queue_ok (write_q (tty_table ?s 0))" "queue_chars (write_q (tty_table ?s 0)) = [65, 10]"
    using tq.put_all_elems [of "write_q null_tty" "[65, 10]"] by (simp_all add: demo_output_def TTY_BUF_SIZE_def)
  have c: "con_out (con ?s) = []" "con_state (con ?s) = 0" "c_cc (termios (tty_table ?s 0)) VERASE = 0"
    by (simp_all add: demo_output_def con_init_def gotoxy_def Let_def blank_console_def null_tty_def demo_boot_def ORIG_VIDEO_LINES_def)
  then have "silent 0 [65, 10] (con ?s)"
    by simp
  then show ?thesis
    using con_write_shows_queue [of ?s 0 "\<lambda>t s. s"] q c by (auto simp: demo_output_def)
qed

end
