(* ===== verification/Line_Edit.thy ===== *)
theory Line_Edit
  imports Con_Write
begin

text \<open>
  The line discipline as an editor of lists of characters. \<open>copy_to_cooked\<close> of \<open>kernel/chr_drv/tty_io.c\<close> works
  on two circular queues and calls the device for the echo; what it promises is the function \<open>edit\<close> below on
  the list of the characters that came in and the list of those that wait to be read. The interface to the
  device is the locale \<open>line_device\<close>, with the serial lines and the console as its instances.
\<close>

unbundle bit_operations_syntax

section \<open>The specification\<close>

definition line_end :: "tty_struct \<Rightarrow> u8 \<Rightarrow> bool" where
  "line_end tty c \<longleftrightarrow> c = 10 \<or> is_cc tty VEOF c"

text \<open>The translation of a character that comes in; \<open>None\<close> drops it.\<close>

definition incoming :: "tty_struct \<Rightarrow> u8 \<Rightarrow> u8 option" where
  "incoming tty c =
    (if c = 13 \<and> \<not> I_CRNL tty \<and> I_NOCR tty then None
     else
       let c = (if c = 13 \<and> I_CRNL tty then 10 else if c = 10 \<and> I_NLCR tty then 13 else c)
       in Some (if I_UCLC tty then tolower c else c))"

definition edit_char :: "tty_struct \<Rightarrow> u8 \<Rightarrow> u8 list \<Rightarrow> u8 list" where
  "edit_char tty c cs =
    (case incoming tty c of None \<Rightarrow> cs
     | Some c \<Rightarrow>
       if L_CANON tty \<and> is_cc tty VKILL c then rev (dropWhile (\<lambda>d. \<not> line_end tty d) (rev cs))
       else if L_CANON tty \<and> is_cc tty VERASE c then
         (if cs = [] \<or> line_end tty (last cs) then cs else butlast cs)
       else if L_CANON tty \<and> (is_cc tty VSTOP c \<or> is_cc tty VSTART c) then cs
       else if L_ISIG tty \<and> (is_cc tty VINTR c \<or> is_cc tty VQUIT c) then cs
       else cs @ [c])"

text \<open>All the characters, while there is room for them.\<close>

primrec edit :: "tty_struct \<Rightarrow> u8 list \<Rightarrow> u8 list \<Rightarrow> u8 list \<times> u8 list" where
  "edit tty [] cs = ([], cs)"
| "edit tty (c # inp) cs = (if length cs \<ge> 1023 then (c # inp, cs) else edit tty inp (edit_char tty c cs))"

section \<open>The back end of a queue\<close>

lemma queue_last:
  assumes "queue_ok q" "CHARS q \<noteq> 0"
  shows "LAST q = last (queue_chars q)"
    and "queue_chars (q\<lparr>q_head := q_dec (q_head q)\<rparr>) = butlast (queue_chars q)"
    and "queue_ok (q\<lparr>q_head := q_dec (q_head q)\<rparr>)"
proof -
  obtain n where n: "CHARS q = Suc n"
    using assms(2) by (cases "CHARS q") auto
  have "q_dec (q_head q) = ((q_tail q + Suc n) mod TTY_BUF_SIZE + 1023) mod TTY_BUF_SIZE"
    using queue_head [OF assms(1)] n by (simp add: q_dec_def TTY_BUF_SIZE_def add.commute)
  also have "\<dots> = (q_tail q + n + TTY_BUF_SIZE) mod TTY_BUF_SIZE"
    by (simp add: mod_add_left_eq TTY_BUF_SIZE_def)
  finally have h: "q_dec (q_head q) = (q_tail q + n) mod TTY_BUF_SIZE"
    by simp
  have n': "n < TTY_BUF_SIZE"
    using q_step_less(3) [of q] n by simp
  have app: "queue_chars q = ring TTY_BUF_SIZE (q_buf q) (q_tail q) n @ [q_buf q ((q_tail q + n) mod TTY_BUF_SIZE)]"
    using ring_append [of TTY_BUF_SIZE "q_buf q" "q_tail q" n 1]
    by (simp add: queue_chars_def n) (simp add: ring_def)
  show "LAST q = last (queue_chars q)"
    by (simp add: app LAST_def h)
  have "CHARS (q\<lparr>q_head := q_dec (q_head q)\<rparr>) = n"
    using chars_ring [of "q_tail q" n] assms(1) n' by (simp add: CHARS_def queue_ok_def h)
  then show "queue_chars (q\<lparr>q_head := q_dec (q_head q)\<rparr>) = butlast (queue_chars q)"
    unfolding app by (simp add: queue_chars_def)
  show "queue_ok (q\<lparr>q_head := q_dec (q_head q)\<rparr>)"
    using assms(1) by (simp add: queue_ok_def)
qed

lemma queue_chars_eq_Nil: "queue_chars q = [] \<longleftrightarrow> CHARS q = 0"
  by (metis length_0_conv length_queue_chars)

lemma queue_upd_data [simp]: "queue_ok (q\<lparr>q_data := n\<rparr>) = queue_ok q" "queue_chars (q\<lparr>q_data := n\<rparr>) = queue_chars q"
  "queue_ok (q\<lparr>q_proc_list := p\<rparr>) = queue_ok q" "queue_chars (q\<lparr>q_proc_list := p\<rparr>) = queue_chars q"
  "q_data (PUTCH c q) = q_data q"
  by (simp_all add: queue_ok_def queue_chars_def CHARS_def PUTCH_def)

section \<open>The state of a terminal\<close>

text \<open>\<open>inp\<close> came in, \<open>cs\<close> waits to be read, the settings are those of \<open>tty\<close>, and \<open>n\<close> is the count of the
  lines in the queue, which should be \<open>line_count\<close>.\<close>

definition line_count :: "tty_struct \<Rightarrow> u8 list \<Rightarrow> u32" where
  "line_count tty cs = of_nat (length (filter (line_end tty) cs))"

definition holds :: "nat \<Rightarrow> tty_struct \<Rightarrow> u8 list \<Rightarrow> u8 list \<Rightarrow> u32 \<Rightarrow> kstate \<Rightarrow> bool" where
  "holds t tty inp cs n s \<longleftrightarrow>
    queue_ok (read_q (tty_table s t)) \<and> queue_ok (secondary (tty_table s t))
    \<and> queue_chars (read_q (tty_table s t)) = inp \<and> queue_chars (secondary (tty_table s t)) = cs
    \<and> termios (tty_table s t) = termios tty
    \<and> q_data (secondary (tty_table s t)) = n"

lemma settings_cong:
  assumes "termios a = termios b"
  shows "is_cc a = is_cc b" "L_CANON a = L_CANON b" "L_ISIG a = L_ISIG b" "L_ECHO a = L_ECHO b" "L_ECHOCTL a = L_ECHOCTL b"
    "I_CRNL a = I_CRNL b" "I_NOCR a = I_NOCR b" "I_NLCR a = I_NLCR b" "I_UCLC a = I_UCLC b"
  using assms by (simp_all add: fun_eq_iff is_cc_def L_CANON_def L_ISIG_def L_ECHO_def L_ECHOCTL_def L_FLAG_def I_FLAG_def
      I_CRNL_def I_NOCR_def I_NLCR_def I_UCLC_def)

lemma holds_termios: "holds t tty inp cs n s \<Longrightarrow> termios (tty_table s t) = termios tty"
  by (simp add: holds_def)

lemma holds_full: "holds t tty inp cs n s \<Longrightarrow> FULL (secondary (tty_table s t)) \<longleftrightarrow> length cs \<ge> 1023"
  by (auto simp: holds_def FULL_def LEFTQ_CHARS TTY_BUF_SIZE_def)

lemma holds_line_start: "holds t tty inp cs n s \<Longrightarrow> line_start (tty_table s t) \<longleftrightarrow> cs = [] \<or> line_end tty (last cs)"
  using queue_last(1) [of "secondary (tty_table s t)"] settings_cong(1) [of "tty_table s t" tty]
  by (auto simp: holds_def line_start_def line_end_def EMPTY_CHARS queue_chars_eq_Nil)

lemma line_count_butlast: "cs \<noteq> [] \<Longrightarrow> \<not> line_end tty (last cs) \<Longrightarrow> line_count tty (butlast cs) = line_count tty cs"
  by (cases cs rule: rev_cases) (simp_all add: line_count_def)

lemma line_count_kill: "line_count tty (rev (dropWhile (\<lambda>d. \<not> line_end tty d) (rev cs))) = line_count tty cs"
  by (induction cs rule: rev_induct) (simp_all add: line_count_def)

lemma line_count_append: "line_count tty (cs @ [c]) = line_count tty cs + (if line_end tty c then 1 else 0)"
  by (simp add: line_count_def)

section \<open>The contract of the device\<close>

text \<open>
  \<open>ok s\<close>: the device routine \<open>wr\<close> of the terminal \<open>t\<close> will not feed the terminal in the state \<open>s\<close>, and stays so
  as long as only \<open>safe\<close> characters are written.
\<close>

locale line_device =
  fixes wr :: "nat \<Rightarrow> kstate \<Rightarrow> kstate"
    and t :: nat
    and ok :: "kstate \<Rightarrow> bool"
    and safe :: "u8 \<Rightarrow> bool"
  assumes wr_input: "ok s \<Longrightarrow> read_q (tty_table (wr t s) t) = read_q (tty_table s t)"
    and wr_secondary: "ok s \<Longrightarrow> secondary (tty_table (wr t s) t) = secondary (tty_table s t)"
    and wr_termios: "ok s \<Longrightarrow> termios (tty_table (wr t s) t) = termios (tty_table s t)"
    and wr_ok: "ok s \<Longrightarrow> ok (wr t s)"
    and put_ok: "ok s \<Longrightarrow> safe c \<Longrightarrow> ok (put_write c t s)"
    and upd_ok: "ok s \<Longrightarrow> (\<And>x. write_q (f x) = write_q x \<and> termios (f x) = termios x) \<Longrightarrow> ok (upd_tty t f s)"
    and sch_ok: "ok s \<Longrightarrow> ok (s\<lparr>sch := sc\<rparr>)"
    and safe_echo: "safe 10" "safe 13" "safe 94" "safe 127"
begin

text \<open>A character whose echo is safe.\<close>

definition echo_safe :: "u8 \<Rightarrow> bool" where
  "echo_safe c \<longleftrightarrow> safe (if is_ctl c then c + 64 else c)"

text \<open>A state in which the lists are as they should be and the device is quiet.\<close>

definition at :: "tty_struct \<Rightarrow> u8 list \<Rightarrow> u8 list \<Rightarrow> u32 \<Rightarrow> kstate \<Rightarrow> bool" where
  "at tty inp cs n s \<longleftrightarrow> ok s \<and> holds t tty inp cs n s"

lemma at_wr: "at tty inp cs n s \<Longrightarrow> at tty inp cs n (wr t s)"
  using wr_input wr_secondary wr_termios wr_ok by (simp add: at_def holds_def)

lemma at_put: "at tty inp cs n s \<Longrightarrow> safe c \<Longrightarrow> at tty inp cs n (put_write c t s)"
  using put_ok by (auto simp: at_def holds_def) (simp_all add: put_write_def)

lemma at_sch: "at tty inp cs n s \<Longrightarrow> at tty inp cs n (s\<lparr>sch := sc\<rparr>)"
  using sch_ok by (simp add: at_def holds_def)

lemma at_stopped: "at tty inp cs n s \<Longrightarrow> at tty inp cs n (upd_tty t (\<lambda>t. t\<lparr>stopped := b\<rparr>) s)"
  using upd_ok by (simp add: at_def holds_def)

lemma at_tty_intr: "at tty inp cs n s \<Longrightarrow> at tty inp cs n (tty_intr t sigs s)"
  using at_sch by (simp add: tty_intr_def)

lemma at_rub_out:
  assumes "at tty inp cs n s" "cs \<noteq> []" "\<not> line_end tty (last cs)"
  shows "at tty inp (butlast cs) n (rub_out wr t s)"
proof -
  define s1 where "s1 = (if L_ECHO (tty_table s t) then wr t (put_write 127 t
      (if is_ctl (LAST (secondary (tty_table s t))) then put_write 127 t s else s)) else s)"
  have a: "at tty inp cs n s1"
    using assms(1) by (simp add: s1_def at_wr at_put safe_echo)
  have r: "rub_out wr t s = upd_tty t (\<lambda>t. t\<lparr>secondary := (secondary t)\<lparr>q_head := q_dec (q_head (secondary t))\<rparr>\<rparr>) s1"
    by (simp add: rub_out_def s1_def Let_def)
  have "queue_ok (secondary (tty_table s1 t))" "CHARS (secondary (tty_table s1 t)) \<noteq> 0"
    using a assms(2) by (auto simp: at_def holds_def queue_chars_eq_Nil)
  note q = queue_last [OF this]
  have "ok (rub_out wr t s)"
    unfolding r using a by (intro upd_ok) (simp_all add: at_def)
  then show ?thesis
    using a q(2,3) assms(2,3) by (simp add: at_def holds_def r)
qed

lemma at_kill_line:
  "at tty inp cs n s \<Longrightarrow> length cs \<le> k \<Longrightarrow>
    at tty inp (rev (dropWhile (\<lambda>d. \<not> line_end tty d) (rev cs))) n (kill_line wr k t s)"
proof (induction k arbitrary: cs s)
  case (Suc k)
  have ls: "line_start (tty_table s t) \<longleftrightarrow> cs = [] \<or> line_end tty (last cs)"
    using Suc.prems(1) unfolding at_def by (elim conjE, rule_tac holds_line_start)
  show ?case
  proof (cases cs rule: rev_cases)
    case Nil
    then show ?thesis
      using Suc.prems ls by simp
  next
    case (snoc ds d)
    then show ?thesis
      using Suc.prems ls Suc.IH [of ds "rub_out wr t s"] at_rub_out [OF Suc.prems(1)] by simp
  qed
qed simp


lemma at_echo:
  assumes "at tty inp cs n s" "echo_safe c"
  shows "at tty inp cs n (echo wr t c s)"
  using assms by (auto simp: echo_def echo_safe_def at_wr at_put safe_echo split: if_splits)

lemma at_secondary:
  assumes "at tty inp cs n s" "queue_ok q" "queue_chars q = ds"
  shows "at tty inp ds (q_data q) (upd_tty t (\<lambda>t. t\<lparr>secondary := q\<rparr>) s)"
  using assms upd_ok by (simp add: at_def holds_def)

lemma at_append:
  assumes "at tty inp cs (line_count tty cs) s" "length cs < 1023" "echo_safe c"
  shows "at tty inp (cs @ [c]) (line_count tty (cs @ [c]))
    (upd_tty t (\<lambda>t. t\<lparr>secondary := PUTCH c (secondary t)\<rparr>) (echo wr t c
      (if c = 10 \<or> is_cc (tty_table s t) VEOF c
       then upd_tty t (\<lambda>t. t\<lparr>secondary := (secondary t)\<lparr>q_data := q_data (secondary t) + 1\<rparr>\<rparr>) s else s)))"
    (is "at _ _ _ _ (upd_tty t _ (echo wr t c ?s1))")
proof -
  have "termios (tty_table s t) = termios tty"
    using assms(1) by (simp add: at_def holds_def)
  then have eof: "is_cc (tty_table s t) = is_cc tty"
    by (rule settings_cong)
  let ?n = "line_count tty (cs @ [c])"
  have "at tty inp cs ?n ?s1"
    using assms(1) upd_ok by (auto simp: at_def holds_def line_count_append line_end_def eof)
  then have e: "at tty inp cs ?n (echo wr t c ?s1)" (is "at _ _ _ _ ?s2")
    using assms(3) by (rule at_echo)
  then have q: "queue_ok (secondary (tty_table ?s2 t))" "queue_chars (secondary (tty_table ?s2 t)) = cs"
    "q_data (secondary (tty_table ?s2 t)) = ?n"
    by (simp_all add: at_def holds_def)
  have "upd_tty t (\<lambda>t. t\<lparr>secondary := PUTCH c (secondary t)\<rparr>) ?s2
      = upd_tty t (\<lambda>x. x\<lparr>secondary := PUTCH c (secondary (tty_table ?s2 t))\<rparr>) ?s2"
    by (simp add: upd_tty_def)
  moreover have "queue_chars (PUTCH c (secondary (tty_table ?s2 t))) = cs @ [c]"
    using queue_chars_PUTCH [OF q(1)] q(2) assms(2) length_queue_chars [of "secondary (tty_table ?s2 t)"]
    by (simp add: TTY_BUF_SIZE_def)
  ultimately show ?thesis
    using at_secondary [OF e tq.put_inv [OF q(1), of c]] q(3) by simp
qed

lemma cook_char_incoming:
  assumes tm: "termios (tty_table s t) = termios tty" and d: "incoming tty c = Some d"
  shows "cook_char wr t c s =
      (if L_CANON tty \<and> is_cc tty VKILL d then kill_line wr TTY_BUF_SIZE t s
       else if L_CANON tty \<and> is_cc tty VERASE d then (if line_start (tty_table s t) then s else rub_out wr t s)
       else if L_CANON tty \<and> is_cc tty VSTOP d then upd_tty t (\<lambda>t. t\<lparr>stopped := True\<rparr>) s
       else if L_CANON tty \<and> is_cc tty VSTART d then upd_tty t (\<lambda>t. t\<lparr>stopped := False\<rparr>) s
       else if L_ISIG tty \<and> is_cc tty VINTR d then tty_intr t (sigbit 2) s
       else if L_ISIG tty \<and> is_cc tty VQUIT d then tty_intr t (sigbit 3) s
       else upd_tty t (\<lambda>t. t\<lparr>secondary := PUTCH d (secondary t)\<rparr>) (echo wr t d
              (if d = 10 \<or> is_cc (tty_table s t) VEOF d
               then upd_tty t (\<lambda>t. t\<lparr>secondary := (secondary t)\<lparr>q_data := q_data (secondary t) + 1\<rparr>\<rparr>) s else s)))"
proof -
  note set = settings_cong [OF tm]
  have drop: "\<not> (c = 13 \<and> \<not> I_CRNL tty \<and> I_NOCR tty)"
    using d by (simp add: incoming_def split: if_splits)
  let ?c = "if c = 13 then (if I_CRNL tty then 10 else c) else if c = 10 \<and> I_NLCR tty then 13 else c"
  have d: "d = (if I_UCLC tty then tolower ?c else ?c)"
    using d drop by (auto simp: incoming_def Let_def split: if_splits)
  have "cook_char wr t c s = cook_edit wr t d s"
    unfolding cook_char_def Let_def set d using drop by (simp only: if_False)
  then show ?thesis
    by (simp only: cook_edit_def Let_def set)
qed

lemma at_cook_char:
  assumes "at tty inp cs (line_count tty cs) s" "length cs < 1023"
    "\<And>c'. incoming tty c = Some c' \<Longrightarrow> echo_safe c'"
  shows "at tty inp (edit_char tty c cs) (line_count tty (edit_char tty c cs)) (cook_char wr t c s)"
proof -
  have tm: "termios (tty_table s t) = termios tty"
    using assms(1) by (simp add: at_def holds_def)
  have ls: "line_start (tty_table s t) \<longleftrightarrow> cs = [] \<or> line_end tty (last cs)"
    using assms(1) unfolding at_def by (elim conjE, rule_tac holds_line_start)
  note set = settings_cong [OF tm]
  show ?thesis
  proof (cases "incoming tty c")
    case None
    then have "c = 13 \<and> \<not> I_CRNL tty \<and> I_NOCR tty"
      by (simp add: incoming_def Let_def split: if_splits)
    then have "cook_char wr t c s = s"
      unfolding cook_char_def Let_def set by simp
    then show ?thesis
      using assms(1) None by (simp add: edit_char_def)
  next
    case (Some d)
    note body = cook_char_incoming [OF tm Some]
    have len: "length cs \<le> TTY_BUF_SIZE"
      using assms(2) by (simp add: TTY_BUF_SIZE_def)
    have safe: "echo_safe d"
      by (rule assms(3)) (rule Some)
    note app = at_append [OF assms(1,2) safe]
    let ?kill = "L_CANON tty \<and> is_cc tty VKILL d" and ?erase = "L_CANON tty \<and> is_cc tty VERASE d"
      and ?flow = "L_CANON tty \<and> (is_cc tty VSTOP d \<or> is_cc tty VSTART d)"
      and ?sig = "L_ISIG tty \<and> (is_cc tty VINTR d \<or> is_cc tty VQUIT d)"
    consider ?kill | "\<not> ?kill" ?erase | "\<not> ?kill" "\<not> ?erase" ?flow | "\<not> ?kill" "\<not> ?erase" "\<not> ?flow" ?sig
      | "\<not> ?kill" "\<not> ?erase" "\<not> ?flow" "\<not> ?sig"
      by blast
    then show ?thesis
    proof cases
      case 1
      then have "edit_char tty c cs = rev (dropWhile (\<lambda>d. \<not> line_end tty d) (rev cs))" "cook_char wr t c s = kill_line wr TTY_BUF_SIZE t s"
        unfolding body by (simp_all add: edit_char_def Some)
      then show ?thesis
        using at_kill_line [OF assms(1) len] by (simp add: line_count_kill)
    next
      case 2
      then have "edit_char tty c cs = (if cs = [] \<or> line_end tty (last cs) then cs else butlast cs)"
        "cook_char wr t c s = (if cs = [] \<or> line_end tty (last cs) then s else rub_out wr t s)"
        unfolding body ls by (simp_all add: edit_char_def Some)
      then show ?thesis
        using at_rub_out [OF assms(1)] assms(1) by (simp add: line_count_butlast)
    next
      case 3
      then have "edit_char tty c cs = cs"
        by (simp add: edit_char_def Some)
      moreover have "\<exists>b. cook_char wr t c s = upd_tty t (\<lambda>t. t\<lparr>stopped := b\<rparr>) s"
        using 3 unfolding body by (cases "is_cc tty VSTOP d") (simp_all only: if_False if_True simp_thms, blast+)
      ultimately show ?thesis
        using at_stopped [OF assms(1)] by auto
    next
      case 4
      then have "edit_char tty c cs = cs"
        unfolding edit_char_def Some option.case by (simp only: if_False if_True simp_thms)
      moreover have "\<not> (L_CANON tty \<and> is_cc tty VSTOP d)" "\<not> (L_CANON tty \<and> is_cc tty VSTART d)"
        "L_ISIG tty \<and> is_cc tty VINTR d \<or> L_ISIG tty \<and> is_cc tty VQUIT d"
        using 4 by blast+
      then have "cook_char wr t c s = tty_intr t (sigbit (if L_ISIG tty \<and> is_cc tty VINTR d then 2 else 3)) s"
        unfolding body using 4(1,2) by (elim disjE) (simp_all only: if_False if_True if_cancel split: if_split, simp_all)
      ultimately show ?thesis
        using at_tty_intr [OF assms(1)] by auto
    next
      case 5
      then have "edit_char tty c cs = cs @ [d]"
        unfolding edit_char_def Some option.case by (simp only: if_False if_True simp_thms)
      moreover have "cook_char wr t c s = upd_tty t (\<lambda>t. t\<lparr>secondary := PUTCH d (secondary t)\<rparr>) (echo wr t d
              (if d = 10 \<or> is_cc (tty_table s t) VEOF d
               then upd_tty t (\<lambda>t. t\<lparr>secondary := (secondary t)\<lparr>q_data := q_data (secondary t) + 1\<rparr>\<rparr>) s else s))"
        unfolding body using 5 by (simp only: if_False de_Morgan_conj de_Morgan_disj) auto
      ultimately show ?thesis
        using app by (simp only:)
    qed
  qed
qed

lemma at_input:
  assumes "at tty inp cs n s" "queue_ok q" "queue_chars q = ds"
  shows "at tty ds cs n (upd_tty t (\<lambda>t. t\<lparr>read_q := q\<rparr>) s)"
  using assms upd_ok by (simp add: at_def holds_def)

text \<open>What the client of the device relies on: the loop is the editor.\<close>

lemma at_cook_loop:
  assumes "at tty inp cs (line_count tty cs) s" "length inp \<le> k"
    "\<And>c c'. c \<in> set inp \<Longrightarrow> incoming tty c = Some c' \<Longrightarrow> echo_safe c'"
    "edit tty inp cs = (inp', cs')"
  shows "at tty inp' cs' (line_count tty cs') (cook_loop wr k t s)"
  using assms
proof (induction k arbitrary: inp cs s)
  case 0
  then show ?case
    by simp
next
  case (Suc k)
  have h: "holds t tty inp cs (line_count tty cs) s"
    using Suc.prems(1) by (simp add: at_def)
  have rq: "queue_ok (read_q (tty_table s t))" "queue_chars (read_q (tty_table s t)) = inp"
    using h by (simp_all add: holds_def)
  have empty: "EMPTY (read_q (tty_table s t)) \<longleftrightarrow> inp = []"
    using rq EMPTY_CHARS queue_chars_eq_Nil by metis
  note full = holds_full [OF h]
  show ?case
  proof (cases inp)
    case Nil
    then show ?thesis
      using Suc.prems empty by simp
  next
    case (Cons c ds)
    show ?thesis
    proof (cases "length cs \<ge> 1023")
      case True
      then show ?thesis
        using Suc.prems full Cons by auto
    next
      case False
      obtain e q where g: "GETCH (read_q (tty_table s t)) = (e, q)"
        by fastforce
      have "CHARS (read_q (tty_table s t)) \<noteq> 0"
        using Cons rq(2) queue_chars_eq_Nil by (metis list.distinct(1))
      then have "e = c" "queue_chars q = ds"
        using queue_chars_GETCH [OF rq(1)] rq(2) Cons g by auto
      moreover have "queue_ok q"
        using tq.get_inv [OF rq(1) g] .
      ultimately have "at tty ds cs (line_count tty cs) (upd_tty t (\<lambda>t. t\<lparr>read_q := q\<rparr>) s)"
        using at_input [OF Suc.prems(1)] by blast
      then have "at tty ds (edit_char tty c cs) (line_count tty (edit_char tty c cs))
          (cook_char wr t c (upd_tty t (\<lambda>t. t\<lparr>read_q := q\<rparr>) s))"
        using False Suc.prems(3) [of c] Cons by (intro at_cook_char) auto
      then have "at tty inp' cs' (line_count tty cs') (cook_loop wr k t (cook_char wr t c (upd_tty t (\<lambda>t. t\<lparr>read_q := q\<rparr>) s)))"
        using Suc.prems(2-4) Cons False by (intro Suc.IH [of ds]) auto
      then show ?thesis
        using empty full False Cons g \<open>e = c\<close> by simp
    qed
  qed
qed

lemma at_copy_to_cooked:
  assumes "at tty inp cs (line_count tty cs) s"
    "\<And>c c'. c \<in> set inp \<Longrightarrow> incoming tty c = Some c' \<Longrightarrow> echo_safe c'"
    "edit tty inp cs = (inp', cs')"
  shows "at tty inp' cs' (line_count tty cs') (copy_to_cooked wr t s)"
proof -
  have "length inp \<le> TTY_BUF_SIZE"
    using assms(1) q_step_less(3) [of "read_q (tty_table s t)"] by (auto simp: at_def holds_def simp del: q_step_less)
  then have loop: "at tty inp' cs' (line_count tty cs') (cook_loop wr TTY_BUF_SIZE t s)" (is "at _ _ _ _ ?s")
    using assms by (intro at_cook_loop [of tty inp cs]) auto
  obtain p sc where w: "Sched.wake_up (q_proc_list (secondary (tty_table ?s t))) (sch ?s) = (p, sc)"
    by fastforce
  have "at tty inp' cs' (line_count tty cs') (?s\<lparr>sch := sc\<rparr>)"
    using loop by (rule at_sch)
  then have "at tty inp' cs' (line_count tty cs')
      (upd_tty t (\<lambda>t. t\<lparr>secondary := (secondary t)\<lparr>q_proc_list := p\<rparr>\<rparr>) (?s\<lparr>sch := sc\<rparr>))"
    using upd_ok by (simp add: at_def holds_def)
  then show ?thesis
    by (simp add: copy_to_cooked_def Let_def w)
qed

end


section \<open>The serial lines\<close>

interpretation serial: line_device "tty_device d" "Suc t" "\<lambda>_. True" "\<lambda>_. True" for d t
  by standard (simp_all add: tty_device_def rs_write_def Let_def outb_def)

section \<open>The console\<close>

text \<open>No escape waits to be written, none has just been shown: the console will not answer.\<close>

definition con_quiet :: "nat \<Rightarrow> kstate \<Rightarrow> bool" where
  "con_quiet t s \<longleftrightarrow>
    queue_ok (write_q (tty_table s t)) \<and> 27 \<notin> set (queue_chars (write_q (tty_table s t)))
    \<and> con_state (con s) \<noteq> 1 \<and> con_out (con s) = []"

lemma con_state_keep [simp]:
  "con_state (gotoxy x y c) = con_state c" "con_state (put_port v p c) = con_state c" "con_state (set_origin c) = con_state c"
  "con_state (set_cursor c) = con_state c" "con_state (scrup c) = con_state c" "con_state (scrdown c) = con_state c"
  "con_state (csi_J p0 c) = con_state c" "con_state (csi_K p0 c) = con_state c"
  "con_state (csi_m c) = con_state c" "con_state (insert_char c) = con_state c" "con_state (delete_char c) = con_state c"
  "con_state (save_cur c) = con_state c"
  by (simp_all add: gotoxy_def put_port_def set_origin_def set_cursor_def scrup_def scrup_region_def scrdown_def
      csi_J_def csi_K_def csi_m_def insert_char_def delete_char_def save_cur_def Let_def)

lemma con_state_lf [simp]: "con_state (lf c) = con_state c" "con_state (cr c) = con_state c" "con_state (Console.del c) = con_state c"
  "con_state (insert_line c) = con_state c" "con_state (delete_line c) = con_state c" "con_state (restore_cur c) = con_state c"
  by (simp_all add: lf_def cr_def del_def insert_line_def delete_line_def restore_cur_def)

lemma con_state_funpow:
  fixes f :: "console \<Rightarrow> console"
  shows "(\<And>c. con_state (f c) = con_state c) \<Longrightarrow> con_state ((f ^^ n) c) = con_state c"
  by (induction n) simp_all

lemma con_state_repeat [simp]:
  "con_state (csi_at n c) = con_state c" "con_state (csi_L n c) = con_state c" "con_state (csi_P n c) = con_state c"
  "con_state (csi_M n c) = con_state c"
  by (simp_all add: csi_at_def csi_L_def csi_P_def csi_M_def con_state_funpow)

lemma con_state_csi: "con_state (con_csi ch c) = 0"
  by (simp add: con_csi_def Let_def)

lemma con_step_quiet:
  assumes "con_state c \<noteq> 1" "ch \<noteq> 27"
  shows "con_state (con_step e ch c) \<noteq> 1"
proof -
  have "con_state (con_text e ch c) = con_state c"
    using assms(2) by (simp add: con_text_def Let_def)
  moreover have params: "con_state (con_params ch d) = con_state d \<or> con_state (con_params ch d) = 0" for d
    by (simp add: con_params_def con_state_csi)
  moreover have "con_state (con_bracket ch c) \<noteq> 1"
    using params [of "c\<lparr>con_par := (\<lambda>i. if i < NPAR then 0 else con_par c i), con_npar := 0, con_state := 3, con_ques := (ch = 63)\<rparr>"]
    by (auto simp: con_bracket_def Let_def)
  moreover have "con_state (con_params ch c) \<noteq> 1"
    using params [of c] assms(1) by linarith
  moreover have "con_state (con_csi ch c) \<noteq> 1"
    by (simp add: con_state_csi)
  ultimately show ?thesis
    using assms(1) unfolding con_step_def by presburger
qed

lemma shown_quiet:
  "con_state c \<noteq> 1 \<Longrightarrow> 27 \<notin> set cs \<Longrightarrow> con_state (shown e cs c) \<noteq> 1 \<and> silent e cs c"
proof (induction cs arbitrary: c)
  case (Cons ch cs)
  have "con_state (shown e [ch] c) \<noteq> 1"
    using con_step_quiet [of "c\<lparr>con_out := []\<rparr>" ch e] Cons.prems by (simp add: shown_def)
  then show ?case
    using Cons by (simp add: shown_Cons [of _ ch cs])
qed simp

lemma con_write_quiet:
  assumes "con_quiet t s"
  shows "con_quiet t (con_write ck t s) \<and> (\<exists>q. tty_table (con_write ck t s) = (tty_table s)(t := (tty_table s t)\<lparr>write_q := q\<rparr>))"
proof -
  let ?e = "c_cc (termios (tty_table s t)) VERASE" and ?cs = "queue_chars (write_q (tty_table s t))"
  define s' where "s' = con_write_loop ck t (CHARS (write_q (tty_table s t))) s"
  have q: "con_state (shown ?e ?cs (con s)) \<noteq> 1" "silent ?e ?cs (con s)"
    using assms shown_quiet by (auto simp: con_quiet_def)
  have loop: "con s' = shown ?e ?cs (con s)" "\<exists>q. queue_ok q \<and> queue_chars q = [] \<and> tty_table s' = (tty_table s)(t := (tty_table s t)\<lparr>write_q := q\<rparr>)"
    using con_write_loop_shown [OF _ _ q(2) s'_def] assms by (auto simp: con_quiet_def)
  have "con_write ck t s = on_console set_cursor s'"
    by (simp add: con_write_def s'_def)
  then show ?thesis
    using loop q(1) by (auto simp: con_quiet_def con_on_console)
qed

lemma con_quiet_put:
  assumes "con_quiet t s" "c \<noteq> 27"
  shows "con_quiet t (put_write c t s)"
proof -
  let ?q = "write_q (tty_table s t)"
  have "set (queue_chars (PUTCH c ?q)) \<subseteq> insert c (set (queue_chars ?q))"
  proof (cases "CHARS ?q < TTY_BUF_SIZE - 1")
    case True
    then show ?thesis
      using assms(1) by (simp add: queue_chars_PUTCH con_quiet_def)
  next
    case False
    then have "CHARS (PUTCH c ?q) = 0"
      using assms(1) by (auto simp: con_quiet_def CHARS_def PUTCH_def q_inc_def queue_ok_def TTY_BUF_SIZE_def mod_if split: if_splits)
    then have "queue_chars (PUTCH c ?q) = []"
      by (simp add: queue_chars_def)
    then show ?thesis
      by simp
  qed
  then show ?thesis
    using assms tq.put_inv [of ?q c] by (auto simp: con_quiet_def put_write_def)
qed

interpretation console: line_device "tty_device d" 0 "con_quiet 0" "\<lambda>c. c \<noteq> 27" for d
proof
  have dev: "\<exists>ck. tty_device d 0 s = con_write ck 0 s" for s
    by (cases d) (auto simp: tty_device_def)
  fix s
  assume q: "con_quiet 0 s"
  obtain ck where d: "tty_device d 0 s = con_write ck 0 s"
    using dev by blast
  show "read_q (tty_table (tty_device d 0 s) 0) = read_q (tty_table s 0)"
    "secondary (tty_table (tty_device d 0 s) 0) = secondary (tty_table s 0)"
    "termios (tty_table (tty_device d 0 s) 0) = termios (tty_table s 0)" "con_quiet 0 (tty_device d 0 s)"
    using con_write_quiet [OF q, of ck] by (auto simp: d)
  show "con_quiet 0 (upd_tty 0 f s)" if "\<And>x. write_q (f x) = write_q x \<and> termios (f x) = termios x" for f
    using q that by (simp add: con_quiet_def)
  show "con_quiet 0 (s\<lparr>sch := sc\<rparr>)" for sc
    using q by (simp add: con_quiet_def)
  show "con_quiet 0 (put_write c 0 s)" if "c \<noteq> 27" for c
    using q that by (rule con_quiet_put)
qed simp_all

lemma incoming_ascii:
  assumes "c < 128" "incoming tty c = Some c'"
  shows "(if is_ctl c' then c' + 64 else c') \<noteq> 27"
proof -
  have low: "tolower e < 128" if "e < 128" for e
    using that by (simp add: tolower_def word_less_nat_alt word_le_nat_alt unat_word_ariths)
  have "c' < 128"
    using assms low [of c] low [of 10] low [of 13] by (auto simp: incoming_def Let_def split: if_splits)
  show ?thesis
  proof (cases "is_ctl c'")
    case True
    then have "unat c' < 32"
      using \<open>c' < 128\<close> by (auto simp: is_ctl_def word_less_nat_alt word_le_nat_alt)
    then have "unat (c' + 64) = unat c' + 64"
      by (simp add: unat_word_ariths)
    then have "unat (c' + 64) \<noteq> unat (27 :: u8)"
      by simp
    then have "c' + 64 \<noteq> 27"
      by (rule contrapos_nn) (simp only:)
    then show ?thesis
      using True by (simp only: if_True simp_thms)
  qed (auto simp: is_ctl_def)
qed

section \<open>The line discipline is the editor\<close>

text \<open>
  C27. The line discipline implements the editor. After \<open>copy_to_cooked\<close> the secondary queue holds what editing
  its old contents with the characters of the read queue gives (translation, erase, kill and the control
  characters included), the read queue the characters there was no room for, and the count of lines in
  the secondary queue is the number of its line ends. This holds for the serial lines and any input, and for
  the console when it will not answer a query and the input is ASCII, whatever the echo settings.
\<close>

theorem copy_to_cooked_edits:
  assumes "holds t tty inp cs (line_count tty cs) s"
    "t = 0 \<Longrightarrow> con_quiet 0 s \<and> (\<forall>c\<in>set inp. c < 128)"
    "edit tty inp cs = (inp', cs')"
  shows "holds t tty inp' cs' (line_count tty cs') (copy_to_cooked (tty_device d) t s)"
proof (cases t)
  case 0
  have "console.echo_safe c'" if "c \<in> set inp" "incoming tty c = Some c'" for c c'
    unfolding console.echo_safe_def using assms(2) 0 that(1) by (intro incoming_ascii [OF _ that(2)]) blast
  then show ?thesis
    using console.at_copy_to_cooked [of tty inp cs s inp' cs' d] assms 0 by (simp add: console.at_def)
next
  case (Suc u)
  then show ?thesis
    using serial.at_copy_to_cooked [of u tty inp cs s inp' cs' d] assms by (simp add: serial.at_def serial.echo_safe_def)
qed


text \<open>A terminal in canonical mode with echo: \<open>ab\<close>, rub out, \<open>c\<close>, newline leaves the line \<open>ac\<close>.\<close>

definition edit_queue :: "u8 list \<Rightarrow> tty_queue" where
  "edit_queue cs = put_all PUTCH cs \<lparr>q_data = 0, q_head = 0, q_tail = 0, q_proc_list = None, q_buf = (\<lambda>_. 0)\<rparr>"

definition edit_tty :: tty_struct where
  "edit_tty =
    \<lparr>termios = \<lparr>c_iflag = 0x100, c_oflag = 0, c_cflag = 0, c_lflag = 0x20A, c_line = 0,
        c_cc = (\<lambda>_. 0)(2 := 127, 3 := 21, 4 := 4)\<rparr>,
     tty_pgrp = 0, stopped = False, read_q = edit_queue [97, 98, 127, 99, 10], write_q = edit_queue [], secondary = edit_queue []\<rparr>"

lemma edit_tty_edits: "edit edit_tty [97, 98, 127, 99, 10] [] = ([], [97, 99, 10])"
  by (simp add: edit_char_def incoming_def edit_tty_def I_CRNL_def I_NOCR_def I_NLCR_def I_UCLC_def I_FLAG_def L_CANON_def
      L_ISIG_def L_FLAG_def is_cc_def VKILL_def VERASE_def VSTOP_def VSTART_def VINTR_def VQUIT_def VEOF_def line_end_def)

theorem copy_to_cooked_edits_witness:
  "queue_chars (secondary (tty_table (copy_to_cooked (tty_device 1) 0 (demo_kernel\<lparr>tty_table := (\<lambda>_. edit_tty)\<rparr>)) 0))
    = [97, 99, 10]"
proof -
  let ?s = "demo_kernel\<lparr>tty_table := (\<lambda>_. edit_tty)\<rparr>"
  have "queue_ok (edit_queue cs) \<and> queue_chars (edit_queue cs) = cs" if "length cs < 1024" for cs
    using tq.put_all_elems [of "\<lparr>q_data = 0, q_head = 0, q_tail = 0, q_proc_list = None, q_buf = (\<lambda>_. 0)\<rparr>" cs] that
    by (simp add: edit_queue_def queue_ok_def queue_chars_def CHARS_def TTY_BUF_SIZE_def)
  then have "holds 0 edit_tty [97, 98, 127, 99, 10] [] (line_count edit_tty []) ?s" "con_quiet 0 ?s"
    by (simp_all add: holds_def edit_tty_def line_count_def con_quiet_def demo_kernel_def blank_console_def)
      (simp add: edit_queue_def)
  then have "holds 0 edit_tty [] [97, 99, 10] (line_count edit_tty [97, 99, 10]) (copy_to_cooked (tty_device 1) 0 ?s)"
    by (intro copy_to_cooked_edits [OF _ _ edit_tty_edits]) simp_all
  then show ?thesis
    by (simp add: holds_def)
qed

end
