(* ===== verification/Char_Dev.thy ===== *)
theory Char_Dev
  imports Tty File_Dev
begin

text \<open>
  \<open>fs/char_dev.c\<close>, \<open>kernel/chr_drv/tty_ioctl.c\<close> and \<open>fs/ioctl.c\<close>: reading, writing and controlling
  character devices by their device numbers. \<open>wr\<close> is the terminals' device routine.
\<close>

unbundle bit_operations_syntax

section \<open>rw_char\<close>

definition rw_ttyx :: "(nat \<Rightarrow> kstate \<Rightarrow> kstate) \<Rightarrow> rw \<Rightarrow> nat \<Rightarrow> u32 \<Rightarrow> int \<Rightarrow> int kop" where
  "rw_ttyx wr rw minor ubuf count s =
    (if rw = READ then tty_read minor ubuf count s else tty_write wr minor ubuf count s)"

definition rw_tty :: "(nat \<Rightarrow> kstate \<Rightarrow> kstate) \<Rightarrow> rw \<Rightarrow> nat \<Rightarrow> u32 \<Rightarrow> int \<Rightarrow> int kop" where
  "rw_tty wr rw minor ubuf count s =
    (if t_tty (me s) < 0 then ret (- EPERM) s
     else rw_ttyx wr rw (nat (t_tty (me s))) ubuf count s)"

definition rw_ram :: "int kop" where "rw_ram s = ret (- EIO) s"
definition rw_mem :: "int kop" where "rw_mem s = ret (- EIO) s"
definition rw_kmem :: "int kop" where "rw_kmem s = ret (- EIO) s"

text \<open>The loop over the ports from the file position on, up to port 65535.\<close>

definition rw_port :: "rw \<Rightarrow> u32 \<Rightarrow> int \<Rightarrow> nat \<Rightarrow> int kop" where
  "rw_port rw ubuf count filp s =
    (let pos = f_pos (file_table s filp);
         n = nat (min count (65536 - pos));
         step = (\<lambda>k s. let port = nat ((pos + int k) mod 65536)
                       in if rw = READ then s\<lparr>umem := (umem s)(ubuf + of_nat k := port_in s port)\<rparr>
                          else outb (umem s (ubuf + of_nat k)) port s);
         s = fold step [0..<n] s
     in ret (int n) (upd_file filp (\<lambda>f. f\<lparr>f_pos := pos + int n\<rparr>) s))"

definition rw_memory :: "rw \<Rightarrow> nat \<Rightarrow> u32 \<Rightarrow> int \<Rightarrow> nat \<Rightarrow> int kop" where
  "rw_memory rw minor ubuf count filp s =
    (if minor = 0 then rw_ram s
     else if minor = 1 then rw_mem s
     else if minor = 2 then rw_kmem s
     else if minor = 3 then ret (if rw = READ then 0 else count) s
     else if minor = 4 then rw_port rw ubuf count filp s
     else ret (- EIO) s)"

text \<open>The table of character devices has eight entries, \<open>NULL\<close> but for 1, 4 and 5.\<close>

definition rw_char :: "(nat \<Rightarrow> kstate \<Rightarrow> kstate) \<Rightarrow> rw \<Rightarrow> u16 \<Rightarrow> u32 \<Rightarrow> int \<Rightarrow> nat \<Rightarrow> int kop" where
  "rw_char wr rw dev ubuf count filp s =
    (if MAJOR dev = 1 then rw_memory rw (MINOR dev) ubuf count filp s
     else if MAJOR dev = 4 then rw_ttyx wr rw (MINOR dev) ubuf count s
     else if MAJOR dev = 5 then rw_tty wr rw (MINOR dev) ubuf count s
     else ret (- ENODEV) s)"

section \<open>Terminal settings\<close>

definition quotient :: "nat list" where
  "quotient = [0, 2304, 1536, 1047, 857, 768, 576, 384, 192, 96, 64, 48, 24, 12, 6, 3]"

definition change_speed :: "nat \<Rightarrow> kstate \<Rightarrow> kstate" where
  "change_speed t s =
    (let port = unat (ucast (q_data (read_q (tty_table s t))) :: u16)
     in if port = 0 then s
        else
          let quot = quotient ! unat (c_cflag (termios (tty_table s t)) AND 15)
          in outb 3 (port + 3) (outb (of_nat (quot div 256)) (port + 1)
               (outb (of_nat (quot mod 256)) port (outb 0x80 (port + 3) s))))"

definition flush :: "tty_queue \<Rightarrow> tty_queue" where
  "flush q = q\<lparr>q_head := q_tail q\<rparr>"

text \<open>A \<open>struct termios\<close> as its 36 bytes; the last two are padding, which stays as it is.\<close>

definition termios_byte :: "termios_t \<Rightarrow> nat \<Rightarrow> u8" where
  "termios_byte t k =
    (let long = (\<lambda>v j. ucast (drop_bit (8 * j) v))
     in if k < 4 then long (c_iflag t) k
        else if k < 8 then long (c_oflag t) (k - 4)
        else if k < 12 then long (c_cflag t) (k - 8)
        else if k < 16 then long (c_lflag t) (k - 12)
        else if k = 16 then c_line t
        else c_cc t (k - 17))"

definition get_termios :: "nat \<Rightarrow> u32 \<Rightarrow> int kop" where
  "get_termios t a s =
    bindK (verify_area a 36 s) (\<lambda>_ s. ret 0 (copy_to_user (termios_byte (termios (tty_table s t))) a 36 s))"

definition set_termios :: "nat \<Rightarrow> u32 \<Rightarrow> int kop" where
  "set_termios t a s =
    (let m = umem s;
         tio = \<lparr>c_iflag = get_fs_long m a, c_oflag = get_fs_long m (a + 4), c_cflag = get_fs_long m (a + 8),
                c_lflag = get_fs_long m (a + 12), c_line = m (a + 16), c_cc = (\<lambda>k. m (a + 17 + of_nat k))\<rparr>
     in ret 0 (change_speed t (upd_tty t (\<lambda>t. t\<lparr>termios := tio\<rparr>) s)))"

text \<open>A \<open>struct termio\<close>: four 16-bit flags, the line discipline and eight control characters; its last
  byte is padding and carries what the kernel's stack held.\<close>

definition get_termio :: "(nat \<Rightarrow> u8) \<Rightarrow> nat \<Rightarrow> u32 \<Rightarrow> int kop" where
  "get_termio stack t a s =
    (let tio = termios (tty_table s t);
         short = (\<lambda>v j. ucast (drop_bit (8 * j) v));
         byte = (\<lambda>k. if k < 2 then short (c_iflag tio) k else if k < 4 then short (c_oflag tio) (k - 2)
                     else if k < 6 then short (c_cflag tio) (k - 4) else if k < 8 then short (c_lflag tio) (k - 6)
                     else if k = 8 then c_line tio else if k < 17 then c_cc tio (k - 9) else stack k)
     in bindK (verify_area a 18 s) (\<lambda>_ s. ret 0 (copy_to_user byte a 18 s)))"

text \<open>Only the low halves of the flags are set.\<close>

definition set_low16 :: "u32 \<Rightarrow> u16 \<Rightarrow> u32" where
  "set_low16 v w = (v AND 0xFFFF0000) OR ucast w"

definition get_fs_word :: "(u32 \<Rightarrow> u8) \<Rightarrow> u32 \<Rightarrow> u16" where
  "get_fs_word m a = ucast (m a) OR push_bit 8 (ucast (m (a + 1)))"

definition set_termio :: "nat \<Rightarrow> u32 \<Rightarrow> int kop" where
  "set_termio t a s =
    (let m = umem s;
         upd = (\<lambda>tio. tio\<lparr>c_iflag := set_low16 (c_iflag tio) (get_fs_word m a),
                  c_oflag := set_low16 (c_oflag tio) (get_fs_word m (a + 2)),
                  c_cflag := set_low16 (c_cflag tio) (get_fs_word m (a + 4)),
                  c_lflag := set_low16 (c_lflag tio) (get_fs_word m (a + 6)),
                  c_line := m (a + 8),
                  c_cc := (\<lambda>k. if k < 8 then m (a + 9 + of_nat k) else c_cc tio k)\<rparr>)
     in ret 0 (change_speed t (upd_tty t (\<lambda>t. t\<lparr>termios := upd (termios t)\<rparr>) s)))"

definition flush_read :: "nat \<Rightarrow> kstate \<Rightarrow> kstate" where
  "flush_read t = upd_tty t (\<lambda>t. t\<lparr>read_q := flush (read_q t)\<rparr>)"

definition flush_write :: "nat \<Rightarrow> kstate \<Rightarrow> kstate" where
  "flush_write t = upd_tty t (\<lambda>t. t\<lparr>write_q := flush (write_q t)\<rparr>)"

definition put_user_long :: "u32 \<Rightarrow> u32 \<Rightarrow> int kop" where
  "put_user_long v a s =
    bindK (verify_area a 4 s) (\<lambda>_ s. ret 0 (s\<lparr>umem := put_fs_long v a (umem s)\<rparr>))"

definition tty_ioctl :: "(nat \<Rightarrow> u8) \<Rightarrow> u16 \<Rightarrow> u32 \<Rightarrow> u32 \<Rightarrow> int kop" where
  "tty_ioctl stack dev cmd arg s =
    (if MAJOR dev = 5 \<and> t_tty (me s) < 0 then panic ''tty_ioctl: dev<0''
     else
       let t = (if MAJOR dev = 5 then nat (t_tty (me s)) else MINOR dev)
       in if cmd = 0x5401 then get_termios t arg s
          else if cmd = 0x5404 then set_termios t arg (flush_read t s)
          else if cmd = 0x5403 \<or> cmd = 0x5402 then set_termios t arg s
          else if cmd = 0x5405 then get_termio stack t arg s
          else if cmd = 0x5408 then set_termio t arg (flush_read t s)
          else if cmd = 0x5407 \<or> cmd = 0x5406 then set_termio t arg s
          else if cmd = 0x5409 then ret 0 s
          else if cmd = 0x540B then
            (if arg = 0 then ret 0 (flush_read t s)
             else if arg = 1 then ret 0 (flush_write t s)
             else if arg = 2 then ret 0 (flush_write t (flush_read t s))
             else ret (- EINVAL) s)
          else if cmd = 0x540F then
            put_user_long (of_int (tty_pgrp (tty_table s t))) arg s
          else if cmd = 0x5410 then
            ret 0 (upd_tty t (\<lambda>t. t\<lparr>tty_pgrp := sint (get_fs_long (umem s) arg)\<rparr>) s)
          else if cmd = 0x5411 then
            put_user_long (of_nat (CHARS (write_q (tty_table s t)))) arg s
          else if cmd = 0x541B then
            put_user_long (of_nat (CHARS (secondary (tty_table s t)))) arg s
          else ret (- EINVAL) s)"

definition sys_ioctl :: "(nat \<Rightarrow> u8) \<Rightarrow> u32 \<Rightarrow> u32 \<Rightarrow> u32 \<Rightarrow> int kop" where
  "sys_ioctl stack fd cmd arg s =
    (case (if unat fd \<ge> NR_OPEN then None else t_filp (me s) (unat fd)) of
       None \<Rightarrow> ret (- EBADF) s
     | Some filp \<Rightarrow>
         (case f_inode (file_table s filp) of
            None \<Rightarrow> fault s
          | Some i \<Rightarrow>
              let n = inode_table s i; dev = i_zone n 0
              in if \<not> S_ISCHR (i_mode n) \<and> \<not> S_ISBLK (i_mode n) then ret (- EINVAL) s
                 else if MAJOR dev \<ge> 8 then ret (- ENODEV) s
                 else if MAJOR dev \<noteq> 4 \<and> MAJOR dev \<noteq> 5 then ret (- ENOTTY) s
                 else tty_ioctl stack dev cmd arg s))"

end
