(* ===== verification/Files.thy ===== *)
theory Files
  imports Names Pipe Char_Dev
begin

text \<open>
  Open files and descriptors: \<open>fs/open.c\<close>, \<open>fs/read_write.c\<close>, \<open>fs/fcntl.c\<close> and \<open>fs/stat.c\<close>. A descriptor
  of the current process refers to an entry of \<open>file_table\<close>, which counts the descriptors that share it.
\<close>

unbundle bit_operations_syntax

section \<open>Names and attributes\<close>

definition sys_ustat :: "u16 \<Rightarrow> u32 \<Rightarrow> int kop" where
  "sys_ustat dev ubuf s = ret (- ENOSYS) s"

definition sys_utime :: "u32 \<Rightarrow> u32 \<Rightarrow> int kop" where
  "sys_utime filename tbuf s =
    bindK (namei filename s) (\<lambda>r s.
      case r of
        None \<Rightarrow> ret (- ENOENT) s
      | Some i \<Rightarrow>
          let (a, m) = (if tbuf \<noteq> 0 then (get_fs_long (umem s) tbuf, get_fs_long (umem s) (tbuf + 4))
                        else (now s, now s))
          in leave [iput (Some i)] 0 (upd_inode i (\<lambda>n. n\<lparr>i_atime := a, i_mtime := m, i_dirt := 1\<rparr>) s))"

text \<open>The mode bits that \<open>sys_access\<close> looks at: those of the owner also for the group.\<close>

definition sys_access :: "u32 \<Rightarrow> u16 \<Rightarrow> int kop" where
  "sys_access filename mode s =
    (let mode = mode AND 7
     in bindK (namei filename s) (\<lambda>r s.
        case r of
          None \<Rightarrow> ret (- EACCES) s
        | Some i \<Rightarrow>
            let im = i_mode (inode_table s i) AND 0x1FF
            in bindK (iput (Some i) s) (\<lambda>_ s.
               let n = inode_table s i;
                   res = (if t_uid (me s) = i_uid n then drop_bit 6 im
                          else if t_gid (me s) = ucast (i_gid n) then drop_bit 6 im else im)
               in if (res AND 7 AND mode) = mode then ret 0 s
                  else if t_uid (me s) = 0 \<and> (mode AND 1 = 0 \<or> im AND 0x49 \<noteq> 0) then ret 0 s
                  else ret (- EACCES) s)))"

definition sys_chdir :: "u32 \<Rightarrow> int kop" where
  "sys_chdir filename s =
    bindK (namei filename s) (\<lambda>r s.
      case r of
        None \<Rightarrow> ret (- ENOENT) s
      | Some i \<Rightarrow>
          if \<not> S_ISDIR (i_mode (inode_table s i)) then leave [iput (Some i)] (- ENOTDIR) s
          else bindK (iput (t_pwd (me s)) s) (\<lambda>_ s. ret 0 (upd_me (\<lambda>p. p\<lparr>t_pwd := Some i\<rparr>) s)))"

definition sys_chroot :: "u32 \<Rightarrow> int kop" where
  "sys_chroot filename s =
    bindK (namei filename s) (\<lambda>r s.
      case r of
        None \<Rightarrow> ret (- ENOENT) s
      | Some i \<Rightarrow>
          if \<not> S_ISDIR (i_mode (inode_table s i)) then leave [iput (Some i)] (- ENOTDIR) s
          else bindK (iput (t_root (me s)) s) (\<lambda>_ s. ret 0 (upd_me (\<lambda>p. p\<lparr>t_root := Some i\<rparr>) s)))"

definition sys_chmod :: "u32 \<Rightarrow> u16 \<Rightarrow> int kop" where
  "sys_chmod filename mode s =
    bindK (namei filename s) (\<lambda>r s.
      case r of
        None \<Rightarrow> ret (- ENOENT) s
      | Some i \<Rightarrow>
          if t_euid (me s) \<noteq> i_uid (inode_table s i) \<and> \<not> suser s then leave [iput (Some i)] (- EACCES) s
          else leave [iput (Some i)] 0
                 (upd_inode i (\<lambda>n. n\<lparr>i_mode := (mode AND 0xFFF) OR (i_mode n AND NOT 0xFFF), i_dirt := 1\<rparr>) s))"

definition sys_chown :: "u32 \<Rightarrow> u16 \<Rightarrow> u8 \<Rightarrow> int kop" where
  "sys_chown filename uid gid s =
    bindK (namei filename s) (\<lambda>r s.
      case r of
        None \<Rightarrow> ret (- ENOENT) s
      | Some i \<Rightarrow>
          if \<not> suser s then leave [iput (Some i)] (- EACCES) s
          else leave [iput (Some i)] 0 (upd_inode i (\<lambda>n. n\<lparr>i_uid := uid, i_gid := gid, i_dirt := 1\<rparr>) s))"

section \<open>open and close\<close>

definition fd_bit :: "nat \<Rightarrow> u32" where "fd_bit fd = push_bit fd 1"

text \<open>What \<open>sys_open\<close> does for a terminal: \<open>None\<close> when the process has none for \<open>/dev/tty\<close>.\<close>

definition open_tty :: "nat \<Rightarrow> kstate \<Rightarrow> kstate option" where
  "open_tty inode s =
    (let dev = i_zone (inode_table s inode) 0
     in if \<not> S_ISCHR (i_mode (inode_table s inode)) then Some s
        else if MAJOR dev = 4 then
          (if t_leader (me s) \<noteq> 0 \<and> t_tty (me s) < 0
           then let s = upd_me (\<lambda>p. p\<lparr>t_tty := int (MINOR dev)\<rparr>) s
                in Some (upd_tty (MINOR dev) (\<lambda>t. t\<lparr>tty_pgrp := t_pgrp (me s)\<rparr>) s)
           else Some s)
        else if MAJOR dev = 5 \<and> t_tty (me s) < 0 then None
        else Some s)"

definition sys_open :: "u32 \<Rightarrow> u32 \<Rightarrow> u16 \<Rightarrow> int kop" where
  "sys_open filename flag mode s =
    (let mode = mode AND 0x1FF AND NOT (t_umask (me s))
     in case find (\<lambda>fd. t_filp (me s) fd = None) [0..<NR_OPEN] of
          None \<Rightarrow> ret (- EINVAL) s
        | Some fd \<Rightarrow>
            let s = upd_me (\<lambda>p. p\<lparr>t_close_on_exec := t_close_on_exec p AND NOT (fd_bit fd)\<rparr>) s
            in (case find (\<lambda>f. f_count (file_table s f) = 0) [0..<NR_FILE] of
                  None \<Rightarrow> ret (- EINVAL) s
                | Some f \<Rightarrow>
                    let s = upd_file f (\<lambda>x. x\<lparr>f_count := f_count x + 1\<rparr>) (set_filp fd (Some f) s)
                    in bindK (open_namei filename flag mode s) (\<lambda>r s.
                       case r of
                         Inl e \<Rightarrow> ret e (upd_file f (\<lambda>x. x\<lparr>f_count := 0\<rparr>) (set_filp fd None s))
                       | Inr inode \<Rightarrow>
                           (case open_tty inode s of
                              None \<Rightarrow>
                                bindK (iput (Some inode) s) (\<lambda>_ s.
                                ret (- EPERM) (upd_file f (\<lambda>x. x\<lparr>f_count := 0\<rparr>) (set_filp fd None s)))
                            | Some s \<Rightarrow>
                                bindK (if S_ISBLK (i_mode (inode_table s inode))
                                       then check_disk_change (i_zone (inode_table s inode) 0) s else ret () s) (\<lambda>_ s.
                                ret (int fd)
                                  (upd_file f (\<lambda>_. \<lparr>f_mode = i_mode (inode_table s inode), f_flags = ucast flag,
                                     f_count = 1, f_inode = Some inode, f_pos = 0\<rparr>) s))))))"

definition sys_creat :: "u32 \<Rightarrow> u16 \<Rightarrow> int kop" where
  "sys_creat pathname mode = sys_open pathname (O_CREAT OR O_TRUNC) mode"

definition sys_close :: "u32 \<Rightarrow> int kop" where
  "sys_close fd s =
    (if unat fd \<ge> NR_OPEN then ret (- EINVAL) s
     else
       let s = upd_me (\<lambda>p. p\<lparr>t_close_on_exec := t_close_on_exec p AND NOT (fd_bit (unat fd))\<rparr>) s
       in case t_filp (me s) (unat fd) of
            None \<Rightarrow> ret (- EINVAL) s
          | Some f \<Rightarrow>
              let s = set_filp (unat fd) None s
              in if f_count (file_table s f) = 0 then panic ''Close: file count is 0''
                 else
                   let s = upd_file f (\<lambda>x. x\<lparr>f_count := f_count x - 1\<rparr>) s
                   in if f_count (file_table s f) \<noteq> 0 then ret 0 s
                      else leave [iput (f_inode (file_table s f))] 0 s)"

section \<open>fcntl\<close>

definition dupfd :: "u32 \<Rightarrow> u32 \<Rightarrow> int kop" where
  "dupfd fd arg s =
    (case (if unat fd \<ge> NR_OPEN then None else t_filp (me s) (unat fd)) of
       None \<Rightarrow> ret (- EBADF) s
     | Some f \<Rightarrow>
         if unat arg \<ge> NR_OPEN then ret (- EINVAL) s
         else
           (case find (\<lambda>i. t_filp (me s) i = None) [unat arg..<NR_OPEN] of
              None \<Rightarrow> ret (- EMFILE) s
            | Some i \<Rightarrow>
                let s = upd_me (\<lambda>p. p\<lparr>t_close_on_exec := t_close_on_exec p AND NOT (fd_bit i)\<rparr>) s
                in ret (int i) (upd_file f (\<lambda>x. x\<lparr>f_count := f_count x + 1\<rparr>) (set_filp i (Some f) s))))"

definition sys_dup2 :: "u32 \<Rightarrow> u32 \<Rightarrow> int kop" where
  "sys_dup2 oldfd newfd s = bindK (sys_close newfd s) (\<lambda>_ s. dupfd oldfd newfd s)"

definition sys_dup :: "u32 \<Rightarrow> int kop" where
  "sys_dup fildes s = dupfd fildes 0 s"

definition sys_fcntl :: "u32 \<Rightarrow> u32 \<Rightarrow> u32 \<Rightarrow> int kop" where
  "sys_fcntl fd cmd arg s =
    (case (if unat fd \<ge> NR_OPEN then None else t_filp (me s) (unat fd)) of
       None \<Rightarrow> ret (- EBADF) s
     | Some f \<Rightarrow>
         if cmd = 0 then dupfd fd arg s
         else if cmd = 1 then ret (if bit (t_close_on_exec (me s)) (unat fd) then 1 else 0) s
         else if cmd = 2 then
           ret 0 (upd_me (\<lambda>p. p\<lparr>t_close_on_exec := (if bit arg 0 then t_close_on_exec p OR fd_bit (unat fd)
                                   else t_close_on_exec p AND NOT (fd_bit (unat fd)))\<rparr>) s)
         else if cmd = 3 then ret (int (unat (f_flags (file_table s f)))) s
         else if cmd = 4 then
           ret 0 (upd_file f (\<lambda>x. x\<lparr>f_flags := (f_flags x AND NOT 0xC00) OR (ucast arg AND 0xC00)\<rparr>) s)
         else ret (- 1) s)"

section \<open>stat\<close>

text \<open>The 32 bytes of a \<open>struct stat\<close>; the three bytes of padding carry what the stack held.\<close>

definition stat_byte :: "(nat \<Rightarrow> u8) \<Rightarrow> m_inode \<Rightarrow> nat \<Rightarrow> u8" where
  "stat_byte stack n k =
    (let part = (\<lambda>v j. ucast (drop_bit (8 * j) (v :: u32)))
     in if k < 2 then part (ucast (i_dev n)) k
        else if k < 4 then part (ucast (i_num n)) (k - 2)
        else if k < 6 then part (ucast (i_mode n)) (k - 4)
        else if k = 6 then i_nlinks n
        else if k = 7 then stack k
        else if k < 10 then part (ucast (i_uid n)) (k - 8)
        else if k = 10 then i_gid n
        else if k = 11 then stack k
        else if k < 14 then part (ucast (i_zone n 0)) (k - 12)
        else if k < 16 then stack k
        else if k < 20 then part (i_size n) (k - 16)
        else if k < 24 then part (i_atime n) (k - 20)
        else if k < 28 then part (i_mtime n) (k - 24)
        else part (i_ctime n) (k - 28))"

definition cp_stat :: "(nat \<Rightarrow> u8) \<Rightarrow> nat \<Rightarrow> u32 \<Rightarrow> unit kop" where
  "cp_stat stack inode statbuf s =
    bindK (verify_area statbuf 32 s) (\<lambda>_ s.
    ret () (copy_to_user (stat_byte stack (inode_table s inode)) statbuf 32 s))"

definition sys_stat :: "(nat \<Rightarrow> u8) \<Rightarrow> u32 \<Rightarrow> u32 \<Rightarrow> int kop" where
  "sys_stat stack filename statbuf s =
    bindK (namei filename s) (\<lambda>r s.
      case r of
        None \<Rightarrow> ret (- ENOENT) s
      | Some i \<Rightarrow> leave [cp_stat stack i statbuf, iput (Some i)] 0 s)"

definition sys_fstat :: "(nat \<Rightarrow> u8) \<Rightarrow> u32 \<Rightarrow> u32 \<Rightarrow> int kop" where
  "sys_fstat stack fd statbuf s =
    (case (if unat fd \<ge> NR_OPEN then None else t_filp (me s) (unat fd)) of
       None \<Rightarrow> ret (- EBADF) s
     | Some f \<Rightarrow>
         (case f_inode (file_table s f) of
            None \<Rightarrow> ret (- EBADF) s
          | Some i \<Rightarrow> leave [cp_stat stack i statbuf] 0 s))"

section \<open>read, write and lseek\<close>

definition IS_SEEKABLE :: "nat \<Rightarrow> bool" where "IS_SEEKABLE x \<longleftrightarrow> 1 \<le> x \<and> x \<le> 3"

definition sys_lseek :: "u32 \<Rightarrow> int \<Rightarrow> int \<Rightarrow> int kop" where
  "sys_lseek fd offset whence s =
    (case (if unat fd \<ge> NR_OPEN then None else t_filp (me s) (unat fd)) of
       None \<Rightarrow> ret (- EBADF) s
     | Some f \<Rightarrow>
         (case f_inode (file_table s f) of
            None \<Rightarrow> ret (- EBADF) s
          | Some i \<Rightarrow>
              let n = inode_table s i; pos = f_pos (file_table s f);
                  seek = (\<lambda>p. if p < 0 then ret (- EINVAL) s else ret p (upd_file f (\<lambda>x. x\<lparr>f_pos := p\<rparr>) s))
              in if \<not> IS_SEEKABLE (MAJOR (i_dev n)) then ret (- EBADF) s
                 else if i_pipe n \<noteq> 0 then ret (- ESPIPE) s
                 else if whence = 0 then seek offset
                 else if whence = 1 then seek (s32 (pos + offset))
                 else if whence = 2 then seek (s32 (int (unat (i_size n)) + offset))
                 else ret (- EINVAL) s))"

definition sys_read :: "(nat \<Rightarrow> kstate \<Rightarrow> kstate) \<Rightarrow> u32 \<Rightarrow> u32 \<Rightarrow> int \<Rightarrow> int kop" where
  "sys_read wr fd ubuf count s =
    (case (if unat fd \<ge> NR_OPEN \<or> count < 0 then None else t_filp (me s) (unat fd)) of
       None \<Rightarrow> ret (- EINVAL) s
     | Some f \<Rightarrow>
         if count = 0 then ret 0 s
         else
           bindK (verify_area ubuf count s) (\<lambda>_ s.
           case f_inode (file_table s f) of
              None \<Rightarrow> fault s
            | Some i \<Rightarrow>
                let n = inode_table s i; pos = f_pos (file_table s f)
                in if i_pipe n \<noteq> 0 then
                     (if bit (f_mode (file_table s f)) 0 then read_pipe i ubuf count s else ret (- EIO) s)
                   else if S_ISCHR (i_mode n) then rw_char wr READ (i_zone n 0) ubuf count f s
                   else if S_ISBLK (i_mode n) then block_read (i_zone n 0) f ubuf count s
                   else if S_ISDIR (i_mode n) \<or> S_ISREG (i_mode n) then
                     let count = (if (of_int (count + pos) :: u32) > i_size n
                                  then sint (i_size n - of_int pos) else count)
                     in if count \<le> 0 then ret 0 s else file_read i f ubuf count s
                   else ret (- EINVAL) s))"

definition sys_write :: "(nat \<Rightarrow> kstate \<Rightarrow> kstate) \<Rightarrow> u32 \<Rightarrow> u32 \<Rightarrow> int \<Rightarrow> int kop" where
  "sys_write wr fd ubuf count s =
    (case (if unat fd \<ge> NR_OPEN \<or> count < 0 then None else t_filp (me s) (unat fd)) of
       None \<Rightarrow> ret (- EINVAL) s
     | Some f \<Rightarrow>
         if count = 0 then ret 0 s
         else
           (case f_inode (file_table s f) of
              None \<Rightarrow> fault s
            | Some i \<Rightarrow>
                let n = inode_table s i
                in if i_pipe n \<noteq> 0 then
                     (if bit (f_mode (file_table s f)) 1 then write_pipe i ubuf count s else ret (- EIO) s)
                   else if S_ISCHR (i_mode n) then rw_char wr WRITE (i_zone n 0) ubuf count f s
                   else if S_ISBLK (i_mode n) then block_write (i_zone n 0) f ubuf count s
                   else if S_ISREG (i_mode n) then file_write i f ubuf count s
                   else ret (- EINVAL) s))"

end
