(* ===== verification/Sys.thy ===== *)
theory Sys
  imports Kstate
begin

text \<open>
  \<open>kernel/sys.c\<close> and the mask and handler calls of \<open>kernel/signal.c\<close>: system calls on the task structure
  of the caller.
\<close>

unbundle bit_operations_syntax

section \<open>Calls that are not there\<close>

definition sys_ftime :: "int kop" where "sys_ftime s = ret (- ENOSYS) s"
definition sys_break :: "int kop" where "sys_break s = ret (- ENOSYS) s"
definition sys_ptrace :: "int kop" where "sys_ptrace s = ret (- ENOSYS) s"
definition sys_stty :: "int kop" where "sys_stty s = ret (- ENOSYS) s"
definition sys_gtty :: "int kop" where "sys_gtty s = ret (- ENOSYS) s"
definition sys_rename :: "int kop" where "sys_rename s = ret (- ENOSYS) s"
definition sys_prof :: "int kop" where "sys_prof s = ret (- ENOSYS) s"
definition sys_acct :: "int kop" where "sys_acct s = ret (- ENOSYS) s"
definition sys_phys :: "int kop" where "sys_phys s = ret (- ENOSYS) s"
definition sys_lock :: "int kop" where "sys_lock s = ret (- ENOSYS) s"
definition sys_mpx :: "int kop" where "sys_mpx s = ret (- ENOSYS) s"
definition sys_ulimit :: "int kop" where "sys_ulimit s = ret (- ENOSYS) s"

section \<open>User and group ids\<close>

text \<open>An id is an \<open>int\<close> argument compared with the 16-bit ids of the task.\<close>

definition sys_setregid :: "int \<Rightarrow> int \<Rightarrow> int kop" where
  "sys_setregid rgid egid s =
    (if rgid > 0 \<and> \<not> (int (unat (t_gid (me s))) = rgid \<or> suser s) then ret (- EPERM) s
     else
       let s = (if rgid > 0 then upd_me (\<lambda>p. p\<lparr>t_gid := of_int rgid\<rparr>) s else s)
       in if egid > 0 then
            if int (unat (t_gid (me s))) = egid \<or> int (unat (t_egid (me s))) = egid
               \<or> int (unat (t_sgid (me s))) = egid \<or> suser s
            then ret 0 (upd_me (\<lambda>p. p\<lparr>t_egid := of_int egid\<rparr>) s)
            else ret (- EPERM) s
          else ret 0 s)"

definition sys_setgid :: "int \<Rightarrow> int kop" where
  "sys_setgid gid = sys_setregid gid gid"

definition sys_setreuid :: "int \<Rightarrow> int \<Rightarrow> int kop" where
  "sys_setreuid ruid euid s =
    (let old_ruid = t_uid (me s)
     in if ruid > 0 \<and> \<not> (int (unat (t_euid (me s))) = ruid \<or> int (unat old_ruid) = ruid \<or> suser s)
        then ret (- EPERM) s
        else
          let s = (if ruid > 0 then upd_me (\<lambda>p. p\<lparr>t_uid := of_int ruid\<rparr>) s else s)
          in if euid > 0 then
               if int (unat old_ruid) = euid \<or> int (unat (t_euid (me s))) = euid \<or> suser s
               then ret 0 (upd_me (\<lambda>p. p\<lparr>t_euid := of_int euid\<rparr>) s)
               else ret (- EPERM) (upd_me (\<lambda>p. p\<lparr>t_uid := old_ruid\<rparr>) s)
             else ret 0 s)"

definition sys_setuid :: "int \<Rightarrow> int kop" where
  "sys_setuid uid = sys_setreuid uid uid"

section \<open>Time\<close>

definition sys_time :: "u32 \<Rightarrow> int kop" where
  "sys_time tloc s =
    (let i = CURRENT_TIME (sch s)
     in if tloc \<noteq> 0
        then bindK (verify_area tloc 4 s) (\<lambda>_ s. ret i (s\<lparr>umem := put_fs_long (of_int i) tloc (umem s)\<rparr>))
        else ret i s)"

definition sys_stime :: "u32 \<Rightarrow> int kop" where
  "sys_stime tptr s =
    (if \<not> suser s then ret (- EPERM) s
     else ret 0 (s\<lparr>sch := (sch s)\<lparr>startup_time :=
            s32 (sint (get_fs_long (umem s) tptr) - jiffies (sch s) div HZ)\<rparr>\<rparr>))"

definition sys_times :: "u32 \<Rightarrow> int kop" where
  "sys_times tbuf s =
    (if tbuf \<noteq> 0 then
       bindK (verify_area tbuf 16 s) (\<lambda>_ s.
       let p = me s; m = umem s;
           m = put_fs_long (of_int (t_utime p)) tbuf m;
           m = put_fs_long (of_int (t_stime p)) (tbuf + 4) m;
           m = put_fs_long (of_int (t_cutime p)) (tbuf + 8) m;
           m = put_fs_long (of_int (t_cstime p)) (tbuf + 12) m
       in ret (jiffies (sch s)) (s\<lparr>umem := m\<rparr>))
     else ret (jiffies (sch s)) s)"

section \<open>Memory and process groups\<close>

definition sys_brk :: "u32 \<Rightarrow> int kop" where
  "sys_brk end_data_seg s =
    (let s = (if end_data_seg \<ge> t_end_code (me s) \<and> end_data_seg < t_start_stack (me s) - 16384
              then upd_me (\<lambda>p. p\<lparr>t_brk := end_data_seg\<rparr>) s else s)
     in ret (sint (t_brk (me s))) s)"

definition sys_setpgid :: "int \<Rightarrow> int \<Rightarrow> int kop" where
  "sys_setpgid pid pgid s =
    (let pid = (if pid = 0 then t_pid (me s) else pid);
         pgid = (if pgid = 0 then t_pid (me s) else pgid)
     in case find (\<lambda>i. case task (sch s) i of Some p \<Rightarrow> t_pid p = pid | None \<Rightarrow> False) [0..<NR_TASKS] of
          None \<Rightarrow> ret (- ESRCH) s
        | Some i \<Rightarrow>
            let p = the_task (sch s) i
            in if t_leader p \<noteq> 0 then ret (- EPERM) s
               else if t_session p \<noteq> t_session (me s) then ret (- EPERM) s
               else ret 0 (s\<lparr>sch := upd_task i (\<lambda>p. p\<lparr>t_pgrp := pgid\<rparr>) (sch s)\<rparr>))"

definition sys_getpgrp :: "int kop" where
  "sys_getpgrp s = ret (t_pgrp (me s)) s"

definition sys_setsid :: "int kop" where
  "sys_setsid s =
    (if t_leader (me s) \<noteq> 0 \<and> \<not> suser s then ret (- EPERM) s
     else
       let s = upd_me (\<lambda>p. p\<lparr>t_leader := 1, t_session := t_pid p, t_pgrp := t_pid p, t_tty := -1\<rparr>) s
       in ret (t_pgrp (me s)) s)"

text \<open>The five fields of nine characters of \<open>struct utsname\<close>.\<close>

definition thisname :: "u8 list" where
  "thisname = map (\<lambda>c. of_nat (of_char c))
     (''linux .0'' @ [CHR 0x00] @ ''nodename'' @ [CHR 0x00] @ ''release '' @ [CHR 0x00]
      @ ''version '' @ [CHR 0x00] @ ''machine '' @ [CHR 0x00])"

definition sys_uname :: "u32 \<Rightarrow> int kop" where
  "sys_uname name s =
    (if name = 0 then ret (- ERROR) s
     else bindK (verify_area name 45 s) (\<lambda>_ s.
       ret 0 (s\<lparr>umem := fold (\<lambda>k m. m(name + of_nat k := thisname ! k)) [0..<45] (umem s)\<rparr>)))"

definition sys_umask :: "u16 \<Rightarrow> int kop" where
  "sys_umask new s =
    (let old = t_umask (me s) in ret (int (unat old)) (upd_me (\<lambda>p. p\<lparr>t_umask := new AND 0x1FF\<rparr>) s))"

section \<open>Signal masks and handlers\<close>

definition SA_NOMASK :: u32 where "SA_NOMASK = 0x40000000"
definition SA_ONESHOT :: u32 where "SA_ONESHOT = 0x80000000"

definition sys_sgetmask :: "int kop" where
  "sys_sgetmask s = ret (sint (t_blocked (me s))) s"

definition sys_ssetmask :: "u32 \<Rightarrow> int kop" where
  "sys_ssetmask newmask s =
    (let old = t_blocked (me s)
     in ret (sint old) (upd_me (\<lambda>p. p\<lparr>t_blocked := newmask AND NOT (sigbit SIGKILL)\<rparr>) s))"

definition set_sigaction :: "nat \<Rightarrow> sigaction_t \<Rightarrow> kstate \<Rightarrow> kstate" where
  "set_sigaction signum sa = upd_me (\<lambda>p. p\<lparr>t_sigaction := (t_sigaction p)(signum - 1 := sa)\<rparr>)"

definition sys_signal :: "int \<Rightarrow> u32 \<Rightarrow> u32 \<Rightarrow> int kop" where
  "sys_signal signum handler restorer s =
    (if signum < 1 \<or> signum > 32 \<or> signum = int SIGKILL then ret (- 1) s
     else
       let n = nat signum;
           tmp = \<lparr>sa_handler = handler, sa_mask = 0, sa_flags = SA_ONESHOT OR SA_NOMASK, sa_restorer = restorer\<rparr>;
           old = sa_handler (t_sigaction (me s) (n - 1))
       in ret (sint old) (set_sigaction n tmp s))"

text \<open>\<open>get_new\<close> and \<open>save_old\<close>: the 16 bytes of a \<open>struct sigaction\<close>, read from and written to the user.\<close>

definition get_new :: "(u32 \<Rightarrow> u8) \<Rightarrow> u32 \<Rightarrow> sigaction_t" where
  "get_new m a = \<lparr>sa_handler = get_fs_long m a, sa_mask = get_fs_long m (a + 4),
     sa_flags = get_fs_long m (a + 8), sa_restorer = get_fs_long m (a + 12)\<rparr>"

definition save_old :: "sigaction_t \<Rightarrow> u32 \<Rightarrow> unit kop" where
  "save_old sa a s =
    bindK (verify_area a 16 s) (\<lambda>_ s.
      let m = put_fs_long (sa_handler sa) a (umem s);
          m = put_fs_long (sa_mask sa) (a + 4) m;
          m = put_fs_long (sa_flags sa) (a + 8) m;
          m = put_fs_long (sa_restorer sa) (a + 12) m
      in ret () (s\<lparr>umem := m\<rparr>))"

definition sys_sigaction :: "int \<Rightarrow> u32 \<Rightarrow> u32 \<Rightarrow> int kop" where
  "sys_sigaction signum action oldaction s =
    (if signum < 1 \<or> signum > 32 \<or> signum = int SIGKILL then ret (- 1) s
     else
       let n = nat signum;
           tmp = t_sigaction (me s) (n - 1);
           s = set_sigaction n (get_new (umem s) action) s
       in bindK (if oldaction \<noteq> 0 then save_old tmp oldaction s else ret () s) (\<lambda>_ s.
          let sa = t_sigaction (me s) (n - 1);
              sa = (if sa_flags sa AND SA_NOMASK \<noteq> 0 then sa\<lparr>sa_mask := 0\<rparr>
                    else sa\<lparr>sa_mask := sa_mask sa OR sigbit n\<rparr>)
          in ret 0 (set_sigaction n sa s)))"

text \<open>
  \<open>do_signal\<close>, called on the way back to user mode with the registers of the process: the frame of a
  handler is put on the user's stack and the instruction pointer set to the handler. The default action
  is \<open>do_exit\<close>. The result is the new \<open>eip\<close> and \<open>esp\<close>.
\<close>

record regs =
  r_eax :: u32
  r_ecx :: u32
  r_edx :: u32
  r_eip :: u32
  r_eflags :: u32
  r_esp :: u32

definition do_signal :: "nat \<Rightarrow> regs \<Rightarrow> (u32 \<times> u32) kop" where
  "do_signal signr r s =
    (let sa = t_sigaction (me s) (signr - 1); handler = sa_handler sa
     in if handler = 1 then ret (r_eip r, r_esp r) s
        else if handler = 0 then
          (if signr = SIGCHLD then ret (r_eip r, r_esp r) s
           else Inl (Exit (sint (sigbit signr)) s))
        else
          let s = (if sa_flags sa AND SA_ONESHOT \<noteq> 0 then set_sigaction signr (sa\<lparr>sa_handler := 0\<rparr>) s else s);
              nomask = (sa_flags sa AND SA_NOMASK \<noteq> 0);
              longs = (if nomask then 7 else 8);
              esp = r_esp r - 4 * longs;
              frame = [sa_restorer sa, of_nat signr] @ (if nomask then [] else [t_blocked (me s)])
                      @ [r_eax r, r_ecx r, r_edx r, r_eflags r, r_eip r]
          in bindK (verify_area esp (4 * (if nomask then 7 else 8)) s) (\<lambda>_ s.
             let m = fold (\<lambda>k m. put_fs_long (frame ! k) (esp + 4 * of_nat k) m) [0..<length frame] (umem s)
             in ret (handler, esp) (upd_me (\<lambda>p. p\<lparr>t_blocked := t_blocked p OR sa_mask sa\<rparr>) (s\<lparr>umem := m\<rparr>))))"

section \<open>User ids and signal frames\<close>

text \<open>A process that is not the super user gets no user id from \<open>sys_setreuid\<close> that it did not have.\<close>

theorem setreuid_confined:
  assumes "\<not> suser s" "task (sch s) (current (sch s)) \<noteq> None"
  shows "\<exists>x s'. sys_setreuid ruid euid s = Inr (x, s') \<and> {t_uid (me s'), t_euid (me s')} \<subseteq> {t_uid (me s), t_euid (me s)}
    \<and> (x = 0 \<or> x = - EPERM \<and> t_uid (me s') = t_uid (me s) \<and> t_euid (me s') = t_euid (me s))"
proof -
  have [simp]: "suser (upd_me (\<lambda>p. p\<lparr>t_uid := u\<rparr>) s) = suser s" for u
    using assms(2) by (simp add: suser_def)
  have id: "int (unat (u :: u16)) = n \<Longrightarrow> of_int n = u" for u n
    by auto
  show ?thesis
    unfolding sys_setreuid_def using assms by (auto simp: Let_def ret_def dest!: id)
qed

theorem setreuid_confined_witness:
  "\<exists>x s'. sys_setreuid 7 0 demo_kernel = Inr (x, s') \<and> t_euid (me s') = 7"
proof -
  have "\<not> suser demo_kernel" "task (sch demo_kernel) (current (sch demo_kernel)) \<noteq> None"
    by (simp_all add: suser_def user_task_def)
  from setreuid_confined [OF this, of 7 0] show ?thesis
    by (auto simp: user_task_def INIT_TASK_def)
qed


text \<open>The frame of a handler: the long words on the user's stack from the new stack pointer on.\<close>

definition user_longs :: "(u32 \<Rightarrow> u8) \<Rightarrow> u32 \<Rightarrow> nat \<Rightarrow> u32 list" where
  "user_longs m a n = map (\<lambda>k. get_fs_long m (a + 4 * of_nat k)) [0..<n]"

lemma user_longs_Suc: "user_longs m a (Suc n) = user_longs m a n @ [get_fs_long m (a + 4 * of_nat n)]"
  by (simp add: user_longs_def)

lemma far_longs:
  assumes "k < n" "n \<le> 1000"
  shows "3 < (p + 4 * of_nat n) - (p + 4 * of_nat k :: u32)" "3 < (p + 4 * of_nat k) - (p + 4 * of_nat n :: u32)"
proof -
  define d where "d = 4 * (n - k)"
  have d: "4 \<le> d" "d \<le> 4000"
    using assms by (simp_all add: d_def)
  have up: "(p + 4 * of_nat n) - (p + 4 * of_nat k :: u32) = of_nat d"
    using assms by (simp add: d_def of_nat_diff algebra_simps)
  have down: "(p + 4 * of_nat k) - (p + 4 * of_nat n :: u32) = - of_nat d"
    using assms by (simp add: d_def of_nat_diff algebra_simps)
  have u: "unat (of_nat d :: u32) = d"
    using d by (simp add: unat_of_nat)
  have three: "unat (3 :: u32) = 3"
    by simp
  have neg: "unat (- of_nat d :: u32) = 4294967296 - d"
  proof -
    have "uint (of_nat d :: u32) = int d"
      using u by (metis uint_nat)
    then show ?thesis
      using d by (simp add: unat_eq_nat_uint uint_word_ariths zmod_zminus1_eq_if nat_diff_distrib)
  qed
  show "3 < (p + 4 * of_nat n) - (p + 4 * of_nat k :: u32)"
    unfolding up word_less_nat_alt u three using d by simp
  show "3 < (p + 4 * of_nat k) - (p + 4 * of_nat n :: u32)"
    unfolding down word_less_nat_alt neg three using d by simp
qed

lemma user_longs_written:
  assumes "n \<le> length xs" "length xs \<le> 1000"
  shows "user_longs (fold (\<lambda>k m. put_fs_long (xs ! k) (p + 4 * of_nat k) m) [0..<n] m) p n = take n xs"
  using assms
proof (induction n)
  case 0
  then show ?case by (simp add: user_longs_def)
next
  case (Suc n)
  let ?m = "fold (\<lambda>k m. put_fs_long (xs ! k) (p + 4 * of_nat k) m) [0..<n] m"
  have "user_longs (put_fs_long (xs ! n) (p + 4 * of_nat n) ?m) p n = user_longs ?m p n"
    unfolding user_longs_def
    by (rule map_cong) (use Suc.prems far_longs [of _ n p] in \<open>auto simp: get_put_fs_long_other\<close>)
  then show ?case
    using Suc by (simp add: user_longs_Suc take_Suc_conv_app_nth)
qed

text \<open>C21. The frame that \<open>do_signal\<close> builds.\<close>

theorem do_signal_frame:
  assumes "task (sch s) (current (sch s)) \<noteq> None"
    "sa = t_sigaction (me s) (signr - 1)" "sa_handler sa \<notin> {0, 1}"
    "do_signal signr r s = Inr ((eip, esp), s')"
  shows "eip = sa_handler sa \<and> t_blocked (me s') = t_blocked (me s) OR sa_mask sa
    \<and> (let frame = [sa_restorer sa, of_nat signr] @ (if sa_flags sa AND SA_NOMASK = 0 then [t_blocked (me s)] else [])
            @ [r_eax r, r_ecx r, r_edx r, r_eflags r, r_eip r]
       in esp = r_esp r - 4 * of_nat (length frame) \<and> user_longs (umem s') esp (length frame) = frame)
    \<and> sa_handler (t_sigaction (me s') (signr - 1)) = (if sa_flags sa AND SA_ONESHOT = 0 then sa_handler sa else 0)"
proof -
  define t where "t = (if sa_flags sa AND SA_ONESHOT \<noteq> 0 then set_sigaction signr (sa\<lparr>sa_handler := 0\<rparr>) s else s)"
  define frame where "frame = [sa_restorer sa, of_nat signr] @ (if sa_flags sa AND SA_NOMASK = 0 then [t_blocked (me s)] else [])
            @ [r_eax r, r_ecx r, r_edx r, r_eflags r, r_eip r]"
  define p where "p = r_esp r - 4 * of_nat (length frame)"
  have here: "task (sch t) (current (sch t)) \<noteq> None"
    using assms(1) by (auto simp: t_def set_sigaction_def)
  have t: "t_blocked (me t) = t_blocked (me s)"
    "sa_handler (t_sigaction (me t) (signr - 1)) = (if sa_flags sa AND SA_ONESHOT = 0 then sa_handler sa else 0)"
    using assms(1,2) by (simp_all add: t_def set_sigaction_def)
  have eq: "do_signal signr r s = bindK (verify_area p (4 * int (length frame)) t) (\<lambda>_ s.
      ret (sa_handler sa, p) (upd_me (\<lambda>p. p\<lparr>t_blocked := t_blocked p OR sa_mask sa\<rparr>)
        (s\<lparr>umem := fold (\<lambda>k m. put_fs_long (frame ! k) (p + 4 * of_nat k) m) [0..<length frame] (umem s)\<rparr>)))"
    using assms(2,3) t(1) by (simp add: do_signal_def t_def frame_def p_def Let_def cong: if_cong)
  obtain m where m: "eip = sa_handler sa" "esp = p"
      "s' = upd_me (\<lambda>p. p\<lparr>t_blocked := t_blocked p OR sa_mask sa\<rparr>)
        (t\<lparr>mm := m, umem := fold (\<lambda>k m. put_fs_long (frame ! k) (p + 4 * of_nat k) m) [0..<length frame] (umem t)\<rparr>)"
    using assms(4) okKD [OF okK_verify_area [of t p "4 * int (length frame)"]]
    unfolding eq bindK_eq_Inr by auto
  have "length frame \<le> 1000"
    by (simp add: frame_def)
  then have "user_longs (umem s') esp (length frame) = frame"
    using user_longs_written [of "length frame" frame] by (simp add: m)
  then show ?thesis
    using m t here unfolding frame_def [symmetric] Let_def by (simp add: p_def)
qed


text \<open>A process with a handler for signal 10 whose mask has the bit of \<open>SIGKILL\<close>.\<close>

definition masked_kernel :: kstate where
  "masked_kernel = set_sigaction 10 \<lparr>sa_handler = 0x400, sa_mask = sigbit SIGKILL, sa_flags = SA_ONESHOT, sa_restorer = 0x500\<rparr>
     demo_kernel"

definition demo_regs :: regs where
  "demo_regs = \<lparr>r_eax = 1, r_ecx = 2, r_edx = 3, r_eip = 0x100, r_eflags = 0x202, r_esp = 0x2000\<rparr>"

theorem do_signal_frame_witness:
  "\<exists>s'. do_signal 10 demo_regs masked_kernel = Inr ((0x400, 0x2000 - 32), s')
    \<and> user_longs (umem s') (0x2000 - 32) 8 = [0x500, 10, 0, 1, 2, 3, 0x202, 0x100]
    \<and> bit (t_blocked (me s')) (SIGKILL - 1)"
proof -
  have here: "task (sch masked_kernel) (current (sch masked_kernel)) \<noteq> None"
    by (simp add: masked_kernel_def set_sigaction_def)
  have act: "t_sigaction (me masked_kernel) (10 - 1)
      = \<lparr>sa_handler = 0x400, sa_mask = sigbit SIGKILL, sa_flags = SA_ONESHOT, sa_restorer = 0x500\<rparr>"
    by (simp add: masked_kernel_def set_sigaction_def)
  have ver: "verify_area 0x1FE0 32 k = ret () k" if "mm k = cow_mm" "t_ldt (me k) 2 = init_ldt 2" for k
  proof -
    have b: "get_base (init_ldt 2) = 0"
      by (simp add: get_base_def init_ldt_def)
    have "write_verify 0x1000 cow_mm = ret () cow_mm"
      by (simp add: write_verify_def cow_mm_def page_at_def LOW_MEM_def push_bit_eq_mult drop_bit_eq_div)
    then show ?thesis
      using that by (simp add: verify_area_def b lift_mm_def ret_def)
  qed
  have "\<exists>x. do_signal 10 demo_regs masked_kernel = Inr x"
    unfolding do_signal_def Let_def act
    by (simp add: ver demo_regs_def SA_ONESHOT_def SA_NOMASK_def masked_kernel_def set_sigaction_def
      user_task_def INIT_TASK_def)
  then obtain eip esp s' where r: "do_signal 10 demo_regs masked_kernel = Inr ((eip, esp), s')"
    by auto
  have eight: "(8 :: nat) = Suc (Suc (Suc (Suc (Suc (Suc (Suc (Suc 0)))))))"
    by simp
  show ?thesis
    unfolding eight using do_signal_frame [OF here refl _ r] r
    by (auto simp: act SA_ONESHOT_def SA_NOMASK_def demo_regs_def bit_simps sigbit_def SIGKILL_def
      masked_kernel_def set_sigaction_def user_task_def INIT_TASK_def)
qed

end
