(* ===== verification/Process.thy ===== *)
theory Process
  imports Files Sys
begin

text \<open>
  \<open>kernel/fork.c\<close> and \<open>kernel/exit.c\<close>: making processes, ending them, waiting for them, and sending
  signals. A task is its slot in the table \<open>task\<close>; \<open>task_page\<close> is the page its structure lies in.
\<close>

unbundle bit_operations_syntax

section \<open>fork\<close>

definition LDT_SEL :: "nat \<Rightarrow> u32" where "LDT_SEL n = of_nat (n * 16 + 40)"

text \<open>The search for an unused process number, and for a free slot; the fuel is one more than there are
  tasks.\<close>

definition pid_used :: "sched_state \<Rightarrow> int \<Rightarrow> bool" where
  "pid_used s pid \<longleftrightarrow> list_ex (\<lambda>i. case task s i of Some p \<Rightarrow> t_pid p = pid | None \<Rightarrow> False) [0..<NR_TASKS]"

primrec next_pid :: "nat \<Rightarrow> sched_state \<Rightarrow> sched_state option" where
  "next_pid 0 s = None"
| "next_pid (Suc k) s =
    (let pid = s32 (last_pid s + 1);
         s = s\<lparr>last_pid := (if pid < 0 then 1 else pid)\<rparr>
     in if pid_used s (last_pid s) then next_pid k s else Some s)"

definition find_empty_process :: "sched_state \<Rightarrow> (int \<times> sched_state) option" where
  "find_empty_process s =
    map_option (\<lambda>s. (case find (\<lambda>i. task s i = None) [1..<NR_TASKS] of Some i \<Rightarrow> int i | None \<Rightarrow> - EAGAIN, s))
      (next_pid (Suc NR_TASKS) s)"

definition copy_mem :: "nat \<Rightarrow> int kop" where
  "copy_mem nr s =
    (let code_limit = get_limit (t_ldt (me s) 1);
         data_limit = get_limit (t_ldt (me s) 2);
         old_code_base = get_base (t_ldt (me s) 1);
         old_data_base = get_base (t_ldt (me s) 2)
     in if old_data_base \<noteq> old_code_base then panic ''We don't support separate I&D''
        else if data_limit < code_limit then panic ''Bad data_limit''
        else
          let base = of_nat (nr * 0x4000000);
              s = s\<lparr>sch := upd_task nr (\<lambda>p. p\<lparr>t_start_code := base,
                     t_ldt := (t_ldt p)(1 := set_base base (t_ldt p 1), 2 := set_base base (t_ldt p 2))\<rparr>) (sch s)\<rparr>
          in bindK (lift_mm (copy_page_tables old_data_base base data_limit) s) (\<lambda>r s.
             if r \<noteq> 0 then
               bindK (lift_mm (free_page_tables base data_limit) s) (\<lambda>_ s. ret (- ENOMEM) s)
             else ret 0 s))"

text \<open>The registers that the system call entry pushed.\<close>

record fork_regs =
  fr_ebp :: u32
  fr_edi :: u32
  fr_esi :: u32
  fr_gs :: u32
  fr_ebx :: u32
  fr_ecx :: u32
  fr_edx :: u32
  fr_fs :: u32
  fr_es :: u32
  fr_ds :: u32
  fr_eip :: u32
  fr_cs :: u32
  fr_eflags :: u32
  fr_esp :: u32
  fr_ss :: u32

definition child_tss :: "nat \<Rightarrow> u32 \<Rightarrow> fork_regs \<Rightarrow> tss_struct \<Rightarrow> tss_struct" where
  "child_tss nr page r t =
    t\<lparr>tss_back_link := 0, tss_esp0 := 4096 + page, tss_ss0 := 0x10, tss_eip := fr_eip r,
      tss_eflags := fr_eflags r, tss_eax := 0, tss_ecx := fr_ecx r, tss_edx := fr_edx r, tss_ebx := fr_ebx r,
      tss_esp := fr_esp r, tss_ebp := fr_ebp r, tss_esi := fr_esi r, tss_edi := fr_edi r,
      tss_es := fr_es r AND 0xffff, tss_cs := fr_cs r AND 0xffff, tss_ss := fr_ss r AND 0xffff,
      tss_ds := fr_ds r AND 0xffff, tss_fs := fr_fs r AND 0xffff, tss_gs := fr_gs r AND 0xffff,
      tss_ldt := LDT_SEL nr, tss_trace_bitmap := 0x80000000\<rparr>"

definition child_task :: "nat \<Rightarrow> u32 \<Rightarrow> fork_regs \<Rightarrow> sched_state \<Rightarrow> task_struct" where
  "child_task nr page r s =
    (let p = cur s
     in p\<lparr>t_state := TASK_UNINTERRUPTIBLE, t_pid := last_pid s, t_father := t_pid p, t_counter := t_priority p,
          t_signal := 0, t_alarm := 0, t_leader := 0, t_utime := 0, t_stime := 0, t_cutime := 0, t_cstime := 0,
          t_start_time := jiffies s, t_tss := child_tss nr page r (t_tss p)\<rparr>)"

definition count_inode :: "nat option \<Rightarrow> kstate \<Rightarrow> kstate" where
  "count_inode inode s =
    (case inode of None \<Rightarrow> s | Some i \<Rightarrow> upd_inode i (\<lambda>n. n\<lparr>i_count := i_count n + 1\<rparr>) s)"

text \<open>The state of the coprocessor, saved for the child when the parent used it last, is the parameter
  \<open>fpu\<close>.\<close>

definition copy_process :: "u32 list \<Rightarrow> nat \<Rightarrow> fork_regs \<Rightarrow> int kop" where
  "copy_process fpu nr r s =
    (let (page, m) = get_free_page (mm s); s = s\<lparr>mm := m\<rparr>
     in if page = 0 then ret (- EAGAIN) s
        else
          let p = child_task nr page r (sch s);
              p = (if last_task_used_math (sch s) = Some (current (sch s))
                   then p\<lparr>t_tss := (t_tss p)\<lparr>tss_i387 := fpu\<rparr>\<rparr> else p);
              s = s\<lparr>sch := (sch s)\<lparr>task := (task (sch s))(nr := Some p), task_page := (task_page (sch s))(nr := page)\<rparr>\<rparr>
          in bindK (copy_mem nr s) (\<lambda>e s.
             if e \<noteq> 0 then
               bindK (lift_mm (free_page page) (s\<lparr>sch := (sch s)\<lparr>task := (task (sch s))(nr := None)\<rparr>\<rparr>)) (\<lambda>_ s.
               ret (- EAGAIN) s)
             else
               let s = fold (\<lambda>i s. case t_filp (the_task (sch s) nr) i of
                                None \<Rightarrow> s | Some f \<Rightarrow> upd_file f (\<lambda>x. x\<lparr>f_count := f_count x + 1\<rparr>) s) [0..<NR_OPEN] s;
                   s = count_inode (t_executable (me s)) (count_inode (t_root (me s)) (count_inode (t_pwd (me s)) s))
               in ret (last_pid (sch s)) (s\<lparr>sch := upd_task nr (\<lambda>p. p\<lparr>t_state := TASK_RUNNING\<rparr>) (sch s)\<rparr>)))"

section \<open>Signals\<close>

definition send_sig :: "int \<Rightarrow> nat \<Rightarrow> bool \<Rightarrow> kstate \<Rightarrow> int \<times> kstate" where
  "send_sig sig p priv s =
    (case task (sch s) p of
       None \<Rightarrow> (- EINVAL, s)
     | Some t \<Rightarrow>
         if sig < 1 \<or> sig > 32 then (- EINVAL, s)
         else if priv \<or> t_euid (me s) = t_euid t \<or> suser s
         then (0, s\<lparr>sch := upd_task p (\<lambda>t. t\<lparr>t_signal := t_signal t OR sigbit (nat sig)\<rparr>) (sch s)\<rparr>)
         else (- EPERM, s))"

definition kill_session :: "kstate \<Rightarrow> kstate" where
  "kill_session s =
    fold (\<lambda>i s. s\<lparr>sch := upd_task i (\<lambda>t. if t_session t = t_session (me s)
                     then t\<lparr>t_signal := t_signal t OR sigbit SIGHUP\<rparr> else t) (sch s)\<rparr>)
      (rev [1..<NR_TASKS]) s"

text \<open>One loop of \<open>sys_kill\<close>: the tasks of the list that \<open>P\<close> picks get the signal, the last error is kept.\<close>

primrec kill_loop :: "(task_struct \<Rightarrow> bool) \<Rightarrow> int \<Rightarrow> bool \<Rightarrow> nat list \<Rightarrow> int \<Rightarrow> kstate \<Rightarrow> int \<times> kstate" where
  "kill_loop P sig priv [] rv s = (rv, s)"
| "kill_loop P sig priv (i # is) rv s =
    (case task (sch s) i of
       None \<Rightarrow> kill_loop P sig priv is rv s
     | Some t \<Rightarrow>
         if P t then
           let (err, s) = send_sig sig i priv s
           in kill_loop P sig priv is (if err \<noteq> 0 then err else rv) s
         else kill_loop P sig priv is rv s)"

text \<open>
  The loop for \<open>pid == -1\<close>. The \<open>else\<close> after it belongs to the inner \<open>if\<close>: after the first task that the
  signal could be sent to, the loop meant for \<open>pid < -1\<close> runs over the remaining tasks, looking for the
  process group \<open>-pid\<close>, that is 1.
\<close>

primrec kill_all_loop :: "int \<Rightarrow> nat list \<Rightarrow> int \<Rightarrow> kstate \<Rightarrow> int \<times> kstate" where
  "kill_all_loop sig [] rv s = (rv, s)"
| "kill_all_loop sig (i # is) rv s =
    (let (err, s) = send_sig sig i False s
     in if err \<noteq> 0 then kill_all_loop sig is err s
        else kill_loop (\<lambda>t. t_pgrp t = 1) sig False is rv s)"

definition sys_kill :: "int \<Rightarrow> int \<Rightarrow> int kop" where
  "sys_kill pid sig s =
    (let slots = rev [1..<NR_TASKS];
         (rv, s) = (if pid = 0 then kill_loop (\<lambda>t. t_pgrp t = t_pid (me s)) sig True slots 0 s
                    else if pid > 0 then kill_loop (\<lambda>t. t_pid t = pid) sig False slots 0 s
                    else if pid = -1 then kill_all_loop sig slots 0 s
                    else (0, s))
     in ret rv s)"

section \<open>exit\<close>

definition release_task :: "nat \<Rightarrow> unit kop" where
  "release_task p s =
    (if p = 0 \<or> p \<ge> NR_TASKS \<or> task (sch s) p = None then panic ''trying to release non-existent task''
     else
       bindK (lift_mm (free_page (task_page (sch s) p))
                (s\<lparr>sch := (sch s)\<lparr>task := (task (sch s))(p := None)\<rparr>\<rparr>)) (\<lambda>_ s.
       yield s))"

definition tell_father :: "int \<Rightarrow> unit kop" where
  "tell_father pid s =
    (case (if pid = 0 then None
           else find (\<lambda>i. case task (sch s) i of Some t \<Rightarrow> t_pid t = pid | None \<Rightarrow> False) [0..<NR_TASKS]) of
       Some i \<Rightarrow> ret () (s\<lparr>sch := upd_task i (\<lambda>t. t\<lparr>t_signal := t_signal t OR sigbit SIGCHLD\<rparr>) (sch s)\<rparr>)
     | None \<Rightarrow> release_task (current (sch s)) s)"

text \<open>One task of the loop that gives the children to \<open>init\<close>.\<close>

definition give_child :: "nat \<Rightarrow> kstate \<Rightarrow> kstate" where
  "give_child i s =
    (case task (sch s) i of
       None \<Rightarrow> s
     | Some t \<Rightarrow>
         if t_father t = t_pid (me s) then
           let s = s\<lparr>sch := upd_task i (\<lambda>t. t\<lparr>t_father := 1\<rparr>) (sch s)\<rparr>
           in if t_state t = TASK_ZOMBIE then snd (send_sig (int SIGCHLD) 1 True s) else s
         else s)"

text \<open>\<open>do_exit\<close> up to its last \<open>schedule()\<close>, which never comes back.\<close>

definition do_exit :: "int \<Rightarrow> unit kop" where
  "do_exit code s =
    bindK (lift_mm (free_page_tables (get_base (t_ldt (me s) 1)) (get_limit (t_ldt (me s) 1))) s) (\<lambda>_ s.
    bindK (lift_mm (free_page_tables (get_base (t_ldt (me s) 2)) (get_limit (t_ldt (me s) 2))) s) (\<lambda>_ s.
    bindK (forK [0..<NR_OPEN] (\<lambda>i s.
      if t_filp (me s) i \<noteq> None then bindK (sys_close (of_nat i) s) (\<lambda>_ s. ret () s) else ret () s)
      (fold give_child [0..<NR_TASKS] s)) (\<lambda>_ s.
    bindK (iput (t_pwd (me s)) s) (\<lambda>_ s.
    let s = upd_me (\<lambda>p. p\<lparr>t_pwd := None\<rparr>) s
    in bindK (iput (t_root (me s)) s) (\<lambda>_ s.
    let s = upd_me (\<lambda>p. p\<lparr>t_root := None\<rparr>) s
    in bindK (iput (t_executable (me s)) s) (\<lambda>_ s.
    let s = upd_me (\<lambda>p. p\<lparr>t_executable := None\<rparr>) s;
        s = (if t_leader (me s) \<noteq> 0 \<and> t_tty (me s) \<ge> 0
             then upd_tty (nat (t_tty (me s))) (\<lambda>t. t\<lparr>tty_pgrp := 0\<rparr>) s else s);
        s = (if last_task_used_math (sch s) = Some (current (sch s))
             then s\<lparr>sch := (sch s)\<lparr>last_task_used_math := None\<rparr>\<rparr> else s);
        s = (if t_leader (me s) \<noteq> 0 then kill_session s else s);
        s = upd_me (\<lambda>p. p\<lparr>t_state := TASK_ZOMBIE, t_exit_code := code\<rparr>) s
    in tell_father (t_father (me s)) s))))))"

definition sys_exit :: "int \<Rightarrow> unit kop" where
  "sys_exit error_code = do_exit ((error_code mod 256) * 256)"

section \<open>waitpid\<close>

definition WNOHANG :: u32 where "WNOHANG = 1"
definition WUNTRACED :: u32 where "WUNTRACED = 2"

text \<open>The children that a \<open>waitpid\<close> for \<open>pid\<close> looks at.\<close>

definition waits_for :: "int \<Rightarrow> task_struct \<Rightarrow> task_struct \<Rightarrow> bool" where
  "waits_for pid parent t \<longleftrightarrow>
    t_father t = t_pid parent \<and>
    (if pid > 0 then t_pid t = pid
     else if pid = 0 then t_pgrp t = t_pgrp parent
     else pid = -1 \<or> t_pgrp t = - pid)"

text \<open>The loop over the tasks: a result ends the call, \<open>flag\<close> tells that there is a child to wait for.\<close>

primrec wait_loop :: "nat list \<Rightarrow> int \<Rightarrow> u32 \<Rightarrow> u32 \<Rightarrow> bool \<Rightarrow> (int option \<times> bool) kop" where
  "wait_loop [] pid stat_addr options flag s = ret (None, flag) s"
| "wait_loop (i # is) pid stat_addr options flag s =
    (case task (sch s) i of
       None \<Rightarrow> wait_loop is pid stat_addr options flag s
     | Some t \<Rightarrow>
         if i = current (sch s) \<or> \<not> waits_for pid (me s) t then wait_loop is pid stat_addr options flag s
         else if t_state t = TASK_STOPPED then
           if options AND WUNTRACED = 0 then wait_loop is pid stat_addr options flag s
           else ret (Some (t_pid t), flag) (s\<lparr>umem := put_fs_long 0x7f stat_addr (umem s)\<rparr>)
         else if t_state t = TASK_ZOMBIE then
           let s = upd_me (\<lambda>p. p\<lparr>t_cutime := s32 (t_cutime p + t_utime t), t_cstime := s32 (t_cstime p + t_stime t)\<rparr>) s
           in bindK (release_task i s) (\<lambda>_ s.
              ret (Some (t_pid t), flag) (s\<lparr>umem := put_fs_long (of_int (t_exit_code t)) stat_addr (umem s)\<rparr>))
         else wait_loop is pid stat_addr options True s)"

text \<open>A caller that has to wait goes to sleep interruptibly, as \<open>Blocked\<close>.\<close>

definition sys_waitpid :: "int \<Rightarrow> u32 \<Rightarrow> u32 \<Rightarrow> int kop" where
  "sys_waitpid pid stat_addr options s =
    bindK (verify_area stat_addr 4 s) (\<lambda>_ s.
    bindK (wait_loop (rev [1..<NR_TASKS]) pid stat_addr options False s) (\<lambda>(r, flag) s.
    case r of
      Some x \<Rightarrow> ret x s
    | None \<Rightarrow>
        if flag then
          (if options AND WNOHANG \<noteq> 0 then ret 0 s
           else blocked (upd_me (\<lambda>p. p\<lparr>t_state := TASK_INTERRUPTIBLE\<rparr>) s))
        else ret (- ECHILD) s))"

section \<open>A new process number is unused\<close>

definition pid_succ :: "int \<Rightarrow> int" where
  "pid_succ p = (let q = s32 (p + 1) in if q < 0 then 1 else q)"

lemma pid_succ_less: "0 \<le> p \<Longrightarrow> p < 2147483647 \<Longrightarrow> pid_succ p = p + 1"
  by (simp add: pid_succ_def)

lemma pid_succ_last: "pid_succ 2147483647 = 1"
  by (simp add: pid_succ_def s32_upper)

lemma pid_succ_iter:
  assumes "0 \<le> p" "p < 2147483648" "1 \<le> i" "i \<le> 100"
  shows "(pid_succ ^^ i) p = (if p + int i < 2147483648 then p + int i else p + int i - 2147483647)"
  using assms(3,4)
proof (induction i rule: nat_induct_at_least)
  case base
  then show ?case
    using assms(1,2) by (cases "p = 2147483647") (auto simp: pid_succ_less pid_succ_last)
next
  case (Suc i)
  consider "p + int i < 2147483647" | "p + int i = 2147483647" | "2147483647 < p + int i"
    by linarith
  then show ?case
    by cases (use Suc assms(1,2) in \<open>auto simp: pid_succ_less pid_succ_last\<close>)
qed

lemma pid_used_upd [simp]: "pid_used (s\<lparr>last_pid := x\<rparr>) = pid_used s"
  by (simp add: pid_used_def fun_eq_iff)

lemma next_pid_Some:
  "next_pid k s = Some s' \<Longrightarrow> \<exists>p. s' = s\<lparr>last_pid := p\<rparr> \<and> \<not> pid_used s p"
  by (induction k arbitrary: s) (force simp: Let_def split: if_splits)+

lemma next_pid_None:
  "next_pid k s = None \<Longrightarrow> i \<in> {1..k} \<Longrightarrow> pid_used s ((pid_succ ^^ i) (last_pid s))"
proof (induction k arbitrary: s i)
  case 0
  then show ?case by simp
next
  case (Suc k)
  define t where "t = s\<lparr>last_pid := pid_succ (last_pid s)\<rparr>"
  have t: "next_pid (Suc k) s = (if pid_used t (last_pid t) then next_pid k t else Some t)"
    by (simp add: t_def pid_succ_def Let_def)
  then have used: "pid_used t (last_pid t)" "next_pid k t = None"
    using Suc.prems(1) by (auto split: if_splits)
  show ?case
  proof (cases "i = 1")
    case True
    then show ?thesis
      using used(1) by (simp add: t_def)
  next
    case False
    then obtain j where j: "i = Suc j" "j \<in> {1..k}"
      using Suc.prems(2) by (cases i) auto
    have "pid_used t ((pid_succ ^^ j) (last_pid t))"
      by (rule Suc.IH [OF used(2) j(2)])
    then show ?thesis
      by (simp add: t_def j(1) funpow_Suc_right del: funpow.simps)
  qed
qed

lemma used_pids: "{p. pid_used s p} \<subseteq> (\<lambda>i. t_pid (the_task s i)) ` {..<NR_TASKS}"
proof
  fix p assume "p \<in> {p. pid_used s p}"
  then obtain i t where "i < NR_TASKS" "task s i = Some t" "t_pid t = p"
    by (auto simp: pid_used_def list_ex_iff split: option.splits)
  then show "p \<in> (\<lambda>i. t_pid (the_task s i)) ` {..<NR_TASKS}"
    by (intro image_eqI [of _ _ i]) (simp_all add: the_task_def)
qed

lemma find_empty_process_terminates:
  assumes "0 \<le> last_pid s" "last_pid s < 2147483648"
  shows "\<exists>s'. next_pid (Suc NR_TASKS) s = Some s'"
proof (rule ccontr)
  let ?f = "\<lambda>i. (pid_succ ^^ i) (last_pid s)"
  assume "\<nexists>s'. next_pid (Suc NR_TASKS) s = Some s'"
  then have none: "next_pid (Suc NR_TASKS) s = None"
    by (cases "next_pid (Suc NR_TASKS) s") auto
  have "?f ` {1..Suc NR_TASKS} \<subseteq> {p. pid_used s p}"
    using next_pid_None [OF none] by blast
  then have "?f ` {1..Suc NR_TASKS} \<subseteq> (\<lambda>i. t_pid (the_task s i)) ` {..<NR_TASKS}"
    using used_pids by blast
  then have "card (?f ` {1..Suc NR_TASKS}) \<le> card ((\<lambda>i. t_pid (the_task s i)) ` {..<NR_TASKS})"
    by (intro card_mono) auto
  also have "\<dots> \<le> NR_TASKS"
    using card_image_le [of "{..<NR_TASKS}" "\<lambda>i. t_pid (the_task s i)"] by simp
  finally have le: "card (?f ` {1..Suc NR_TASKS}) \<le> NR_TASKS" .
  have "inj_on ?f {1..Suc NR_TASKS}"
    using assms by (auto simp: inj_on_def pid_succ_iter NR_TASKS_def split: if_splits)
  then have "card (?f ` {1..Suc NR_TASKS}) = Suc NR_TASKS"
    by (simp add: card_image)
  with le show False
    by simp
qed

text \<open>C20. \<open>find_empty_process\<close> always ends, with a process number that no task has, and with a free slot,
  or with \<open>-EAGAIN\<close> when there is none.\<close>

theorem find_empty_process_fresh:
  assumes "0 \<le> last_pid s" "last_pid s < 2147483648"
  shows "\<exists>r pid. find_empty_process s = Some (r, s\<lparr>last_pid := pid\<rparr>) \<and> \<not> pid_used s pid
    \<and> (if \<exists>i \<in> {1..<NR_TASKS}. task s i = None
       then 1 \<le> r \<and> r < int NR_TASKS \<and> task s (nat r) = None else r = - EAGAIN)"
proof -
  obtain s' where s': "next_pid (Suc NR_TASKS) s = Some s'"
    using find_empty_process_terminates [OF assms] by blast
  then obtain p where p: "s' = s\<lparr>last_pid := p\<rparr>" "\<not> pid_used s p"
    using next_pid_Some by blast
  define r where "r = (case find (\<lambda>i. task s' i = None) [1..<NR_TASKS] of Some i \<Rightarrow> int i | None \<Rightarrow> - EAGAIN)"
  have same: "task s' = task s"
    by (simp add: p(1))
  have "if \<exists>i \<in> {1..<NR_TASKS}. task s i = None
       then 1 \<le> r \<and> r < int NR_TASKS \<and> task s (nat r) = None else r = - EAGAIN"
  proof (cases "find (\<lambda>i. task s i = None) [1..<NR_TASKS]")
    case None
    have "\<forall>i \<in> {1..<NR_TASKS}. task s i \<noteq> None"
      using iffD1 [OF find_None_iff None] by simp
    moreover have "r = - EAGAIN"
      unfolding r_def same None by simp
    ultimately show ?thesis
      by auto
  next
    case (Some i)
    have found: "find (\<lambda>i. task s i = None) [1..<NR_TASKS] = Some i"
      by (rule Some)
    have i: "i \<in> {1..<NR_TASKS}" "task s i = None"
      using iffD1 [OF find_Some_iff found] by (auto simp: nth_upt)
    have r: "r = int i"
      unfolding r_def same found by simp
    have "\<exists>i \<in> {1..<NR_TASKS}. task s i = None"
      using i by blast
    then show ?thesis
      using i r by (auto simp del: One_nat_def)
  qed
  moreover have "find_empty_process s = Some (r, s')"
    by (simp add: find_empty_process_def s' r_def del: next_pid.simps)
  ultimately show ?thesis
    using p by blast
qed

theorem find_empty_process_fresh_witness:
  "\<exists>r pid. find_empty_process busy_sched = Some (r, busy_sched\<lparr>last_pid := pid\<rparr>) \<and> 1 \<le> r"
proof -
  have "\<exists>i \<in> {1..<NR_TASKS}. task busy_sched i = None"
    by (rule bexI [of _ 3]) (simp_all add: busy_sched_def NR_TASKS_def)
  then show ?thesis
    using find_empty_process_fresh [of busy_sched] by (auto simp: busy_sched_def)
qed

section \<open>Sending signals\<close>

text \<open>Who may signal a task, and what the signal does to it.\<close>

definition may_signal :: "kstate \<Rightarrow> bool \<Rightarrow> task_struct \<Rightarrow> bool" where
  "may_signal s priv t \<longleftrightarrow> priv \<or> t_euid (me s) = t_euid t \<or> suser s"

definition signalled :: "int \<Rightarrow> task_struct \<Rightarrow> task_struct" where
  "signalled sig t = t\<lparr>t_signal := t_signal t OR sigbit (nat sig)\<rparr>"

definition signal_tasks :: "(task_struct \<Rightarrow> bool) \<Rightarrow> int \<Rightarrow> nat set \<Rightarrow> kstate \<Rightarrow> kstate" where
  "signal_tasks P sig I s = s\<lparr>sch := (sch s)\<lparr>task := (\<lambda>i. if i \<in> I
     then map_option (\<lambda>t. if P t then signalled sig t else t) (task (sch s) i) else task (sch s) i)\<rparr>\<rparr>"

lemma me_signal_tasks: "t_euid (me (signal_tasks P sig I s)) = t_euid (me s)"
  by (simp add: me_def cur_def the_task_def signal_tasks_def signalled_def split: option.splits)

lemma may_signal_tasks [simp]: "may_signal (signal_tasks P sig I s) = may_signal s"
  by (simp add: may_signal_def fun_eq_iff suser_def me_signal_tasks)

lemma signal_one:
  "task (sch s) i = Some t \<Longrightarrow> P t \<Longrightarrow>
    s\<lparr>sch := upd_task i (\<lambda>t. t\<lparr>t_signal := t_signal t OR sigbit (nat sig)\<rparr>) (sch s)\<rparr> = signal_tasks P sig {i} s"
  by (rule kstate.equality) (auto simp: signal_tasks_def upd_task_def signalled_def fun_eq_iff)

lemma signal_none: "(\<And>i t. i \<in> I \<Longrightarrow> task (sch s) i = Some t \<Longrightarrow> \<not> P t) \<Longrightarrow> signal_tasks P sig I s = s"
  by (rule kstate.equality)
     (auto simp: signal_tasks_def fun_eq_iff intro!: sched_state.equality option.map_ident_strong)

lemma signal_tasks_insert:
  "i \<notin> I \<Longrightarrow> signal_tasks P sig I (signal_tasks P sig {i} s) = signal_tasks P sig (insert i I) s"
  by (rule kstate.equality) (auto simp: signal_tasks_def fun_eq_iff)

lemma task_signal_tasks:
  "i \<notin> I \<Longrightarrow> task (sch (signal_tasks P sig I s)) i = task (sch s) i"
  by (simp add: signal_tasks_def)

lemma kill_loop_eq:
  assumes "1 \<le> sig" "sig \<le> 32" "distinct is"
  shows "kill_loop P sig priv is rv s =
    (if \<exists>i \<in> set is. \<exists>t. task (sch s) i = Some t \<and> P t \<and> \<not> may_signal s priv t then - EPERM else rv,
     signal_tasks (\<lambda>t. P t \<and> may_signal s priv t) sig (set is) s)"
  using assms(3)
proof (induction "is" arbitrary: rv s)
  case Nil
  show ?case
    using signal_none [of "{}" s] by simp
next
  case (Cons i js)
  let ?Q = "\<lambda>t. P t \<and> may_signal s priv t"
  have i: "i \<notin> set js"
    using Cons.prems by simp
  consider (none) "\<And>t. task (sch s) i = Some t \<Longrightarrow> \<not> P t" | (yes) t where "task (sch s) i = Some t" "P t" "may_signal s priv t"
    | (no) t where "task (sch s) i = Some t" "P t" "\<not> may_signal s priv t"
    by blast
  then show ?case
  proof cases
    case none
    then have "kill_loop P sig priv (i # js) rv s = kill_loop P sig priv js rv s"
      by (simp split: option.splits)
    moreover have "signal_tasks ?Q sig (set (i # js)) s = signal_tasks ?Q sig (set js) s"
      unfolding list.set signal_tasks_insert [OF i, symmetric]
      by (subst signal_none [of "{i}" s]) (use none in auto)
    ultimately show ?thesis
      using Cons none by auto
  next
    case no
    then have "kill_loop P sig priv (i # js) rv s = kill_loop P sig priv js (- EPERM) s"
      using assms by (simp add: send_sig_def may_signal_def EPERM_def)
    moreover have "signal_tasks ?Q sig (set (i # js)) s = signal_tasks ?Q sig (set js) s"
      unfolding list.set signal_tasks_insert [OF i, symmetric]
      by (subst signal_none [of "{i}" s]) (use no in auto)
    ultimately show ?thesis
      using Cons no by auto
  next
    case yes
    then have "kill_loop P sig priv (i # js) rv s = kill_loop P sig priv js rv (signal_tasks ?Q sig {i} s)"
      using assms signal_one [of s i t ?Q sig] by (simp add: send_sig_def may_signal_def)
    moreover have "(\<exists>j \<in> set js. \<exists>t. task (sch (signal_tasks ?Q sig {i} s)) j = Some t \<and> P t \<and> \<not> may_signal s priv t)
       \<longleftrightarrow> (\<exists>j \<in> set (i # js). \<exists>t. task (sch s) j = Some t \<and> P t \<and> \<not> may_signal s priv t)"
      using yes i by (auto simp: task_signal_tasks split: if_splits) (metis singletonD task_signal_tasks)+
    ultimately show ?thesis
      using Cons signal_tasks_insert [OF i, of ?Q sig s] by simp
  qed
qed

text \<open>The tasks that a process number of \<open>sys_kill\<close> names: one process, or the callers group.\<close>

definition kill_target :: "int \<Rightarrow> kstate \<Rightarrow> task_struct \<Rightarrow> bool" where
  "kill_target pid s t \<longleftrightarrow> (if pid > 0 then t_pid t = pid else pid = 0 \<and> t_pgrp t = t_pid (me s))"

text \<open>C19. \<open>sys_kill\<close> with a process number, or 0 for the callers group, gives the signal to exactly the tasks
  it names that the caller may signal, and reports \<open>-EPERM\<close> when there was one it may not. With a number
  below -1 it signals nobody: the loop for process groups hangs on an \<open>else\<close> that belongs to another
  \<open>if\<close>.\<close>

theorem sys_kill_exact:
  assumes "1 \<le> sig" "sig \<le> 32" "pid \<noteq> - 1"
  shows "sys_kill pid sig s = Inr
    (if \<exists>i \<in> {1..<NR_TASKS}. \<exists>t. task (sch s) i = Some t \<and> kill_target pid s t \<and> \<not> may_signal s (pid = 0) t then - EPERM else 0,
     signal_tasks (\<lambda>t. kill_target pid s t \<and> may_signal s (pid = 0) t) sig {1..<NR_TASKS} s)"
proof -
  have [simp]: "distinct (rev [1..<NR_TASKS])" "set (rev [1..<NR_TASKS]) = {1..<NR_TASKS}"
    by simp_all
  consider "pid = 0" | "pid > 0" | "pid < -1"
    using assms(3) by linarith
  then show ?thesis
  proof cases
    case 3
    then show ?thesis
      by (simp add: sys_kill_def ret_def signal_none kill_target_def)
  qed (use assms in \<open>simp_all add: sys_kill_def ret_def kill_loop_eq kill_target_def\<close>)
qed

theorem sys_kill_exact_witness:
  "\<exists>s'. sys_kill 1 9 demo_kernel = Inr (0, s') \<and> bit (t_signal (the_task (sch s') 1)) 8"
  using sys_kill_exact [of 9 1 demo_kernel]
  by (auto simp: may_signal_def kill_target_def demo_kernel_def signal_tasks_def signalled_def the_task_def me_def cur_def
      user_task_def INIT_TASK_def NR_TASKS_def sigbit_def bit_simps split: if_splits)

end
