(* ===== verification/Block_Req.thy ===== *)
theory Block_Req
  imports Buffer Phys_Bytes
begin

text \<open>
  \<open>kernel/blk_drv/ll_rw_blk.c\<close>, \<open>blk.h\<close> and \<open>ramdisk.c\<close>: the queues of requests of the block devices, below
  the buffer cache. A request is a slot of a table, the queue of a device is a chain through the \<open>next\<close> fields.
  The routine \<open>request_fn\<close> of the device is the parameter \<open>fn\<close> of the routines that call it.
  \<open>buffer\<close> is the offset of \<open>CURRENT->buffer\<close> in the data of the buffer head.
\<close>

unbundle bit_operations_syntax

section \<open>Requests\<close>

definition NR_REQUEST :: nat where "NR_REQUEST = 32"

record blk_request =
  r_dev :: int
  r_cmd :: rw
  r_errors :: int
  r_sector :: u32
  r_nr_sectors :: u32
  r_buffer :: nat
  r_waiting :: "nat option"
  r_bh :: "nat option"
  r_next :: "nat option"

text \<open>The state of the kernel with the request table, the head of each queue, and the ram disk.\<close>

record blk_state =
  bk :: kstate
  request :: "nat \<Rightarrow> blk_request"
  current_request :: "nat \<Rightarrow> nat option"
  wait_for_request :: "nat option"
  rd_start :: u32
  rd_length :: int

type_synonym 'a bop = "blk_state \<Rightarrow> ('a, blk_state) kres"

definition cmd_num :: "rw \<Rightarrow> nat" where
  "cmd_num c = (case c of READ \<Rightarrow> 0 | WRITE \<Rightarrow> 1 | READA \<Rightarrow> 2 | WRITEA \<Rightarrow> 3)"

definition IN_ORDER :: "blk_request \<Rightarrow> blk_request \<Rightarrow> bool" where
  "IN_ORDER s1 s2 \<longleftrightarrow>
    cmd_num (r_cmd s1) < cmd_num (r_cmd s2)
    \<or> cmd_num (r_cmd s1) = cmd_num (r_cmd s2)
      \<and> (r_dev s1 < r_dev s2 \<or> (r_dev s1 = r_dev s2 \<and> r_sector s1 < r_sector s2))"

definition upd_request :: "nat \<Rightarrow> (blk_request \<Rightarrow> blk_request) \<Rightarrow> blk_state \<Rightarrow> blk_state" where
  "upd_request r f s = s\<lparr>request := (request s)(r := f (request s r))\<rparr>"

section \<open>Queueing\<close>

text \<open>The place behind which a request goes, from the request \<open>tmp\<close> on; the queue has at most \<open>NR_REQUEST\<close>
  requests.\<close>

primrec find_place :: "nat \<Rightarrow> (nat \<Rightarrow> blk_request) \<Rightarrow> nat \<Rightarrow> nat \<Rightarrow> nat" where
  "find_place 0 rq req tmp = tmp"
| "find_place (Suc k) rq req tmp =
    (case r_next (rq tmp) of
       None \<Rightarrow> tmp
     | Some n \<Rightarrow>
         if (IN_ORDER (rq tmp) (rq req) \<or> \<not> IN_ORDER (rq tmp) (rq n)) \<and> IN_ORDER (rq req) (rq n)
         then tmp else find_place k rq req n)"

text \<open>The request as it enters a queue: the last, its buffer clean.\<close>

definition enter_request :: "nat \<Rightarrow> blk_state \<Rightarrow> blk_state" where
  "enter_request req s =
    (let s = upd_request req (\<lambda>r. r\<lparr>r_next := None\<rparr>) s
     in case r_bh (request s req) of None \<Rightarrow> s
        | Some bh \<Rightarrow> s\<lparr>bk := upd_buf bh (\<lambda>b. b\<lparr>b_dirt := 0\<rparr>) (bk s)\<rparr>)"

definition add_request :: "unit bop \<Rightarrow> nat \<Rightarrow> nat \<Rightarrow> unit bop" where
  "add_request fn major req s =
    (let s = enter_request req s
     in case current_request s major of
          None \<Rightarrow> fn (s\<lparr>current_request := (current_request s)(major := Some req)\<rparr>)
        | Some h \<Rightarrow>
            let tmp = find_place NR_REQUEST (request s) req h;
                s = upd_request req (\<lambda>r. r\<lparr>r_next := r_next (request s tmp)\<rparr>) s
            in ret () (upd_request tmp (\<lambda>r. r\<lparr>r_next := Some req\<rparr>) s))"

text \<open>The search for a free slot, from the last that may be used down.\<close>

definition find_request :: "rw \<Rightarrow> blk_state \<Rightarrow> nat option" where
  "find_request rw s =
    find (\<lambda>i. r_dev (request s i) < 0) (rev [0..<(if rw = READ then NR_REQUEST else NR_REQUEST * 2 div 3)])"

text \<open>The request for the locked buffer \<open>bh\<close> is filled in and queued; without a free slot the process sleeps, but
  gives a request for reading or writing ahead up.\<close>

definition start_request :: "unit bop \<Rightarrow> nat \<Rightarrow> bool \<Rightarrow> rw \<Rightarrow> nat \<Rightarrow> unit bop" where
  "start_request fn major ahead rw bh s =
    (case find_request rw s of
       None \<Rightarrow> if ahead then ret () (s\<lparr>bk := unlock_buffer bh (bk s)\<rparr>) else Inl (Blocked s)
     | Some req \<Rightarrow>
         add_request fn major req (upd_request req (\<lambda>_.
           \<lparr>r_dev = int (unat (b_dev (buf (bk s) bh))), r_cmd = rw, r_errors = 0,
            r_sector = push_bit 1 (b_blocknr (buf (bk s) bh)), r_nr_sectors = 2, r_buffer = 0, r_waiting = None,
            r_bh = Some bh, r_next = None\<rparr>) s))"

text \<open>\<open>READA\<close> and \<open>WRITEA\<close> without the haste.\<close>

definition plain_rw :: "rw \<Rightarrow> rw" where
  "plain_rw rw = (if rw = READA then READ else if rw = WRITEA then WRITE else rw)"

definition make_req :: "unit bop \<Rightarrow> nat \<Rightarrow> rw \<Rightarrow> nat \<Rightarrow> unit bop" where
  "make_req fn major rw bh s =
    (if (rw = READA \<or> rw = WRITEA) \<and> b_lock (buf (bk s) bh) \<noteq> 0 then ret () s
     else if b_lock (buf (bk s) bh) \<noteq> 0 then Inl (Blocked s)
     else
       let s = s\<lparr>bk := upd_buf bh (\<lambda>b. b\<lparr>b_lock := 1\<rparr>) (bk s)\<rparr>
       in if (plain_rw rw = WRITE \<and> b_dirt (buf (bk s) bh) = 0) \<or> (plain_rw rw = READ \<and> b_uptodate (buf (bk s) bh) \<noteq> 0)
          then ret () (s\<lparr>bk := unlock_buffer bh (bk s)\<rparr>)
          else start_request fn major (rw = READA \<or> rw = WRITEA) (plain_rw rw) bh s)"

definition blk_dev_init :: "blk_state \<Rightarrow> blk_state" where
  "blk_dev_init s =
    s\<lparr>request := (\<lambda>i. if i < NR_REQUEST then (request s i)\<lparr>r_dev := - 1, r_next := None\<rparr> else request s i)\<rparr>"

text \<open>\<open>end_request\<close> for the driver of \<open>major\<close>; \<open>off\<close> is its \<open>DEVICE_OFF\<close>.\<close>

definition end_request :: "(int \<Rightarrow> blk_state \<Rightarrow> blk_state) \<Rightarrow> nat \<Rightarrow> u8 \<Rightarrow> unit bop" where
  "end_request off major uptodate s =
    (case current_request s major of
       None \<Rightarrow> Inl (Fault s)
     | Some c \<Rightarrow>
         let s = off (r_dev (request s c)) s;
             s = (case r_bh (request s c) of
                    None \<Rightarrow> s
                  | Some bh \<Rightarrow> s\<lparr>bk := unlock_buffer bh (upd_buf bh (\<lambda>b. b\<lparr>b_uptodate := uptodate\<rparr>) (bk s))\<rparr>);
             (w, sc) = Sched.wake_up (r_waiting (request s c)) (sch (bk s));
             s = upd_request c (\<lambda>r. r\<lparr>r_waiting := w\<rparr>) (s\<lparr>bk := (bk s)\<lparr>sch := sc\<rparr>\<rparr>);
             (w, sc) = Sched.wake_up (wait_for_request s) (sch (bk s));
             s = s\<lparr>bk := (bk s)\<lparr>sch := sc\<rparr>, wait_for_request := w\<rparr>;
             s = upd_request c (\<lambda>r. r\<lparr>r_dev := - 1\<rparr>) s
         in ret () (s\<lparr>current_request := (current_request s)(major := r_next (request s c))\<rparr>))"

section \<open>The ram disk\<close>

text \<open>\<open>INIT_REQUEST\<close>: the checks on the request at the head of the queue.\<close>

definition init_request :: "nat \<Rightarrow> nat \<Rightarrow> blk_state \<Rightarrow> string option" where
  "init_request major c s =
    (if int (nat (r_dev (request s c)) div 256) \<noteq> int major then Some ''request list destroyed''
     else case r_bh (request s c) of
            None \<Rightarrow> None
          | Some bh \<Rightarrow> if b_lock (buf (bk s) bh) = 0 then Some ''block not locked'' else None)"

text \<open>The transfer of one request.\<close>

definition rd_copy :: "u32 \<Rightarrow> nat \<Rightarrow> blk_request \<Rightarrow> unit bop" where
  "rd_copy addr len r s =
    (case r_bh r of
       None \<Rightarrow> Inl (Fault s)
     | Some bh \<Rightarrow>
         let k = bk s; data = b_data (buf k bh)
         in if r_cmd r = WRITE then
              ret () (s\<lparr>bk := k\<lparr>mm := set_bytes addr (\<lambda>i. data (r_buffer r + i)) len (mm k)\<rparr>\<rparr>)
            else if r_cmd r = READ then
              ret () (s\<lparr>bk := upd_buf bh (\<lambda>b. b\<lparr>b_data := (\<lambda>i.
                if r_buffer r \<le> i \<and> i < r_buffer r + len then get_byte (mm k) (addr + of_nat (i - r_buffer r)) else data i)\<rparr>) k\<rparr>)
            else panic ''unknown ramdisk-command'')"

text \<open>Every pass takes a request off the queue.\<close>

primrec do_rd_request :: "nat \<Rightarrow> unit bop" where
  "do_rd_request 0 s = ret () s"
| "do_rd_request (Suc k) s =
    (case current_request s 1 of
       None \<Rightarrow> ret () s
     | Some c \<Rightarrow>
        (case init_request 1 c s of
           Some m \<Rightarrow> panic m
         | None \<Rightarrow>
            let r = request s c;
                addr = rd_start s + push_bit 9 (r_sector r);
                len = push_bit 9 (r_nr_sectors r)
            in if nat (r_dev r) mod 256 \<noteq> 1 \<or> addr + len > rd_start s + of_int (rd_length s)
               then bindK (end_request (\<lambda>_ s. s) 1 0 s) (\<lambda>_ s. do_rd_request k s)
               else bindK (rd_copy addr (unat len) r s) (\<lambda>_ s.
                    bindK (end_request (\<lambda>_ s. s) 1 1 s) (\<lambda>_ s. do_rd_request k s))))"

definition rd_init :: "u32 \<Rightarrow> int \<Rightarrow> blk_state \<Rightarrow> int \<times> blk_state" where
  "rd_init mem_start len s =
    (len, s\<lparr>bk := (bk s)\<lparr>blk_fn := (blk_fn (bk s))(1 := True),
                        mm := set_bytes mem_start (\<lambda>_. 0) (nat len) (mm (bk s))\<rparr>,
            rd_start := mem_start, rd_length := len\<rparr>)"


section \<open>The queue as a list\<close>

primrec chain :: "(nat \<Rightarrow> nat option) \<Rightarrow> nat option \<Rightarrow> nat list \<Rightarrow> bool" where
  "chain f p [] \<longleftrightarrow> p = None"
| "chain f p (x # xs) \<longleftrightarrow> p = Some x \<and> chain f (f x) xs"

lemma queue_chain_cong: "(\<And>x. x \<in> set xs \<Longrightarrow> f x = g x) \<Longrightarrow> chain f p xs = chain g p xs"
  by (induction xs arbitrary: p) auto

lemma queue_chain_upd [simp]: "x \<notin> set xs \<Longrightarrow> chain (f(x := v)) p xs = chain f p xs"
  by (rule queue_chain_cong) auto

text \<open>The elevator on lists: the place of \<open>r\<close> behind the head \<open>x\<close> of the queue.\<close>

fun place :: "('a \<Rightarrow> 'a \<Rightarrow> bool) \<Rightarrow> 'a \<Rightarrow> 'a \<Rightarrow> 'a list \<Rightarrow> 'a list" where
  "place lt r x [] = [r]"
| "place lt r x (y # ys) =
    (if (lt x r \<or> \<not> lt x y) \<and> lt r y then r # y # ys else y # place lt r y ys)"

text \<open>The number of places where the order turns back: a queue with \<open>n\<close> of them is served in \<open>n + 1\<close> sweeps.\<close>

fun turns :: "('a \<Rightarrow> 'a \<Rightarrow> bool) \<Rightarrow> 'a list \<Rightarrow> nat" where
  "turns lt (x # y # ys) = (if lt x y then 0 else 1) + turns lt (y # ys)"
| "turns lt _ = 0"

lemma find_place_chain:
  assumes "chain f (Some x) (x # xs)" "\<And>i. r_next (rq i) = f i" "length xs \<le> k" "distinct (x # xs)" "r \<notin> set (x # xs)"
    "t = find_place k rq r x" "g = f(r := f t, t := Some r)"
  shows "chain g (Some x) (x # place (\<lambda>i j. IN_ORDER (rq i) (rq j)) r x xs) \<and> t \<in> set (x # xs)"
  using assms
proof (induction k arbitrary: x xs)
  case 0
  then show ?case
    by simp
next
  case (Suc k)
  show ?case
  proof (cases xs)
    case Nil
    then show ?thesis
      using Suc.prems by auto
  next
    case (Cons y ys)
    then have nx: "f x = Some y"
      using Suc.prems(1) by simp
    show ?thesis
    proof (cases "(IN_ORDER (rq x) (rq r) \<or> \<not> IN_ORDER (rq x) (rq y)) \<and> IN_ORDER (rq r) (rq y)")
      case True
      then have "t = x"
        using Suc.prems(6) nx by (simp add: Suc.prems(2))
      moreover have "chain g p ys = chain f p ys" for p
        by (rule queue_chain_cong) (use Suc.prems(4,5,7) Cons \<open>t = x\<close> in auto)
      moreover have "g x = Some r" "g r = Some y" "g y = f y"
        using Suc.prems(4,5,7) Cons nx \<open>t = x\<close> by auto
      ultimately show ?thesis
        using True Suc.prems(1) Cons by simp
    next
      case False
      then have t: "t = find_place k rq r y"
        using Suc.prems(6) unfolding find_place.simps Suc.prems(2) nx option.case by (simp only: if_False)
      have "chain f (Some y) (y # ys)" "length ys \<le> k" "distinct (y # ys)" "r \<notin> set (y # ys)"
        using Suc.prems(1,3,4,5) Cons by auto
      then have "chain g (Some y) (y # place (\<lambda>i j. IN_ORDER (rq i) (rq j)) r y ys) \<and> t \<in> set (y # ys)"
        by (intro Suc.IH [OF _ Suc.prems(2) _ _ _ t Suc.prems(7)])
      moreover have "g x = Some y"
        using calculation Suc.prems(4,5,7) nx Cons by auto
      ultimately show ?thesis
        using False Cons by auto
    qed
  qed
qed

section \<open>The elevator\<close>

lemma place_split: "\<exists>a b. xs = a @ b \<and> place lt r x xs = a @ r # b"
proof (induction lt r x xs rule: place.induct)
  case (2 lt r x y ys)
  show ?case
  proof (cases "(lt x r \<or> \<not> lt x y) \<and> lt r y")
    case True
    then show ?thesis
      by (intro exI [of _ "[]"] exI [of _ "y # ys"]) simp
  next
    case False
    then obtain a b where "ys = a @ b" "place lt r y ys = a @ r # b"
      using 2 by blast
    then show ?thesis
      using False by (intro exI [of _ "y # a"] exI [of _ b]) auto
  qed
qed simp

text \<open>Requests that compare with each other: the case of requests for different blocks.\<close>

definition comparable :: "('a \<Rightarrow> 'a \<Rightarrow> bool) \<Rightarrow> 'a list \<Rightarrow> bool" where
  "comparable lt xs \<longleftrightarrow>
    (\<forall>a\<in>set xs. \<forall>b\<in>set xs. a \<noteq> b \<longrightarrow> lt a b \<or> lt b a)"

lemma comparable_tail:
  assumes "comparable lt (r # x # y # ys)" "distinct (r # x # y # ys)"
  shows "comparable lt (r # y # ys)" "distinct (r # y # ys)" "lt r y \<or> lt y r"
  using assms by (simp_all add: comparable_def)

lemma place_ascending:
  "comparable lt (r # x # xs) \<Longrightarrow> distinct (r # x # xs) \<Longrightarrow> turns lt (x # xs) = 0 \<Longrightarrow> lt x r \<Longrightarrow>
    turns lt (x # place lt r x xs) = 0"
proof (induction lt r x xs rule: place.induct)
  case (2 lt r x y ys)
  note tail = comparable_tail [OF "2.prems"(1,2)]
  have xy: "lt x y" "turns lt (y # ys) = 0"
    using "2.prems"(3) by (simp_all split: if_splits)
  show ?case
  proof (cases "lt r y")
    case True
    then show ?thesis
      using "2.prems"(4) xy by simp
  next
    case False
    then have "turns lt (y # place lt r y ys) = 0"
      using tail xy(2) by (intro "2.IH") auto
    then show ?thesis
      using xy(1) False by simp
  qed
qed simp

lemma place_turns:
  "comparable lt (r # x # xs) \<Longrightarrow> distinct (r # x # xs) \<Longrightarrow> turns lt (x # xs) \<le> 1 \<Longrightarrow>
    turns lt (x # place lt r x xs) \<le> 1"
proof (induction lt r x xs rule: place.induct)
  case (1 lt r x)
  then show ?case by simp
next
  case (2 lt r x y ys)
  note tail = comparable_tail [OF "2.prems"(1,2)]
  show ?case
  proof (cases "(lt x r \<or> \<not> lt x y) \<and> lt r y")
    case True
    then show ?thesis
      using "2.prems"(3) by (simp split: if_splits)
  next
    case False
    then have p: "place lt r x (y # ys) = y # place lt r y ys"
      by (simp only: place.simps if_False)
    show ?thesis
    proof (cases "lt x y")
      case True
      then have "turns lt (y # place lt r y ys) \<le> 1"
        using False tail(1,2) "2.prems"(3) by (intro "2.IH") simp_all
      then show ?thesis
        using True p by simp
    next
      case turn: False
      then have asc: "turns lt (y # ys) = 0" "lt y r"
        using "2.prems"(3) False tail(3) by simp_all
      then have "turns lt (y # place lt r y ys) = 0"
        by (intro place_ascending tail)
      then show ?thesis
        using p turn by simp
    qed
  qed
qed

lemma IN_ORDER_next [simp]: "IN_ORDER (a\<lparr>r_next := p\<rparr>) b = IN_ORDER a b" "IN_ORDER a (b\<lparr>r_next := p\<rparr>) = IN_ORDER a b"
  by (simp_all add: IN_ORDER_def)

lemma place_cong:
  "(\<And>a b. a \<in> set (r # x # xs) \<Longrightarrow> b \<in> set (r # x # xs) \<Longrightarrow> lt a b = lt' a b) \<Longrightarrow> place lt r x xs = place lt' r x xs"
  by (induction lt r x xs rule: place.induct) auto

lemma turns_cong: "(\<And>a b. a \<in> set xs \<Longrightarrow> b \<in> set xs \<Longrightarrow> lt a b = lt' a b) \<Longrightarrow> turns lt xs = turns lt' xs"
  by (induction lt xs rule: turns.induct) auto

text \<open>The requests of the queue of \<open>major\<close>, and when two of them are for the same sector in the same direction.\<close>

definition queued :: "nat \<Rightarrow> nat list \<Rightarrow> blk_state \<Rightarrow> bool" where
  "queued major xs s \<longleftrightarrow>
    chain (\<lambda>i. r_next (request s i)) (current_request s major) xs \<and> distinct xs \<and> (\<forall>i\<in>set xs. i < NR_REQUEST)"

definition same_place :: "blk_request \<Rightarrow> blk_request \<Rightarrow> bool" where
  "same_place a b \<longleftrightarrow> \<not> IN_ORDER a b \<and> \<not> IN_ORDER b a"

definition sweeps :: "blk_state \<Rightarrow> nat list \<Rightarrow> nat" where
  "sweeps s xs = turns (\<lambda>i j. IN_ORDER (request s i) (request s j)) xs + 1"

lemma enter_request_simps:
  "request (enter_request req s) = (request s)(req := (request s req)\<lparr>r_next := None\<rparr>)"
  "current_request (enter_request req s) = current_request s"
  by (auto simp: enter_request_def Let_def upd_request_def split: option.split)

lemma queued_length:
  assumes "queued major (h # ts) s"
  shows "length ts \<le> NR_REQUEST"
proof -
  have "distinct (h # ts)" "set (h # ts) \<subseteq> {..<NR_REQUEST}"
    using assms by (auto simp: queued_def)
  then show ?thesis
    using card_mono [of "{..<NR_REQUEST}" "set (h # ts)"] distinct_card [of "h # ts"] by simp
qed

lemma add_request_splices:
  assumes "queued major (h # ts) s" "req \<notin> set (h # ts)"
  obtains s' where "add_request fn major req s = ret () s'" "current_request s' major = Some h"
    "chain (\<lambda>i. r_next (request s' i)) (Some h) (h # place (\<lambda>i j. IN_ORDER (request s i) (request s j)) req h ts)"
    "\<And>i j. IN_ORDER (request s' i) (request s' j) = IN_ORDER (request s i) (request s j)"
proof -
  define s1 where "s1 = enter_request req s"
  define tmp where "tmp = find_place NR_REQUEST (request s1) req h"
  define s2 where "s2 = upd_request tmp (\<lambda>r. r\<lparr>r_next := Some req\<rparr>)
    (upd_request req (\<lambda>r. r\<lparr>r_next := r_next (request s1 tmp)\<rparr>) s1)"
  let ?f = "\<lambda>i. r_next (request s1 i)"
  have s1: "request s1 = (request s)(req := (request s req)\<lparr>r_next := None\<rparr>)" "current_request s1 = current_request s"
    by (simp_all add: s1_def enter_request_simps)
  then have lt: "IN_ORDER (request s1 i) (request s1 j) = IN_ORDER (request s i) (request s j)" for i j
    by simp
  have q: "chain (\<lambda>i. r_next (request s i)) (current_request s major) (h # ts)" "distinct (h # ts)"
    using assms(1) by (simp_all add: queued_def)
  then have cur: "current_request s major = Some h"
    by simp
  have "chain ?f (Some h) (h # ts) = chain (\<lambda>i. r_next (request s i)) (Some h) (h # ts)"
    by (rule queue_chain_cong) (use assms(2) in \<open>auto simp: s1\<close>)
  then have "chain ?f (Some h) (h # ts)"
    using q(1) cur by simp
  note place = find_place_chain [OF this refl queued_length [OF assms(1)] q(2) assms(2) tmp_def refl, unfolded lt]
  then have "tmp \<noteq> req"
    using assms(2) by metis
  then have f2: "(\<lambda>i. r_next (request s2 i)) = ?f(req := ?f tmp, tmp := Some req)"
    "IN_ORDER (request s2 i) (request s2 j) = IN_ORDER (request s i) (request s j)" for i j
    by (auto simp: s2_def upd_request_def fun_eq_iff lt [symmetric])
  show thesis
  proof (rule that)
    show "add_request fn major req s = ret () s2"
      unfolding add_request_def s1_def [symmetric] Let_def s1(2) cur option.case tmp_def [symmetric] s2_def [symmetric]
      by (rule refl)
    show "current_request s2 major = Some h"
      by (simp add: s2_def upd_request_def s1 cur)
    show "chain (\<lambda>i. r_next (request s2 i)) (Some h) (h # place (\<lambda>i j. IN_ORDER (request s i) (request s j)) req h ts)"
      unfolding f2(1) using place by (rule conjunct1)
  qed (rule f2(2))
qed

text \<open>
  C33. The elevator. A request that is added to the queue of a busy device goes into it behind the request that is
  being served, all others keep their order, nothing is lost; and a queue that the disk arm serves in at most
  two sweeps (in the order reads before writes, device, sector) is still one after the insertion, as long as no
  two requests are for the same place.
\<close>

theorem add_request_elevator:
  assumes "queued major (h # ts) s" "req \<notin> set (h # ts)" "req < NR_REQUEST"
    "\<And>i j. i \<in> set (req # h # ts) \<Longrightarrow> j \<in> set (req # h # ts) \<Longrightarrow> i \<noteq> j \<Longrightarrow> \<not> same_place (request s i) (request s j)"
    "sweeps s (h # ts) \<le> 2"
  shows "\<exists>s' a b. add_request fn major req s = ret () s' \<and> ts = a @ b \<and> queued major (h # a @ req # b) s'
    \<and> sweeps s' (h # a @ req # b) \<le> 2"
proof -
  let ?lt = "\<lambda>i j. IN_ORDER (request s i) (request s j)"
  obtain s' where s': "add_request fn major req s = ret () s'" "current_request s' major = Some h"
    "chain (\<lambda>i. r_next (request s' i)) (Some h) (h # place ?lt req h ts)"
    "\<And>i j. IN_ORDER (request s' i) (request s' j) = ?lt i j"
    by (rule add_request_splices [OF assms(1,2), of fn]) blast
  obtain a b where ab: "ts = a @ b" "place ?lt req h ts = a @ req # b"
    using place_split [of ts ?lt req h] by blast
  have q: "distinct (h # ts)" "\<forall>i\<in>set (h # ts). i < NR_REQUEST"
    using assms(1) by (simp_all add: queued_def)
  then have "queued major (h # a @ req # b) s'"
    using s'(2,3) assms(2,3) ab by (auto simp: queued_def)
  moreover have "turns ?lt (h # place ?lt req h ts) \<le> 1"
    using assms(2,4,5) q(1) by (intro place_turns) (auto simp: comparable_def same_place_def sweeps_def)
  moreover have "sweeps s' xs = sweeps s xs" for xs
    by (simp only: sweeps_def s'(4))
  ultimately show ?thesis
    using s'(1) ab by (intro exI [of _ s'] exI [of _ a] exI [of _ b]) (simp add: sweeps_def)
qed


section \<open>Room for reads\<close>

definition reads_reserved :: "blk_state \<Rightarrow> bool" where
  "reads_reserved s \<longleftrightarrow> (\<forall>i. 21 \<le> i \<longrightarrow> i < 32 \<longrightarrow> r_dev (request s i) \<ge> 0 \<longrightarrow> r_cmd (request s i) = READ)"

lemma find_request_slot:
  "find_request rw s = Some i \<Longrightarrow> i < (if rw = READ then 32 else 21) \<and> r_dev (request s i) < 0"
  by (auto simp: find_request_def find_Some_iff NR_REQUEST_def rev_nth)

lemma find_request_None: "find_request READ s = None \<Longrightarrow> i < 32 \<Longrightarrow> r_dev (request s i) \<ge> 0"
  by (auto simp: find_request_def find_None_iff NR_REQUEST_def)

lemma reads_reserved_cong:
  "(\<And>i. r_dev (request s i) = r_dev (request u i)) \<Longrightarrow> (\<And>i. r_cmd (request s i) = r_cmd (request u i)) \<Longrightarrow>
    reads_reserved s = reads_reserved u"
  by (simp add: reads_reserved_def)

lemma reads_reserved_simps [simp]:
  "reads_reserved (s\<lparr>bk := k\<rparr>) = reads_reserved s" "reads_reserved (s\<lparr>current_request := c\<rparr>) = reads_reserved s"
  "reads_reserved (upd_request r (\<lambda>q. q\<lparr>r_next := n\<rparr>) s) = reads_reserved s"
  "reads_reserved (enter_request r s) = reads_reserved s"
  by (rule reads_reserved_cong; simp add: upd_request_def enter_request_simps)+

lemma reads_reserved_add:
  assumes "reads_reserved s" "\<And>s s'. reads_reserved s \<Longrightarrow> fn s = ret () s' \<Longrightarrow> reads_reserved s'"
    "add_request fn major req s = ret () s'"
  shows "reads_reserved s'"
proof (cases "current_request s major")
  case None
  then have "fn ((enter_request req s)\<lparr>current_request := (current_request (enter_request req s))(major := Some req)\<rparr>) = ret () s'"
    using assms(3) unfolding add_request_def Let_def enter_request_simps(2) by simp
  then show ?thesis
    by (rule assms(2) [rotated]) (simp add: assms(1))
next
  case (Some h)
  then show ?thesis
    using assms(1,3) unfolding add_request_def Let_def enter_request_simps(2) Some option.case ret_def
    by (elim Inr_inject [THEN prod.inject [THEN iffD1], THEN conjunct2, THEN subst]) simp
qed

lemma reads_reserved_start:
  assumes "reads_reserved s" "\<And>s s'. reads_reserved s \<Longrightarrow> fn s = ret () s' \<Longrightarrow> reads_reserved s'"
    "start_request fn major ahead rw bh s = ret () s'"
  shows "reads_reserved s'"
proof (cases "find_request rw s")
  case None
  then show ?thesis
    using assms(1,3) by (auto simp: start_request_def ret_def split: if_splits)
next
  case (Some q)
  let ?r = "\<lparr>r_dev = int (unat (b_dev (buf (bk s) bh))), r_cmd = rw, r_errors = 0,
            r_sector = push_bit 1 (b_blocknr (buf (bk s) bh)), r_nr_sectors = 2, r_buffer = 0, r_waiting = None,
            r_bh = Some bh, r_next = None\<rparr>"
  have "q < 21 \<or> rw = READ"
    using find_request_slot [OF Some] by (auto split: if_splits)
  then have "reads_reserved (upd_request q (\<lambda>_. ?r) s)"
    using assms(1) by (auto simp: reads_reserved_def upd_request_def)
  moreover have "add_request fn major q (upd_request q (\<lambda>_. ?r) s) = ret () s'"
    using assms(3) Some by (simp add: start_request_def)
  ultimately show ?thesis
    using reads_reserved_add [of "upd_request q (\<lambda>_. ?r) s"] assms(2) by blast
qed

text \<open>
  C35. The last third of the request table is for reads: whatever requests have been made, a read request finds a
  free slot, and does not sleep, while fewer than eleven reads are under way, however many writes there are.
\<close>

theorem read_finds_slot:
  assumes "reads_reserved s" "card {i. i < 32 \<and> r_dev (request s i) \<ge> 0 \<and> r_cmd (request s i) = READ} < 11"
    "\<And>s s'. reads_reserved s \<Longrightarrow> fn s = ret () s' \<Longrightarrow> reads_reserved s'"
  shows "find_request READ s \<noteq> None
    \<and> (\<forall>rw s'. make_req fn major rw bh s = ret () s' \<longrightarrow> reads_reserved s')"
proof -
  have "find_request READ s \<noteq> None"
  proof
    assume none: "find_request READ s = None"
    have "{21..<32} \<subseteq> {i. i < 32 \<and> r_dev (request s i) \<ge> 0 \<and> r_cmd (request s i) = READ}"
      using find_request_None [OF none] assms(1) by (auto simp: reads_reserved_def)
    then have "card {21..<32::nat} \<le> card {i. i < 32 \<and> r_dev (request s i) \<ge> 0 \<and> r_cmd (request s i) = READ}"
      by (intro card_mono) auto
    then show False
      using assms(2) by simp
  qed
  moreover have "reads_reserved s'" if m: "make_req fn major rw bh s = ret () s'" for rw s'
  proof -
    define k where "k = upd_buf bh (\<lambda>b. b\<lparr>b_lock := 1\<rparr>) (bk s)"
    have "reads_reserved (s\<lparr>bk := k\<rparr>)"
      using assms(1) by simp
    then have start: "start_request fn major ahead rw bh (s\<lparr>bk := k\<rparr>) = ret () s' \<Longrightarrow> reads_reserved s'" for ahead rw
      using reads_reserved_start [of "s\<lparr>bk := k\<rparr>"] assms(3) by blast
    show ?thesis
      using m assms(1) start unfolding make_req_def Let_def k_def [symmetric] by (auto simp: ret_def split: if_splits)
  qed
  ultimately show ?thesis
    by blast
qed


section \<open>The ram disk does what a request asks for\<close>

text \<open>The bytes of a block of the ram disk.\<close>

definition rd_byte :: "blk_state \<Rightarrow> nat \<Rightarrow> nat \<Rightarrow> u8" where
  "rd_byte s b i = get_byte (mm (bk s)) (rd_start s + of_nat (1024 * b + i))"

lemma upd_buf_simps [simp]:
  "buf (upd_buf b f k) = (buf k)(b := f (buf k b))" "mm (upd_buf b f k) = mm k" "sch (upd_buf b f k) = sch k"
  by (simp_all add: upd_buf_def)

lemma unlock_buffer_simps [simp]:
  "mm (unlock_buffer b k) = mm k" "b_data (buf (unlock_buffer b k) x) = b_data (buf k x)"
  "b_lock (buf (unlock_buffer b k) b) = 0" "b_uptodate (buf (unlock_buffer b k) x) = b_uptodate (buf k x)"
  "b_dirt (buf (unlock_buffer b k) x) = b_dirt (buf k x)"
  by (simp_all add: unlock_buffer_def split: prod.split)

lemma end_request_last:
  assumes "current_request s major = Some c" "r_next (request s c) = None" "r_bh (request s c) = Some bh"
  shows "\<exists>u. end_request (\<lambda>_ s. s) major up s = ret () u \<and> current_request u major = None
    \<and> mm (bk u) = mm (bk s) \<and> rd_start u = rd_start s \<and> rd_length u = rd_length s
    \<and> (\<forall>x. b_data (buf (bk u) x) = b_data (buf (bk s) x)) \<and> b_lock (buf (bk u) bh) = 0
    \<and> b_uptodate (buf (bk u) bh) = up \<and> b_dirt (buf (bk u) bh) = b_dirt (buf (bk s) bh)"
  using assms by (simp add: end_request_def Let_def upd_request_def split: prod.split)

lemma block_fits:
  assumes "0 \<le> l" "int a + l < 0x100000000" "1024 * (int b + 1) \<le> l"
  shows "a + 1024 * b + 1024 \<le> a + nat l \<and> a + nat l < 4294967296"
proof -
  obtain n where "l = int n"
    by (rule nonneg_int_cases [OF assms(1)])
  then show ?thesis
    using assms by simp
qed

lemma rd_in_range:
  assumes r: "r_sector q = push_bit 1 blk" "r_nr_sectors q = 2"
    and range: "0 \<le> rd_length s" "int (unat (rd_start s)) + rd_length s < 0x100000000" "1024 * (int (unat blk) + 1) \<le> rd_length s"
  shows "\<not> (rd_start s + push_bit 9 (r_sector q) + push_bit 9 (r_nr_sectors q) > rd_start s + of_int (rd_length s))"
proof -
  define e where "e = unat (rd_start s) + 1024 * unat blk"
  have bound: "e + 1024 \<le> unat (rd_start s) + nat (rd_length s)" "unat (rd_start s) + nat (rd_length s) < 4294967296"
    using block_fits [OF range] unfolding e_def by blast+
  have e: "rd_start s + push_bit 9 (r_sector q) + push_bit 9 (r_nr_sectors q) = of_nat (e + 1024)"
    "rd_start s + of_int (rd_length s) = of_nat (unat (rd_start s) + nat (rd_length s))"
    using range(1) by (simp_all add: e_def r push_bit_eq_mult)
  have "unat (of_nat (e + 1024) :: u32) = e + 1024"
    "unat (of_nat (unat (rd_start s) + nat (rd_length s)) :: u32) = unat (rd_start s) + nat (rd_length s)"
    by (rule unat_of_nat32; use bound in linarith)+
  then show ?thesis
    unfolding e using bound(1) by (simp add: word_less_nat_alt del: of_nat_add)
qed

lemma rd_copy_block:
  assumes r: "r_bh q = Some bh" "r_buffer q = 0" "r_cmd q = rw" "rw = READ \<or> rw = WRITE"
    and addr: "addr = rd_start s + of_nat (1024 * unat blk)"
  obtains v where "rd_copy addr 1024 q s = ret () v"
    "current_request v = current_request s" "request v = request s" "rd_start v = rd_start s" "rd_length v = rd_length s"
    "b_dirt (buf (bk v) bh) = b_dirt (buf (bk s) bh)"
    "rw = READ \<Longrightarrow> mm (bk v) = mm (bk s) \<and> (\<forall>i<1024. b_data (buf (bk v) bh) i = rd_byte s (unat blk) i)
        \<and> (\<forall>x. x \<noteq> bh \<longrightarrow> b_data (buf (bk v) x) = b_data (buf (bk s) x))"
    "rw = WRITE \<Longrightarrow> (\<forall>x. b_data (buf (bk v) x) = b_data (buf (bk s) x))
        \<and> mm (bk v) = set_bytes addr (b_data (buf (bk s) bh)) 1024 (mm (bk s))"
proof (cases "rw = READ")
  case True
  have "rd_byte s (unat blk) i = get_byte (mm (bk s)) (addr + of_nat i)" for i
    by (simp add: rd_byte_def addr add.assoc)
  then show thesis
    using True r(2,3) by (intro that [of "s\<lparr>bk := upd_buf bh (\<lambda>b. b\<lparr>b_data := (\<lambda>i.
        if i < 1024 then get_byte (mm (bk s)) (addr + of_nat i) else b_data (buf (bk s) bh) i)\<rparr>) (bk s)\<rparr>"])
      (unfold rd_copy_def Let_def r(1) option.case r(2,3) diff_zero, simp_all)
next
  case False
  then show thesis
    using r by (intro that [of "s\<lparr>bk := (bk s)\<lparr>mm := set_bytes addr (b_data (buf (bk s) bh)) 1024 (mm (bk s))\<rparr>\<rparr>"])
      (unfold rd_copy_def Let_def r(1) option.case r(2,3) diff_zero, simp_all)
qed

lemma rd_byte_written:
  assumes range: "0 \<le> rd_length s" "int (unat (rd_start s)) + rd_length s < 0x100000000" "1024 * (int (unat blk) + 1) \<le> rd_length s"
    and u: "rd_start u = rd_start s" "mm (bk u) = set_bytes (rd_start s + of_nat (1024 * unat blk)) data 1024 (mm (bk s))"
    and w: "i < 1024" "1024 * (int b + 1) \<le> rd_length s"
  shows "rd_byte u b i = (if b = unat blk then data i else rd_byte s b i)"
proof -
  define a e where "a = unat (rd_start s)" and "e = unat (rd_start s) + 1024 * unat blk"
  have start: "rd_start s = of_nat a"
    by (simp add: a_def)
  have bound: "e + 1024 \<le> unat (rd_start s) + nat (rd_length s)" "unat (rd_start s) + nat (rd_length s) < 4294967296"
    using block_fits [OF range] unfolding e_def by blast+
  have "a + (1024 * b + i) < 4294967296"
    using block_fits [OF range(1,2) w(2)] w(1) unfolding a_def by linarith
  then have far: "(of_nat (a + (1024 * b + i)) :: u32) \<noteq> of_nat (e + k)" if "b \<noteq> unat blk" "k < 1024" for k
    using that w(1) bound unfolding a_def [symmetric] e_def
    by (subst of_nat_inj) (simp_all, linarith?)
  have m: "rd_byte u b i = get_byte (set_bytes (of_nat e) data 1024 (mm (bk s))) (of_nat (a + (1024 * b + i)))"
    using u by (simp add: rd_byte_def e_def a_def)
  show ?thesis
  proof (cases "b = unat blk")
    case True
    then have x: "of_nat (a + (1024 * b + i)) = (of_nat e + of_nat i :: u32)"
      by (simp add: e_def a_def)
    show ?thesis
      unfolding m x using True w(1) get_set_bytes [of 1024 i "of_nat e"] by simp
  next
    case False
    then show ?thesis
      unfolding m using far [OF False] by (subst get_set_bytes_other) (simp_all only: of_nat_add rd_byte_def start if_False simp_thms)
  qed
qed

lemma rd_serves_one:
  assumes c: "current_request s 1 = Some c" "r_next (request s c) = None" "r_bh (request s c) = Some bh"
    and r: "r_dev (request s c) = 0x101" "r_sector (request s c) = push_bit 1 blk" "r_nr_sectors (request s c) = 2"
      "r_buffer (request s c) = 0" "r_cmd (request s c) = rw" "rw = READ \<or> rw = WRITE"
    and lock: "b_lock (buf (bk s) bh) \<noteq> 0"
    and range: "0 \<le> rd_length s" "int (unat (rd_start s)) + rd_length s < 0x100000000" "1024 * (int (unat blk) + 1) \<le> rd_length s"
  shows "\<exists>u. do_rd_request (Suc k) s = ret () u \<and> current_request u 1 = None
    \<and> rd_start u = rd_start s \<and> rd_length u = rd_length s
    \<and> b_lock (buf (bk u) bh) = 0 \<and> b_uptodate (buf (bk u) bh) = 1 \<and> b_dirt (buf (bk u) bh) = b_dirt (buf (bk s) bh)
    \<and> (if rw = READ then mm (bk u) = mm (bk s) \<and> (\<forall>i<1024. b_data (buf (bk u) bh) i = rd_byte s (unat blk) i)
        \<and> (\<forall>x. x \<noteq> bh \<longrightarrow> b_data (buf (bk u) x) = b_data (buf (bk s) x))
       else (\<forall>x. b_data (buf (bk u) x) = b_data (buf (bk s) x))
        \<and> (\<forall>b i. i < 1024 \<longrightarrow> 1024 * (int b + 1) \<le> rd_length s \<longrightarrow>
             rd_byte u b i = (if b = unat blk then b_data (buf (bk s) bh) i else rd_byte s b i)))"
proof -
  let ?r = "request s c" and ?addr = "rd_start s + push_bit 9 (r_sector (request s c))"
  have addr: "?addr = rd_start s + of_nat (1024 * unat blk)"
    by (simp add: r push_bit_eq_mult)
  have len: "unat (push_bit 9 (r_nr_sectors ?r)) = 1024"
    by (simp add: r push_bit_eq_mult)
  have init: "init_request 1 c s = None"
    using c(3) lock by (simp add: init_request_def r(1))
  obtain v where v: "rd_copy ?addr 1024 ?r s = ret () v"
    "current_request v = current_request s" "request v = request s" "rd_start v = rd_start s" "rd_length v = rd_length s"
    "b_dirt (buf (bk v) bh) = b_dirt (buf (bk s) bh)"
    "rw = READ \<Longrightarrow> mm (bk v) = mm (bk s) \<and> (\<forall>i<1024. b_data (buf (bk v) bh) i = rd_byte s (unat blk) i)
        \<and> (\<forall>x. x \<noteq> bh \<longrightarrow> b_data (buf (bk v) x) = b_data (buf (bk s) x))"
    "rw = WRITE \<Longrightarrow> (\<forall>x. b_data (buf (bk v) x) = b_data (buf (bk s) x))
        \<and> mm (bk v) = set_bytes ?addr (b_data (buf (bk s) bh)) 1024 (mm (bk s))"
    by (rule rd_copy_block [OF c(3) r(4-6) addr]) (rule that; blast)
  obtain u where u: "end_request (\<lambda>_ s. s) 1 1 v = ret () u" "current_request u 1 = None" "mm (bk u) = mm (bk v)"
    "rd_start u = rd_start v" "rd_length u = rd_length v" "\<And>x. b_data (buf (bk u) x) = b_data (buf (bk v) x)"
    "b_lock (buf (bk u) bh) = 0" "b_uptodate (buf (bk u) bh) = 1" "b_dirt (buf (bk u) bh) = b_dirt (buf (bk v) bh)"
    using end_request_last [of v 1 c bh 1] c v(2,3) by auto
  have "do_rd_request k u = ret () u"
    using u(2) by (cases k) simp_all
  then have run: "do_rd_request (Suc k) s = ret () u"
    unfolding do_rd_request.simps c(1) option.case init Let_def len v(1)
    using rd_in_range [OF r(2,3) range] u(1) by (simp add: r(1))
  have "rd_byte u b i = (if b = unat blk then b_data (buf (bk s) bh) i else rd_byte s b i)"
    if "rw = WRITE" "i < 1024" "1024 * (int b + 1) \<le> rd_length s" for b i
    using that u(3,4) v(4,8) addr by (intro rd_byte_written [OF range]) simp_all
  then show ?thesis
    using run u v r(6) by (intro exI [of _ u]) auto
qed


text \<open>
  C34. A read or write request for a buffer of the ram disk, made while the disk is idle, is done when \<open>ll_rw_block\<close>
  returns: the buffer is unlocked, up to date and clean. Reading fills it with the block of the ram disk and
  changes nothing else in memory; writing stores it there, and every other block of the disk keeps its
  contents. This is what the buffer cache takes a device request to be.
\<close>

theorem ramdisk_implements_request:
  assumes "b_dev (buf (bk s) bh) = 0x101" "b_lock (buf (bk s) bh) = 0" "current_request s 1 = None"
    "find_request rw s = Some req" "blk = unat (b_blocknr (buf (bk s) bh))"
    "0 \<le> rd_length s" "int (unat (rd_start s)) + rd_length s < 0x100000000" "1024 * (int blk + 1) \<le> rd_length s"
    "rw = READ \<and> b_uptodate (buf (bk s) bh) = 0 \<or> rw = WRITE \<and> b_dirt (buf (bk s) bh) \<noteq> 0"
  shows "\<exists>u. make_req (do_rd_request NR_REQUEST) 1 rw bh s = ret () u \<and> current_request u 1 = None
    \<and> b_lock (buf (bk u) bh) = 0 \<and> b_uptodate (buf (bk u) bh) = 1 \<and> b_dirt (buf (bk u) bh) = 0
    \<and> (if rw = READ then mm (bk u) = mm (bk s) \<and> (\<forall>i<1024. b_data (buf (bk u) bh) i = rd_byte s blk i)
       else \<forall>b i. i < 1024 \<longrightarrow> 1024 * (int b + 1) \<le> rd_length s \<longrightarrow>
             rd_byte u b i = (if b = blk then b_data (buf (bk s) bh) i else rd_byte s b i))"
proof -
  define s0 where "s0 = s\<lparr>bk := upd_buf bh (\<lambda>b. b\<lparr>b_lock := 1\<rparr>) (bk s)\<rparr>"
  define r where "r = \<lparr>r_dev = int (unat (b_dev (buf (bk s0) bh))), r_cmd = rw, r_errors = 0,
            r_sector = push_bit 1 (b_blocknr (buf (bk s0) bh)), r_nr_sectors = 2, r_buffer = 0, r_waiting = None,
            r_bh = Some bh, r_next = None\<rparr>"
  define s1 where "s1 = (enter_request req (upd_request req (\<lambda>_. r) s0))\<lparr>current_request :=
    (current_request (enter_request req (upd_request req (\<lambda>_. r) s0)))(1 := Some req)\<rparr>"
  have slot: "find_request rw s0 = Some req"
    using assms(4) by (simp add: find_request_def s0_def)
  have idle: "current_request (enter_request req (upd_request req (\<lambda>_. r) s0)) 1 = None"
    using assms(3) by (simp add: enter_request_simps upd_request_def s0_def)
  have "make_req (do_rd_request NR_REQUEST) 1 rw bh s = start_request (do_rd_request NR_REQUEST) 1 False rw bh s0"
    using assms(2,9) unfolding make_req_def Let_def s0_def [symmetric] by (auto simp: s0_def plain_rw_def)
  also have "\<dots> = do_rd_request NR_REQUEST s1"
    unfolding start_request_def slot option.case r_def [symmetric] add_request_def Let_def idle s1_def [symmetric]
    by (rule refl)
  finally have run: "make_req (do_rd_request NR_REQUEST) 1 rw bh s = do_rd_request (Suc 31) s1"
    by (simp add: NR_REQUEST_def)
  have bk1: "bk s1 = upd_buf bh (\<lambda>b. b\<lparr>b_dirt := 0\<rparr>) (upd_buf bh (\<lambda>b. b\<lparr>b_lock := 1\<rparr>) (bk s))"
    by (simp add: s1_def enter_request_def upd_request_def s0_def r_def Let_def)
  have req1: "request s1 req = r" "current_request s1 1 = Some req" "rd_start s1 = rd_start s" "rd_length s1 = rd_length s"
    by (simp_all add: s1_def enter_request_def upd_request_def s0_def r_def Let_def)
  have byte: "rd_byte s1 b i = rd_byte s b i" for b i
    by (simp add: rd_byte_def bk1 req1)
  note serve = rd_serves_one [of s1 req bh "b_blocknr (buf (bk s) bh)" rw 31, unfolded req1 bk1 byte]
  show ?thesis
    unfolding run using serve assms by (auto simp: r_def s0_def)
qed


section \<open>Examples\<close>

text \<open>A hard disk serving sector 10 with a request for sector 20 waiting, one for sector 15 in slot 2; a ram disk of
  four blocks at 1M; and buffer 0 of its block 1.\<close>

definition demo_request :: "int \<Rightarrow> u32 \<Rightarrow> nat option \<Rightarrow> blk_request" where
  "demo_request dev sector next = \<lparr>r_dev = dev, r_cmd = READ, r_errors = 0, r_sector = sector, r_nr_sectors = 2,
    r_buffer = 0, r_waiting = None, r_bh = None, r_next = next\<rparr>"

definition demo_blk :: blk_state where
  "demo_blk =
    \<lparr>bk = demo_kernel\<lparr>buf := (\<lambda>_. null_buffer\<lparr>b_dev := 0x101, b_blocknr := 1\<rparr>)\<rparr>,
     request = (\<lambda>_. demo_request (- 1) 0 None)(0 := demo_request 0x301 10 (Some 1), 1 := demo_request 0x301 20 None,
       2 := demo_request 0x301 15 None),
     current_request = [3 \<mapsto> 0], wait_for_request = None, rd_start = 0x100000, rd_length = 4096\<rparr>"

theorem add_request_elevator_witness:
  "\<exists>s' a b. add_request (ret ()) 3 2 demo_blk = ret () s' \<and> [1] = a @ b \<and> queued 3 (0 # a @ 2 # b) s'"
proof -
  have "queued 3 [0, 1] demo_blk"
    by (simp add: queued_def demo_blk_def demo_request_def NR_REQUEST_def)
  moreover have "\<not> same_place (request demo_blk i) (request demo_blk j)"
    if "i \<in> set [2, 0, 1]" "j \<in> set [2, 0, 1]" "i \<noteq> j" for i j
    using that by (auto simp: demo_blk_def demo_request_def same_place_def IN_ORDER_def)
  moreover have "sweeps demo_blk [0, 1] \<le> 2"
    by (simp add: sweeps_def)
  ultimately show ?thesis
    using add_request_elevator [of 3 0 "[1]" demo_blk 2 "ret ()"] by (simp add: NR_REQUEST_def) blast
qed

theorem read_finds_slot_witness: "find_request READ demo_blk \<noteq> None"
proof -
  have "{i. i < 32 \<and> r_dev (request demo_blk i) \<ge> 0 \<and> r_cmd (request demo_blk i) = READ} \<subseteq> {0, 1, 2}"
    by (auto simp: demo_blk_def demo_request_def split: if_splits)
  then have "card {i. i < 32 \<and> r_dev (request demo_blk i) \<ge> 0 \<and> r_cmd (request demo_blk i) = READ} \<le> card {0, 1, 2 :: nat}"
    by (intro card_mono) auto
  moreover have "reads_reserved demo_blk"
    by (simp add: reads_reserved_def demo_blk_def demo_request_def)
  ultimately show ?thesis
    using read_finds_slot [of demo_blk "ret ()"] by (simp add: ret_def)
qed

theorem ramdisk_implements_request_witness:
  "\<exists>u. make_req (do_rd_request NR_REQUEST) 1 READ 0 demo_blk = ret () u \<and> b_data (buf (bk u) 0) 5 = rd_byte demo_blk 1 5"
proof -
  have "find_request READ demo_blk = Some 31"
    by (simp add: find_request_def demo_blk_def demo_request_def NR_REQUEST_def upt_rec)
  then show ?thesis
    using ramdisk_implements_request [of demo_blk 0 READ 31 1]
    by (auto simp: demo_blk_def null_buffer_def)
qed

end
