(* ===== verification/Hd.thy ===== *)
theory Hd
  imports Block_Req
begin

text \<open>
  \<open>kernel/blk_drv/hd.c\<close>: the hard disk driver. A request is started by \<open>do_hd_request\<close> and carried on by the
  interrupts of the controller, whose routine is in \<open>do_hd\<close>. \<open>hd_status\<close> is what the successive reads of the status
  register yield, \<open>hd_clock\<close> the number of them so far; \<open>hd_in\<close> the sector that the controller has ready for
  \<open>port_read\<close>, \<open>hd_sent\<close> the sectors sent with \<open>port_write\<close>, latest first.
\<close>

unbundle bit_operations_syntax

section \<open>State\<close>

datatype hd_intr = READ_INTR | WRITE_INTR | RECAL_INTR

record hd_i_struct =
  hd_head :: u32
  hd_sect :: u32
  hd_cyl :: u32
  hd_wpcom :: u32
  hd_lzone :: u32
  hd_ctl :: u32

record hd_struct =
  start_sect :: u32
  nr_sects :: u32

record hd_state =
  hb :: blk_state
  hd_info :: "nat \<Rightarrow> hd_i_struct"
  hd_part :: "nat \<Rightarrow> hd_struct"
  NR_HD :: nat
  hd_reset :: bool
  recalibrate :: bool
  do_hd :: "hd_intr option"
  hd_status :: "nat \<Rightarrow> u8"
  hd_clock :: nat
  hd_in :: "nat \<Rightarrow> u8"
  hd_sent :: "(nat \<Rightarrow> u8) list"

type_synonym 'a hop = "hd_state \<Rightarrow> ('a, hd_state) kres"

definition MAX_ERRORS :: int where "MAX_ERRORS = 7"
definition HD_DATA :: nat where "HD_DATA = 0x1f0"
definition HD_CMD :: nat where "HD_CMD = 0x3f6"
definition ERR_STAT :: u8 where "ERR_STAT = 0x01"
definition DRQ_STAT :: u8 where "DRQ_STAT = 0x08"
definition SEEK_STAT :: u8 where "SEEK_STAT = 0x10"
definition WRERR_STAT :: u8 where "WRERR_STAT = 0x20"
definition READY_STAT :: u8 where "READY_STAT = 0x40"
definition BUSY_STAT :: u8 where "BUSY_STAT = 0x80"
definition WIN_RESTORE :: u32 where "WIN_RESTORE = 0x10"
definition WIN_READ :: u32 where "WIN_READ = 0x20"
definition WIN_WRITE :: u32 where "WIN_WRITE = 0x30"
definition WIN_SPECIFY :: u32 where "WIN_SPECIFY = 0x91"

definition hd_outb :: "u8 \<Rightarrow> nat \<Rightarrow> hd_state \<Rightarrow> hd_state" where
  "hd_outb v port s = s\<lparr>hb := (hb s)\<lparr>bk := outb v port (bk (hb s))\<rparr>\<rparr>"

definition read_status :: "hd_state \<Rightarrow> u8 \<times> hd_state" where
  "read_status s = (hd_status s (hd_clock s), s\<lparr>hd_clock := hd_clock s + 1\<rparr>)"

text \<open>\<open>CURRENT\<close>; a change of the current request; a routine on the queue.\<close>

definition CURRENT :: "hd_state \<Rightarrow> nat option" where "CURRENT s = current_request (hb s) 3"

definition upd_current :: "(blk_request \<Rightarrow> blk_request) \<Rightarrow> hd_state \<Rightarrow> hd_state" where
  "upd_current f s = (case CURRENT s of None \<Rightarrow> s | Some c \<Rightarrow> s\<lparr>hb := upd_request c f (hb s)\<rparr>)"

definition lift_blk :: "(blk_state \<Rightarrow> (unit, blk_state) kres) \<Rightarrow> unit hop" where
  "lift_blk f s =
    (case f (hb s) of
       Inr (x, b) \<Rightarrow> ret x (s\<lparr>hb := b\<rparr>)
     | Inl (Panic m) \<Rightarrow> Inl (Panic m)
     | Inl (Exit c b) \<Rightarrow> Inl (Exit c (s\<lparr>hb := b\<rparr>))
     | Inl (Blocked b) \<Rightarrow> Inl (Blocked (s\<lparr>hb := b\<rparr>))
     | Inl (Fault b) \<Rightarrow> Inl (Fault (s\<lparr>hb := b\<rparr>)))"

definition hd_end_request :: "u8 \<Rightarrow> unit hop" where
  "hd_end_request up = lift_blk (end_request (\<lambda>_ s. s) 3 up)"

section \<open>The controller\<close>

text \<open>\<open>while (--retries && (inb_p(HD_STATUS)&0xc0)!=0x40)\<close>\<close>

primrec ready_loop :: "nat \<Rightarrow> hd_state \<Rightarrow> nat \<times> hd_state" where
  "ready_loop 0 s = (0, s)"
| "ready_loop (Suc retries) s =
    (if retries = 0 then (0, s)
     else let (st, s) = read_status s in if st AND 0xc0 = 0x40 then (retries, s) else ready_loop retries s)"

definition controller_ready :: "hd_state \<Rightarrow> bool \<times> hd_state" where
  "controller_ready s = (let (r, s) = ready_loop 10000 s in (r \<noteq> 0, s))"

text \<open>\<open>win_result\<close>: true for an error; then the error register is read.\<close>

definition win_result :: "hd_state \<Rightarrow> bool \<times> hd_state" where
  "win_result s =
    (let (i, s) = read_status s
     in (i AND (BUSY_STAT OR READY_STAT OR WRERR_STAT OR SEEK_STAT OR ERR_STAT) \<noteq> READY_STAT OR SEEK_STAT, s))"

definition hd_out :: "u32 \<Rightarrow> u32 \<Rightarrow> u32 \<Rightarrow> u32 \<Rightarrow> u32 \<Rightarrow> u32 \<Rightarrow> hd_intr \<Rightarrow> unit hop" where
  "hd_out drive nsect sect head cyl cmd intr s =
    (if drive > 1 \<or> head > 15 then panic ''Trying to write bad sector''
     else
       let (ready, s) = controller_ready s
       in if \<not> ready then panic ''HD controller not ready''
          else
            let info = hd_info s (unat drive);
                s = s\<lparr>do_hd := Some intr\<rparr>;
                s = hd_outb (ucast (hd_ctl info)) HD_CMD s;
                s = hd_outb (ucast (drop_bit 2 (hd_wpcom info))) (HD_DATA + 1) s;
                s = hd_outb (ucast nsect) (HD_DATA + 2) s;
                s = hd_outb (ucast sect) (HD_DATA + 3) s;
                s = hd_outb (ucast cyl) (HD_DATA + 4) s;
                s = hd_outb (ucast (drop_bit 8 cyl)) (HD_DATA + 5) s;
                s = hd_outb (ucast (0xA0 OR push_bit 4 drive OR head)) (HD_DATA + 6) s
            in ret () (hd_outb (ucast cmd) (HD_DATA + 7) s))"

text \<open>\<open>drive_busy\<close>: the test \<open>i == READY_STAT | SEEK_STAT\<close> is \<open>(i == READY_STAT) | SEEK_STAT\<close>, which is never zero.\<close>

primrec busy_loop :: "nat \<Rightarrow> hd_state \<Rightarrow> hd_state" where
  "busy_loop 0 s = s"
| "busy_loop (Suc k) s =
    (let (st, s) = read_status s in if READY_STAT = st AND (BUSY_STAT OR READY_STAT) then s else busy_loop k s)"

definition drive_busy :: "hd_state \<Rightarrow> bool \<times> hd_state" where
  "drive_busy s =
    (let s = busy_loop 10000 s; (i, s) = read_status s; i = i AND (BUSY_STAT OR READY_STAT OR SEEK_STAT);
         test = (if i = READY_STAT then 1 else 0) OR SEEK_STAT
     in (test = 0, s))"

definition reset_controller :: "hd_state \<Rightarrow> hd_state" where
  "reset_controller s =
    (let s = hd_outb 4 HD_CMD s; s = hd_outb (ucast (hd_ctl (hd_info s 0)) AND 0x0f) HD_CMD s
     in snd (drive_busy s))"

definition reset_hd :: "nat \<Rightarrow> unit hop" where
  "reset_hd nr s =
    (let s = reset_controller s; i = hd_info s nr
     in hd_out (of_nat nr) (hd_sect i) (hd_sect i) (hd_head i - 1) (hd_cyl i) WIN_SPECIFY RECAL_INTR s)"

section \<open>Requests\<close>

text \<open>\<open>++CURRENT->errors\<close>. After \<open>end_request\<close> the current request is the next one, or none: then \<open>CURRENT->errors\<close> is the long at
  address 8.\<close>

definition current_errors :: "hd_state \<Rightarrow> int" where
  "current_errors s =
    (case CURRENT s of Some c \<Rightarrow> r_errors (request (hb s) c) | None \<Rightarrow> sint (pmem (mm (bk (hb s))) 8))"

definition bad_rw_intr :: "unit hop" where
  "bad_rw_intr s =
    (if CURRENT s = None then Inl (Fault s) else
     let s = upd_current (\<lambda>r. r\<lparr>r_errors := r_errors r + 1\<rparr>) s
     in bindK (if current_errors s \<ge> MAX_ERRORS then hd_end_request 0 s else ret () s) (\<lambda>_ s.
        ret () (if current_errors s > MAX_ERRORS div 2 then s\<lparr>hd_reset := True\<rparr> else s)))"

text \<open>Cylinder, head and sector of a block of a drive.\<close>

definition chs :: "hd_i_struct \<Rightarrow> u32 \<Rightarrow> u32 \<times> u32 \<times> u32" where
  "chs info block =
    (let sec = block mod hd_sect info; block = block div hd_sect info
     in (block div hd_head info, block mod hd_head info, sec + 1))"

text \<open>\<open>for(i=0 ; i<3000 && !(r=inb_p(HD_STATUS)&DRQ_STAT) ; i++)\<close>\<close>

primrec drq_loop :: "nat \<Rightarrow> hd_state \<Rightarrow> bool \<times> hd_state" where
  "drq_loop 0 s = (False, s)"
| "drq_loop (Suc k) s = (let (st, s) = read_status s in if st AND DRQ_STAT \<noteq> 0 then (True, s) else drq_loop k s)"

definition current_sector :: "hd_state \<Rightarrow> nat \<Rightarrow> u8" where
  "current_sector s k =
    (case CURRENT s of None \<Rightarrow> 0
     | Some c \<Rightarrow> (case r_bh (request (hb s) c) of None \<Rightarrow> 0
        | Some bh \<Rightarrow> b_data (buf (bk (hb s)) bh) (r_buffer (request (hb s) c) + k)))"

definition port_write :: "hd_state \<Rightarrow> hd_state" where
  "port_write s = (let d = current_sector s in s\<lparr>hd_sent := (\<lambda>k. if k < 512 then d k else 0) # hd_sent s\<rparr>)"

definition port_read :: "hd_state \<Rightarrow> hd_state" where
  "port_read s =
    (case CURRENT s of None \<Rightarrow> s
     | Some c \<Rightarrow> (case r_bh (request (hb s) c) of None \<Rightarrow> s
        | Some bh \<Rightarrow>
            let o' = r_buffer (request (hb s) c); k = bk (hb s)
            in s\<lparr>hb := (hb s)\<lparr>bk := upd_buf bh (\<lambda>b. b\<lparr>b_data := (\<lambda>i.
                 if o' \<le> i \<and> i < o' + 512 then hd_in s (i - o') else b_data b i)\<rparr>) k\<rparr>\<rparr>))"

text \<open>\<open>goto repeat\<close> takes a request off the queue or adds an error to the current one. The divisions trap for a drive
  without sectors or heads.\<close>

primrec do_hd_request :: "nat \<Rightarrow> unit hop" where
  "do_hd_request 0 s = Inl (Blocked s)"
| "do_hd_request (Suc k) s =
    (case CURRENT s of
       None \<Rightarrow> ret () s
     | Some c \<Rightarrow>
        (case init_request 3 c (hb s) of
           Some m \<Rightarrow> panic m
         | None \<Rightarrow>
            let r = request (hb s) c; dev = nat (r_dev r) mod 256; block = r_sector r
            in if dev \<ge> 5 * NR_HD s \<or> block + 2 > nr_sects (hd_part s dev)
               then bindK (hd_end_request 0 s) (\<lambda>_ s. do_hd_request k s)
               else if hd_sect (hd_info s (dev div 5)) = 0 \<or> hd_head (hd_info s (dev div 5)) = 0 then Inl (Fault s)
               else
                 let block = block + start_sect (hd_part s dev); drive = dev div 5;
                     (cyl, head, sec) = chs (hd_info s drive) block
                 in if hd_reset s
                    then reset_hd drive (s\<lparr>hd_reset := False, recalibrate := True\<rparr>)
                    else if recalibrate s
                    then hd_out (of_nat drive) (hd_sect (hd_info s drive)) 0 0 0 WIN_RESTORE RECAL_INTR (s\<lparr>recalibrate := False\<rparr>)
                    else if r_cmd r = WRITE then
                      bindK (hd_out (of_nat drive) (r_nr_sectors r) sec head cyl WIN_WRITE WRITE_INTR s) (\<lambda>_ s.
                        let (drq, s) = drq_loop 3000 s
                        in if drq then ret () (port_write s)
                           else bindK (bad_rw_intr s) (\<lambda>_ s. do_hd_request k s))
                    else if r_cmd r = READ
                    then hd_out (of_nat drive) (r_nr_sectors r) sec head cyl WIN_READ READ_INTR s
                    else panic ''unknown hd-command''))"

definition HD_FUEL :: nat where "HD_FUEL = 8 * NR_REQUEST + 1"

section \<open>Interrupts\<close>

definition read_intr :: "unit hop" where
  "read_intr s =
    (let (bad, s) = win_result s
     in if bad then bindK (bad_rw_intr s) (\<lambda>_ s. do_hd_request HD_FUEL s)
        else
          let s = port_read s;
              s = upd_current (\<lambda>r. r\<lparr>r_errors := 0, r_buffer := r_buffer r + 512, r_sector := r_sector r + 1,
                                    r_nr_sectors := r_nr_sectors r - 1\<rparr>) s
          in case CURRENT s of
               None \<Rightarrow> Inl (Fault s)
             | Some c \<Rightarrow>
                 if r_nr_sectors (request (hb s) c) \<noteq> 0 then ret () (s\<lparr>do_hd := Some READ_INTR\<rparr>)
                 else bindK (hd_end_request 1 s) (\<lambda>_ s. do_hd_request HD_FUEL s))"

definition write_intr :: "unit hop" where
  "write_intr s =
    (let (bad, s) = win_result s
     in if bad then bindK (bad_rw_intr s) (\<lambda>_ s. do_hd_request HD_FUEL s)
        else
          let s = upd_current (\<lambda>r. r\<lparr>r_nr_sectors := r_nr_sectors r - 1\<rparr>) s
          in case CURRENT s of
               None \<Rightarrow> Inl (Fault s)
             | Some c \<Rightarrow>
                 if r_nr_sectors (request (hb s) c) \<noteq> 0
                 then let s = upd_current (\<lambda>r. r\<lparr>r_sector := r_sector r + 1, r_buffer := r_buffer r + 512\<rparr>) s
                      in ret () (port_write (s\<lparr>do_hd := Some WRITE_INTR\<rparr>))
                 else bindK (hd_end_request 1 s) (\<lambda>_ s. do_hd_request HD_FUEL s))"

definition recal_intr :: "unit hop" where
  "recal_intr s =
    (let (bad, s) = win_result s
     in bindK (if bad then bad_rw_intr s else ret () s) (\<lambda>_ s. do_hd_request HD_FUEL s))"

text \<open>The interrupt of the controller: the assembly entry clears \<open>do_hd\<close> and calls what it held.\<close>

definition hd_interrupt :: "unit hop" where
  "hd_interrupt s =
    (let s' = s\<lparr>do_hd := None\<rparr>
     in case do_hd s of
          None \<Rightarrow> ret () s'
        | Some READ_INTR \<Rightarrow> read_intr s'
        | Some WRITE_INTR \<Rightarrow> write_intr s'
        | Some RECAL_INTR \<Rightarrow> recal_intr s')"

definition hd_init :: "hd_state \<Rightarrow> hd_state" where
  "hd_init s =
    (let k = bk (hb s); k = k\<lparr>blk_fn := (blk_fn k)(3 := True)\<rparr>;
         k = outb (port_in k 0x21 AND 0xfb) 0x21 k
     in s\<lparr>hb := (hb s)\<lparr>bk := outb (port_in k 0xA1 AND 0xbf) 0xA1 k\<rparr>\<rparr>)"


section \<open>The address of a sector\<close>

lemma chs_block:
  assumes "chs info block = (cyl, head, sec)" "hd_head info > 0" "hd_sect info > 0"
  shows "unat block = (unat cyl * unat (hd_head info) + unat head) * unat (hd_sect info) + (unat sec - 1)
    \<and> unat head < unat (hd_head info) \<and> 1 \<le> unat sec \<and> unat sec \<le> unat (hd_sect info)"
proof -
  let ?H = "unat (hd_head info)" and ?S = "unat (hd_sect info)"
  have pos: "?H > 0" "?S > 0"
    using assms(2,3) by (simp_all add: word_less_nat_alt)
  have c: "unat cyl = unat block div ?S div ?H" "unat head = unat block div ?S mod ?H"
    using assms(1) by (auto simp: chs_def Let_def unat_div unat_mod)
  have "unat (block mod hd_sect info) < ?S"
    using pos by (simp add: unat_mod)
  moreover have "?S < 4294967296"
    by (rule order_less_le_trans [OF unsigned_less]) simp
  ultimately have "unat (block mod hd_sect info) + 1 < 4294967296"
    by linarith
  then have "unat (block mod hd_sect info + 1) = unat (block mod hd_sect info) + 1"
    by (simp add: unat_word_ariths(1))
  then have s: "unat sec = unat block mod ?S + 1"
    using assms(1) by (auto simp: chs_def Let_def unat_mod)
  show ?thesis
    using pos by (simp add: c s Suc_le_eq)
qed

lemma split_bytes: "unat (w :: u32) < 65536 \<Longrightarrow> unat (ucast w :: u8) + 256 * unat (ucast (drop_bit 8 w) :: u8) = unat w"
proof -
  assume "unat w < 65536"
  then have "unat w div 256 < 256"
    by simp
  then show ?thesis
    by (simp add: unsigned_ucast_eq unsigned_drop_bit_eq take_bit_eq_mod drop_bit_eq_div unat_div)
qed

lemma unat_ucast8: "unat (w :: u32) < 256 \<Longrightarrow> unat (ucast w :: u8) = unat w"
  by (simp add: unsigned_ucast_eq take_bit_eq_mod)

lemma drive_head_byte:
  assumes "h < 16" "d < 2"
  shows "unat (ucast (0xA0 OR push_bit 4 (of_nat d :: u32) OR of_nat h) :: u8) mod 16 = h
    \<and> (bit (ucast (0xA0 OR push_bit 4 (of_nat d :: u32) OR of_nat h) :: u8) 4 \<longleftrightarrow> d = 1)"
proof -
  have "\<forall>h\<in>set [0..<16]. \<forall>d\<in>set [0..<2].
      unat (ucast (0xA0 OR push_bit 4 (of_nat d :: u32) OR of_nat h) :: u8) mod 16 = h
      \<and> (bit (ucast (0xA0 OR push_bit 4 (of_nat d :: u32) OR of_nat h) :: u8) 4 \<longleftrightarrow> d = 1)"
    by code_simp
  then show ?thesis
    using assms by simp
qed

text \<open>The sector that the bytes in the registers of the controller name, and what a command writes to them.\<close>

definition named_sector :: "hd_i_struct \<Rightarrow> u8 \<Rightarrow> u8 \<Rightarrow> u8 \<Rightarrow> u8 \<Rightarrow> nat" where
  "named_sector info sec lcyl hcyl sdh =
    ((unat lcyl + 256 * unat hcyl) * unat (hd_head info) + unat sdh mod 16) * unat (hd_sect info) + (unat sec - 1)"

lemma hd_out_ready:
  assumes "drive \<le> 1" "head \<le> 15" "hd_status s (hd_clock s) AND 0xc0 = 0x40"
  shows "\<exists>s' pre. hd_out drive nsect sect head cyl cmd intr s = ret () s' \<and> do_hd s' = Some intr
    \<and> current_request (hb s') = current_request (hb s) \<and> request (hb s') = request (hb s)
    \<and> buf (bk (hb s')) = buf (bk (hb s))
    \<and> port_out (bk (hb s')) = (0x1f7, ucast cmd) # (0x1f6, ucast (0xA0 OR push_bit 4 drive OR head)) #
        (0x1f5, ucast (drop_bit 8 cyl)) # (0x1f4, ucast cyl) # (0x1f3, ucast sect) # (0x1f2, ucast nsect) # pre"
proof -
  have "controller_ready s = (True, s\<lparr>hd_clock := hd_clock s + 1\<rparr>)"
    using assms(3) by (simp add: controller_ready_def read_status_def eval_nat_numeral)
  then show ?thesis
    using assms(1,2) by (simp add: hd_out_def hd_outb_def outb_def HD_DATA_def HD_CMD_def Let_def not_less [symmetric])
qed


text \<open>
  C39. The start of a read. With the controller ready, \<open>do_hd_request\<close> leaves in the registers of the controller the
  drive and the cylinder, head and sector that name the absolute sector of the request, that of the request
  plus the start of its partition, together with the number of sectors and the command, and waits for the
  interrupt of a read. The request stays at the head of the queue.
\<close>

theorem hd_read_addresses_sector:
  assumes "CURRENT s = Some c" "init_request 3 c (hb s) = None" "r_cmd (request (hb s) c) = READ"
    "dev = nat (r_dev (request (hb s) c)) mod 256" "dev < 5 * NR_HD s" "NR_HD s \<le> 2"
    "\<not> r_sector (request (hb s) c) + 2 > nr_sects (hd_part s dev)"
    "\<not> hd_reset s" "\<not> recalibrate s" "hd_status s (hd_clock s) AND 0xc0 = 0x40"
    "info = hd_info s (dev div 5)" "0 < unat (hd_head info)" "unat (hd_head info) \<le> 16"
    "0 < unat (hd_sect info)" "unat (hd_sect info) < 256"
    "block = r_sector (request (hb s) c) + start_sect (hd_part s dev)"
    "unat block < 65536 * unat (hd_head info) * unat (hd_sect info)"
  shows "\<exists>s' sec lcyl hcyl sdh pre. do_hd_request (Suc k) s = ret () s' \<and> do_hd s' = Some READ_INTR \<and> CURRENT s' = Some c
    \<and> port_out (bk (hb s')) = [(0x1f7, 0x20), (0x1f6, sdh), (0x1f5, hcyl), (0x1f4, lcyl), (0x1f3, sec),
        (0x1f2, ucast (r_nr_sectors (request (hb s) c)))] @ pre
    \<and> named_sector info sec lcyl hcyl sdh = unat block \<and> (bit sdh 4 \<longleftrightarrow> dev div 5 = 1)"
proof -
  obtain cyl head sec where chs: "chs info block = (cyl, head, sec)"
    by (metis prod_cases3)
  have pos: "hd_head info > 0" "hd_sect info > 0"
    using assms(12,14) by (simp_all add: word_less_nat_alt)
  note b = chs_block [OF chs pos]
  have drive: "dev div 5 \<le> 1"
    using assms(5,6) by linarith
  then have d: "of_nat (dev div 5) \<le> (1 :: u32)"
    by (simp add: word_le_nat_alt unat_of_nat32)
  have head: "head \<le> 15"
    using b assms(13) by (simp add: word_le_nat_alt)
  have "unat cyl * (unat (hd_head info) * unat (hd_sect info)) \<le> unat block"
    by (subst b [THEN conjunct1]) (simp add: distrib_right mult.assoc)
  then have "unat cyl * (unat (hd_head info) * unat (hd_sect info)) < 65536 * (unat (hd_head info) * unat (hd_sect info))"
    using assms(17) by (simp only: mult.assoc)
  then have cyl: "unat cyl < 65536"
    by (rule mult_less_cancel2 [THEN iffD1, THEN conjunct2])
  obtain s' pre where h: "hd_out (of_nat (dev div 5)) (r_nr_sectors (request (hb s) c)) sec head cyl WIN_READ READ_INTR s = ret () s'"
    "do_hd s' = Some READ_INTR" "current_request (hb s') = current_request (hb s)"
    "port_out (bk (hb s')) = (0x1f7, ucast WIN_READ) # (0x1f6, ucast (0xA0 OR push_bit 4 (of_nat (dev div 5) :: u32) OR head)) #
        (0x1f5, ucast (drop_bit 8 cyl)) # (0x1f4, ucast cyl) # (0x1f3, ucast sec)
        # (0x1f2, ucast (r_nr_sectors (request (hb s) c))) # pre"
    using hd_out_ready [OF d head assms(10), of "r_nr_sectors (request (hb s) c)" sec cyl WIN_READ READ_INTR] by blast
  have "do_hd_request (Suc k) s = ret () s'"
    using assms(1-9) h(1) chs assms(11,16) pos by (simp add: Let_def word_gt_0)
  moreover have "unat (ucast cyl :: u8) + 256 * unat (ucast (drop_bit 8 cyl) :: u8) = unat cyl"
    by (rule split_bytes) (rule cyl)
  moreover have "unat (ucast sec :: u8) = unat sec"
    by (rule unat_ucast8) (use b assms(15) in linarith)
  moreover have "unat (ucast (0xA0 OR push_bit 4 (of_nat (dev div 5) :: u32) OR head) :: u8) mod 16 = unat head
    \<and> (bit (ucast (0xA0 OR push_bit 4 (of_nat (dev div 5) :: u32) OR head) :: u8) 4 \<longleftrightarrow> dev div 5 = 1)"
    using drive_head_byte [of "unat head" "dev div 5"] b assms(13) drive by simp
  ultimately show ?thesis
    using h b assms(1) by (intro exI [of _ s'] exI [of _ "ucast sec"] exI [of _ "ucast cyl"]
        exI [of _ "ucast (drop_bit 8 cyl)"] exI [of _ "ucast (0xA0 OR push_bit 4 (of_nat (dev div 5) :: u32) OR head)"] exI [of _ pre])
      (simp add: CURRENT_def named_sector_def WIN_READ_def)
qed


section \<open>The interrupts of a request\<close>

lemma CURRENT_simps [simp]:
  "CURRENT (s\<lparr>hd_in := d\<rparr>) = CURRENT s" "CURRENT (s\<lparr>do_hd := i\<rparr>) = CURRENT s" "CURRENT (s\<lparr>hd_clock := n\<rparr>) = CURRENT s"
  "CURRENT (s\<lparr>hd_reset := b\<rparr>) = CURRENT s"
  by (simp_all add: CURRENT_def)

lemma hd_end_last:
  assumes "CURRENT s = Some c" "r_next (request (hb s) c) = None" "r_bh (request (hb s) c) = Some bh"
  shows "\<exists>u. hd_end_request up s = ret () (s\<lparr>hb := u\<rparr>) \<and> current_request u 3 = None
    \<and> mm (bk u) = mm (bk (hb s)) \<and> (\<forall>x. b_data (buf (bk u) x) = b_data (buf (bk (hb s)) x))
    \<and> b_lock (buf (bk u) bh) = 0 \<and> b_uptodate (buf (bk u) bh) = up"
  using end_request_last [OF assms(1) [unfolded CURRENT_def] assms(2,3), of up]
  by (auto simp: hd_end_request_def lift_blk_def ret_def)

text \<open>
  C40. Errors are counted, and a request is tried at most seven times. A failure before the seventh leaves the request
  where it is with one more error, and asks for a reset of the controller from the fourth on. The seventh ends
  it: the buffer is unlocked and not up to date. What then decides about the reset is, when no request is
  left, not the count of errors but the long at address 8, the field \<open>errors\<close> of a null pointer.
\<close>

theorem bad_rw_intr_gives_up:
  assumes "CURRENT s = Some c" "r_next (request (hb s) c) = None" "r_bh (request (hb s) c) = Some bh"
    "0 \<le> r_errors (request (hb s) c)"
  shows "\<exists>s'. bad_rw_intr s = ret () s' \<and>
    (if r_errors (request (hb s) c) < 6
     then CURRENT s' = Some c \<and> r_errors (request (hb s') c) = r_errors (request (hb s) c) + 1
        \<and> bk (hb s') = bk (hb s) \<and> (hd_reset s' \<longleftrightarrow> hd_reset s \<or> 3 \<le> r_errors (request (hb s) c))
     else CURRENT s' = None \<and> b_lock (buf (bk (hb s')) bh) = 0 \<and> b_uptodate (buf (bk (hb s')) bh) = 0
        \<and> (hd_reset s' \<longleftrightarrow> hd_reset s \<or> sint (pmem (mm (bk (hb s))) 8) > 3))"
proof -
  define s1 where "s1 = s\<lparr>hb := upd_request c (\<lambda>r. r\<lparr>r_errors := r_errors r + 1\<rparr>) (hb s)\<rparr>"
  have upd: "upd_current (\<lambda>r. r\<lparr>r_errors := r_errors r + 1\<rparr>) s = s1"
    by (simp add: upd_current_def assms(1) s1_def)
  have cur: "CURRENT s1 = Some c" "request (hb s1) c = (request (hb s) c)\<lparr>r_errors := r_errors (request (hb s) c) + 1\<rparr>"
    "bk (hb s1) = bk (hb s)" "hd_reset s1 = hd_reset s"
    using assms(1) by (simp_all add: s1_def upd_request_def CURRENT_def)
  show ?thesis
  proof (cases "r_errors (request (hb s) c) < 6")
    case True
    then show ?thesis
      using assms(1) by (simp add: bad_rw_intr_def upd Let_def current_errors_def cur MAX_ERRORS_def)
  next
    case False
    obtain u where u: "hd_end_request 0 s1 = ret () (s1\<lparr>hb := u\<rparr>)" "current_request u 3 = None" "mm (bk u) = mm (bk (hb s1))"
      "b_lock (buf (bk u) bh) = 0" "b_uptodate (buf (bk u) bh) = 0"
      using hd_end_last [of s1 c bh 0] cur(1,2) assms(2,3) by auto
    have "CURRENT (s1\<lparr>hb := u\<rparr>) = None"
      using u(2) by (simp add: CURRENT_def)
    then show ?thesis
      using False assms(1) u cur by (simp add: bad_rw_intr_def upd Let_def current_errors_def MAX_ERRORS_def)
  qed
qed

text \<open>The controller reports neither an error nor that it is busy.\<close>

definition good_status :: "hd_state \<Rightarrow> bool" where
  "good_status s \<longleftrightarrow> (\<forall>n. hd_status s n AND (BUSY_STAT OR READY_STAT OR WRERR_STAT OR SEEK_STAT OR ERR_STAT) = READY_STAT OR SEEK_STAT)"

text \<open>One interrupt of a read that has another sector to come, and the last one.\<close>

definition after_sector :: "nat \<Rightarrow> nat \<Rightarrow> hd_state \<Rightarrow> hd_state" where
  "after_sector c bh s =
    s\<lparr>hd_clock := hd_clock s + 1, do_hd := None,
      hb := upd_request c (\<lambda>r. r\<lparr>r_errors := 0, r_buffer := r_buffer r + 512, r_sector := r_sector r + 1,
                                r_nr_sectors := r_nr_sectors r - 1\<rparr>)
        ((hb s)\<lparr>bk := upd_buf bh (\<lambda>b. b\<lparr>b_data := (\<lambda>i.
           if r_buffer (request (hb s) c) \<le> i \<and> i < r_buffer (request (hb s) c) + 512
           then hd_in s (i - r_buffer (request (hb s) c)) else b_data b i)\<rparr>) (bk (hb s))\<rparr>)\<rparr>"

lemma hd_interrupt_read:
  assumes "good_status s" "do_hd s = Some READ_INTR" "CURRENT s = Some c" "r_bh (request (hb s) c) = Some bh"
  shows "hd_interrupt s =
    (if r_nr_sectors (request (hb s) c) \<noteq> 1 then ret () ((after_sector c bh s)\<lparr>do_hd := Some READ_INTR\<rparr>)
     else bindK (hd_end_request 1 (after_sector c bh s)) (\<lambda>_ s. do_hd_request HD_FUEL s))"
proof -
  let ?s = "s\<lparr>do_hd := None, hd_clock := hd_clock s + 1\<rparr>"
  have win: "win_result (s\<lparr>do_hd := None\<rparr>) = (False, ?s)"
    using assms(1) by (simp add: win_result_def read_status_def good_status_def)
  have step: "upd_current (\<lambda>r. r\<lparr>r_errors := 0, r_buffer := r_buffer r + 512, r_sector := r_sector r + 1,
      r_nr_sectors := r_nr_sectors r - 1\<rparr>) (port_read ?s) = after_sector c bh s"
    using assms(3,4) by (simp add: port_read_def Let_def upd_current_def CURRENT_def after_sector_def cong: if_cong)
  have cur: "CURRENT (after_sector c bh s) = Some c"
    "r_nr_sectors (request (hb (after_sector c bh s)) c) = r_nr_sectors (request (hb s) c) - 1"
    using assms(3) by (simp_all add: after_sector_def CURRENT_def upd_request_def)
  show ?thesis
    unfolding hd_interrupt_def Let_def assms(2) option.case hd_intr.case read_intr_def win prod.case if_False step cur
    by (simp only: right_minus_eq if_not_P split: if_split)
qed

text \<open>
  C38. A read of a block. With a controller that reports no error, the two interrupts of a read request of two
  sectors fill the buffer with the two sectors, in their order; the second ends the request: the
  buffer is up to date and unlocked.
\<close>

theorem hd_read_completes:
  assumes "good_status s" "do_hd s = Some READ_INTR" "CURRENT s = Some c"
    "r_bh (request (hb s) c) = Some bh" "r_next (request (hb s) c) = None" "r_nr_sectors (request (hb s) c) = 2"
    "r_buffer (request (hb s) c) = 0"
  shows "\<exists>s1 s2. hd_interrupt s = ret () s1 \<and> hd_interrupt (s1\<lparr>hd_in := d\<rparr>) = ret () s2 \<and> CURRENT s2 = None
    \<and> b_lock (buf (bk (hb s2)) bh) = 0 \<and> b_uptodate (buf (bk (hb s2)) bh) = 1
    \<and> (\<forall>i<512. b_data (buf (bk (hb s2)) bh) i = hd_in s i \<and> b_data (buf (bk (hb s2)) bh) (512 + i) = d i)"
proof -
  define s1 where "s1 = (after_sector c bh s)\<lparr>do_hd := Some READ_INTR\<rparr>"
  define s1' where "s1' = s1\<lparr>hd_in := d\<rparr>"
  have run1: "hd_interrupt s = ret () s1"
    using hd_interrupt_read [OF assms(1-4)] assms(6) by (simp add: s1_def)
  have s1: "good_status s1'" "do_hd s1' = Some READ_INTR" "CURRENT s1' = Some c" "r_bh (request (hb s1') c) = Some bh"
    "r_next (request (hb s1') c) = None" "r_nr_sectors (request (hb s1') c) = 1" "r_buffer (request (hb s1') c) = 512"
    using assms by (simp_all add: s1'_def s1_def good_status_def after_sector_def CURRENT_def upd_request_def)
  define s2 where "s2 = after_sector c bh s1'"
  have s2: "CURRENT s2 = Some c" "r_bh (request (hb s2) c) = Some bh" "r_next (request (hb s2) c) = None"
    using s1(3-5) by (simp_all add: s2_def after_sector_def CURRENT_def upd_request_def)
  obtain u where u: "hd_end_request 1 s2 = ret () (s2\<lparr>hb := u\<rparr>)" "current_request u 3 = None"
    "\<And>x. b_data (buf (bk u) x) = b_data (buf (bk (hb s2)) x)" "b_lock (buf (bk u) bh) = 0" "b_uptodate (buf (bk u) bh) = 1"
    using hd_end_last [OF s2(1,3,2), of 1] by blast
  have cur: "CURRENT (s2\<lparr>hb := u\<rparr>) = None"
    using u(2) by (simp add: CURRENT_def)
  then have "do_hd_request HD_FUEL (s2\<lparr>hb := u\<rparr>) = ret () (s2\<lparr>hb := u\<rparr>)"
    by (simp add: HD_FUEL_def)
  then have run2: "hd_interrupt (s1\<lparr>hd_in := d\<rparr>) = ret () (s2\<lparr>hb := u\<rparr>)"
    using hd_interrupt_read [OF s1(1-4)] s1(6) u(1) unfolding s1'_def [symmetric] s2_def [symmetric] by simp
  have "b_data (buf (bk (hb s2)) bh) i = (if i < 512 then hd_in s i else if i < 1024 then d (i - 512) else b_data (buf (bk (hb s)) bh) i)" for i
    using s1(7) assms(7) by (simp add: s2_def after_sector_def [of c bh s1'] upd_request_def) (simp add: s1'_def s1_def after_sector_def upd_request_def)
  then show ?thesis
    using run1 run2 cur u by (intro exI [of _ s1] exI [of _ "s2\<lparr>hb := u\<rparr>"]) simp
qed


text \<open>\<open>drive_busy\<close> was to tell whether the controller is busy after a reset; because of the precedence of its
  test it never does.\<close>

lemma drive_busy_never: "fst (drive_busy s) = False"
proof -
  have "(if b then 1 else 0) OR SEEK_STAT \<noteq> (0 :: u8)" for b
    by (cases b) (simp_all add: SEEK_STAT_def)
  then show ?thesis
    by (simp add: drive_busy_def Let_def split: prod.split)
qed

section \<open>Examples\<close>

text \<open>A drive with 4 heads and 17 sectors in a track, its first partition from sector 17 on, serving a read for buffer 0.\<close>

definition demo_hd :: hd_state where
  "demo_hd =
    \<lparr>hb = demo_blk\<lparr>request := (\<lambda>_. (demo_request 0x301 100 None)\<lparr>r_bh := Some 0\<rparr>),
        bk := demo_kernel\<lparr>buf := (\<lambda>_. null_buffer\<lparr>b_lock := 1\<rparr>)\<rparr>\<rparr>,
     hd_info = (\<lambda>_. \<lparr>hd_head = 4, hd_sect = 17, hd_cyl = 615, hd_wpcom = 300, hd_lzone = 615, hd_ctl = 8\<rparr>),
     hd_part = (\<lambda>_. \<lparr>start_sect = 17, nr_sects = 20000\<rparr>), NR_HD = 1, hd_reset = False, recalibrate = False,
     do_hd = Some READ_INTR, hd_status = (\<lambda>_. 0x50), hd_clock = 0, hd_in = (\<lambda>i. of_nat i), hd_sent = []\<rparr>"

lemma demo_hd_simps:
  "CURRENT demo_hd = Some 0" "request (hb demo_hd) 0 = (demo_request 0x301 100 None)\<lparr>r_bh := Some 0\<rparr>"
  "hd_status demo_hd n = 0x50" "do_hd demo_hd = Some READ_INTR" "hd_in demo_hd i = of_nat i"
  "init_request 3 0 (hb demo_hd) = None"
  by (simp_all add: demo_hd_def CURRENT_def demo_blk_def init_request_def demo_request_def)

theorem hd_read_addresses_sector_witness:
  "\<exists>s' sec lcyl hcyl sdh. do_hd_request 1 demo_hd = ret () s' \<and> named_sector (hd_info demo_hd 0) sec lcyl hcyl sdh = 117"
proof -
  have "\<exists>s' sec lcyl hcyl sdh pre. do_hd_request (Suc 0) demo_hd = ret () s' \<and> do_hd s' = Some READ_INTR \<and> CURRENT s' = Some 0
    \<and> port_out (bk (hb s')) = [(0x1f7, 0x20), (0x1f6, sdh), (0x1f5, hcyl), (0x1f4, lcyl), (0x1f3, sec),
        (0x1f2, ucast (r_nr_sectors (request (hb demo_hd) 0)))] @ pre
    \<and> named_sector (hd_info demo_hd 0) sec lcyl hcyl sdh = unat (117 :: u32) \<and> (bit sdh 4 \<longleftrightarrow> 1 div 5 = (1 :: nat))"
    by (rule hd_read_addresses_sector) (simp_all add: demo_hd_simps demo_request_def, simp_all add: demo_hd_def)
  then show ?thesis
    by auto
qed

theorem bad_rw_intr_gives_up_witness: "\<exists>s'. bad_rw_intr demo_hd = ret () s' \<and> r_errors (request (hb s') 0) = 1"
  using bad_rw_intr_gives_up [of demo_hd 0 0] by (auto simp: demo_hd_simps demo_request_def)

theorem hd_read_completes_witness:
  "\<exists>s1 s2. hd_interrupt demo_hd = ret () s1 \<and> hd_interrupt (s1\<lparr>hd_in := (\<lambda>_. 7)\<rparr>) = ret () s2
    \<and> b_data (buf (bk (hb s2)) 0) 3 = 3 \<and> b_data (buf (bk (hb s2)) 0) 515 = 7"
proof -
  have "good_status demo_hd"
    by (simp add: good_status_def demo_hd_simps BUSY_STAT_def READY_STAT_def WRERR_STAT_def SEEK_STAT_def ERR_STAT_def)
  then obtain s1 s2 where "hd_interrupt demo_hd = ret () s1" "hd_interrupt (s1\<lparr>hd_in := (\<lambda>_. 7)\<rparr>) = ret () s2"
    "\<forall>i<512. b_data (buf (bk (hb s2)) 0) i = hd_in demo_hd i \<and> b_data (buf (bk (hb s2)) 0) (512 + i) = 7"
    using hd_read_completes [of demo_hd 0 0 "\<lambda>_. 7"] by (auto simp: demo_hd_simps demo_request_def)
  moreover have "b_data (buf (bk (hb s2)) 0) 3 = 3 \<and> b_data (buf (bk (hb s2)) 0) 515 = 7"
    using calculation(3) [rule_format, of 3] by (simp add: demo_hd_simps)
  ultimately show ?thesis
    by auto
qed

end
