(* ===== verification/Super.thy ===== *)
theory Super
  imports Names Tty Phys_Bytes
begin

text \<open>
  \<open>fs/super.c\<close>: reading super blocks (\<open>read_super\<close>), mounting and unmounting (\<open>sys_mount\<close>, \<open>sys_umount\<close>,
  \<open>mount_root\<close>), and \<open>rd_load\<close> of \<open>kernel/blk_drv/ramdisk.c\<close>, which fills the ram disk before the root is
  mounted. \<open>get_super\<close> and \<open>put_super\<close> are in \<open>Sync\<close>.
\<close>

unbundle bit_operations_syntax

section \<open>read_super\<close>

text \<open>The fields of \<open>struct d_super_block\<close> as they lie in the block.\<close>

definition load_d_super :: "block_data \<Rightarrow> super_block \<Rightarrow> super_block" where
  "load_d_super d sb =
    sb\<lparr>s_ninodes := get_u16 d 0, s_nzones := get_u16 d 2, s_imap_blocks := get_u16 d 4,
       s_zmap_blocks := get_u16 d 6, s_firstdatazone := get_u16 d 8, s_log_zone_size := get_u16 d 10,
       s_max_size := get_u32 d 12, s_magic := get_u16 d 16\<rparr>"

definition release_maps :: "nat \<Rightarrow> unit kop" where
  "release_maps sb s =
    bindK (forK [0..<I_MAP_SLOTS] (\<lambda>i s. brelse (s_imap (super_table s sb) i) s) s) (\<lambda>_ s.
    forK [0..<Z_MAP_SLOTS] (\<lambda>i s. brelse (s_zmap (super_table s sb) i) s) s)"

definition drop_super :: "nat \<Rightarrow> kstate \<Rightarrow> kstate" where
  "drop_super sb s = free_super sb (upd_super sb (\<lambda>b. b\<lparr>s_dev := 0\<rparr>) s)"

text \<open>The loop that reads the blocks \<open>i .. n - 1\<close> of a map with the setter \<open>put\<close>; its result is the next
  block. A block past the eight slots of the map is stored behind the array, which is a fault here.\<close>

primrec read_map :: "(nat \<Rightarrow> nat option \<Rightarrow> super_block \<Rightarrow> super_block) \<Rightarrow> u16 \<Rightarrow> nat \<Rightarrow> nat \<Rightarrow> nat \<Rightarrow> u32 \<Rightarrow> u32 kop" where
  "read_map put dev sb 0 i block s = ret block s"
| "read_map put dev sb (Suc n) i block s =
    bindK (bread dev block s) (\<lambda>bh s.
      if i \<ge> 8 then fault s
      else
        let s = upd_super sb (put i bh) s
        in if bh = None then ret block s else read_map put dev sb n (i + 1) (block + 1) s)"

definition set_imap :: "nat \<Rightarrow> nat option \<Rightarrow> super_block \<Rightarrow> super_block" where
  "set_imap i bh sb = sb\<lparr>s_imap := (s_imap sb)(i := bh)\<rparr>"

definition set_zmap :: "nat \<Rightarrow> nat option \<Rightarrow> super_block \<Rightarrow> super_block" where
  "set_zmap i bh sb = sb\<lparr>s_zmap := (s_zmap sb)(i := bh)\<rparr>"

text \<open>\<open>b_data[0] |= 1\<close> in the first block of a map; a map of no blocks has none.\<close>

definition mark_first :: "nat option \<Rightarrow> unit kop" where
  "mark_first b s =
    (case b of
       None \<Rightarrow> fault s
     | Some bh \<Rightarrow> ret () (upd_buf bh (\<lambda>b. b\<lparr>b_data := (b_data b)(0 := b_data b 0 OR 1)\<rparr>) s))"

text \<open>The bit maps of a super block whose fields are loaded.\<close>

definition read_maps :: "u16 \<Rightarrow> nat \<Rightarrow> nat option kop" where
  "read_maps dev sb s =
    (let s = upd_super sb (\<lambda>b. b\<lparr>s_imap := (\<lambda>i. if i < I_MAP_SLOTS then None else s_imap b i),
                                s_zmap := (\<lambda>i. if i < Z_MAP_SLOTS then None else s_zmap b i)\<rparr>) s
     in bindK (read_map set_imap dev sb (unat (s_imap_blocks (super_table s sb))) 0 2 s) (\<lambda>block s.
        bindK (read_map set_zmap dev sb (unat (s_zmap_blocks (super_table s sb))) 0 block s) (\<lambda>block s.
        if block \<noteq> 2 + ucast (s_imap_blocks (super_table s sb)) + ucast (s_zmap_blocks (super_table s sb))
        then bindK (release_maps sb s) (\<lambda>_ s. ret None (drop_super sb s))
        else
          bindK (mark_first (s_imap (super_table s sb) 0) s) (\<lambda>_ s.
          bindK (mark_first (s_zmap (super_table s sb) 0) s) (\<lambda>_ s.
          ret (Some sb) (free_super sb s))))))"

definition read_super :: "u16 \<Rightarrow> nat option kop" where
  "read_super dev s =
    (if dev = 0 then ret None s
     else
       bindK (check_disk_change dev s) (\<lambda>_ s.
       bindK (get_super dev s) (\<lambda>r s.
       case r of
         Some sb \<Rightarrow> ret (Some sb) s
       | None \<Rightarrow>
           (case find (\<lambda>i. s_dev (super_table s i) = 0) [0..<NR_SUPER] of
              None \<Rightarrow> ret None s
            | Some sb \<Rightarrow>
                let s = upd_super sb (\<lambda>b. b\<lparr>s_dev := dev, s_isup := None, s_imount := None, s_time := 0,
                                            s_rd_only := 0, s_dirt := 0\<rparr>) s
                in bindK (lock_super sb s) (\<lambda>_ s.
                   bindK (bread dev 1 s) (\<lambda>r s.
                   case r of
                     None \<Rightarrow> ret None (drop_super sb s)
                   | Some bh \<Rightarrow>
                       let s = upd_super sb (load_d_super (b_data (buf s bh))) s
                       in bindK (brelse (Some bh) s) (\<lambda>_ s.
                          if s_magic (super_table s sb) \<noteq> SUPER_MAGIC then ret None (drop_super sb s)
                          else read_maps dev sb s)))))))"

section \<open>Mounting\<close>

definition sys_umount :: "u32 \<Rightarrow> int kop" where
  "sys_umount dev_name s =
    bindK (namei dev_name s) (\<lambda>r s.
      case r of
        None \<Rightarrow> ret (- ENOENT) s
      | Some inode \<Rightarrow>
          let dev = i_zone (inode_table s inode) 0
          in if \<not> S_ISBLK (i_mode (inode_table s inode)) then leave [iput (Some inode)] (- ENOTBLK) s
             else
               bindK (iput (Some inode) s) (\<lambda>_ s.
               if dev = ROOT_DEV s then ret (- EBUSY) s
               else
                 bindK (get_super dev s) (\<lambda>r s.
                 case r of
                   None \<Rightarrow> ret (- ENOENT) s
                 | Some sb \<Rightarrow>
                     (case s_imount (super_table s sb) of
                        None \<Rightarrow> ret (- ENOENT) s
                      | Some m \<Rightarrow>
                          if \<exists>i \<in> {0..<NR_INODE}. i_dev (inode_table s i) = dev \<and> i_count (inode_table s i) \<noteq> 0
                          then ret (- EBUSY) s
                          else
                            bindK (iput (Some m) (upd_inode m (\<lambda>n. n\<lparr>i_mount := 0\<rparr>) s)) (\<lambda>_ s.
                            let s = upd_super sb (\<lambda>b. b\<lparr>s_imount := None\<rparr>) s
                            in bindK (iput (s_isup (super_table s sb)) s) (\<lambda>_ s.
                               let s = upd_super sb (\<lambda>b. b\<lparr>s_isup := None\<rparr>) s
                               in bindK (put_super dev s) (\<lambda>_ s.
                                  bindK (sync_dev dev s) (\<lambda>_ s. ret 0 s))))))))"

text \<open>The end of \<open>sys_mount\<close>, with the directory \<open>dir_i\<close> found.\<close>

definition mount_on :: "u16 \<Rightarrow> nat \<Rightarrow> int kop" where
  "mount_on dev dir_i s =
    (if i_count (inode_table s dir_i) \<noteq> 1 \<or> i_num (inode_table s dir_i) = ROOT_INO
     then leave [iput (Some dir_i)] (- EBUSY) s
     else if \<not> S_ISDIR (i_mode (inode_table s dir_i)) then leave [iput (Some dir_i)] (- EPERM) s
     else
       bindK (read_super dev s) (\<lambda>r s.
       case r of
         None \<Rightarrow> leave [iput (Some dir_i)] (- EBUSY) s
       | Some sb \<Rightarrow>
           if s_imount (super_table s sb) \<noteq> None then leave [iput (Some dir_i)] (- EBUSY) s
           else if i_mount (inode_table s dir_i) \<noteq> 0 then leave [iput (Some dir_i)] (- EPERM) s
           else ret 0 (upd_inode dir_i (\<lambda>n. n\<lparr>i_mount := 1, i_dirt := 1\<rparr>)
                        (upd_super sb (\<lambda>b. b\<lparr>s_imount := Some dir_i\<rparr>) s))))"

definition sys_mount :: "u32 \<Rightarrow> u32 \<Rightarrow> int kop" where
  "sys_mount dev_name dir_name s =
    bindK (namei dev_name s) (\<lambda>r s.
      case r of
        None \<Rightarrow> ret (- ENOENT) s
      | Some dev_i \<Rightarrow>
          let dev = i_zone (inode_table s dev_i) 0
          in if \<not> S_ISBLK (i_mode (inode_table s dev_i)) then leave [iput (Some dev_i)] (- EPERM) s
             else
               bindK (iput (Some dev_i) s) (\<lambda>_ s.
               bindK (namei dir_name s) (\<lambda>r s.
               case r of
                 None \<Rightarrow> ret (- ENOENT) s
               | Some dir_i \<Rightarrow> mount_on dev dir_i s)))"

text \<open>The count of clear bits \<open>0 .. n - 1\<close> of a map, whose blocks the slots hold.\<close>

primrec count_clear :: "(nat \<Rightarrow> nat option) \<Rightarrow> nat \<Rightarrow> nat \<Rightarrow> nat kop" where
  "count_clear slots 0 free s = ret free s"
| "count_clear slots (Suc i) free s =
    (case slots (i div 8192) of
       None \<Rightarrow> fault s
     | Some bh \<Rightarrow> count_clear slots i (if test_bit (i mod 8192) (b_data (buf s bh)) then free else free + 1) s)"

definition wait_for_keypress :: "unit kop" where
  "wait_for_keypress s = sleep_if_empty (secondary (tty_table s 0)) s"

text \<open>The results are the numbers of free blocks and free inodes that it prints.\<close>

definition mount_root :: "(nat \<times> nat) kop" where
  "mount_root s =
    (let s = s\<lparr>file_table := (\<lambda>i. if i < NR_FILE then (file_table s i)\<lparr>f_count := 0\<rparr> else file_table s i)\<rparr>
     in bindK (if MAJOR (ROOT_DEV s) = 2 then wait_for_keypress s else ret () s) (\<lambda>_ s.
        let s = s\<lparr>super_table := (\<lambda>i. if i < NR_SUPER then (super_table s i)\<lparr>s_dev := 0, s_lock := 0, s_wait := None\<rparr>
                                      else super_table s i)\<rparr>
        in bindK (read_super (ROOT_DEV s) s) (\<lambda>r s.
           case r of
             None \<Rightarrow> panic ''Unable to mount root''
           | Some p \<Rightarrow>
               bindK (iget (ROOT_DEV s) ROOT_INO s) (\<lambda>mi s.
               let s = upd_inode mi (\<lambda>n. n\<lparr>i_count := i_count n + 3\<rparr>) s;
                   s = upd_super p (\<lambda>b. b\<lparr>s_isup := Some mi, s_imount := Some mi\<rparr>) s;
                   s = upd_me (\<lambda>t. t\<lparr>t_pwd := Some mi, t_root := Some mi\<rparr>) s;
                   sb = super_table s p
               in bindK (count_clear (s_zmap sb) (unat (s_nzones sb)) 0 s) (\<lambda>blocks s.
                  bindK (count_clear (s_imap sb) (unat (s_ninodes sb) + 1) 0 s) (\<lambda>inodes s.
                  ret (blocks, inodes) s))))))"

section \<open>Loading the ram disk\<close>

text \<open>\<open>while (nblocks)\<close>: the blocks still to come, the next block and where it goes; the result tells whether
  all of them were read.\<close>

primrec rd_load_loop :: "nat \<Rightarrow> u32 \<Rightarrow> u32 \<Rightarrow> bool kop" where
  "rd_load_loop 0 block cp s = ret True s"
| "rd_load_loop (Suc n) block cp s =
    bindK (if 2 < Suc n \<and> Suc n < 2 ^ 31 then breada (ROOT_DEV s) block [block + 1, block + 2] s
           else bread (ROOT_DEV s) block s) (\<lambda>r s.
    case r of
      None \<Rightarrow> ret False s
    | Some bh \<Rightarrow>
        bindK (brelse (Some bh) (s\<lparr>mm := set_bytes cp (b_data (buf s bh)) BLOCK_SIZE (mm s)\<rparr>)) (\<lambda>_ s.
        rd_load_loop n (block + 1) (cp + 1024) s))"

text \<open>The shift by \<open>s_log_zone_size\<close> uses the low five bits of the count, as the machine does.\<close>

definition rd_load :: "u32 \<Rightarrow> int \<Rightarrow> unit kop" where
  "rd_load rd_start rd_length s =
    (if rd_length = 0 \<or> MAJOR (ROOT_DEV s) \<noteq> 2 then ret () s
     else
       bindK (breada (ROOT_DEV s) 257 [256, 258] s) (\<lambda>r s.
       case r of
         None \<Rightarrow> ret () s
       | Some bh \<Rightarrow>
           let sb = load_d_super (b_data (buf s bh)) null_super
           in bindK (brelse (Some bh) s) (\<lambda>_ s.
              if s_magic sb \<noteq> SUPER_MAGIC then ret () s
              else
                let nblocks = push_bit (unat (s_log_zone_size sb) mod 32) (ucast (s_nzones sb)) :: u32
                in if sint nblocks > rd_length div 1024 then ret () s
                   else
                     bindK (rd_load_loop (unat nblocks) 256 rd_start s) (\<lambda>all s.
                     ret () (if all then s\<lparr>ROOT_DEV := 0x0101\<rparr> else s)))))"

end
