(* ===== verification/Setup.thy ===== *)
theory Setup
  imports Super Hd
begin

text \<open>
  \<open>sys_setup\<close> of \<open>kernel/blk_drv/hd.c\<close>: the geometry of the drives from the table of the BIOS, the number of
  drives from CMOS, the partitions from the first block of each drive; then the ram disk is loaded and the root
  mounted. The blocks are read with \<open>bread\<close>, whose requests are carried out at once (\<open>Buffer\<close>).
\<close>

unbundle bit_operations_syntax

record setup_state =
  hds :: hd_state
  callable :: bool

type_synonym 'a sop = "setup_state \<Rightarrow> ('a, setup_state) kres"

definition ks :: "setup_state \<Rightarrow> kstate" where
  "ks s = bk (hb (hds s))"

definition set_ks :: "kstate \<Rightarrow> setup_state \<Rightarrow> setup_state" where
  "set_ks k s = s\<lparr>hds := (hds s)\<lparr>hb := (hb (hds s))\<lparr>bk := k\<rparr>\<rparr>\<rparr>"

definition lift_ks :: "'a kop \<Rightarrow> 'a sop" where
  "lift_ks f s =
    (case f (ks s) of
       Inr (x, k) \<Rightarrow> ret x (set_ks k s)
     | Inl (Panic m) \<Rightarrow> Inl (Panic m)
     | Inl (Exit c k) \<Rightarrow> Inl (Exit c (set_ks k s))
     | Inl (Blocked k) \<Rightarrow> Inl (Blocked (set_ks k s))
     | Inl (Fault k) \<Rightarrow> Inl (Fault (set_ks k s)))"

definition upd_part :: "nat \<Rightarrow> (hd_struct \<Rightarrow> hd_struct) \<Rightarrow> setup_state \<Rightarrow> setup_state" where
  "upd_part i f s = s\<lparr>hds := (hds s)\<lparr>hd_part := (hd_part (hds s))(i := f (hd_part (hds s) i))\<rparr>\<rparr>"

text \<open>An entry of the drive table: fields at fixed offsets of its 16 bytes.\<close>

definition bios_drive :: "(u32 \<Rightarrow> u8) \<Rightarrow> u32 \<Rightarrow> hd_i_struct" where
  "bios_drive m p =
    (let short = \<lambda>k. ucast (m (p + k)) OR push_bit 8 (ucast (m (p + k + 1)))
     in \<lparr>hd_head = ucast (m (p + 2)), hd_sect = ucast (m (p + 14)), hd_cyl = short 0, hd_wpcom = short 5,
         hd_lzone = short 12, hd_ctl = ucast (m (p + 8))\<rparr>)"

definition read_bios :: "u32 \<Rightarrow> setup_state \<Rightarrow> setup_state" where
  "read_bios bios s =
    (let m = get_byte (mm (ks s)); d0 = bios_drive m bios; d1 = bios_drive m (bios + 16)
     in s\<lparr>hds := (hds s)\<lparr>hd_info := (hd_info (hds s))(0 := d0, 1 := d1),
                           NR_HD := (if hd_cyl d1 \<noteq> 0 then 2 else 1)\<rparr>\<rparr>)"

definition whole_disk :: "nat \<Rightarrow> setup_state \<Rightarrow> setup_state" where
  "whole_disk i s =
    (let d = hd_info (hds s) i
     in upd_part (i * 5) (\<lambda>_. \<lparr>start_sect = 0, nr_sects = hd_head d * hd_sect d * hd_cyl d\<rparr>) s)"

text \<open>\<open>CMOS_READ\<close> selects the register through port 0x70 and reads its value at port 0x71.\<close>

definition cmos_disks :: "setup_state \<Rightarrow> u8 \<times> setup_state" where
  "cmos_disks s = (port_in (ks s) 0x71, set_ks (outb (0x80 OR 0x12) 0x70 (ks s)) s)"

definition drives_present :: "u8 \<Rightarrow> nat" where
  "drives_present c = (if c AND 0xf0 \<noteq> 0 then if c AND 0x0f \<noteq> 0 then 2 else 1 else 0)"

text \<open>Entry \<open>i\<close> of the partition table at offset 0x1BE.\<close>

definition partition_entry :: "block_data \<Rightarrow> nat \<Rightarrow> hd_struct" where
  "partition_entry d i =
    (let p = 0x1BE + 16 * (i - 1) in \<lparr>start_sect = get_u32 d (p + 8), nr_sects = get_u32 d (p + 12)\<rparr>)"

definition read_partitions :: "nat \<Rightarrow> unit sop" where
  "read_partitions drive s =
    bindK (lift_ks (bread (of_nat (0x300 + drive * 5)) 0) s) (\<lambda>r s.
      case r of
        None \<Rightarrow> panic ''''
      | Some bh \<Rightarrow>
          let d = b_data (buf (ks s) bh)
          in if d 510 \<noteq> 0x55 \<or> d 511 \<noteq> 0xAA then panic ''''
             else
               let s = fold (\<lambda>i. upd_part (i + 5 * drive) (\<lambda>_. partition_entry d i)) [1..<5] s
               in lift_ks (brelse (Some bh)) s)"

definition sys_setup :: "u32 \<Rightarrow> int sop" where
  "sys_setup bios s =
    (if \<not> callable s then ret (-1) s
     else
       let s = read_bios bios (s\<lparr>callable := False\<rparr>);
           s = fold whole_disk [0..<NR_HD (hds s)] s;
           (c, s) = cmos_disks s;
           n = drives_present c;
           s = s\<lparr>hds := (hds s)\<lparr>NR_HD := n\<rparr>\<rparr>;
           s = fold (\<lambda>i. upd_part (i * 5) (\<lambda>_. \<lparr>start_sect = 0, nr_sects = 0\<rparr>)) [n..<2] s
       in bindK (forK [0..<n] read_partitions s) (\<lambda>_ s.
          bindK (lift_ks (rd_load (rd_start (hb (hds s))) (rd_length (hb (hds s)))) s) (\<lambda>_ s.
          bindK (lift_ks mount_root s) (\<lambda>_ s. ret 0 s))))"

end
