(* ===== verification/Page_Fault.thy ===== *)
theory Page_Fault
  imports Inode Phys_Bytes
begin

text \<open>
  \<open>do_no_page\<close> of \<open>mm/memory.c\<close>: the page fault of a page that is not there. A page of the program is shared with
  another process or read from the file of the program; any other page is a zero page.
\<close>

unbundle bit_operations_syntax

text \<open>The four blocks of a page, from the first block of the file that holds them.\<close>

primrec page_blocks :: "nat \<Rightarrow> nat \<Rightarrow> int \<Rightarrow> u32 list kop" where
  "page_blocks e 0 block s = ret [] s"
| "page_blocks e (Suc n) block s =
    bindK (bmap e block s) (\<lambda>b s. bindK (page_blocks e n (block + 1) s) (\<lambda>bs s. ret (ucast b # bs) s))"

text \<open>The bytes of the page behind the end of the data are cleared.\<close>

definition clear_tail :: "u32 \<Rightarrow> int \<Rightarrow> mm_state \<Rightarrow> mm_state" where
  "clear_tail page n m = set_bytes (page + 4096 - of_int n) (\<lambda>_. 0) (nat n) m"

definition load_page :: "nat \<Rightarrow> u32 \<Rightarrow> u32 \<Rightarrow> unit kop" where
  "load_page e tmp address s =
    (let (page, m) = get_free_page (mm s); s = s\<lparr>mm := m\<rparr>
     in if page = 0 then lift_mm oom s
        else
          bindK (page_blocks e 4 (1 + int (unat tmp div BLOCK_SIZE)) s) (\<lambda>nr s.
          bindK (bread_page page (i_dev (inode_table s e)) nr s) (\<lambda>_ s.
          let s = s\<lparr>mm := clear_tail page (sint (tmp + 4096 - t_end_data (me s))) (mm s)\<rparr>;
              (r, m) = put_page page address (mm s); s = s\<lparr>mm := m\<rparr>
          in if r \<noteq> 0 then ret () s
             else bindK (lift_mm (free_page page) s) (\<lambda>_ s. lift_mm oom s))))"

definition do_no_page :: "u32 \<Rightarrow> u32 \<Rightarrow> unit kop" where
  "do_no_page error_code address s =
    (let address = address AND 0xfffff000;
         tmp = address - t_start_code (me s)
     in case t_executable (me s) of
          None \<Rightarrow> lift_mm (get_empty_page address) s
        | Some e \<Rightarrow>
            if tmp \<ge> t_end_data (me s) then lift_mm (get_empty_page address) s
            else
              bindK (lift_mm (share_page (\<lambda>i. i_count (inode_table s i)) tmp (sch s)) s) (\<lambda>shared s.
              if shared \<noteq> 0 then ret () s else load_page e tmp address s))"

end
