(* ===== verification/Exec.thy ===== *)
theory Exec
  imports Files Phys_Bytes
begin

text \<open>
  \<open>fs/exec.c\<close>: \<open>do_execve\<close>. The strings of the arguments and of the environment are copied into fresh pages that
  become the top of the new segment; below them go the tables of pointers. A script names its interpreter in
  its first line. The memory of the process is \<open>umem\<close>: after the change of program it is what the pages of the
  strings hold; the other pages, which are loaded when they are touched (\<open>Page_Fault\<close>), read as zero.
\<close>

unbundle bit_operations_syntax

section \<open>Strings\<close>

definition MAX_ARG_PAGES :: nat where "MAX_ARG_PAGES = 32"
definition PAGE_SIZE :: nat where "PAGE_SIZE = 4096"
definition ENOEXEC :: int where "ENOEXEC = 8"
definition ZMAGIC :: u32 where "ZMAGIC = 267"

text \<open>\<open>count\<close>: the pointers before the null pointer; a segment holds at most that many.\<close>

primrec count_loop :: "nat \<Rightarrow> (u32 \<Rightarrow> u8) \<Rightarrow> u32 \<Rightarrow> nat \<Rightarrow> nat option" where
  "count_loop 0 m tmp i = None"
| "count_loop (Suc k) m tmp i = (if get_fs_long m tmp \<noteq> 0 then count_loop k m (tmp + 4) (i + 1) else Some i)"

definition count_args :: "(u32 \<Rightarrow> u8) \<Rightarrow> u32 \<Rightarrow> nat option" where
  "count_args m argv = (if argv = 0 then Some 0 else count_loop PATH_FUEL m argv 0)"

text \<open>The length of a string with its final zero, and the address behind it.\<close>

primrec string_len :: "nat \<Rightarrow> (u32 \<Rightarrow> u8) \<Rightarrow> u32 \<Rightarrow> nat \<Rightarrow> nat option" where
  "string_len 0 m tmp len = None"
| "string_len (Suc k) m tmp len = (if m tmp \<noteq> 0 then string_len k m (tmp + 1) (len + 1) else Some (len + 1))"

text \<open>The state of \<open>copy_strings\<close>: the pages, the place \<open>p\<close> of the last byte written, its offset in the page
  \<open>pag\<close>.\<close>

record arg_pages =
  ap_page :: "nat \<Rightarrow> u32"
  ap_p :: u32
  ap_offset :: int
  ap_pag :: u32

text \<open>The next page of the strings. \<open>page[]\<close> has 32 entries; an index past them is a fault.\<close>

definition enter_page :: "arg_pages \<Rightarrow> (bool \<times> arg_pages) kop" where
  "enter_page a s =
    (let k = unat (ap_p a) div PAGE_SIZE; a = a\<lparr>ap_offset := int (unat (ap_p a) mod PAGE_SIZE)\<rparr>
     in if k \<ge> MAX_ARG_PAGES then fault s
        else if ap_page a k \<noteq> 0 then ret (True, a\<lparr>ap_pag := ap_page a k\<rparr>) s
        else
          let (page, m) = get_free_page (mm s)
          in ret (page \<noteq> 0, a\<lparr>ap_pag := page, ap_page := (ap_page a)(k := page)\<rparr>) (s\<lparr>mm := m\<rparr>))"

text \<open>One byte: \<open>--p; --offset\<close>, then the store.\<close>

definition push_byte :: "u8 \<Rightarrow> arg_pages \<Rightarrow> (bool \<times> arg_pages) kop" where
  "push_byte c a s =
    (let a = a\<lparr>ap_p := ap_p a - 1, ap_offset := ap_offset a - 1\<rparr>
     in bindK (if ap_offset a < 0 then enter_page a s else ret (True, a) s) (\<lambda>(ok, a) s.
        if \<not> ok then ret (False, a) s
        else ret (True, a) (s\<lparr>mm := set_byte (ap_pag a + of_int (ap_offset a)) c (mm s)\<rparr>)))"

text \<open>\<open>while (len)\<close>: the bytes of a string from its end.\<close>

primrec push_string :: "nat \<Rightarrow> (u32 \<Rightarrow> u8) \<Rightarrow> u32 \<Rightarrow> arg_pages \<Rightarrow> (bool \<times> arg_pages) kop" where
  "push_string 0 m str a s = ret (True, a) s"
| "push_string (Suc n) m str a s =
    bindK (push_byte (m (str + of_nat n)) a s) (\<lambda>(ok, a) s.
      if ok then push_string n m str a s else ret (False, a) s)"

text \<open>The strings \<open>argc - 1 .. 0\<close>; \<open>ptr k\<close> is the pointer \<open>argv[k]\<close>, \<open>m\<close> the memory that the strings are in. The
  test \<open>p-len < 0\<close> is never true, since \<open>p\<close> is unsigned.\<close>

primrec push_strings :: "(u32 \<Rightarrow> u8) \<Rightarrow> (nat \<Rightarrow> u32 option) \<Rightarrow> nat \<Rightarrow> arg_pages \<Rightarrow> (bool \<times> arg_pages) kop" where
  "push_strings m ptr 0 a s = ret (True, a) s"
| "push_strings m ptr (Suc k) a s =
    (case ptr k of
       None \<Rightarrow> panic ''argc is wrong''
     | Some str \<Rightarrow>
         (case string_len PATH_FUEL m str 0 of
            None \<Rightarrow> blocked s
          | Some len \<Rightarrow>
              bindK (push_string len m str a s) (\<lambda>(ok, a) s.
                if ok then push_strings m ptr k a s else ret (False, a) s)))"

definition copy_strings ::
  "(u32 \<Rightarrow> u8) \<Rightarrow> (nat \<Rightarrow> u32 option) \<Rightarrow> int \<Rightarrow> (nat \<Rightarrow> u32) \<times> u32 \<Rightarrow> ((nat \<Rightarrow> u32) \<times> u32) kop" where
  "copy_strings m ptr argc pp s =
    (case pp of (page, p) \<Rightarrow>
       if p = 0 then ret (page, 0) s
       else
         bindK (push_strings m ptr (nat argc) \<lparr>ap_page = page, ap_p = p, ap_offset = 0, ap_pag = 0\<rparr> s)
           (\<lambda>(ok, a) s. ret (ap_page a, if ok then ap_p a else 0) s))"

text \<open>\<open>argv[k]\<close> in the memory of the user.\<close>

definition user_ptr :: "(u32 \<Rightarrow> u8) \<Rightarrow> u32 \<Rightarrow> nat \<Rightarrow> u32 option" where
  "user_ptr m argv k = (let a = get_fs_long m (argv + 4 * of_nat k) in if a = 0 then None else Some a)"

section \<open>The new stack\<close>

text \<open>\<open>while (get_fs_byte(p++))\<close>\<close>

primrec skip_string :: "nat \<Rightarrow> (u32 \<Rightarrow> u8) \<Rightarrow> u32 \<Rightarrow> u32 option" where
  "skip_string 0 m p = None"
| "skip_string (Suc k) m p = (if m p \<noteq> 0 then skip_string k m (p + 1) else Some (p + 1))"

text \<open>The pointers to \<open>n\<close> strings from \<open>p\<close> on are stored from \<open>v\<close> on; behind them comes a null pointer.\<close>

primrec put_pointers :: "nat \<Rightarrow> u32 \<Rightarrow> u32 \<Rightarrow> (u32 \<Rightarrow> u8) \<Rightarrow> (u32 \<times> (u32 \<Rightarrow> u8)) option" where
  "put_pointers 0 v p m = Some (p, put_fs_long 0 v m)"
| "put_pointers (Suc n) v p m =
    (let m = put_fs_long p v m
     in case skip_string PATH_FUEL m p of None \<Rightarrow> None | Some p \<Rightarrow> put_pointers n (v + 4) p m)"

definition create_tables :: "u32 \<Rightarrow> nat \<Rightarrow> nat \<Rightarrow> (u32 \<Rightarrow> u8) \<Rightarrow> (u32 \<times> (u32 \<Rightarrow> u8)) option" where
  "create_tables p argc envc m =
    (let sp = 0xfffffffc AND p;
         envp = sp - 4 * of_nat (envc + 1);
         argv = envp - 4 * of_nat (argc + 1);
         m = put_fs_long envp (argv - 4) m;
         m = put_fs_long argv (argv - 8) m;
         m = put_fs_long (of_nat argc) (argv - 12) m
     in case put_pointers argc argv p m of
          None \<Rightarrow> None
        | Some (p, m) \<Rightarrow> map_option (\<lambda>(_, m). (argv - 12, m)) (put_pointers envc envp p m))"

text \<open>The memory of the process when its pages are those of the strings.\<close>

definition arg_memory :: "(nat \<Rightarrow> u32) \<Rightarrow> mm_state \<Rightarrow> u32 \<Rightarrow> u8" where
  "arg_memory page m a =
    (let off = unat (a - (0x4000000 - 0x20000))
     in if off < MAX_ARG_PAGES * PAGE_SIZE \<and> page (off div PAGE_SIZE) \<noteq> 0
        then get_byte m (page (off div PAGE_SIZE) + of_nat (off mod PAGE_SIZE)) else 0)"

definition put_arg_page ::
  "(nat \<Rightarrow> u32) \<Rightarrow> u32 \<Rightarrow> nat \<Rightarrow> (nat \<Rightarrow> u32) \<times> mm_state \<Rightarrow> (nat \<Rightarrow> u32) \<times> mm_state" where
  "put_arg_page page data_base i =
    (\<lambda>(mapped, m).
      if page i = 0 then (mapped, m)
      else
        let (r, m) = put_page (page i) (data_base + 0x4000000 - of_nat (PAGE_SIZE * (MAX_ARG_PAGES - i))) m
        in (if r \<noteq> 0 then mapped(i := page i) else mapped, m))"

definition change_ldt :: "u32 \<Rightarrow> (nat \<Rightarrow> u32) \<Rightarrow> kstate \<Rightarrow> u32 \<times> kstate" where
  "change_ldt text_size page s =
    (let code_limit = (text_size + of_nat PAGE_SIZE - 1) AND 0xFFFFF000;
         data_limit = 0x4000000;
         code_base = get_base (t_ldt (me s) 1);
         s = upd_me (\<lambda>t. t\<lparr>t_ldt := (t_ldt t)(1 := set_limit code_limit (set_base code_base (t_ldt t 1)),
                                              2 := set_limit data_limit (set_base code_base (t_ldt t 2)))\<rparr>) s;
         (mapped, m) = fold (put_arg_page page code_base) (rev [0..<MAX_ARG_PAGES]) (\<lambda>_. 0, mm s)
     in (data_limit, s\<lparr>mm := m, umem := arg_memory mapped m\<rparr>))"

section \<open>Scripts\<close>

text \<open>\<open>strncpy(buf, bh->b_data+2, 1022); buf[1022] = 0\<close>\<close>

definition script_line :: "block_data \<Rightarrow> nat \<Rightarrow> u8" where
  "script_line d =
    (let n = (case find (\<lambda>i. d (2 + i) = 0) [0..<1022] of None \<Rightarrow> 1022 | Some n \<Rightarrow> n)
     in (\<lambda>i. if i < n then d (2 + i) else 0))"

definition is_blank :: "u8 \<Rightarrow> bool" where "is_blank c \<longleftrightarrow> c = 32 \<or> c = 9"

text \<open>The name of the interpreter, its last component and the argument, as offsets of the line; \<open>None\<close> when there
  is no line or it is blank.\<close>

definition parse_words :: "(nat \<Rightarrow> u8) \<Rightarrow> nat \<Rightarrow> nat \<times> nat \<times> nat option \<times> (nat \<Rightarrow> u8)" where
  "parse_words ln cp =
    (let e = (case find (\<lambda>i. ln i = 0 \<or> is_blank (ln i)) [cp..<1023] of None \<Rightarrow> 1022 | Some e \<Rightarrow> e);
         i_name = (case find (\<lambda>i. ln i = 47) (rev [cp..<e]) of None \<Rightarrow> cp | Some k \<Rightarrow> k + 1)
     in if ln e \<noteq> 0 then (cp, i_name, Some (e + 1), ln(e := 0)) else (cp, i_name, None, ln))"

definition parse_script :: "(nat \<Rightarrow> u8) \<Rightarrow> (nat \<times> nat \<times> nat option \<times> (nat \<Rightarrow> u8)) option" where
  "parse_script ln =
    (case find (\<lambda>i. ln i = 10 \<or> ln i = 0) [0..<1023] of
       None \<Rightarrow> None
     | Some nl \<Rightarrow>
         if ln nl = 0 then None
         else
           let ln = ln(nl := 0)
           in (case find (\<lambda>i. \<not> is_blank (ln i)) [0..<1023] of
                 None \<Rightarrow> None
               | Some cp \<Rightarrow> if ln cp = 0 then None else Some (parse_words ln cp)))"

section \<open>do_execve\<close>

record exec_header =
  a_magic :: u32
  a_text :: u32
  a_data :: u32
  a_bss :: u32
  a_syms :: u32
  a_entry :: u32
  a_trsize :: u32
  a_drsize :: u32

definition load_header :: "block_data \<Rightarrow> exec_header" where
  "load_header d =
    \<lparr>a_magic = get_u32 d 0, a_text = get_u32 d 4, a_data = get_u32 d 8, a_bss = get_u32 d 12,
     a_syms = get_u32 d 16, a_entry = get_u32 d 20, a_trsize = get_u32 d 24, a_drsize = get_u32 d 28\<rparr>"

definition N_TXTOFF :: "exec_header \<Rightarrow> u32" where
  "N_TXTOFF ex = (if a_magic ex = ZMAGIC then (1024 - 32) + 32 else 32)"

text \<open>\<open>page\<close>, \<open>p\<close> and \<open>argc\<close> of \<open>do_execve\<close>.\<close>

record exec_args =
  ea_page :: "nat \<Rightarrow> u32"
  ea_p :: u32
  ea_argc :: int

definition copy_args :: "(u32 \<Rightarrow> u8) \<Rightarrow> (nat \<Rightarrow> u32 option) \<Rightarrow> int \<Rightarrow> exec_args \<Rightarrow> exec_args kop" where
  "copy_args m ptr n x s =
    bindK (copy_strings m ptr n (ea_page x, ea_p x) s) (\<lambda>(page, p) s. ret (x\<lparr>ea_page := page, ea_p := p\<rparr>) s)"

text \<open>\<open>exec_error2\<close> with an inode, \<open>exec_error1\<close> without.\<close>

definition exec_error :: "int \<Rightarrow> nat option \<Rightarrow> exec_args \<Rightarrow> 'a \<Rightarrow> (int \<times> 'a) kop" where
  "exec_error retval inode x r s =
    bindK (iput inode s) (\<lambda>_ s.
    bindK (forK [0..<MAX_ARG_PAGES] (\<lambda>i. lift_mm (free_page (ea_page x i))) s) (\<lambda>_ s.
    ret (retval, r) s))"

definition S_ISUID :: u16 where "S_ISUID = 0x800"
definition S_ISGID :: u16 where "S_ISGID = 0x400"

definition may_exec :: "m_inode \<Rightarrow> kstate \<Rightarrow> bool" where
  "may_exec n s =
    (let i = (if t_euid (me s) = i_uid n then drop_bit 6 (i_mode n)
              else if t_egid (me s) = ucast (i_gid n) then drop_bit 3 (i_mode n) else i_mode n)
     in i AND 1 \<noteq> 0 \<or> (i_mode n AND 0x49 \<noteq> 0 \<and> suser s))"

text \<open>The ids of the new program.\<close>

definition exec_ids :: "m_inode \<Rightarrow> kstate \<Rightarrow> u16 \<times> u16" where
  "exec_ids n s =
    (if i_mode n AND S_ISUID \<noteq> 0 then i_uid n else t_euid (me s),
     if i_mode n AND S_ISGID \<noteq> 0 then ucast (i_gid n) else t_egid (me s))"

definition exec_header_ok :: "exec_header \<Rightarrow> m_inode \<Rightarrow> bool" where
  "exec_header_ok ex n \<longleftrightarrow>
    \<not> (a_magic ex \<noteq> ZMAGIC \<or> a_trsize ex \<noteq> 0 \<or> a_drsize ex \<noteq> 0
       \<or> a_text ex + a_data ex + a_bss ex > 0x3000000
       \<or> i_size n < a_text ex + a_data ex + a_syms ex + N_TXTOFF ex)
    \<and> N_TXTOFF ex = 1024"

text \<open>From \<open>restart_interp\<close> to the reading of the first block: the ids and the block, or the error.\<close>

definition exec_open :: "nat \<Rightarrow> (int + (u16 \<times> u16) \<times> nat) kop" where
  "exec_open inode s =
    (let n = inode_table s inode; ids = exec_ids n s
     in if \<not> S_ISREG (i_mode n) then ret (Inl (- EACCES)) s
        else if \<not> may_exec n s then ret (Inl (- ENOEXEC)) s
        else
          bindK (bread (i_dev n) (ucast (i_zone n 0)) s) (\<lambda>r s.
          case r of None \<Rightarrow> ret (Inl (- EACCES)) s | Some bh \<Rightarrow> ret (Inr (ids, bh)) s))"

text \<open>The interpreter's name, its argument and the name of the script are put in front of the arguments. The
  line is in the memory of the kernel; \<open>namei\<close> reads the name from there.\<close>

definition line_memory :: "(nat \<Rightarrow> u8) \<Rightarrow> u32 \<Rightarrow> u8" where
  "line_memory ln a = ln (unat a)"

definition splice_args ::
  "u32 \<Rightarrow> u32 \<Rightarrow> u32 \<Rightarrow> int \<Rightarrow> nat \<times> nat \<times> nat option \<times> (nat \<Rightarrow> u8) \<Rightarrow> exec_args \<Rightarrow> exec_args kop" where
  "splice_args filename argv envp envc w x s =
    (case w of (interp, i_name, i_arg, ln) \<Rightarrow>
       bindK (copy_args (umem s) (user_ptr (umem s) envp) envc x s) (\<lambda>x s.
       let x = x\<lparr>ea_argc := ea_argc x - 1\<rparr>
       in bindK (copy_args (umem s) (user_ptr (umem s) (argv + 4)) (ea_argc x) x s) (\<lambda>x s.
          bindK (copy_args (umem s) (\<lambda>_. if filename = 0 then None else Some filename) 1 x s) (\<lambda>x s.
          let x = x\<lparr>ea_argc := ea_argc x + 1\<rparr>
          in bindK (case i_arg of
                      None \<Rightarrow> ret x s
                    | Some a \<Rightarrow>
                        bindK (copy_args (line_memory ln) (\<lambda>_. Some (of_nat a)) 1 x s) (\<lambda>x s.
                        ret (x\<lparr>ea_argc := ea_argc x + 1\<rparr>) s)) (\<lambda>x s.
             bindK (copy_args (line_memory ln) (\<lambda>_. Some (of_nat i_name)) 1 x s) (\<lambda>x s.
             ret (x\<lparr>ea_argc := ea_argc x + 1\<rparr>) s))))))"

definition namei_kernel :: "(u32 \<Rightarrow> u8) \<Rightarrow> u32 \<Rightarrow> nat option kop" where
  "namei_kernel m name s =
    (let user = umem s
     in bindK (namei name (s\<lparr>umem := m\<rparr>)) (\<lambda>r s. ret r (s\<lparr>umem := user\<rparr>)))"

text \<open>The result of a program that is started: where it begins, and its stack.\<close>

type_synonym exec_start = "(u32 \<times> u32) option"

definition close_marked :: "unit kop" where
  "close_marked =
    forK [0..<NR_OPEN] (\<lambda>i s.
      if bit (t_close_on_exec (me s)) i then bindK (sys_close (of_nat i) s) (\<lambda>_ s. ret () s) else ret () s)"

text \<open>What becomes of the task at the point of no return, apart from its memory.\<close>

definition reset_task :: "nat \<Rightarrow> unit kop" where
  "reset_task inode s =
    bindK (case t_executable (me s) of None \<Rightarrow> ret () s | Some e \<Rightarrow> iput (Some e) s) (\<lambda>_ s.
    let s = upd_me (\<lambda>t. t\<lparr>t_executable := Some inode,
               t_sigaction := (\<lambda>i. if i < 32 then (t_sigaction t i)\<lparr>sa_handler := 0\<rparr> else t_sigaction t i)\<rparr>) s
    in bindK (close_marked s) (\<lambda>_ s.
       ret () (upd_me (\<lambda>t. t\<lparr>t_close_on_exec := 0\<rparr>) s)))"

definition drop_memory :: "unit kop" where
  "drop_memory s =
    bindK (lift_mm (free_page_tables (get_base (t_ldt (me s) 1)) (get_limit (t_ldt (me s) 1))) s) (\<lambda>_ s.
    bindK (lift_mm (free_page_tables (get_base (t_ldt (me s) 2)) (get_limit (t_ldt (me s) 2))) s) (\<lambda>_ s.
    let sc = sch s;
        s = s\<lparr>sch := (if last_task_used_math sc = Some (current sc) then sc\<lparr>last_task_used_math := None\<rparr> else sc)\<rparr>
    in ret () (upd_me (\<lambda>t. t\<lparr>t_used_math := 0\<rparr>) s)))"

text \<open>\<open>while (i&0xfff) put_fs_byte(0,(char *) (i++))\<close>\<close>

definition clear_bss :: "u32 \<Rightarrow> (u32 \<Rightarrow> u8) \<Rightarrow> u32 \<Rightarrow> u8" where
  "clear_bss i m = fold (\<lambda>k m. m(i + of_nat k := 0)) [0..<(4096 - unat i mod 4096) mod 4096] m"

text \<open>The point of no return.\<close>

definition start_program :: "nat \<Rightarrow> exec_header \<Rightarrow> u16 \<times> u16 \<Rightarrow> int \<Rightarrow> exec_args \<Rightarrow> (int \<times> exec_start) kop" where
  "start_program inode ex ids envc x s =
    bindK (reset_task inode s) (\<lambda>_ s.
    bindK (drop_memory s) (\<lambda>_ s.
    let (limit, s) = change_ldt (a_text ex) (ea_page x) s;
        p = ea_p x + limit - of_nat (MAX_ARG_PAGES * PAGE_SIZE)
    in case create_tables p (nat (ea_argc x)) (nat envc) (umem s) of
         None \<Rightarrow> blocked s
       | Some (p, m) \<Rightarrow>
           let s = upd_me (\<lambda>t. t\<lparr>t_end_code := a_text ex, t_end_data := a_data ex + a_text ex,
                      t_brk := a_bss ex + (a_data ex + a_text ex), t_start_stack := p AND 0xfffff000,
                      t_euid := fst ids, t_egid := snd ids\<rparr>) (s\<lparr>umem := clear_bss (a_text ex + a_data ex) m\<rparr>)
           in ret (0, Some (a_entry ex, p)) s))"

text \<open>A binary whose first block is in \<open>bh\<close>; \<open>copied\<close> tells whether the strings are in place already.\<close>

definition exec_binary ::
  "bool \<Rightarrow> u32 \<Rightarrow> u32 \<Rightarrow> int \<Rightarrow> nat \<Rightarrow> u16 \<times> u16 \<Rightarrow> nat \<Rightarrow> exec_args \<Rightarrow> (int \<times> exec_start) kop" where
  "exec_binary copied argv envp envc inode ids bh x s =
    (let ex = load_header (b_data (buf s bh))
     in bindK (brelse (Some bh) s) (\<lambda>_ s.
        if \<not> exec_header_ok ex (inode_table s inode) then exec_error (- ENOEXEC) (Some inode) x None s
        else
          bindK (if copied then ret x s
                 else
                   bindK (copy_args (umem s) (user_ptr (umem s) envp) envc x s) (\<lambda>x s.
                   copy_args (umem s) (user_ptr (umem s) argv) (ea_argc x) x s)) (\<lambda>x s.
          if \<not> copied \<and> ea_p x = 0 then exec_error (- ENOMEM) (Some inode) x None s
          else start_program inode ex ids envc x s)))"

definition is_script :: "block_data \<Rightarrow> bool" where
  "is_script d \<longleftrightarrow> d 0 = 35 \<and> d 1 = 33"

text \<open>A file that is run by an interpreter; the first line of the interpreter itself does not count.\<close>

definition exec_interpreter :: "u32 \<Rightarrow> u32 \<Rightarrow> int \<Rightarrow> nat \<Rightarrow> exec_args \<Rightarrow> (int \<times> exec_start) kop" where
  "exec_interpreter argv envp envc inode x s =
    bindK (exec_open inode s) (\<lambda>r s.
      case r of
        Inl e \<Rightarrow> exec_error e (Some inode) x None s
      | Inr (ids, bh) \<Rightarrow> exec_binary True argv envp envc inode ids bh x s)"

definition exec_script :: "u32 \<Rightarrow> u32 \<Rightarrow> u32 \<Rightarrow> int \<Rightarrow> nat \<Rightarrow> nat \<Rightarrow> exec_args \<Rightarrow> (int \<times> exec_start) kop" where
  "exec_script filename argv envp envc inode bh x s =
    (let ln = script_line (b_data (buf s bh))
     in bindK (brelse (Some bh) s) (\<lambda>_ s.
        bindK (iput (Some inode) s) (\<lambda>_ s.
        case parse_script ln of
          None \<Rightarrow> exec_error (- ENOEXEC) None x None s
        | Some (interp, i_name, i_arg, ln) \<Rightarrow>
            bindK (splice_args filename argv envp envc (interp, i_name, i_arg, ln) x s) (\<lambda>x s.
            if ea_p x = 0 then exec_error (- ENOMEM) None x None s
            else
              bindK (namei_kernel (line_memory ln) (of_nat interp) s) (\<lambda>r s.
              case r of
                None \<Rightarrow> exec_error (- ENOENT) None x None s
              | Some inode \<Rightarrow> exec_interpreter argv envp envc inode x s)))))"

text \<open>\<open>do_execve\<close>; \<open>cs\<close> is the code segment \<open>eip[1]\<close> of the caller.\<close>

definition do_execve :: "u32 \<Rightarrow> u32 \<Rightarrow> u32 \<Rightarrow> u32 \<Rightarrow> (int \<times> exec_start) kop" where
  "do_execve cs filename argv envp s =
    (if 0xffff AND cs \<noteq> 0xf then panic ''execve called from supervisor mode''
     else
       bindK (namei filename s) (\<lambda>r s.
       case r of
         None \<Rightarrow> ret (- ENOENT, None) s
       | Some inode \<Rightarrow>
           (case (count_args (umem s) argv, count_args (umem s) envp) of
              (Some argc, Some envc) \<Rightarrow>
                let x = \<lparr>ea_page = (\<lambda>_. 0), ea_p = of_nat (PAGE_SIZE * MAX_ARG_PAGES - 4), ea_argc = int argc\<rparr>
                in bindK (exec_open inode s) (\<lambda>r s.
                   case r of
                     Inl e \<Rightarrow> exec_error e (Some inode) x None s
                   | Inr (ids, bh) \<Rightarrow>
                       if is_script (b_data (buf s bh))
                       then exec_script filename argv envp (int envc) inode bh x s
                       else exec_binary False argv envp (int envc) inode ids bh x s)
            | _ \<Rightarrow> blocked s)))"

end
