(* ===== verification/Exec_Args.thy ===== *)
theory Exec_Args
  imports Exec
begin

text \<open>
  The strings of \<open>do_execve\<close>: what \<open>copy_strings\<close> puts into the pages of the new stack, and what the tables that
  \<open>create_tables\<close> builds below them point to.
\<close>

unbundle bit_operations_syntax

section \<open>Bytes of the pages\<close>

definition arg_byte :: "(nat \<Rightarrow> u32) \<Rightarrow> mm_state \<Rightarrow> nat \<Rightarrow> u8" where
  "arg_byte page m off = get_byte m (page (off div PAGE_SIZE) + of_nat (off mod PAGE_SIZE))"

text \<open>The pages are different pages in use.\<close>

definition arg_pages_ok :: "(nat \<Rightarrow> u32) \<Rightarrow> mm_state \<Rightarrow> bool" where
  "arg_pages_ok page m \<longleftrightarrow>
    (\<forall>k < MAX_ARG_PAGES. page k \<noteq> 0 \<longrightarrow> (\<exists>i < PAGING_PAGES. page k = page_at i \<and> mem_map m i \<noteq> 0))
    \<and> (\<forall>j < MAX_ARG_PAGES. \<forall>k < MAX_ARG_PAGES. page j = page k \<longrightarrow> page j \<noteq> 0 \<longrightarrow> j = k)"

lemma arg_pages_okD:
  "arg_pages_ok page m \<Longrightarrow> k < MAX_ARG_PAGES \<Longrightarrow> page k \<noteq> 0 \<Longrightarrow> \<exists>i < PAGING_PAGES. page k = page_at i \<and> mem_map m i \<noteq> 0"
  by (simp add: arg_pages_ok_def)

text \<open>The place in the page agrees with \<open>p\<close>, or the next byte looks its page up.\<close>

definition args_ok :: "arg_pages \<Rightarrow> mm_state \<Rightarrow> bool" where
  "args_ok a m \<longleftrightarrow>
    arg_pages_ok (ap_page a) m \<and> unat (ap_p a) \<le> MAX_ARG_PAGES * PAGE_SIZE
    \<and> (ap_offset a = 0 \<or> (ap_offset a = int (unat (ap_p a) mod PAGE_SIZE) \<and> ap_pag a = ap_page a (unat (ap_p a) div PAGE_SIZE)
                          \<and> ap_pag a \<noteq> 0))"

lemma frame_off: "i < PAGING_PAGES \<Longrightarrow> n < 4096 \<Longrightarrow> frame (page_at i + of_nat n) = page_at i"
proof -
  assume "n < 4096"
  then have "frame (of_nat n) = 0"
    by (intro frame_small) (simp add: unsigned_of_nat take_bit_nat_eq_self)
  then show ?thesis
    using frame_add [of "of_nat n" "page_at i"] by simp
qed

lemma frame_and_not_3: "frame (a AND NOT 3) = frame a"
  by (rule frame_AND_NOT) simp

lemma get_byte_cong: "pmem m (a AND NOT 3) = pmem m' (a AND NOT 3) \<Longrightarrow> get_byte m a = get_byte m' a"
  by (simp add: get_byte_def)

lemma get_byte_clear: "frame a \<noteq> q \<Longrightarrow> get_byte (clear_page q (set_count i c m)) a = get_byte m a"
  by (rule get_byte_cong) (unfold clear_page_simps frame_and_not_3, simp)

lemma arg_page_frame:
  assumes "arg_pages_ok page m" "off < MAX_ARG_PAGES * PAGE_SIZE" "page (off div PAGE_SIZE) \<noteq> 0"
  shows "frame (page (off div PAGE_SIZE) + of_nat (off mod PAGE_SIZE)) = page (off div PAGE_SIZE)"
proof -
  have "off div PAGE_SIZE < MAX_ARG_PAGES"
    using assms(2) by (simp add: PAGE_SIZE_def MAX_ARG_PAGES_def)
  then obtain i where "i < PAGING_PAGES" "page (off div PAGE_SIZE) = page_at i"
    using assms by (auto simp: arg_pages_ok_def)
  then show ?thesis
    using frame_off [of i "off mod PAGE_SIZE"] by (simp add: PAGE_SIZE_def)
qed

text \<open>Different places of the pages are different addresses.\<close>

lemma arg_address_inj:
  assumes "arg_pages_ok page m" "x < MAX_ARG_PAGES * PAGE_SIZE" "y < MAX_ARG_PAGES * PAGE_SIZE"
    "page (x div PAGE_SIZE) \<noteq> 0" "page (y div PAGE_SIZE) \<noteq> 0"
    and eq: "page (x div PAGE_SIZE) + of_nat (x mod PAGE_SIZE) = page (y div PAGE_SIZE) + of_nat (y mod PAGE_SIZE)"
  shows "x = y"
proof -
  have lt: "x div PAGE_SIZE < MAX_ARG_PAGES" "y div PAGE_SIZE < MAX_ARG_PAGES"
    using assms by (simp_all add: PAGE_SIZE_def MAX_ARG_PAGES_def)
  have pg: "page (x div PAGE_SIZE) = page (y div PAGE_SIZE)"
    using arg_page_frame [OF assms(1,2,4)] arg_page_frame [OF assms(1,3,5)] eq by metis
  then have d: "x div PAGE_SIZE = y div PAGE_SIZE"
    using assms(1,4) lt by (simp add: arg_pages_ok_def)
  have "(of_nat (x mod PAGE_SIZE) :: u32) = of_nat (y mod PAGE_SIZE)"
    using eq pg by simp
  moreover have "x mod PAGE_SIZE < 2 ^ 32" "y mod PAGE_SIZE < 2 ^ 32"
    using mod_less_divisor [of PAGE_SIZE x] mod_less_divisor [of PAGE_SIZE y] by (simp_all add: PAGE_SIZE_def)
  ultimately have "x mod PAGE_SIZE = y mod PAGE_SIZE"
    using of_nat_inj by blast
  then show ?thesis
    using d by (metis div_mult_mod_eq)
qed

section \<open>copy_strings\<close>

text \<open>From \<open>a\<close> to \<open>b\<close> the \<open>n\<close> bytes \<open>f\<close> have been put below \<open>p\<close>, and what was there above it has stayed.\<close>

definition pushed :: "arg_pages \<Rightarrow> mm_state \<Rightarrow> nat \<Rightarrow> (nat \<Rightarrow> u8) \<Rightarrow> arg_pages \<Rightarrow> mm_state \<Rightarrow> bool" where
  "pushed a m n f b m' \<longleftrightarrow>
    args_ok b m' \<and> unat (ap_p b) + n = unat (ap_p a)
    \<and> (\<forall>j < n. ap_page b ((unat (ap_p b) + j) div PAGE_SIZE) \<noteq> 0 \<and> arg_byte (ap_page b) m' (unat (ap_p b) + j) = f j)
    \<and> (\<forall>off < MAX_ARG_PAGES * PAGE_SIZE. unat (ap_p a) \<le> off \<longrightarrow> ap_page a (off div PAGE_SIZE) \<noteq> 0 \<longrightarrow>
         ap_page b (off div PAGE_SIZE) = ap_page a (off div PAGE_SIZE)
         \<and> arg_byte (ap_page b) m' off = arg_byte (ap_page a) m off)"

definition no_page :: "mm_state \<Rightarrow> bool" where
  "no_page m \<longleftrightarrow> (\<forall>i < PAGING_PAGES. mem_map m i \<noteq> 0)"

lemma args_ok_set_byte: "args_ok a m \<Longrightarrow> args_ok a (set_byte x c m)"
  by (simp add: args_ok_def arg_pages_ok_def set_byte_def Let_def)

lemma pushed_refl: "args_ok a m \<Longrightarrow> pushed a m 0 f a m"
  by (simp add: pushed_def)

lemma pushed_trans:
  assumes ab: "pushed a m n f b m1" and bc: "pushed b m1 k g c m2" and a: "unat (ap_p a) \<le> MAX_ARG_PAGES * PAGE_SIZE"
  shows "pushed a m (n + k) (\<lambda>j. if j < k then g j else f (j - k)) c m2"
proof -
  have p: "unat (ap_p b) + n = unat (ap_p a)" "unat (ap_p c) + k = unat (ap_p b)"
    using ab bc by (auto simp: pushed_def)
  have keep: "ap_page c (off div PAGE_SIZE) = ap_page b (off div PAGE_SIZE)
      \<and> arg_byte (ap_page c) m2 off = arg_byte (ap_page b) m1 off"
    if "unat (ap_p b) \<le> off" "off < MAX_ARG_PAGES * PAGE_SIZE" "ap_page b (off div PAGE_SIZE) \<noteq> 0" for off
    using bc that by (auto simp: pushed_def)
  have low: "ap_page c ((unat (ap_p c) + j) div PAGE_SIZE) \<noteq> 0 \<and> arg_byte (ap_page c) m2 (unat (ap_p c) + j) = g j" if "j < k" for j
    using bc that by (auto simp: pushed_def)
  have high: "ap_page c ((unat (ap_p c) + j) div PAGE_SIZE) \<noteq> 0 \<and> arg_byte (ap_page c) m2 (unat (ap_p c) + j) = f (j - k)"
    if "k \<le> j" "j < n + k" for j
  proof -
    have off: "unat (ap_p c) + j = unat (ap_p b) + (j - k)" "j - k < n"
      using p that by auto
    then have "ap_page b ((unat (ap_p b) + (j - k)) div PAGE_SIZE) \<noteq> 0" "arg_byte (ap_page b) m1 (unat (ap_p b) + (j - k)) = f (j - k)"
      using ab by (auto simp: pushed_def)
    then show ?thesis
      using keep [of "unat (ap_p b) + (j - k)"] off p a by auto
  qed
  have "ap_page c (off div PAGE_SIZE) = ap_page a (off div PAGE_SIZE) \<and> arg_byte (ap_page c) m2 off = arg_byte (ap_page a) m off"
    if "off < MAX_ARG_PAGES * PAGE_SIZE" "unat (ap_p a) \<le> off" "ap_page a (off div PAGE_SIZE) \<noteq> 0" for off
  proof -
    have "ap_page b (off div PAGE_SIZE) = ap_page a (off div PAGE_SIZE)" "arg_byte (ap_page b) m1 off = arg_byte (ap_page a) m off"
      using ab that by (auto simp: pushed_def)
    then show ?thesis
      using keep [of off] that p by simp
  qed
  moreover have "args_ok c m2"
    using bc by (simp add: pushed_def)
  ultimately show ?thesis
    using low high p by (auto simp: pushed_def not_less)
qed

text \<open>The page of the next byte is at hand.\<close>

definition ready :: "arg_pages \<Rightarrow> mm_state \<Rightarrow> arg_pages \<Rightarrow> mm_state \<Rightarrow> bool" where
  "ready a m b m' \<longleftrightarrow>
    arg_pages_ok (ap_page b) m' \<and> unat (ap_p b) + 1 = unat (ap_p a)
    \<and> ap_offset b = int (unat (ap_p b) mod PAGE_SIZE) \<and> ap_pag b = ap_page b (unat (ap_p b) div PAGE_SIZE) \<and> ap_pag b \<noteq> 0
    \<and> (\<forall>off < MAX_ARG_PAGES * PAGE_SIZE. ap_page a (off div PAGE_SIZE) \<noteq> 0 \<longrightarrow>
         ap_page b (off div PAGE_SIZE) = ap_page a (off div PAGE_SIZE)
         \<and> arg_byte (ap_page b) m' off = arg_byte (ap_page a) m off)"

text \<open>A fresh page is none of those in use.\<close>

lemma fresh_page:
  assumes ok: "arg_pages_ok page m" and i: "i < PAGING_PAGES" "mem_map m i = 0" and k: "k < MAX_ARG_PAGES" "page k = 0"
  defines "m' \<equiv> clear_page (page_at i) (set_count i 1 m)"
  shows "arg_pages_ok (page(k := page_at i)) m'"
    and "off < MAX_ARG_PAGES * PAGE_SIZE \<Longrightarrow> page (off div PAGE_SIZE) \<noteq> 0 \<Longrightarrow>
      arg_byte (page(k := page_at i)) m' off = arg_byte page m off"
proof -
  have other: "page j \<noteq> page_at i" if j: "j < MAX_ARG_PAGES" for j
  proof (cases "page j = 0")
    case False
    then obtain x where "x < PAGING_PAGES" "page j = page_at x" "mem_map m x \<noteq> 0"
      using arg_pages_okD [OF ok j] by blast
    then show ?thesis
      using i by (auto simp: page_at_inj)
  qed (use i in auto)
  have mm: "mem_map m' = (mem_map m)(i := 1)"
    by (simp add: m'_def)
  show "arg_pages_ok (page(k := page_at i)) m'"
    unfolding arg_pages_ok_def mm
  proof (intro conjI allI impI)
    fix j
    assume j: "j < MAX_ARG_PAGES" "(page(k := page_at i)) j \<noteq> 0"
    show "\<exists>x < PAGING_PAGES. (page(k := page_at i)) j = page_at x \<and> ((mem_map m)(i := 1)) x \<noteq> 0"
    proof (cases "j = k")
      case True
      then show ?thesis using i(1) by auto
    next
      case False
      then obtain x where "x < PAGING_PAGES" "page j = page_at x" "mem_map m x \<noteq> 0"
        using arg_pages_okD [OF ok j(1)] j(2) by auto
      then show ?thesis using False by auto
    qed
  next
    fix j l
    assume "j < MAX_ARG_PAGES" "l < MAX_ARG_PAGES" "(page(k := page_at i)) j = (page(k := page_at i)) l"
      "(page(k := page_at i)) j \<noteq> 0"
    then show "j = l"
      using other ok other [THEN not_sym] by (auto simp: arg_pages_ok_def split: if_splits)
  qed
  assume off: "off < MAX_ARG_PAGES * PAGE_SIZE" "page (off div PAGE_SIZE) \<noteq> 0"
  then have "off div PAGE_SIZE \<noteq> k" "off div PAGE_SIZE < MAX_ARG_PAGES"
    using k by (auto simp: MAX_ARG_PAGES_def PAGE_SIZE_def)
  then show "arg_byte (page(k := page_at i)) m' off = arg_byte page m off"
    using arg_page_frame [OF ok off] other [of "off div PAGE_SIZE"]
    by (simp add: arg_byte_def m'_def get_byte_clear)
qed

lemma unat_pred: "0 < unat (p :: u32) \<Longrightarrow> unat (p - 1) + 1 = unat p"
  by (auto simp: unat_minus_one unat_gt_0)

lemma mm_itself [simp]: "\<exists>m. s = s\<lparr>mm := m\<rparr>" for s :: kstate
  by (rule exI [of _ "mm s"]) simp

lemma enter_page_ready:
  fixes x :: int
  assumes ok: "args_ok a (mm s)" and p: "0 < unat (ap_p a)"
  defines "b \<equiv> a\<lparr>ap_p := ap_p a - 1, ap_offset := x\<rparr>"
  shows "totK (\<lambda>(ok, c) t. (\<exists>m. t = s\<lparr>mm := m\<rparr>) \<and> (if ok then ready a (mm s) c (mm t) else no_page (mm t))) (enter_page b s)"
proof -
  have p': "unat (ap_p b) + 1 = unat (ap_p a)"
    using unat_pred [OF p] by (simp add: b_def)
  let ?k = "unat (ap_p b) div PAGE_SIZE"
  have k: "?k < MAX_ARG_PAGES"
    using ok p' by (simp add: args_ok_def MAX_ARG_PAGES_def PAGE_SIZE_def less_mult_imp_div_less)
  have pages: "ap_page b = ap_page a" "arg_pages_ok (ap_page a) (mm s)"
    using ok by (auto simp: b_def args_ok_def)
  show ?thesis
  proof (cases "ap_page a ?k = 0")
    case False
    then have "ready a (mm s) (b\<lparr>ap_offset := int (unat (ap_p b) mod PAGE_SIZE), ap_pag := ap_page a ?k\<rparr>) (mm s)"
      using pages p' by (simp add: ready_def)
    then show ?thesis
      using False k pages(1) by (simp add: enter_page_def Let_def kwp)
  next
    case True
    show ?thesis
    proof (rule get_free_page_cases [of "mm s"])
      assume "\<forall>i < PAGING_PAGES. mem_map (mm s) i \<noteq> 0" "get_free_page (mm s) = (0, mm s)"
      then show ?thesis
        using True k pages(1) by (auto simp: enter_page_def Let_def kwp no_page_def)
    next
      fix i
      assume i: "i < PAGING_PAGES" "mem_map (mm s) i = 0"
        and g: "get_free_page (mm s) = (page_at i, clear_page (page_at i) (set_count i 1 (mm s)))"
      note fresh = fresh_page [OF pages(2) i k True]
      have "ready a (mm s) (b\<lparr>ap_offset := int (unat (ap_p b) mod PAGE_SIZE), ap_pag := page_at i,
          ap_page := (ap_page a)(?k := page_at i)\<rparr>) (clear_page (page_at i) (set_count i 1 (mm s)))"
        using fresh p' True i(1) by (auto simp: ready_def)
      then show ?thesis
        using True k pages(1) g i(1) by (auto simp: enter_page_def Let_def kwp)
    qed
  qed
qed

lemma push_byte_ready:
  assumes "ready a m b m'" "unat (ap_p a) \<le> MAX_ARG_PAGES * PAGE_SIZE"
  shows "pushed a m 1 (\<lambda>_. c) b (set_byte (ap_pag b + of_int (ap_offset b)) c m')"
proof -
  let ?p = "unat (ap_p b)" and ?m = "set_byte (ap_pag b + of_int (ap_offset b)) c m'"
  have b: "arg_pages_ok (ap_page b) m'" "?p + 1 = unat (ap_p a)" "ap_offset b = int (?p mod PAGE_SIZE)"
    "ap_pag b = ap_page b (?p div PAGE_SIZE)" "ap_page b (?p div PAGE_SIZE) \<noteq> 0"
    using assms(1) by (auto simp: ready_def)
  have addr: "ap_pag b + of_int (ap_offset b) = ap_page b (?p div PAGE_SIZE) + of_nat (?p mod PAGE_SIZE)"
    using b by simp
  have p: "?p < MAX_ARG_PAGES * PAGE_SIZE"
    using b(2) assms(2) by simp
  have other: "arg_byte (ap_page b) ?m off = (if off = ?p then c else arg_byte (ap_page b) m' off)"
    if "off < MAX_ARG_PAGES * PAGE_SIZE" "ap_page b (off div PAGE_SIZE) \<noteq> 0" for off
    using arg_address_inj [OF b(1) p that(1) b(5) that(2)] by (auto simp: arg_byte_def addr get_set_byte)
  have "args_ok b m'"
    using b p by (auto simp: args_ok_def)
  then have ok: "args_ok b ?m"
    by (rule args_ok_set_byte)
  have keep: "ap_page b (off div PAGE_SIZE) = ap_page a (off div PAGE_SIZE) \<and> arg_byte (ap_page b) ?m off = arg_byte (ap_page a) m off"
    if off: "off < MAX_ARG_PAGES * PAGE_SIZE" "unat (ap_p a) \<le> off" "ap_page a (off div PAGE_SIZE) \<noteq> 0" for off
  proof -
    have "ap_page b (off div PAGE_SIZE) = ap_page a (off div PAGE_SIZE)" "arg_byte (ap_page b) m' off = arg_byte (ap_page a) m off"
      using assms(1) off by (auto simp: ready_def)
    then show ?thesis
      using other [OF off(1)] off b(2) by auto
  qed
  show ?thesis
    unfolding pushed_def using ok b(2,5) other [OF p] keep by auto
qed

lemma div_mod_pred:
  fixes n k :: nat
  assumes "0 < n mod k"
  shows "(n - 1) div k = n div k \<and> (n - 1) mod k = n mod k - 1"
proof (cases "k = 0")
  case False
  have "n mod k + k * (n div k) = n"
    by simp
  then have n: "n - 1 = (n mod k - 1) + k * (n div k)"
    using assms by linarith
  have "n mod k - 1 < k"
    using False by (simp add: less_imp_diff_less)
  then show ?thesis
    unfolding n using False by simp
qed simp

lemma push_byte_pushed:
  assumes ok: "args_ok a (mm s)" and p: "0 < unat (ap_p a)"
  shows "totK (\<lambda>(ok, b) t. (\<exists>m. t = s\<lparr>mm := m\<rparr>) \<and> (if ok then pushed a (mm s) 1 (\<lambda>_. c) b (mm t) else no_page (mm t)))
    (push_byte c a s)"
proof -
  let ?b = "a\<lparr>ap_p := ap_p a - 1, ap_offset := ap_offset a - 1\<rparr>"
  have le: "unat (ap_p a) \<le> MAX_ARG_PAGES * PAGE_SIZE"
    using ok by (simp add: args_ok_def)
  have "totK (\<lambda>(ok, c) t. (\<exists>m. t = s\<lparr>mm := m\<rparr>) \<and> (if ok then ready a (mm s) c (mm t) else no_page (mm t)))
      (if ap_offset ?b < 0 then enter_page ?b s else ret (True, ?b) s)"
  proof (cases "ap_offset ?b < 0")
    case True
    then show ?thesis
      using enter_page_ready [OF ok p, of "ap_offset a - 1"] by simp
  next
    case False
    then have off: "ap_offset a = int (unat (ap_p a) mod PAGE_SIZE)" "ap_pag a = ap_page a (unat (ap_p a) div PAGE_SIZE)"
      "ap_pag a \<noteq> 0" "0 < unat (ap_p a) mod PAGE_SIZE"
      using ok by (auto simp: args_ok_def)
    let ?p = "unat (ap_p a - 1)"
    have p': "?p + 1 = unat (ap_p a)"
      by (rule unat_pred [OF p])
    then have "?p = unat (ap_p a) - 1"
      by simp
    then have "?p div PAGE_SIZE = unat (ap_p a) div PAGE_SIZE" "?p mod PAGE_SIZE + 1 = unat (ap_p a) mod PAGE_SIZE"
      using div_mod_pred [OF off(4)] off(4) by auto
    then have "ready a (mm s) ?b (mm s)"
      using off p' ok by (simp add: ready_def args_ok_def)
    then show ?thesis
      using False by (simp add: kwp)
  qed
  then show ?thesis
    unfolding push_byte_def Let_def totK_bindK
    by (rule totK_mono) (use push_byte_ready [OF _ le] in \<open>auto simp: kwp\<close>)
qed

text \<open>What a routine has done with the strings: \<open>n\<close> bytes are in place, or there is no page left.\<close>

definition copied :: "arg_pages \<Rightarrow> kstate \<Rightarrow> nat \<Rightarrow> (nat \<Rightarrow> u8) \<Rightarrow> bool \<times> arg_pages \<Rightarrow> kstate \<Rightarrow> bool" where
  "copied a s n f r t \<longleftrightarrow>
    (\<exists>m. t = s\<lparr>mm := m\<rparr>) \<and> (if fst r then pushed a (mm s) n f (snd r) (mm t) else no_page (mm t))"

lemma pushed_cong: "pushed a m n f b m' \<Longrightarrow> (\<And>j. j < n \<Longrightarrow> f j = g j) \<Longrightarrow> pushed a m n g b m'"
  by (simp add: pushed_def)

lemma copied_trans:
  assumes "copied a s n f (True, b) t" "copied b t k g r u" "args_ok a (mm s)"
    "\<And>j. j < k \<Longrightarrow> g j = h j" "\<And>j. j < n \<Longrightarrow> f j = h (k + j)"
  shows "copied a s (n + k) h r u"
proof -
  have "\<exists>m. u = s\<lparr>mm := m\<rparr>"
    using assms(1,2) by (auto simp: copied_def)
  moreover have "pushed a (mm s) (n + k) h (snd r) (mm u)" if r: "fst r"
  proof -
    have "pushed a (mm s) n f b (mm t)" "pushed b (mm t) k g (snd r) (mm u)" "unat (ap_p a) \<le> MAX_ARG_PAGES * PAGE_SIZE"
      using assms r by (auto simp: copied_def args_ok_def)
    note both = pushed_trans [OF this]
    show ?thesis
      by (rule pushed_cong [OF both]) (use assms(4,5) in \<open>auto simp: not_less\<close>)
  qed
  ultimately show ?thesis
    using assms(2) by (auto simp: copied_def)
qed

lemma copied_args_ok: "copied a s n f (True, b) t \<Longrightarrow> args_ok b (mm t) \<and> unat (ap_p b) + n = unat (ap_p a)"
  by (simp add: copied_def pushed_def)

lemma copied_False: "copied a s n f (False, b) t \<Longrightarrow> copied a s k g (False, c) t"
  by (simp add: copied_def)

lemma push_string_copied:
  "args_ok a (mm s) \<Longrightarrow> n \<le> unat (ap_p a) \<Longrightarrow> totK (copied a s n (\<lambda>j. m (str + of_nat j))) (push_string n m str a s)"
proof (induction n arbitrary: a s)
  case 0
  then show ?case
    by (simp add: kwp copied_def pushed_refl)
next
  case (Suc n)
  let ?c = "m (str + of_nat n)"
  have "totK (copied a s 1 (\<lambda>_. ?c)) (push_byte ?c a s)"
    using push_byte_pushed [OF Suc.prems(1), of ?c] Suc.prems(2) by (auto simp: copied_def elim!: totK_mono)
  then show ?case
    unfolding push_string.simps totK_bindK
  proof (rule totK_mono)
    fix r t
    assume r: "copied a s 1 (\<lambda>_. ?c) r t"
    obtain ok b where rb: "r = (ok, b)"
      by fastforce
    show "totK (copied a s (Suc n) (\<lambda>j. m (str + of_nat j))) ((case r of (ok, a) \<Rightarrow> \<lambda>s. if ok then push_string n m str a s else ret (False, a) s) t)"
    proof (cases ok)
      case True
      have one: "copied a s 1 (\<lambda>_. ?c) (True, b) t"
        using r rb True by simp
      have "totK (copied b t n (\<lambda>j. m (str + of_nat j))) (push_string n m str b t)"
        using copied_args_ok [OF one] Suc.prems(2) by (intro Suc.IH) auto
      then have "totK (copied a s (1 + n) (\<lambda>j. m (str + of_nat j))) (push_string n m str b t)"
        by (rule totK_mono) (erule copied_trans [OF one _ Suc.prems(1)], auto)
      then show ?thesis
        using rb True by simp
    next
      case False
      then show ?thesis
        using r rb copied_False by (auto simp: kwp)
    qed
  qed
qed

text \<open>Strings in memory, each with its final zero.\<close>

definition c_string :: "(u32 \<Rightarrow> u8) \<Rightarrow> u32 \<Rightarrow> u8 list \<Rightarrow> bool" where
  "c_string m a bs \<longleftrightarrow> (\<forall>j < length bs. m (a + of_nat j) = bs ! j) \<and> m (a + of_nat (length bs)) = 0 \<and> 0 \<notin> set bs"

definition text_of :: "u8 list list \<Rightarrow> u8 list" where
  "text_of ss = concat (map (\<lambda>bs. bs @ [0]) ss)"

lemma text_of_simps [simp]:
  "text_of [] = []" "text_of (bs # ss) = bs @ 0 # text_of ss" "text_of (ss @ rs) = text_of ss @ text_of rs"
  by (simp_all add: text_of_def)

lemma c_string_Cons: "c_string m a (b # bs) \<longleftrightarrow> m a = b \<and> b \<noteq> 0 \<and> c_string m (a + 1) bs"
  by (auto simp: c_string_def nth_Cons' algebra_simps less_Suc_eq_0_disj)

lemma string_len_c_string:
  "c_string m a bs \<Longrightarrow> length bs < k \<Longrightarrow> string_len k m a n = Some (n + length bs + 1)"
proof (induction bs arbitrary: a k n)
  case Nil
  then show ?case by (cases k) (auto simp: c_string_def)
next
  case (Cons b bs)
  then show ?case
    using Cons.IH [of "a + 1" "k - 1" "n + 1"] by (cases k) (auto simp: c_string_Cons)
qed

lemma push_strings_copied:
  assumes "\<And>k. k < length ss \<Longrightarrow> \<exists>x. ptr k = Some x \<and> c_string m x (ss ! k) \<and> length (ss ! k) < PATH_FUEL"
    and "args_ok a (mm s)" "length (text_of ss) \<le> unat (ap_p a)"
  shows "totK (copied a s (length (text_of ss)) (\<lambda>j. text_of ss ! j)) (push_strings m ptr (length ss) a s)"
  using assms
proof (induction ss arbitrary: a s rule: rev_induct)
  case Nil
  then show ?case
    by (simp add: kwp copied_def pushed_refl)
next
  case (snoc bs ss)
  obtain x where x: "ptr (length ss) = Some x" "c_string m x bs" "length bs < PATH_FUEL"
    using snoc.prems(1) [of "length ss"] by auto
  have len: "string_len PATH_FUEL m x 0 = Some (length bs + 1)"
    using string_len_c_string [OF x(2,3), of 0] by simp
  have "totK (copied a s (length bs + 1) (\<lambda>j. m (x + of_nat j))) (push_string (length bs + 1) m x a s)"
    using snoc.prems by (intro push_string_copied) auto
  then have "totK (\<lambda>r t. totK (copied a s (length (text_of (ss @ [bs]))) (\<lambda>j. text_of (ss @ [bs]) ! j))
      (case r of (ok, a) \<Rightarrow> if ok then push_strings m ptr (length ss) a t else ret (False, a) t)) (push_string (length bs + 1) m x a s)"
  proof (rule totK_mono)
    fix r t
    assume r: "copied a s (length bs + 1) (\<lambda>j. m (x + of_nat j)) r t"
    obtain ok b where rb: "r = (ok, b)"
      by fastforce
    show "totK (copied a s (length (text_of (ss @ [bs]))) (\<lambda>j. text_of (ss @ [bs]) ! j))
      (case r of (ok, a) \<Rightarrow> if ok then push_strings m ptr (length ss) a t else ret (False, a) t)"
    proof (cases ok)
      case True
      have one: "copied a s (length bs + 1) (\<lambda>j. m (x + of_nat j)) (True, b) t"
        using r rb True by simp
      have "totK (copied b t (length (text_of ss)) (\<lambda>j. text_of ss ! j)) (push_strings m ptr (length ss) b t)"
      proof (rule snoc.IH)
        show "\<exists>y. ptr k = Some y \<and> c_string m y (ss ! k) \<and> length (ss ! k) < PATH_FUEL" if "k < length ss" for k
          using snoc.prems(1) [of k] that by (simp add: nth_append)
        show "args_ok b (mm t)" "length (text_of ss) \<le> unat (ap_p b)"
          using copied_args_ok [OF one] snoc.prems(3) by auto
      qed
      then have "totK (copied a s (length bs + 1 + length (text_of ss)) (\<lambda>j. text_of (ss @ [bs]) ! j)) (push_strings m ptr (length ss) b t)"
      proof (rule totK_mono)
        fix r' u
        assume "copied b t (length (text_of ss)) (\<lambda>j. text_of ss ! j) r' u"
        then show "copied a s (length bs + 1 + length (text_of ss)) (\<lambda>j. text_of (ss @ [bs]) ! j) r' u"
        proof (rule copied_trans [OF one _ snoc.prems(2)])
          show "m (x + of_nat j) = text_of (ss @ [bs]) ! (length (text_of ss) + j)" if "j < length bs + 1" for j
            using x(2) that by (auto simp: c_string_def nth_append less_Suc_eq)
        qed (simp add: nth_append)
      qed
      then show ?thesis
        using rb True by (simp add: algebra_simps)
    next
      case False
      then show ?thesis
        using r rb copied_False by (auto simp: kwp)
    qed
  qed
  then show ?case
    by (simp add: x(1) len totK_bindK case_prod_beta del: push_string.simps text_of_simps)
qed

end
