(* ===== verification/Exec_Tables.thy ===== *)
theory Exec_Tables
  imports Exec_Args
begin

text \<open>
  What the new program finds on its stack: the tables that \<open>create_tables\<close> builds below the strings point to them,
  so that the program sees the arguments and the environment that its caller passed.
\<close>

unbundle bit_operations_syntax

section \<open>Memory outside a range\<close>

definition same_outside :: "nat \<Rightarrow> nat \<Rightarrow> (u32 \<Rightarrow> u8) \<Rightarrow> (u32 \<Rightarrow> u8) \<Rightarrow> bool" where
  "same_outside lo hi m m' \<longleftrightarrow> (\<forall>x. unat x < lo \<or> hi \<le> unat x \<longrightarrow> m' x = m x)"

lemma same_outside_trans:
  "same_outside a b m m1 \<Longrightarrow> same_outside c d m1 m2 \<Longrightarrow> lo \<le> a \<Longrightarrow> lo \<le> c \<Longrightarrow> b \<le> hi \<Longrightarrow> d \<le> hi \<Longrightarrow> same_outside lo hi m m2"
  by (auto simp: same_outside_def)

lemma same_outside_mono: "same_outside a b m m' \<Longrightarrow> lo \<le> a \<Longrightarrow> b \<le> hi \<Longrightarrow> same_outside lo hi m m'"
  by (auto simp: same_outside_def)

lemma unat_of_small: "n < 2 ^ 32 \<Longrightarrow> unat (of_nat n :: u32) = n"
  by (simp add: unsigned_of_nat take_bit_nat_eq_self)

lemma unat_plus_nat: "unat (a :: u32) + n < 2 ^ 32 \<Longrightarrow> unat (a + of_nat n) = unat a + n"
  using unat_of_small [of "unat a + n"] by simp

lemma unat_minus_nat: "n \<le> unat (a :: u32) \<Longrightarrow> unat (a - of_nat n) = unat a - n"
proof -
  assume n: "n \<le> unat a"
  have "unat a < 2 ^ 32"
    using unsigned_less [of a] by simp
  then show ?thesis
    using unat_of_small [of "unat a - n"] n by (simp add: of_nat_diff)
qed

lemma same_outside_put:
  assumes "unat a + 4 \<le> 2 ^ 32"
  shows "same_outside (unat a) (unat a + 4) m (put_fs_long v a m)"
proof -
  have "unat (a + 1) = unat a + 1" "unat (a + 2) = unat a + 2" "unat (a + 3) = unat a + 3"
    using unat_plus_nat [of a 1] unat_plus_nat [of a 2] unat_plus_nat [of a 3] assms by simp_all
  then show ?thesis
    by (auto simp: same_outside_def put_fs_long_def)
qed

lemma get_fs_long_same:
  assumes "same_outside lo hi m m'" "unat a + 4 \<le> lo \<or> hi \<le> unat a" "unat a + 4 \<le> 2 ^ 32"
  shows "get_fs_long m' a = get_fs_long m a"
proof -
  have "unat (a + 1) = unat a + 1" "unat (a + 2) = unat a + 2" "unat (a + 3) = unat a + 3"
    using unat_plus_nat [of a 1] unat_plus_nat [of a 2] unat_plus_nat [of a 3] assms by simp_all
  then show ?thesis
    using assms(1,2) by (auto simp: same_outside_def get_fs_long_def)
qed

lemma c_string_same:
  assumes "same_outside lo hi m m'" "hi \<le> unat a" "unat a + length bs < 2 ^ 32" "c_string m a bs"
  shows "c_string m' a bs"
proof -
  have "m' (a + of_nat j) = m (a + of_nat j)" if "j \<le> length bs" for j
    using assms(1,2,3) that by (simp add: same_outside_def unat_plus_nat)
  then show ?thesis
    using assms(4) by (simp add: c_string_def)
qed

section \<open>Strings one after the other\<close>

definition text_in :: "(u32 \<Rightarrow> u8) \<Rightarrow> u32 \<Rightarrow> u8 list list \<Rightarrow> bool" where
  "text_in m p ss \<longleftrightarrow> (\<forall>j < length (text_of ss). m (p + of_nat j) = text_of ss ! j)"

lemma text_in_same:
  assumes "same_outside lo hi m m'" "hi \<le> unat p" "unat p + length (text_of ss) \<le> 2 ^ 32" "text_in m p ss"
  shows "text_in m' p ss"
  using assms by (simp add: text_in_def same_outside_def unat_plus_nat)

lemma text_in_append: "text_in m p (ss @ rs) \<Longrightarrow> text_in m p ss \<and> text_in m (p + of_nat (length (text_of ss))) rs"
proof -
  assume t: "text_in m p (ss @ rs)"
  have "m (p + of_nat (length (text_of ss)) + of_nat j) = text_of rs ! j" if "j < length (text_of rs)" for j
    using t that unfolding text_in_def
    by (auto simp: nth_append algebra_simps dest!: spec [of _ "length (text_of ss) + j"])
  moreover have "m (p + of_nat j) = text_of ss ! j" if "j < length (text_of ss)" for j
    using t that unfolding text_in_def by (auto simp: nth_append dest!: spec [of _ j])
  ultimately show ?thesis
    by (simp add: text_in_def)
qed

lemma text_in_Cons:
  assumes "text_in m p (bs # ss)" "0 \<notin> set bs"
  shows "c_string m p bs" "text_in m (p + of_nat (length bs + 1)) ss"
proof -
  have t: "text_in m p ([bs] @ ss)"
    using assms(1) by simp
  have one: "m (p + of_nat j) = (bs @ [0]) ! j" if "j \<le> length bs" for j
    using text_in_append [OF t] that by (auto simp: text_in_def)
  then show "c_string m p bs"
    using one [of "length bs"] assms(2) by (auto simp: c_string_def nth_append)
  show "text_in m (p + of_nat (length bs + 1)) ss"
    using text_in_append [OF t] by (simp add: algebra_simps)
qed

lemma skip_string_c_string:
  "c_string m p bs \<Longrightarrow> length bs < k \<Longrightarrow> skip_string k m p = Some (p + of_nat (length bs + 1))"
proof (induction bs arbitrary: p k)
  case Nil
  then show ?case by (cases k) (auto simp: c_string_def)
next
  case (Cons b bs)
  then have "m p \<noteq> 0" "c_string m (p + 1) bs"
    by (auto simp: c_string_Cons)
  then show ?case
    using Cons.IH [of "p + 1" "k - 1"] Cons.prems(2) by (cases k) (auto simp: algebra_simps)
qed

section \<open>Tables of pointers\<close>

text \<open>At \<open>v\<close> is a table that points to the strings \<open>ss\<close>, with a null pointer behind it.\<close>

definition user_strings :: "(u32 \<Rightarrow> u8) \<Rightarrow> u32 \<Rightarrow> u8 list list \<Rightarrow> bool" where
  "user_strings m v ss \<longleftrightarrow>
    (\<forall>k < length ss. get_fs_long m (v + 4 * of_nat k) \<noteq> 0 \<and> c_string m (get_fs_long m (v + 4 * of_nat k)) (ss ! k))
    \<and> get_fs_long m (v + 4 * of_nat (length ss)) = 0"

lemma user_strings_Nil: "get_fs_long m v = 0 \<Longrightarrow> user_strings m v []"
  by (simp add: user_strings_def)

lemma user_strings_Cons:
  "get_fs_long m v = p \<Longrightarrow> p \<noteq> 0 \<Longrightarrow> c_string m p bs \<Longrightarrow> user_strings m (v + 4) ss \<Longrightarrow> user_strings m v (bs # ss)"
  by (auto simp: user_strings_def nth_Cons' algebra_simps less_Suc_eq_0_disj)

lemma count_loop_user_strings:
  "user_strings m v ss \<Longrightarrow> length ss < k \<Longrightarrow> count_loop k m v n = Some (n + length ss)"
proof (induction ss arbitrary: v k n)
  case Nil
  then show ?case by (cases k) (auto simp: user_strings_def)
next
  case (Cons bs ss)
  then have "get_fs_long m v \<noteq> 0"
    by (auto simp: user_strings_def)
  moreover have "user_strings m (v + 4) ss"
    using Cons.prems(1) by (auto simp: user_strings_def algebra_simps dest: spec [of _ "Suc _"])
  ultimately show ?case
    using Cons.IH [of "v + 4" "k - 1" "n + 1"] Cons.prems(2) by (cases k) auto
qed

text \<open>The strings themselves lie from \<open>lo\<close> on, inside the segment.\<close>

definition strings_above :: "nat \<Rightarrow> (u32 \<Rightarrow> u8) \<Rightarrow> u32 \<Rightarrow> u8 list list \<Rightarrow> bool" where
  "strings_above lo m v ss \<longleftrightarrow>
    (\<forall>k < length ss. lo \<le> unat (get_fs_long m (v + 4 * of_nat k))
                    \<and> unat (get_fs_long m (v + 4 * of_nat k)) + length (ss ! k) < 0x4000000)"

lemma strings_above_Cons:
  "get_fs_long m v = p \<Longrightarrow> lo \<le> unat p \<Longrightarrow> unat p + length bs < 0x4000000 \<Longrightarrow> lo \<le> lo' \<Longrightarrow> strings_above lo' m (v + 4) ss \<Longrightarrow>
    strings_above lo m v (bs # ss)"
  by (auto simp: strings_above_def nth_Cons' algebra_simps less_Suc_eq_0_disj intro: order_trans)

lemma user_strings_same:
  assumes "same_outside lo hi m m'" "user_strings m v ss" "strings_above hi m v ss"
    "unat v + 4 * (length ss + 1) \<le> lo" "lo \<le> hi" "hi < 2 ^ 32"
  shows "user_strings m' v ss"
proof -
  have at: "get_fs_long m' (v + 4 * of_nat k) = get_fs_long m (v + 4 * of_nat k)" if "k \<le> length ss" for k
    using get_fs_long_same [OF assms(1), of "v + 4 * of_nat k"] unat_plus_nat [of v "4 * k"] assms(4,5,6) that by simp
  have "c_string m' (get_fs_long m (v + 4 * of_nat k)) (ss ! k)" if "k < length ss" for k
    using assms(2,3) that by (intro c_string_same [OF assms(1)]) (auto simp: user_strings_def strings_above_def)
  then show ?thesis
    using assms(2) at by (simp add: user_strings_def)
qed

lemma put_pointers_ok:
  assumes "text_in m p ss" "\<forall>bs \<in> set ss. 0 \<notin> set bs" "unat v + 4 * (length ss + 1) \<le> unat p"
    "unat p + length (text_of ss) \<le> 0x4000000"
  shows "\<exists>m'. put_pointers (length ss) v p m = Some (p + of_nat (length (text_of ss)), m')
    \<and> same_outside (unat v) (unat v + 4 * (length ss + 1)) m m' \<and> user_strings m' v ss \<and> strings_above (unat p) m' v ss"
  using assms
proof (induction ss arbitrary: v p m)
  case Nil
  then show ?case
    using same_outside_put [of v m 0] by (auto intro: user_strings_Nil simp: strings_above_def)
next
  case (Cons bs ss)
  let ?m = "put_fs_long p v m" and ?q = "p + of_nat (length bs + 1)"
  have len: "length (text_of (bs # ss)) = length bs + 1 + length (text_of ss)"
    by simp
  have v4: "unat (v + 4) = unat v + 4"
    using unat_plus_nat [of v 4] Cons.prems(3,4) by simp
  have q: "unat ?q = unat p + length bs + 1"
    using unat_plus_nat [of p "length bs + 1"] Cons.prems(4) len by simp
  have one: "same_outside (unat v) (unat v + 4) m ?m"
    using Cons.prems(3,4) by (intro same_outside_put) simp
  have "text_in ?m p (bs # ss)"
    using Cons.prems len by (intro text_in_same [OF one]) simp_all
  then have str: "c_string ?m p bs" "text_in ?m ?q ss"
    using text_in_Cons [of ?m p bs ss] Cons.prems(2) by auto
  have skip: "skip_string PATH_FUEL ?m p = Some ?q"
    using Cons.prems(4) len by (intro skip_string_c_string [OF str(1)]) (simp add: PATH_FUEL_def)
  obtain m' where m': "put_pointers (length ss) (v + 4) ?q ?m = Some (?q + of_nat (length (text_of ss)), m')"
    "same_outside (unat (v + 4)) (unat (v + 4) + 4 * (length ss + 1)) ?m m'" "user_strings m' (v + 4) ss" "strings_above (unat ?q) m' (v + 4) ss"
    using Cons.IH [OF str(2), of "v + 4"] Cons.prems(2,3,4) len q v4 by auto
  have at: "get_fs_long m' v = p"
    using get_fs_long_same [OF m'(2), of v] v4 Cons.prems(3,4) by simp
  moreover have "c_string m' p bs"
    using Cons.prems(3,4) v4 len by (intro c_string_same [OF m'(2) _ _ str(1)]) simp_all
  moreover have "p \<noteq> 0"
    using Cons.prems(3) by auto
  ultimately have "user_strings m' v (bs # ss)"
    using m'(3) at by (intro user_strings_Cons)
  moreover have "strings_above (unat p) m' v (bs # ss)"
    using Cons.prems(4) len q by (intro strings_above_Cons [OF at _ _ _ m'(4)]) simp_all
  moreover have "same_outside (unat v) (unat v + 4 * (length (bs # ss) + 1)) m m'"
    using v4 by (intro same_outside_trans [OF one m'(2)]) simp_all
  ultimately show ?case
    using m'(1) skip by (simp add: Let_def algebra_simps del: text_of_simps(1))
qed

text \<open>The stack pointer is aligned.\<close>

lemma aligned_below:
  assumes "4 \<le> unat (p :: u32)"
  shows "unat (0xfffffffc AND p) \<le> unat p" "unat p \<le> unat (0xfffffffc AND p) + 3"
proof -
  have "(0xfffffffc AND p) AND (p AND 3) = (0xfffffffc AND 3) AND p"
    by (simp only: ac_simps and.left_idem)
  then have "(0xfffffffc AND p) + (p AND 3) = (0xfffffffc AND p) OR (p AND 3)"
    by (intro disjunctive_add_eq_or) simp
  also have "\<dots> = p AND (0xfffffffc OR 3)"
    by (simp only: bit.conj_disj_distrib and.commute)
  also have "(0xfffffffc OR 3 :: u32) = - 1"
    by simp
  finally have "(0xfffffffc AND p) = p - of_nat (unat (p AND 3))"
    by (simp add: algebra_simps)
  moreover have "unat (p AND 3) \<le> 3"
    using byte_lane [of p] by auto
  ultimately have "unat (0xfffffffc AND p) = unat p - unat (p AND 3)" "unat (p AND 3) \<le> 3"
    using assms by (simp_all only: unat_minus_nat)
  then show "unat (0xfffffffc AND p) \<le> unat p" "unat p \<le> unat (0xfffffffc AND p) + 3"
    by simp_all
qed

text \<open>At \<open>sp\<close> are \<open>argc\<close>, \<open>argv\<close> and \<open>envp\<close>, as a program expects them.\<close>

definition program_sees :: "(u32 \<Rightarrow> u8) \<Rightarrow> u32 \<Rightarrow> u8 list list \<Rightarrow> u8 list list \<Rightarrow> bool" where
  "program_sees m sp A E \<longleftrightarrow>
    get_fs_long m sp = of_nat (length A) \<and> user_strings m (get_fs_long m (sp + 4)) A \<and> user_strings m (get_fs_long m (sp + 8)) E"

lemma create_tables_ok:
  assumes str: "text_in m p (A @ E)" and zero: "\<forall>bs \<in> set (A @ E). 0 \<notin> set bs"
    and hi: "unat p + length (text_of (A @ E)) \<le> 0x4000000" and lo: "4 * (length A + length E) + 32 \<le> unat p"
  shows "\<exists>sp u. create_tables p (length A) (length E) m = Some (sp, u) \<and> program_sees u sp A E"
proof -
  define sp where "sp = 0xfffffffc AND p"
  define envp where "envp = sp - 4 * of_nat (length E + 1)"
  define argv where "argv = envp - 4 * of_nat (length A + 1)"
  have sp: "unat sp \<le> unat p" "unat p \<le> unat sp + 3"
    using aligned_below [of p] lo by (simp_all add: sp_def)
  have envp: "unat envp + 4 * (length E + 1) = unat sp"
    using unat_minus_nat [of "4 * (length E + 1)" sp] lo sp by (simp add: envp_def)
  have argv: "unat argv + 4 * (length A + 1) = unat envp" "12 \<le> unat argv"
    using unat_minus_nat [of "4 * (length A + 1)" envp] lo sp envp by (simp_all add: argv_def)
  have top: "unat p \<le> 0x4000000"
    using hi by simp
  have below: "unat (argv - 4) + 4 = unat argv" "unat (argv - 8) + 8 = unat argv" "unat (argv - 12) + 12 = unat argv"
    using unat_minus_nat [of 4 argv] unat_minus_nat [of 8 argv] unat_minus_nat [of 12 argv] argv by simp_all
  define m1 where "m1 = put_fs_long envp (argv - 4) m"
  define m2 where "m2 = put_fs_long argv (argv - 8) m1"
  define m3 where "m3 = put_fs_long (of_nat (length A)) (argv - 12) m2"
  have head: "get_fs_long m3 (argv - 4) = envp" "get_fs_long m3 (argv - 8) = argv" "get_fs_long m3 (argv - 12) = of_nat (length A)"
    by (simp_all add: m1_def m2_def m3_def)
  have w: "same_outside (unat (argv - 4)) (unat (argv - 4) + 4) m m1" "same_outside (unat (argv - 8)) (unat (argv - 8) + 4) m1 m2"
    "same_outside (unat (argv - 12)) (unat (argv - 12) + 4) m2 m3"
    unfolding m1_def m2_def m3_def by (rule same_outside_put, use below argv envp sp top in simp)+
  have "same_outside (unat (argv - 12)) (unat argv) m m2"
    by (rule same_outside_trans [OF w(1,2)]) (use below in linarith)+
  then have s3: "same_outside (unat (argv - 12)) (unat argv) m m3"
    by (rule same_outside_trans [OF _ w(3)]) (use below in linarith)+
  have t3: "text_in m3 p (A @ E)"
    using str hi argv envp sp by (intro text_in_same [OF s3]) simp_all
  obtain m4 where m4: "put_pointers (length A) argv p m3 = Some (p + of_nat (length (text_of A)), m4)"
    "same_outside (unat argv) (unat envp) m3 m4" "user_strings m4 argv A" "strings_above (unat p) m4 argv A"
    using put_pointers_ok [of m3 p A argv] text_in_append [OF t3] zero hi argv envp sp by auto
  let ?q = "p + of_nat (length (text_of A))"
  have q: "unat ?q = unat p + length (text_of A)"
    using unat_plus_nat [of p "length (text_of A)"] hi by simp
  have "text_in m4 p (A @ E)"
    using t3 hi envp sp by (intro text_in_same [OF m4(2)]) simp_all
  then obtain m5 where m5: "put_pointers (length E) envp ?q m4 = Some (?q + of_nat (length (text_of E)), m5)"
    "same_outside (unat envp) (unat sp) m4 m5" "user_strings m5 envp E"
    using put_pointers_ok [of m4 ?q E envp] text_in_append [of m4 p A E] zero hi envp sp q by auto
  have "strings_above (unat sp) m4 argv A"
    using m4(4) sp(1) by (auto simp: strings_above_def)
  then have "user_strings m5 argv A"
    using argv envp sp top by (intro user_strings_same [OF m5(2) m4(3)]) simp_all
  moreover have s5: "same_outside (unat argv) (unat sp) m3 m5"
    by (rule same_outside_trans [OF m4(2) m5(2)]) (use argv envp in simp_all)
  have "get_fs_long m5 x = get_fs_long m3 x" if "unat x + 4 \<le> unat argv" for x
    using that argv envp sp top by (intro get_fs_long_same [OF s5]) simp_all
  then have "get_fs_long m5 (argv - 4) = envp" "get_fs_long m5 (argv - 8) = argv" "get_fs_long m5 (argv - 12) = of_nat (length A)"
    using head below by simp_all
  moreover have "create_tables p (length A) (length E) m = Some (argv - 12, m5)"
    using m4(1) m5(1) by (simp add: create_tables_def Let_def sp_def envp_def argv_def m1_def m2_def m3_def)
  ultimately show ?thesis
    using m5(3) by (auto simp: program_sees_def)
qed

section \<open>From one program to the next\<close>

lemma user_strings_ptr:
  "user_strings m v ss \<Longrightarrow> k < length ss \<Longrightarrow> \<exists>x. user_ptr m v k = Some x \<and> c_string m x (ss ! k)"
  by (auto simp: user_strings_def user_ptr_def Let_def)

lemma length_text_of_elem: "bs \<in> set ss \<Longrightarrow> length bs < length (text_of ss)"
  by (induction ss) auto

lemma length_text_of: "length ss \<le> length (text_of ss)"
  by (induction ss) auto

text \<open>The state in which a call of \<open>copy_strings\<close> begins, and what the call has done.\<close>

definition start_copy :: "exec_args \<Rightarrow> arg_pages" where
  "start_copy x = \<lparr>ap_page = ea_page x, ap_p = ea_p x, ap_offset = 0, ap_pag = 0\<rparr>"

lemma start_copy_simps [simp]: "ap_page (start_copy x) = ea_page x" "ap_p (start_copy x) = ea_p x" "ap_offset (start_copy x) = 0"
  by (simp_all add: start_copy_def)

definition args_copied :: "exec_args \<Rightarrow> kstate \<Rightarrow> u8 list list \<Rightarrow> exec_args \<Rightarrow> kstate \<Rightarrow> bool" where
  "args_copied x s ss y t \<longleftrightarrow>
    (\<exists>m. t = s\<lparr>mm := m\<rparr>) \<and> ea_argc y = ea_argc x
    \<and> (ea_p y = 0 \<and> no_page (mm t)
       \<or> pushed (start_copy x) (mm s) (length (text_of ss)) (\<lambda>j. text_of ss ! j) (start_copy y) (mm t))"

lemma pushed_restart: "pushed a m n f b m' \<Longrightarrow> pushed a m n f (start_copy (x\<lparr>ea_page := ap_page b, ea_p := ap_p b\<rparr>)) m'"
  by (auto simp: pushed_def args_ok_def)

lemma copied_args_copied:
  assumes "copied (start_copy x) s (length (text_of ss)) (\<lambda>j. text_of ss ! j) r t"
  shows "args_copied x s ss (x\<lparr>ea_page := ap_page (snd r), ea_p := if fst r then ap_p (snd r) else 0\<rparr>) t"
  using assms pushed_restart [of "start_copy x" "mm s"] by (cases "fst r") (auto simp: copied_def args_copied_def)

lemma copy_args_copied:
  assumes "user_strings m v ss" "length (text_of ss) < PATH_FUEL" "n = int (length ss)" "ea_p x \<noteq> 0"
    and ok: "args_ok (start_copy x) (mm s)" "length (text_of ss) \<le> unat (ea_p x)"
  shows "totK (args_copied x s ss) (copy_args m (user_ptr m v) n x s)"
proof -
  have "\<exists>y. user_ptr m v k = Some y \<and> c_string m y (ss ! k) \<and> length (ss ! k) < PATH_FUEL" if "k < length ss" for k
    using user_strings_ptr [OF assms(1) that] length_text_of_elem [of "ss ! k" ss] that assms(2) by fastforce
  then have "totK (copied (start_copy x) s (length (text_of ss)) (\<lambda>j. text_of ss ! j))
      (push_strings m (user_ptr m v) (length ss) (start_copy x) s)"
    using ok by (intro push_strings_copied) simp_all
  then show ?thesis
    unfolding copy_args_def copy_strings_def start_copy_def [symmetric] prod.case totK_bindK
    using assms(3,4) copied_args_copied [of x s ss] by (auto simp: kwp case_prod_beta elim!: totK_mono)
qed

lemma args_copied_stop: "ea_p y = 0 \<Longrightarrow> copy_args m ptr n y t = ret y t"
  by (simp add: copy_args_def copy_strings_def ret_def)

lemma args_copied_trans:
  assumes "args_copied x s E y t" "args_copied y t A z u" "ea_p y \<noteq> 0" "args_ok (start_copy x) (mm s)"
  shows "args_copied x s (A @ E) z u"
proof -
  have "pushed (start_copy x) (mm s) (length (text_of (A @ E))) (\<lambda>j. text_of (A @ E) ! j) (start_copy z) (mm u)"
    if "\<not> (ea_p z = 0 \<and> no_page (mm u))"
  proof -
    have p: "pushed (start_copy x) (mm s) (length (text_of E)) (\<lambda>j. text_of E ! j) (start_copy y) (mm t)"
      "pushed (start_copy y) (mm t) (length (text_of A)) (\<lambda>j. text_of A ! j) (start_copy z) (mm u)"
      using assms(1,2,3) that by (auto simp: args_copied_def)
    have "pushed (start_copy x) (mm s) (length (text_of E) + length (text_of A))
        (\<lambda>j. if j < length (text_of A) then text_of A ! j else text_of E ! (j - length (text_of A))) (start_copy z) (mm u)"
      using assms(4) by (intro pushed_trans [OF p]) (simp add: args_ok_def)
    then have "pushed (start_copy x) (mm s) (length (text_of E) + length (text_of A)) (\<lambda>j. text_of (A @ E) ! j) (start_copy z) (mm u)"
      by (rule pushed_cong) (simp add: nth_append)
    then show ?thesis
      by (simp add: add.commute)
  qed
  then show ?thesis
    using assms(1,2) by (auto simp: args_copied_def)
qed

text \<open>With the pages at the top of the segment, what has been put below \<open>p\<close> is a text of the memory.\<close>

lemma arg_memory_text:
  assumes "args_ok a (mm t)" "unat (ap_p a) + length (text_of ss) \<le> MAX_ARG_PAGES * PAGE_SIZE"
    "\<And>j. j < length (text_of ss) \<Longrightarrow> ap_page a ((unat (ap_p a) + j) div PAGE_SIZE) \<noteq> 0
      \<and> arg_byte (ap_page a) (mm t) (unat (ap_p a) + j) = text_of ss ! j"
  shows "text_in (arg_memory (ap_page a) (mm t)) (ap_p a + 0x4000000 - 0x20000) ss"
  unfolding text_in_def
proof (intro allI impI)
  fix j
  assume j: "j < length (text_of ss)"
  have "ap_p a + 0x4000000 - 0x20000 + of_nat j - (0x4000000 - 0x20000) = ap_p a + of_nat j"
    by simp
  moreover have "unat (ap_p a + of_nat j) = unat (ap_p a) + j"
    using assms(2) j by (intro unat_plus_nat) (simp add: MAX_ARG_PAGES_def PAGE_SIZE_def)
  moreover have "unat (ap_p a) + j < MAX_ARG_PAGES * PAGE_SIZE"
    using assms(2) j by simp
  ultimately show "arg_memory (ap_page a) (mm t) (ap_p a + 0x4000000 - 0x20000 + of_nat j) = text_of ss ! j"
    using assms(3) [OF j] unfolding arg_memory_def Let_def by (simp add: arg_byte_def)
qed

text \<open>The two calls of \<open>do_execve\<close> for a binary.\<close>

lemma copy_both:
  assumes A: "user_strings (umem s) argv A" and E: "user_strings (umem s) envp E"
    and len: "length (text_of (A @ E)) < unat (ea_p x)" "unat (ea_p x) < MAX_ARG_PAGES * PAGE_SIZE"
    and x: "args_ok (start_copy x) (mm s)" "ea_argc x = int (length A)"
  shows "totK (args_copied x s (A @ E))
    (bindK (copy_args (umem s) (user_ptr (umem s) envp) (int (length E)) x s)
      (\<lambda>x s. copy_args (umem s) (user_ptr (umem s) argv) (ea_argc x) x s))"
proof -
  have fuel: "length (text_of E) < PATH_FUEL" "length (text_of A) < PATH_FUEL"
    using len by (simp_all add: PATH_FUEL_def MAX_ARG_PAGES_def PAGE_SIZE_def)
  have "ea_p x \<noteq> 0"
    using len(1) by auto
  then have "totK (args_copied x s E) (copy_args (umem s) (user_ptr (umem s) envp) (int (length E)) x s)"
    using len by (intro copy_args_copied [OF E fuel(1) _ _ x(1)]) simp_all
  then show ?thesis
    unfolding totK_bindK
  proof (rule totK_mono)
    fix y t
    assume y: "args_copied x s E y t"
    then have t: "umem t = umem s" "ea_argc y = int (length A)"
      using x(2) by (auto simp: args_copied_def)
    show "totK (args_copied x s (A @ E)) (copy_args (umem t) (user_ptr (umem t) argv) (ea_argc y) y t)"
    proof (cases "ea_p y = 0")
      case True
      then have "\<not> pushed (start_copy x) (mm s) (length (text_of E)) (\<lambda>j. text_of E ! j) (start_copy y) (mm t)"
        using len(1) by (auto simp: pushed_def)
      then show ?thesis
        using True y by (auto simp: args_copied_stop kwp args_copied_def)
    next
      case False
      then have "pushed (start_copy x) (mm s) (length (text_of E)) (\<lambda>j. text_of E ! j) (start_copy y) (mm t)"
        using y by (auto simp: args_copied_def)
      then have "args_ok (start_copy y) (mm t)" "unat (ea_p y) + length (text_of E) = unat (ea_p x)"
        by (auto simp: pushed_def)
      then have "totK (args_copied y t A) (copy_args (umem t) (user_ptr (umem t) argv) (ea_argc y) y t)"
        using A t len False by (intro copy_args_copied fuel(2)) simp_all
      then show ?thesis
        by (rule totK_mono) (erule args_copied_trans [OF y _ False x(1)])
    qed
  qed
qed

lemma tables_of_copy:
  assumes all: "pushed (start_copy x) m (length (text_of (A @ E))) (\<lambda>j. text_of (A @ E) ! j) (start_copy y) (mm t)"
    and p: "unat (ea_p x) = 131068" and zero: "\<forall>bs \<in> set (A @ E). 0 \<notin> set bs" and len: "length (text_of (A @ E)) < 131068"
  shows "\<exists>sp u. create_tables (ea_p y + 0x4000000 - of_nat (MAX_ARG_PAGES * PAGE_SIZE)) (length A) (length E)
    (arg_memory (ea_page y) (mm t)) = Some (sp, u) \<and> program_sees u sp A E"
proof -
  have y: "args_ok (start_copy y) (mm t)" "unat (ea_p y) + length (text_of (A @ E)) = 131068"
    using all p by (simp_all add: pushed_def)
  have at: "text_in (arg_memory (ea_page y) (mm t)) (ea_p y + 0x4000000 - 0x20000) (A @ E)"
    using arg_memory_text [OF y(1), where ss = "A @ E"] y(2) all by (simp add: pushed_def MAX_ARG_PAGES_def PAGE_SIZE_def)
  have p': "unat (ea_p y + 0x4000000 - 0x20000) = unat (ea_p y) + 0x3FE0000"
    using unat_plus_nat [of "ea_p y" "0x3FE0000"] y(2) by (simp add: add.commute)
  have "length A + length E < 131068"
    using length_text_of [where ss = "A @ E"] len by simp
  then show ?thesis
    using create_tables_ok [OF at zero] p' y(2) by (simp add: MAX_ARG_PAGES_def PAGE_SIZE_def)
qed

text \<open>
  C10. The strings of execve. Pointers to the strings \<open>A\<close> at \<open>argv\<close> and \<open>E\<close> at \<open>envp\<close>, of less than 131068 bytes
  together, are counted and copied: the copy fails only when no page of memory is free, and otherwise the
  tables built below the strings make the new program see at its stack pointer the number of arguments, a
  table of pointers to the strings \<open>A\<close> and a table of pointers to \<open>E\<close>, each ended by a null pointer.
\<close>

theorem execve_arguments:
  assumes A: "user_strings (umem s) argv A" and E: "user_strings (umem s) envp E" and nonzero: "argv \<noteq> 0" "envp \<noteq> 0"
    and len: "length (text_of (A @ E)) < PAGE_SIZE * MAX_ARG_PAGES - 4"
    and x: "x = \<lparr>ea_page = (\<lambda>_. 0), ea_p = of_nat (PAGE_SIZE * MAX_ARG_PAGES - 4), ea_argc = int (length A)\<rparr>"
  shows "count_args (umem s) argv = Some (length A) \<and> count_args (umem s) envp = Some (length E)
    \<and> totK (\<lambda>y t. (\<exists>m. t = s\<lparr>mm := m\<rparr>)
        \<and> (if ea_p y = 0 then no_page (mm t)
           else \<exists>sp u. create_tables (ea_p y + 0x4000000 - of_nat (MAX_ARG_PAGES * PAGE_SIZE)) (nat (ea_argc y)) (length E)
                        (arg_memory (ea_page y) (mm t)) = Some (sp, u) \<and> program_sees u sp A E))
      (bindK (copy_args (umem s) (user_ptr (umem s) envp) (int (length E)) x s)
        (\<lambda>x s. copy_args (umem s) (user_ptr (umem s) argv) (ea_argc x) x s))"
proof (intro conjI)
  have "length A < PATH_FUEL" "length E < PATH_FUEL"
    using len length_text_of [of A] length_text_of [of E] by (simp_all add: PATH_FUEL_def MAX_ARG_PAGES_def PAGE_SIZE_def)
  then show "count_args (umem s) argv = Some (length A)" "count_args (umem s) envp = Some (length E)"
    using count_loop_user_strings [OF A, where n = 0] count_loop_user_strings [OF E, where n = 0] nonzero by (simp_all add: count_args_def)
  have p: "unat (ea_p x) = 131068"
    by (simp add: x MAX_ARG_PAGES_def PAGE_SIZE_def)
  have start: "args_ok (start_copy x) (mm s)" "ea_argc x = int (length A)"
    by (simp_all add: x args_ok_def arg_pages_ok_def MAX_ARG_PAGES_def PAGE_SIZE_def)
  have zero: "\<forall>bs \<in> set (A @ E). 0 \<notin> set bs"
    using A E by (auto simp: user_strings_def c_string_def in_set_conv_nth)
  have total: "length (text_of (A @ E)) < 131068"
    using len by (simp add: MAX_ARG_PAGES_def PAGE_SIZE_def)
  show "totK (\<lambda>y t. (\<exists>m. t = s\<lparr>mm := m\<rparr>)
        \<and> (if ea_p y = 0 then no_page (mm t)
           else \<exists>sp u. create_tables (ea_p y + 0x4000000 - of_nat (MAX_ARG_PAGES * PAGE_SIZE)) (nat (ea_argc y)) (length E)
                        (arg_memory (ea_page y) (mm t)) = Some (sp, u) \<and> program_sees u sp A E))
      (bindK (copy_args (umem s) (user_ptr (umem s) envp) (int (length E)) x s)
        (\<lambda>x s. copy_args (umem s) (user_ptr (umem s) argv) (ea_argc x) x s))"
  proof (rule totK_mono [OF copy_both [OF A E _ _ start]])
    show "length (text_of (A @ E)) < unat (ea_p x)" "unat (ea_p x) < MAX_ARG_PAGES * PAGE_SIZE"
      using total p by (simp_all add: MAX_ARG_PAGES_def PAGE_SIZE_def)
    fix y t
    assume y: "args_copied x s (A @ E) y t"
    then have argc: "\<exists>m. t = s\<lparr>mm := m\<rparr>" "nat (ea_argc y) = length A"
      using start(2) by (auto simp: args_copied_def)
    show "(\<exists>m. t = s\<lparr>mm := m\<rparr>)
        \<and> (if ea_p y = 0 then no_page (mm t)
           else \<exists>sp u. create_tables (ea_p y + 0x4000000 - of_nat (MAX_ARG_PAGES * PAGE_SIZE)) (nat (ea_argc y)) (length E)
                        (arg_memory (ea_page y) (mm t)) = Some (sp, u) \<and> program_sees u sp A E)"
    proof (cases "ea_p y = 0")
      case True
      then have "\<not> pushed (start_copy x) (mm s) (length (text_of (A @ E))) (\<lambda>j. text_of (A @ E) ! j) (start_copy y) (mm t)"
        using total p by (auto simp: pushed_def)
      then show ?thesis
        using y True argc by (auto simp: args_copied_def)
    next
      case False
      then have "pushed (start_copy x) (mm s) (length (text_of (A @ E))) (\<lambda>j. text_of (A @ E) ! j) (start_copy y) (mm t)"
        using y by (auto simp: args_copied_def)
      then have "\<exists>sp u. create_tables (ea_p y + 0x4000000 - of_nat (MAX_ARG_PAGES * PAGE_SIZE)) (length A) (length E)
          (arg_memory (ea_page y) (mm t)) = Some (sp, u) \<and> program_sees u sp A E"
        using tables_of_copy [OF _ p zero total] by simp
      then show ?thesis
        using False argc by simp
    qed
  qed
qed

text \<open>A program that is called with one argument, the string at 32, and no environment.\<close>

definition one_arg :: kstate where
  "one_arg = demo_kernel\<lparr>umem := (put_fs_long 32 16 (\<lambda>_. 0))(32 := 97)\<rparr>"

lemma one_arg_strings: "user_strings (umem one_arg) 16 [[97]]" "user_strings (umem one_arg) 24 []"
  by (simp_all add: user_strings_def c_string_def one_arg_def put_fs_long_def get_fs_long_def)

theorem execve_arguments_witness:
  "totK (\<lambda>y t. if ea_p y = 0 then no_page (mm t)
      else \<exists>sp u. create_tables (ea_p y + 0x4000000 - of_nat (MAX_ARG_PAGES * PAGE_SIZE)) (nat (ea_argc y)) 0
                   (arg_memory (ea_page y) (mm t)) = Some (sp, u) \<and> program_sees u sp [[97]] [])
    (bindK (copy_args (umem one_arg) (user_ptr (umem one_arg) 24) 0
        \<lparr>ea_page = (\<lambda>_. 0), ea_p = of_nat (PAGE_SIZE * MAX_ARG_PAGES - 4), ea_argc = 1\<rparr> one_arg)
      (\<lambda>x s. copy_args (umem s) (user_ptr (umem s) 16) (ea_argc x) x s))"
proof -
  have "length (text_of ([[97]] @ [])) < PAGE_SIZE * MAX_ARG_PAGES - 4"
    by (simp add: PAGE_SIZE_def MAX_ARG_PAGES_def)
  from execve_arguments [OF one_arg_strings _ _ this refl] show ?thesis
    by (auto elim!: totK_mono)
qed

end
