(* ===== verification/Frame.thy ===== *)
theory Frame
  imports Names
begin

text \<open>
  What the routines of the file system leave alone. An invariant that survives the elementary changes of the state, which
  are the assumptions of the locales, survives every routine: one lemma for each, up to the system calls on names,
  collected in \<open>fr\<close>.
\<close>

named_theorems fr \<open>what a routine of the file system leaves unchanged\<close>

section \<open>Invariants of routines\<close>

locale invariant_of =
  fixes I :: "kstate \<Rightarrow> bool"
begin

lemma fr_bindK [fr]:
  "okK (\<lambda>_. I) m \<Longrightarrow> (\<And>x t. I t \<Longrightarrow> okK (\<lambda>_. I) (f x t)) \<Longrightarrow> okK (\<lambda>_. I) (bindK m f)"
  unfolding okK_bindK by (rule okK_mono)

lemma fr_ret [fr]: "I s \<Longrightarrow> okK (\<lambda>_. I) (ret x s)"
  by (simp add: kwp)

lemma fr_stop [fr]:
  "okK (\<lambda>_. I) (Inl e)" "okK (\<lambda>_. I) (panic msg)"
  "okK (\<lambda>_. I) (blocked s)" "okK (\<lambda>_. I) (fault s)"
  by (simp_all add: kwp blocked_def fault_def)

lemma fr_let:
  "I s \<Longrightarrow> (\<And>t. I t \<Longrightarrow> okK (\<lambda>_. I) (f t)) \<Longrightarrow> okK (\<lambda>_. I) (Let s f)"
  by (simp add: Let_def)

lemma fr_let_value:
  "(\<And>x. okK (\<lambda>_. I) (f x)) \<Longrightarrow> okK (\<lambda>_. I) (Let x f)"
  by (simp add: Let_def)

lemma fr_forK [fr]:
  "(\<And>i t. I t \<Longrightarrow> okK (\<lambda>_. I) (body i t)) \<Longrightarrow> I s \<Longrightarrow> okK (\<lambda>_. I) (forK is body s)"
  by (rule okK_forK)

lemma fr_leave [fr]:
  "(\<And>f t. f \<in> set fs \<Longrightarrow> I t \<Longrightarrow> okK (\<lambda>_. I) (f t)) \<Longrightarrow> I s \<Longrightarrow> okK (\<lambda>_. I) (leave fs r s)"
  by (induction fs arbitrary: s) (auto intro!: fr)

end

text \<open>
  An invariant that the contents of the buffers, the disks, the table of inodes, the memory manager and the waking of
  processes have no part in. The links of the buffers and the blocks that they hold may have one.
\<close>

definition keeps_links :: "(buffer_head \<Rightarrow> buffer_head) \<Rightarrow> bool" where
  [simp]: "keeps_links f \<longleftrightarrow>
    (\<forall>b. b_dev (f b) = b_dev b \<and> b_blocknr (f b) = b_blocknr b \<and> b_next (f b) = b_next b \<and> b_prev (f b) = b_prev b
        \<and> b_next_free (f b) = b_next_free b \<and> b_prev_free (f b) = b_prev_free b)"

locale fs_data = invariant_of +
  assumes I_data [simp]: "I s \<Longrightarrow> keeps_links f \<Longrightarrow> I (upd_buf i f s)"
    and I_wait [simp]: "I s \<Longrightarrow> I (s\<lparr>buffer_wait := w\<rparr>)"
    and I_disk [simp]: "I s \<Longrightarrow> I (s\<lparr>disk := d\<rparr>)"
    and I_inode [simp]: "I s \<Longrightarrow> I (s\<lparr>inode_table := inodes\<rparr>)"
    and I_last [simp]: "I s \<Longrightarrow> I (s\<lparr>last_inode := n\<rparr>)"
    and I_mm [simp]: "I s \<Longrightarrow> I (s\<lparr>mm := m\<rparr>)"
    and I_wake [simp]: "I s \<Longrightarrow> I (s\<lparr>sch := snd (Sched.wake_up q (sch s))\<rparr>)"
    and I_super: "I s \<Longrightarrow> (\<And>b. s_dev (g b) = s_dev b \<and> s_imount (g b) = s_imount b \<and> s_isup (g b) = s_isup b)
      \<Longrightarrow> I (upd_super i g s)"
begin

lemma I_upd [simp]:
  "I s \<Longrightarrow> I (upd_inode i g s)" "I s \<Longrightarrow> I (set_zone i z x s)"
  by (simp_all add: upd_inode_def set_zone_def)

lemma fr_lift_mm [fr]: "I s \<Longrightarrow> okK (\<lambda>_. I) (lift_mm f s)"
  using okK_lift_mm by (rule okK_mono) auto

lemma I_unlock_buffer [simp]: "I s \<Longrightarrow> I (unlock_buffer b s)"
  by (simp add: unlock_buffer_def split_beta Let_def)

lemma I_wake_inode [simp]: "I s \<Longrightarrow> I (wake_inode i s)"
  by (simp add: wake_inode_def split_beta Let_def)

lemma I_wake_buffer_wait [simp]:
  assumes "I s"
  shows "I (wake_buffer_wait s)"
proof -
  have "I ((s\<lparr>sch := snd (Sched.wake_up (buffer_wait s) (sch s))\<rparr>)\<lparr>buffer_wait := y\<rparr>)" for y
    by (rule I_wait, rule I_wake, rule assms)
  then show ?thesis
    by (simp add: wake_buffer_wait_def split_beta Let_def)
qed

lemma I_free_super [simp]: "I s \<Longrightarrow> I (free_super b s)"
  unfolding free_super_def split_beta Let_def by (rule I_super) simp_all

lemma I_device_request [simp]: "I s \<Longrightarrow> I (device_request rw bh s)"
  by (auto simp: device_request_def Let_def split: option.splits)

lemma wait_on_buffer_fr [fr]: "I s \<Longrightarrow> okK (\<lambda>_. I) (wait_on_buffer b s)"
  unfolding wait_on_buffer_def by (auto intro!: fr)

lemma ll_rw_block_fr [fr]: "I s \<Longrightarrow> okK (\<lambda>_. I) (ll_rw_block rw b s)"
  unfolding ll_rw_block_def make_request_def Let_def by (auto intro!: fr)

lemma find_in_chain_fr [fr]: "I s \<Longrightarrow> okK (\<lambda>_. I) (find_in_chain k b dev blk s)"
  by (induction k b dev blk s rule: find_in_chain.induct) (auto intro!: fr)

lemma find_buffer_fr [fr]: "I s \<Longrightarrow> okK (\<lambda>_. I) (find_buffer dev blk s)"
  unfolding find_buffer_def by (auto intro!: fr)

lemma get_hash_table_fr [fr]: "I s \<Longrightarrow> okK (\<lambda>_. I) (get_hash_table dev blk s)"
  unfolding get_hash_table_def by (auto intro!: fr split: option.splits)

lemma scan_free_fr [fr]: "I s \<Longrightarrow> okK (\<lambda>_. I) (scan_free k b x s)"
  by (induction k arbitrary: b x) (auto intro!: fr simp: Let_def split: option.splits)

lemma brelse_fr [fr]: "I s \<Longrightarrow> okK (\<lambda>_. I) (brelse b s)"
  unfolding brelse_def by (auto intro!: fr split: option.splits)

lemma clean_buffer_fr [fr]:
  "(\<And>dev s. I s \<Longrightarrow> okK (\<lambda>_. I) (sync dev s)) \<Longrightarrow> I s \<Longrightarrow> okK (\<lambda>_. I) (clean_buffer sync k b s)"
  by (induction k arbitrary: s) (auto intro!: fr)

end

text \<open>An invariant that \<open>getblk\<close> keeps is kept by every routine of the file system below the level of descriptors.\<close>

locale fs_base = fs_data +
  assumes getblk_with_fr [fr]:
    "(\<And>dev s. I s \<Longrightarrow> okK (\<lambda>_. I) (sync dev s)) \<Longrightarrow> I s \<Longrightarrow> okK (\<lambda>_. I) (getblk_with sync k dev blk s)"
begin

lemma bread_with_fr [fr]:
  "(\<And>dev s. I s \<Longrightarrow> okK (\<lambda>_. I) (sync dev s)) \<Longrightarrow> I s \<Longrightarrow> okK (\<lambda>_. I) (bread_with sync dev blk s)"
  unfolding bread_with_def by (auto intro!: fr)

text \<open>Inodes and \<open>sync_dev\<close>.\<close>

lemma wait_on_super_fr [fr]: "I s \<Longrightarrow> okK (\<lambda>_. I) (wait_on_super b s)"
  unfolding wait_on_super_def by (auto intro!: fr)

lemma lock_super_fr [fr]: "I s \<Longrightarrow> okK (\<lambda>_. I) (lock_super b s)"
  unfolding lock_super_def by (auto intro!: fr simp: I_super)

lemma get_super_fr [fr]: "I s \<Longrightarrow> okK (\<lambda>_. I) (get_super dev s)"
  unfolding get_super_def by (auto intro!: fr split: option.splits)

lemma wait_on_inode_fr [fr]: "I s \<Longrightarrow> okK (\<lambda>_. I) (wait_on_inode i s)"
  unfolding wait_on_inode_def by (auto intro!: fr)

lemma lock_inode_fr [fr]: "I s \<Longrightarrow> okK (\<lambda>_. I) (lock_inode i s)"
  unfolding lock_inode_def by (auto intro!: fr)

lemma I_unlock_inode [simp]: "I s \<Longrightarrow> I (unlock_inode i s)"
  by (simp add: unlock_inode_def)

lemma write_inode_with_fr [fr]:
  "(\<And>dev s. I s \<Longrightarrow> okK (\<lambda>_. I) (sync dev s)) \<Longrightarrow> I s \<Longrightarrow> okK (\<lambda>_. I) (write_inode_with sync i s)"
  unfolding write_inode_with_def by (auto intro!: fr simp: Let_def split: option.splits)

lemma sync_inodes_with_fr [fr]:
  "(\<And>dev s. I s \<Longrightarrow> okK (\<lambda>_. I) (sync dev s)) \<Longrightarrow> I s \<Longrightarrow> okK (\<lambda>_. I) (sync_inodes_with sync s)"
  unfolding sync_inodes_with_def by (auto intro!: fr)

lemma sync_buffers_fr [fr]: "I s \<Longrightarrow> okK (\<lambda>_. I) (sync_buffers dev s)"
  unfolding sync_buffers_def by (auto intro!: fr)

lemma sync_dev_n_fr: "I s \<Longrightarrow> okK (\<lambda>_. I) (sync_dev_n n dev s)"
  by (induction n arbitrary: dev s) (auto intro!: fr)

lemma sync_dev_fr [fr]: "I s \<Longrightarrow> okK (\<lambda>_. I) (sync_dev dev s)"
  unfolding sync_dev_def by (rule sync_dev_n_fr)

lemma write_inode_fr [fr]: "I s \<Longrightarrow> okK (\<lambda>_. I) (write_inode i s)"
  unfolding write_inode_def by (auto intro!: fr)

lemma getblk_fr [fr]: "I s \<Longrightarrow> okK (\<lambda>_. I) (getblk dev blk s)"
  unfolding getblk_def by (auto intro!: fr)

lemma bread_fr [fr]: "I s \<Longrightarrow> okK (\<lambda>_. I) (bread dev blk s)"
  unfolding bread_def by (auto intro!: fr)

lemma read_inode_fr [fr]: "I s \<Longrightarrow> okK (\<lambda>_. I) (read_inode i s)"
  unfolding read_inode_def by (auto intro!: fr simp: Let_def split: option.splits)

lemma invalidate_fr [fr]:
  "I s \<Longrightarrow> okK (\<lambda>_. I) (invalidate_buffers dev s)"
  "I s \<Longrightarrow> okK (\<lambda>_. I) (invalidate_inodes dev s)"
  unfolding invalidate_buffers_def invalidate_inodes_def by (auto intro!: fr)

text \<open>Bitmaps and truncation.\<close>

lemma free_block_fr [fr]: "I s \<Longrightarrow> okK (\<lambda>_. I) (free_block dev blk s)"
  unfolding free_block_def by (auto intro!: fr simp: Let_def split: option.splits prod.splits)

lemma new_block_fr [fr]: "I s \<Longrightarrow> okK (\<lambda>_. I) (new_block dev s)"
  unfolding new_block_def by (auto intro!: fr simp: Let_def split: option.splits prod.splits)

lemma free_inode_fr [fr]: "I s \<Longrightarrow> okK (\<lambda>_. I) (free_inode i s)"
  unfolding free_inode_def by (auto intro!: fr simp: Let_def split: option.splits)

lemma free_each_fr [fr]:
  "(\<And>z s. I s \<Longrightarrow> okK (\<lambda>_. I) (free z s)) \<Longrightarrow> I s \<Longrightarrow> okK (\<lambda>_. I) (free_each free b s)"
  unfolding free_each_def by (auto intro!: fr simp: Let_def)

lemma free_ind_fr [fr]: "I s \<Longrightarrow> okK (\<lambda>_. I) (free_ind dev blk s)"
  unfolding free_ind_def by (auto intro!: fr split: option.splits)

lemma free_dind_fr [fr]: "I s \<Longrightarrow> okK (\<lambda>_. I) (free_dind dev blk s)"
  unfolding free_dind_def by (auto intro!: fr split: option.splits)

lemma truncate_fr [fr]: "I s \<Longrightarrow> okK (\<lambda>_. I) (truncate i s)"
  unfolding truncate_def by (auto intro!: fr)

text \<open>The table of inodes.\<close>

lemma indirect_entry_fr [fr]: "I s \<Longrightarrow> okK (\<lambda>_. I) (indirect_entry dev c b k s)"
  unfolding indirect_entry_def by (auto intro!: fr simp: Let_def)

lemma zone_entry_fr [fr]: "I s \<Longrightarrow> okK (\<lambda>_. I) (zone_entry i c z s)"
  unfolding zone_entry_def by (auto intro!: fr simp: Let_def)

lemma bmap_with_fr [fr]: "I s \<Longrightarrow> okK (\<lambda>_. I) (bmap_with c i b s)"
  unfolding bmap_with_def Let_def by (auto intro!: fr split: option.splits)

lemma bmap_fr [fr]:
  "I s \<Longrightarrow> okK (\<lambda>_. I) (bmap i b s)" "I s \<Longrightarrow> okK (\<lambda>_. I) (create_block i b s)"
  unfolding bmap_def create_block_def by (auto intro!: fr)

lemma iput_loop_fr [fr]: "I s \<Longrightarrow> okK (\<lambda>_. I) (iput_loop k i s)"
  by (induction k arbitrary: s) (auto intro!: fr simp: Let_def)

lemma iput_fr [fr]: "I s \<Longrightarrow> okK (\<lambda>_. I) (iput i s)"
  unfolding iput_def by (auto intro!: fr simp: Let_def split: option.splits)

lemma I_scan_inodes: "I s \<Longrightarrow> I (snd (scan_inodes k i s))"
  by (induction k arbitrary: i s) (simp_all add: Let_def)

lemma clean_inode_fr [fr]: "I s \<Longrightarrow> okK (\<lambda>_. I) (clean_inode k i s)"
  by (induction k arbitrary: s) (auto intro!: fr)

lemma get_empty_loop_fr: "I s \<Longrightarrow> okK (\<lambda>_. I) (get_empty_loop k s)"
proof (induction k arbitrary: s)
  case (Suc k)
  obtain r t where sc: "scan_inodes NR_INODE None s = (r, t)"
    by fastforce
  then have "I t"
    using I_scan_inodes [of s NR_INODE None] Suc.prems by simp
  then show ?case
    using sc Suc.IH by (auto intro!: fr split: option.splits)
qed (auto intro!: fr)

lemma get_empty_inode_fr [fr]: "I s \<Longrightarrow> okK (\<lambda>_. I) (get_empty_inode s)"
  unfolding get_empty_inode_def by (rule get_empty_loop_fr)

lemma get_pipe_inode_fr [fr]: "I s \<Longrightarrow> okK (\<lambda>_. I) (get_pipe_inode s)"
  unfolding get_pipe_inode_def by (auto intro!: fr simp: Let_def split: prod.splits)

lemma iget_loop_fr [fr]: "I s \<Longrightarrow> okK (\<lambda>_. I) (iget_loop k dev nr spare s)"
  by (induction k arbitrary: dev nr s) (auto intro!: fr simp: Let_def split: option.splits)

lemma iget_fr [fr]: "I s \<Longrightarrow> okK (\<lambda>_. I) (iget dev nr s)"
  unfolding iget_def by (auto intro!: fr)

lemma new_inode_fr [fr]: "I s \<Longrightarrow> okK (\<lambda>_. I) (new_inode dev s)"
  unfolding new_inode_def by (auto intro!: fr simp: Let_def split: option.splits prod.splits)

text \<open>Names.\<close>

lemma find_loop_fr [fr]: "I s \<Longrightarrow> okK (\<lambda>_. I) (find_loop k n i bh de dir name len s)"
  by (induction k arbitrary: i bh de s) (auto intro!: fr simp: Let_def split: option.split)

lemma find_entry_fr [fr]: "I s \<Longrightarrow> okK (\<lambda>_. I) (find_entry dir name len s)"
  unfolding find_entry_def by (auto intro!: fr simp: Let_def split: option.split)

lemma add_loop_fr [fr]: "I s \<Longrightarrow> okK (\<lambda>_. I) (add_loop i bh de dir name len s)"
proof (induction "MAX_ENTRIES - i" arbitrary: i bh de s rule: less_induct)
  case less
  have IH: "I t \<Longrightarrow> i < j \<Longrightarrow> i < MAX_ENTRIES \<Longrightarrow> okK (\<lambda>_. I) (add_loop j bh de dir name len t)" for j bh de t
    using less.hyps by simp
  show ?case
    unfolding add_loop.simps [of i] Let_def using less.prems IH
    by (auto intro!: fr simp: DIR_ENTRIES_PER_BLOCK_def simp del: add_loop.simps split: option.split)
qed

lemma add_entry_fr [fr]: "I s \<Longrightarrow> okK (\<lambda>_. I) (add_entry dir name len s)"
  unfolding add_entry_def by (auto intro!: fr simp: Let_def simp del: add_loop.simps split: option.split)

lemma get_dir_loop_fr [fr]: "I s \<Longrightarrow> okK (\<lambda>_. I) (get_dir_loop k path i s)"
  by (induction k arbitrary: path i s) (auto intro!: fr simp: Let_def split: option.split prod.split)

lemma get_dir_fr [fr]: "I s \<Longrightarrow> okK (\<lambda>_. I) (get_dir path s)"
  unfolding get_dir_def by (auto intro!: fr simp: Let_def split: option.split)

lemma dir_namei_fr [fr]: "I s \<Longrightarrow> okK (\<lambda>_. I) (dir_namei path s)"
  unfolding dir_namei_def by (auto intro!: fr split: option.split)

lemma namei_fr [fr]: "I s \<Longrightarrow> okK (\<lambda>_. I) (namei path s)"
  unfolding namei_def by (auto intro!: fr simp: Let_def split: option.split)

lemma open_namei_fr [fr]: "I s \<Longrightarrow> okK (\<lambda>_. I) (open_namei path flag mode s)"
  unfolding open_namei_def put_entry_def by (auto intro!: fr simp: Let_def split: option.split prod.split)

end

text \<open>An invariant that the buffers have no part in at all.\<close>

locale fs_invariant = invariant_of +
  assumes free_buf [simp]: "I s \<Longrightarrow> I (s\<lparr>buf := b\<rparr>)"
    and free_hash [simp]: "I s \<Longrightarrow> I (s\<lparr>hash_table := h\<rparr>)"
    and free_ring [simp]: "I s \<Longrightarrow> I (s\<lparr>free_list := n\<rparr>)"
    and free_wait [simp]: "I s \<Longrightarrow> I (s\<lparr>buffer_wait := w\<rparr>)"
    and free_null [simp]: "I s \<Longrightarrow> I (s\<lparr>null_b_prev := w\<rparr>)"
    and free_disk [simp]: "I s \<Longrightarrow> I (s\<lparr>disk := d\<rparr>)"
    and free_inodes [simp]: "I s \<Longrightarrow> I (s\<lparr>inode_table := inodes\<rparr>)"
    and free_last [simp]: "I s \<Longrightarrow> I (s\<lparr>last_inode := n\<rparr>)"
    and free_mm [simp]: "I s \<Longrightarrow> I (s\<lparr>mm := m\<rparr>)"
    and free_wake [simp]: "I s \<Longrightarrow> I (s\<lparr>sch := snd (Sched.wake_up q (sch s))\<rparr>)"
    and free_supers: "I s \<Longrightarrow> (\<And>b. s_dev (f b) = s_dev b \<and> s_imount (f b) = s_imount b \<and> s_isup (f b) = s_isup b)
      \<Longrightarrow> I (upd_super i f s)"

sublocale fs_invariant \<subseteq> fs_data
  by unfold_locales (auto simp: upd_buf_def intro: free_supers)

context fs_invariant
begin

lemma free_upd [simp]: "I s \<Longrightarrow> I (upd_buf b f s)" "I s \<Longrightarrow> I (set_hash h w s)"
  by (simp_all add: upd_buf_def set_hash_def)

lemma remove_from_queues_fr [fr]: "I s \<Longrightarrow> okK (\<lambda>_. I) (remove_from_queues b s)"
  unfolding remove_from_queues_def
  by (intro fr_let fr_let_value [where 'b = nat]; auto intro!: fr simp: Let_def split: option.splits)

lemma insert_into_queues_fr [fr]: "I s \<Longrightarrow> okK (\<lambda>_. I) (insert_into_queues b s)"
  unfolding insert_into_queues_def Let_def by (auto intro!: fr split: option.splits)

lemma take_buffer_fr [fr]: "I s \<Longrightarrow> okK (\<lambda>_. I) (take_buffer dev blk b s)"
  unfolding take_buffer_def by (auto intro!: fr)

lemma getblk_free:
  "(\<And>dev s. I s \<Longrightarrow> okK (\<lambda>_. I) (sync dev s)) \<Longrightarrow> I s \<Longrightarrow> okK (\<lambda>_. I) (getblk_with sync k dev blk s)"
  by (induction k arbitrary: s) (auto intro!: fr simp del: scan_free.simps split: option.splits)

end

sublocale fs_invariant \<subseteq> fs_base
  by unfold_locales (rule getblk_free)

end
