(* ===== verification/Fd_Count.thy ===== *)
theory Fd_Count
  imports Frame Files Process Exec
begin

text \<open>
  The counts of \<open>file_table\<close>. An open file counts the descriptors of all the processes that refer to it; the
  system calls that make and drop descriptors keep the counts, and with them a file is in use exactly as long as
  a descriptor refers to it.
\<close>

section \<open>Counts and references\<close>

text \<open>\<open>c f\<close> is the count of the file \<open>f\<close>, \<open>r i fd\<close> the file that the descriptor \<open>fd\<close> of the task \<open>i\<close> refers to.\<close>

definition refs :: "(nat \<Rightarrow> nat \<Rightarrow> nat option) \<Rightarrow> nat \<Rightarrow> (nat \<times> nat) set" where
  "refs r f = {(i, fd). i < NR_TASKS \<and> fd < NR_OPEN \<and> r i fd = Some f}"

definition refs_ok :: "(nat \<Rightarrow> nat) \<Rightarrow> (nat \<Rightarrow> nat \<Rightarrow> nat option) \<Rightarrow> bool" where
  "refs_ok c r \<longleftrightarrow>
    (\<forall>f < NR_FILE. c f = card (refs r f)) \<and> (\<forall>i < NR_TASKS. \<forall>fd < NR_OPEN. \<forall>f. r i fd = Some f \<longrightarrow> f < NR_FILE)"

lemma refs_subset: "refs r f \<subseteq> {..<NR_TASKS} \<times> {..<NR_OPEN}"
  by (auto simp: refs_def)

lemma finite_refs [simp]: "finite (refs r f)"
  by (rule finite_subset [OF refs_subset]) simp

lemma refs_bound: "refs_ok c r \<Longrightarrow> f < NR_FILE \<Longrightarrow> c f \<le> 1280"
  using card_mono [OF _ refs_subset, of r f] by (simp add: refs_ok_def card_cartesian_product NR_TASKS_def NR_OPEN_def)

lemma refs_upd:
  assumes "i < NR_TASKS" "fd < NR_OPEN"
  shows "refs (r(i := (r i)(fd := v))) f = (if v = Some f then insert (i, fd) (refs r f) else refs r f - {(i, fd)})"
  using assms by (auto simp: refs_def split: if_splits)

lemma refs_ok_open:
  assumes "refs_ok c r" "r i fd = None" "i < NR_TASKS" "fd < NR_OPEN" "f < NR_FILE"
  shows "refs_ok (c(f := c f + 1)) (r(i := (r i)(fd := Some f)))"
proof -
  have "(i, fd) \<notin> refs r g" for g
    using assms(2) by (simp add: refs_def)
  then show ?thesis
    using assms by (auto simp: refs_ok_def refs_upd)
qed

lemma refs_ok_close:
  assumes "refs_ok c r" "r i fd = Some f" "i < NR_TASKS" "fd < NR_OPEN"
  shows "refs_ok (c(f := c f - 1)) (r(i := (r i)(fd := None)))" "0 < c f" "f < NR_FILE"
proof -
  show f: "f < NR_FILE"
    using assms by (auto simp: refs_ok_def)
  have m: "(i, fd) \<in> refs r g \<longleftrightarrow> g = f" for g
    using assms by (auto simp: refs_def)
  then have "refs r f \<noteq> {}"
    by blast
  then show "0 < c f"
    using assms(1) f by (simp add: refs_ok_def card_gt_0_iff)
  show "refs_ok (c(f := c f - 1)) (r(i := (r i)(fd := None)))"
    using assms m by (auto simp: refs_ok_def refs_upd)
qed

lemma refs_ok_cong:
  assumes "refs_ok c r" "\<And>f. f < NR_FILE \<Longrightarrow> c' f = c f" "\<And>i fd. i < NR_TASKS \<Longrightarrow> fd < NR_OPEN \<Longrightarrow> r' i fd = r i fd"
  shows "refs_ok c' r'"
proof -
  have "refs r' f = refs r f" for f
    using assms(3) by (auto simp: refs_def)
  then show ?thesis
    using assms by (simp add: refs_ok_def)
qed

text \<open>A child with the descriptors of its parent.\<close>

lemma refs_ok_fork:
  assumes "refs_ok c r" "p < NR_TASKS" "nr < NR_TASKS" "p \<noteq> nr" "\<And>fd. fd < NR_OPEN \<Longrightarrow> r nr fd = None" "n \<le> NR_OPEN"
  shows "refs_ok (\<lambda>f. c f + card {fd. fd < n \<and> r p fd = Some f}) (r(nr := (\<lambda>fd. if fd < n then r p fd else None)))"
  using assms(6)
proof (induction n)
  case 0
  show ?case
    by (rule refs_ok_cong [OF assms(1)]) (use assms(5) in auto)
next
  case (Suc n)
  let ?c = "\<lambda>n f. c f + card {fd. fd < n \<and> r p fd = Some f}" and ?r = "\<lambda>n. r(nr := (\<lambda>fd. if fd < n then r p fd else None))"
  have IH: "refs_ok (?c n) (?r n)"
    by (rule Suc.IH) (use Suc.prems in simp)
  have next_r: "?r (Suc n) = (?r n)(nr := (?r n nr)(n := r p n))"
    by (auto simp: fun_eq_iff less_Suc_eq)
  have next_c: "?c (Suc n) f = ?c n f + (if r p n = Some f then 1 else 0)" for f
  proof -
    have "{fd. fd < Suc n \<and> r p fd = Some f} = (if r p n = Some f then insert n {fd. fd < n \<and> r p fd = Some f} else {fd. fd < n \<and> r p fd = Some f})"
      by (auto simp: less_Suc_eq)
    then show ?thesis
      by simp
  qed
  show ?case
  proof (cases "r p n")
    case None
    then have "?c (Suc n) = ?c n"
      using next_c by (intro ext) simp
    moreover have "?r (Suc n) = ?r n"
      using None by (auto simp: fun_eq_iff less_Suc_eq)
    ultimately show ?thesis
      using IH by (simp only:)
  next
    case (Some f)
    have "n < NR_OPEN"
      using Suc.prems by simp
    then have "f < NR_FILE"
      using Some assms(1,2) by (auto simp: refs_ok_def)
    then have "refs_ok ((?c n)(f := ?c n f + 1)) ((?r n)(nr := (?r n nr)(n := Some f)))"
      using Suc.prems assms(3) by (intro refs_ok_open [OF IH]) auto
    then show ?thesis
      unfolding next_r by (rule refs_ok_cong) (use Some in \<open>auto simp: next_c\<close>)
  qed
qed

section \<open>The counts of the kernel\<close>

definition filp_at :: "kstate \<Rightarrow> nat \<Rightarrow> nat \<Rightarrow> nat option" where
  "filp_at s i fd = (case task (sch s) i of None \<Rightarrow> None | Some p \<Rightarrow> t_filp p fd)"

definition file_count :: "kstate \<Rightarrow> nat \<Rightarrow> nat" where
  "file_count s f = unat (f_count (file_table s f))"

text \<open>A zombie has no descriptors; the current process is not a zombie.\<close>

definition zombies_closed :: "kstate \<Rightarrow> bool" where
  "zombies_closed s \<longleftrightarrow>
    (\<forall>i p. task (sch s) i = Some p \<longrightarrow> t_state p = TASK_ZOMBIE \<longrightarrow> (\<forall>fd < NR_OPEN. t_filp p fd = None))"

definition files_counted :: "kstate \<Rightarrow> bool" where
  "files_counted s \<longleftrightarrow> refs_ok (file_count s) (filp_at s) \<and> zombies_closed s"

definition running :: "kstate \<Rightarrow> bool" where
  "running s \<longleftrightarrow>
    current (sch s) < NR_TASKS \<and> (\<exists>p. task (sch s) (current (sch s)) = Some p \<and> t_state p \<noteq> TASK_ZOMBIE)"

definition files_ok :: "kstate \<Rightarrow> bool" where
  "files_ok s \<longleftrightarrow> files_counted s \<and> running s"

text \<open>A state with the same counts and the same descriptors, in which a task may have been woken.\<close>

definition same_task :: "task_struct \<Rightarrow> task_struct \<Rightarrow> bool" where
  "same_task p q \<longleftrightarrow> t_filp q = t_filp p \<and> (t_state q = TASK_ZOMBIE \<longrightarrow> t_state p = TASK_ZOMBIE)"

definition same_files :: "kstate \<Rightarrow> kstate \<Rightarrow> bool" where
  "same_files s t \<longleftrightarrow>
    file_count t = file_count s \<and> current (sch t) = current (sch s)
    \<and> (\<forall>i. rel_option same_task (task (sch s) i) (task (sch t) i))"

lemma same_task_refl [simp]: "same_task p p"
  by (simp add: same_task_def)

lemma same_tasks_refl [simp]: "rel_option same_task x x"
  by (cases x) auto

lemma same_files_refl [simp]: "same_files s s"
  by (simp add: same_files_def)

lemma same_files_trans: "same_files s t \<Longrightarrow> same_files t u \<Longrightarrow> same_files s u"
  unfolding same_files_def by (auto simp: option_rel_Some1 option_rel_Some2 rel_option_iff same_task_def split: option.splits)
     (metis (no_types, lifting) option.exhaust option.inject option.simps(3))+

lemma same_files_task:
  assumes "same_files s t" "task (sch t) i = Some q"
  shows "\<exists>p. task (sch s) i = Some p \<and> same_task p q"
  using assms unfolding same_files_def by (metis option_rel_Some2)

lemma same_files_filp:
  assumes "same_files s t"
  shows "filp_at t = filp_at s"
proof (intro ext)
  fix i fd
  have "rel_option same_task (task (sch s) i) (task (sch t) i)"
    using assms by (simp add: same_files_def)
  then show "filp_at t i fd = filp_at s i fd"
    by cases (auto simp: filp_at_def same_task_def)
qed

lemma files_counted_same:
  assumes "same_files s t" "files_counted s"
  shows "files_counted t"
proof -
  have "zombies_closed t"
    unfolding zombies_closed_def
  proof (intro allI impI)
    fix i q fd
    assume *: "task (sch t) i = Some q" "t_state q = TASK_ZOMBIE" "fd < NR_OPEN"
    then show "t_filp q fd = None"
      using same_files_task [OF assms(1) *(1)] assms(2) by (auto simp: same_task_def files_counted_def zombies_closed_def)
  qed
  then show ?thesis
    using assms same_files_filp [OF assms(1)] by (simp add: files_counted_def same_files_def)
qed

lemma files_ok_same:
  assumes "same_files s t" "files_ok s"
  shows "files_ok t"
proof -
  have "rel_option same_task (task (sch s) (current (sch s))) (task (sch t) (current (sch s)))"
    using assms(1) by (simp add: same_files_def)
  then have "running t"
    using assms by cases (auto simp: same_files_def files_ok_def running_def same_task_def)
  then show ?thesis
    using assms files_counted_same by (simp add: files_ok_def)
qed

text \<open>What the file system below does, it does with the same files.\<close>

lemma same_files_wake: "same_files s (s\<lparr>sch := snd (Sched.wake_up q (sch s))\<rparr>)"
  by (auto simp: same_files_def file_count_def fun_eq_iff Sched.wake_up_def upd_task_def same_task_def TASK_ZOMBIE_def
      rel_option_iff split: option.splits)

interpretation files: fs_invariant "same_files s0" for s0
proof
  show "same_files s0 s \<Longrightarrow> same_files s0 (s\<lparr>sch := snd (Sched.wake_up q (sch s))\<rparr>)" for s q
    using same_files_trans same_files_wake by blast
qed (simp_all add: same_files_def file_count_def fun_eq_iff upd_super_def)

text \<open>What does not touch descriptors.\<close>

lemma same_files_upd_me:
  "same_files s0 s \<Longrightarrow> (\<And>p. t_filp (g p) = t_filp p \<and> (t_state (g p) = TASK_ZOMBIE \<longrightarrow> t_state p = TASK_ZOMBIE))
    \<Longrightarrow> same_files s0 (upd_me g s)"
  by (erule same_files_trans)
    (auto simp: same_files_def file_count_def fun_eq_iff upd_me_def upd_cur_def upd_task_def same_task_def rel_option_iff
      split: option.splits)

lemma same_files_upd_file:
  "same_files s0 s \<Longrightarrow> f_count (g (file_table s f)) = f_count (file_table s f) \<Longrightarrow> same_files s0 (upd_file f g s)"
  by (erule same_files_trans) (auto simp: same_files_def file_count_def fun_eq_iff upd_file_def)

lemma same_files_other [simp]:
  "same_files s0 s \<Longrightarrow> same_files s0 (s\<lparr>umem := m\<rparr>)"
  "same_files s0 s \<Longrightarrow> same_files s0 (upd_tty d h s)"
  "same_files s0 s \<Longrightarrow> same_files s0 (upd_super i k s)"
  by (simp_all add: same_files_def file_count_def fun_eq_iff upd_tty_def upd_super_def)

lemma file_table_upd_me [simp]: "file_table (upd_me g s) = file_table s"
  by (simp add: upd_me_def)

lemma files_ok_cloexec: "files_ok s \<Longrightarrow> files_ok (upd_me (\<lambda>p. p\<lparr>t_close_on_exec := h p\<rparr>) s)"
  by (rule files_ok_same [OF same_files_upd_me]) auto

lemma put_super_files: "same_files s0 s \<Longrightarrow> okK (\<lambda>_. same_files s0) (put_super dev s)"
  unfolding put_super_def by (auto intro!: fr simp: Let_def split: option.split)

lemma check_disk_change_files: "same_files s0 s \<Longrightarrow> okK (\<lambda>_. same_files s0) (check_disk_change dev s)"
  unfolding check_disk_change_def by (auto intro!: fr put_super_files)

text \<open>Descriptors that are made and dropped.\<close>

lemma running_upd:
  assumes "running s"
  shows "task (sch (upd_me g s)) (current (sch s)) = Some (g (me s))" "t_filp (me s) = filp_at s (current (sch s))"
  using assms by (auto simp: running_def me_def cur_def the_task_def filp_at_def fun_eq_iff)

lemma filp_at_set_filp:
  assumes "running s"
  shows "filp_at (set_filp fd v s) = (filp_at s)(current (sch s) := (filp_at s (current (sch s)))(fd := v))"
  using assms by (auto simp: fun_eq_iff filp_at_def set_filp_def running_def)

lemma file_count_upd [simp]:
  "file_count (set_filp fd v s) = file_count s" "filp_at (upd_file f g s) = filp_at s"
  "file_count (upd_file f g s) = (file_count s)(f := unat (f_count (g (file_table s f))))"
  by (auto simp: fun_eq_iff file_count_def set_filp_def upd_me_def upd_file_def filp_at_def)

lemma running_set [simp]: "running (upd_file f g s) = running s" "running (set_filp fd v s) = running s"
  by (auto simp: running_def upd_file_def set_filp_def)

lemma zombies_set:
  assumes "zombies_closed s" "running s"
  shows "zombies_closed (upd_file f g (set_filp fd v s))"
  using assms by (auto simp: zombies_closed_def running_def upd_file_def set_filp_def)

lemma files_ok_open:
  assumes "files_ok s" "filp_at s (current (sch s)) fd = None" "fd < NR_OPEN" "f < NR_FILE"
    and "f_count (g (file_table s f)) = f_count (file_table s f) + 1"
  shows "files_ok (upd_file f g (set_filp fd (Some f) s))"
proof -
  have run: "running s" and ok: "refs_ok (file_count s) (filp_at s)" and z: "zombies_closed s"
    using assms(1) by (auto simp: files_ok_def files_counted_def)
  have "file_count s f \<le> 1280"
    using refs_bound [OF ok assms(4)] .
  then have "unat (f_count (file_table s f) + 1) = file_count s f + 1"
    by (simp add: file_count_def unat_word_ariths)
  moreover have "refs_ok ((file_count s)(f := file_count s f + 1)) ((filp_at s)(current (sch s) := (filp_at s (current (sch s)))(fd := Some f)))"
    using assms run by (intro refs_ok_open [OF ok]) (auto simp: running_def)
  moreover have "file_table (set_filp fd (Some f) s) = file_table s"
    by (simp add: set_filp_def upd_me_def)
  ultimately show ?thesis
    using run zombies_set [OF z run] assms(5) by (simp add: files_ok_def files_counted_def filp_at_set_filp [OF run])
qed

lemma files_ok_close:
  assumes "files_ok s" "filp_at s (current (sch s)) fd = Some f" "fd < NR_OPEN"
    and "f_count (g (file_table s f)) = f_count (file_table s f) - 1"
  shows "files_ok (upd_file f g (set_filp fd None s))" "f_count (file_table s f) \<noteq> 0"
proof -
  have run: "running s" and ok: "refs_ok (file_count s) (filp_at s)" and z: "zombies_closed s"
    using assms(1) by (auto simp: files_ok_def files_counted_def)
  have i: "current (sch s) < NR_TASKS"
    using run by (simp add: running_def)
  note cl = refs_ok_close [OF ok assms(2) i assms(3)]
  then show nz: "f_count (file_table s f) \<noteq> 0"
    by (auto simp: file_count_def)
  then have "unat (f_count (file_table s f) - 1) = file_count s f - 1"
    by (simp add: file_count_def unat_minus_one)
  moreover have "file_table (set_filp fd None s) = file_table s"
    by (simp add: set_filp_def upd_me_def)
  ultimately show "files_ok (upd_file f g (set_filp fd None s))"
    using run zombies_set [OF z run] assms(4) cl(1) by (simp add: files_ok_def files_counted_def filp_at_set_filp [OF run])
qed

section \<open>open, close and dup\<close>

lemma files_okK_same: "files_ok s \<Longrightarrow> okK (\<lambda>_. same_files s) m \<Longrightarrow> okK (\<lambda>_. files_ok) m"
  by (erule okK_mono) (rule files_ok_same)

lemma same_files_count: "same_files s t \<Longrightarrow> f_count (file_table t f) = f_count (file_table s f)"
  by (simp add: same_files_def file_count_def fun_eq_iff word_unat_eq_iff)

lemma open_tty_files: "open_tty inode s = Some t \<Longrightarrow> same_files s t"
  by (auto simp: open_tty_def Let_def split: if_splits intro!: same_files_upd_me same_files_other)

text \<open>After \<open>sys_close\<close> the descriptor is free, and the others are what they were.\<close>

lemma sys_close_result:
  assumes "files_ok s" "unat fd < NR_OPEN"
  shows "okK (\<lambda>_ t. files_ok t \<and> current (sch t) = current (sch s)
      \<and> filp_at t = (filp_at s)(current (sch s) := (filp_at s (current (sch s)))(unat fd := None))) (sys_close fd s)"
    (is "okK ?Q _")
proof -
  let ?s = "upd_me (\<lambda>p. p\<lparr>t_close_on_exec := t_close_on_exec p AND NOT (fd_bit (unat fd))\<rparr>) s"
  have same: "same_files s ?s"
    by (rule same_files_upd_me) auto
  have ok: "files_ok ?s"
    by (rule files_ok_cloexec [OF assms(1)])
  then have run: "running ?s"
    by (simp add: files_ok_def)
  have filp: "filp_at ?s = filp_at s" "current (sch ?s) = current (sch s)"
    using same_files_filp [OF same] by simp_all
  show ?thesis
  proof (cases "t_filp (me ?s) (unat fd)")
    case None
    then have "filp_at s (current (sch s)) (unat fd) = None"
      using running_upd(2) [OF run] filp by simp
    then have "?Q r ?s" for r
      using ok filp by (auto simp: fun_eq_iff)
    then show ?thesis
      using assms(2) None by (auto simp: sys_close_def Let_def kwp)
  next
    case (Some f)
    let ?t = "upd_file f (\<lambda>x. x\<lparr>f_count := f_count x - 1\<rparr>) (set_filp (unat fd) None ?s)"
    have at: "filp_at ?s (current (sch ?s)) (unat fd) = Some f"
      using Some running_upd(2) [OF run] by simp
    note cl = files_ok_close [OF ok at assms(2), of "\<lambda>x. x\<lparr>f_count := f_count x - 1\<rparr>", simplified]
    have here: "?Q r ?t" for r
      using cl(1) filp run by (simp add: filp_at_set_filp) (simp add: upd_file_def set_filp_def)
    have later: "?Q r u" if "same_files ?t u" for r u
      using here files_ok_same [OF that] same_files_filp [OF that] that by (simp add: same_files_def)
    have "okK (\<lambda>_. same_files ?t) (leave [iput i] 0 ?t)" for i
      by (auto intro!: fr)
    then have "okK ?Q (leave [iput i] 0 ?t)" for i
      by (rule okK_mono) (rule later)
    then show ?thesis
      using assms(2) Some here by (auto simp: sys_close_def Let_def kwp)
  qed
qed

lemma sys_close_files:
  assumes "files_ok s"
  shows "okK (\<lambda>_. files_ok) (sys_close fd s)"
proof (cases "unat fd < NR_OPEN")
  case True
  show ?thesis
    by (rule okK_mono [OF sys_close_result [OF assms True]]) simp
next
  case False
  then show ?thesis
    using assms by (simp add: sys_close_def kwp)
qed

lemma dupfd_files:
  assumes "files_ok s"
  shows "okK (\<lambda>_. files_ok) (dupfd fd arg s)"
proof -
  have run: "running s"
    using assms by (simp add: files_ok_def)
  have *: "files_ok (upd_file f (\<lambda>x. x\<lparr>f_count := f_count x + 1\<rparr>) (set_filp i (Some f)
      (upd_me (\<lambda>p. p\<lparr>t_close_on_exec := t_close_on_exec p AND NOT (fd_bit i)\<rparr>) s)))"
    if "t_filp (me s) (unat fd) = Some f" "unat fd < NR_OPEN" "t_filp (me s) i = None" "i < NR_OPEN" for f i
  proof -
    let ?s = "upd_me (\<lambda>p. p\<lparr>t_close_on_exec := t_close_on_exec p AND NOT (fd_bit i)\<rparr>) s"
    have same: "same_files s ?s"
      by (rule same_files_upd_me) auto
    have at: "filp_at ?s = filp_at s" "current (sch ?s) = current (sch s)"
      using same_files_filp [OF same] by simp_all
    have "f < NR_FILE"
      using assms that(1,2) run running_upd(2) [OF run]
      by (auto simp: files_ok_def files_counted_def refs_ok_def running_def)
    then show ?thesis
      using that at running_upd(2) [OF run] by (intro files_ok_open files_ok_same [OF same assms]) auto
  qed
  show ?thesis
    unfolding dupfd_def using assms *
    by (auto simp: kwp Let_def find_Some_iff split: option.split)
qed

text \<open>The end of \<open>sys_open\<close>: the descriptor and the file have been taken, and something with the same files
  has happened since.\<close>

lemma sys_open_end:
  assumes "files_ok s" "same_files s t" "filp_at s (current (sch s)) fd = Some f" "f_count (file_table s f) = 1" "fd < NR_OPEN"
  shows "files_ok (upd_file f (\<lambda>x. x\<lparr>f_count := 0\<rparr>) (set_filp fd None t))"
    and "files_ok (upd_file f (\<lambda>_. \<lparr>f_mode = m, f_flags = fl, f_count = 1, f_inode = i, f_pos = p\<rparr>) t)"
proof -
  have t: "files_ok t" "filp_at t (current (sch t)) fd = Some f" "f_count (file_table t f) = 1"
    using assms files_ok_same [OF assms(2)] same_files_filp [OF assms(2)] same_files_count [OF assms(2)]
    by (simp_all add: same_files_def)
  then show "files_ok (upd_file f (\<lambda>x. x\<lparr>f_count := 0\<rparr>) (set_filp fd None t))"
    by (intro files_ok_close(1) assms(5)) auto
  have "same_files t (upd_file f (\<lambda>_. \<lparr>f_mode = m, f_flags = fl, f_count = 1, f_inode = i, f_pos = p\<rparr>) t)"
    by (rule same_files_upd_file) (use t in auto)
  then show "files_ok (upd_file f (\<lambda>_. \<lparr>f_mode = m, f_flags = fl, f_count = 1, f_inode = i, f_pos = p\<rparr>) t)"
    using t(1) files_ok_same by blast
qed

text \<open>The part of \<open>sys_open\<close> behind \<open>open_namei\<close>.\<close>

definition open_result :: "nat \<Rightarrow> nat \<Rightarrow> u32 \<Rightarrow> int + nat \<Rightarrow> int kop" where
  "open_result fd f flag r s =
    (case r of
       Inl e \<Rightarrow> ret e (upd_file f (\<lambda>x. x\<lparr>f_count := 0\<rparr>) (set_filp fd None s))
     | Inr inode \<Rightarrow>
         (case open_tty inode s of
            None \<Rightarrow>
              bindK (iput (Some inode) s) (\<lambda>_ s.
              ret (- EPERM) (upd_file f (\<lambda>x. x\<lparr>f_count := 0\<rparr>) (set_filp fd None s)))
          | Some s \<Rightarrow>
              bindK (if S_ISBLK (i_mode (inode_table s inode))
                     then check_disk_change (i_zone (inode_table s inode) 0) s else ret () s) (\<lambda>_ s.
              ret (int fd)
                (upd_file f (\<lambda>_. \<lparr>f_mode = i_mode (inode_table s inode), f_flags = ucast flag,
                   f_count = 1, f_inode = Some inode, f_pos = 0\<rparr>) s))))"

lemma open_result_files:
  assumes "files_ok u" "same_files u t" "filp_at u (current (sch u)) fd = Some f" "f_count (file_table u f) = 1" "fd < NR_OPEN"
  shows "okK (\<lambda>_. files_ok) (open_result fd f flag r t)"
proof (cases r)
  case (Inl e)
  then show ?thesis
    using sys_open_end(1) [OF assms(1,2,3,4,5)] by (simp add: open_result_def kwp)
next
  case (Inr inode)
  show ?thesis
  proof (cases "open_tty inode t")
    case None
    have "okK (\<lambda>_. same_files u) (iput (Some inode) t)"
      using assms(2) by (auto intro!: fr)
    then show ?thesis
      using Inr None sys_open_end(1) [OF assms(1) _ assms(3,4,5)] by (auto simp: open_result_def kwp elim!: okK_mono)
  next
    case (Some t')
    then have "same_files u t'"
      using assms(2) open_tty_files same_files_trans by blast
    then have "okK (\<lambda>_. same_files u) (if S_ISBLK (i_mode (inode_table t' inode))
        then check_disk_change (i_zone (inode_table t' inode) 0) t' else ret () t')"
      by (auto intro!: fr check_disk_change_files)
    then show ?thesis
      unfolding open_result_def Inr sum.case Some option.case okK_bindK okK_ret
      using sys_open_end(2) [OF assms(1) _ assms(3,4,5)] by (elim okK_mono) blast
  qed
qed

lemma sys_open_files:
  assumes "files_ok s"
  shows "okK (\<lambda>_. files_ok) (sys_open filename flag mode s)"
proof -
  have run: "running s"
    using assms by (simp add: files_ok_def)
  have taken: "okK (\<lambda>_. files_ok)
      (bindK (open_namei filename flag mode'
         (upd_file f (\<lambda>x. x\<lparr>f_count := f_count x + 1\<rparr>) (set_filp fd (Some f)
             (upd_me (\<lambda>p. p\<lparr>t_close_on_exec := t_close_on_exec p AND NOT (fd_bit fd)\<rparr>) s)))) (open_result fd f flag))"
    if "t_filp (me s) fd = None" "fd < NR_OPEN" "f_count (file_table s f) = 0" "f < NR_FILE" for fd f mode'
  proof -
    let ?s = "upd_me (\<lambda>p. p\<lparr>t_close_on_exec := t_close_on_exec p AND NOT (fd_bit fd)\<rparr>) s"
    let ?u = "upd_file f (\<lambda>x. x\<lparr>f_count := f_count x + 1\<rparr>) (set_filp fd (Some f) ?s)"
    have same: "same_files s ?s"
      by (rule same_files_upd_me) auto
    have at: "filp_at ?s = filp_at s" "current (sch ?s) = current (sch s)"
      using same_files_filp [OF same] by simp_all
    have none: "filp_at ?s (current (sch ?s)) fd = None"
      using that(1) at running_upd(2) [OF run] by simp
    have u: "files_ok ?u"
      by (rule files_ok_open [OF files_ok_same [OF same assms] none that(2,4)]) simp
    have "running ?s"
      using files_ok_same [OF same assms] by (simp add: files_ok_def)
    then have "filp_at ?u (current (sch ?u)) fd = Some f"
      by (simp add: filp_at_set_filp) (simp add: upd_file_def set_filp_def)
    moreover have "f_count (file_table ?u f) = 1"
      using that(3) by (simp add: upd_file_def set_filp_def upd_me_def)
    moreover have "okK (\<lambda>_. same_files ?u) (open_namei filename flag mode' ?u)"
      by (rule fr) simp
    ultimately show ?thesis
      unfolding okK_bindK using open_result_files [OF u _ _ _ that(2)] by (elim okK_mono) blast
  qed
  show ?thesis
    unfolding sys_open_def Let_def open_result_def [symmetric] using assms files_ok_cloexec [OF assms] taken
    by (auto simp del: okK_bindK simp: okK_ret find_Some_iff split: option.split)
qed

section \<open>pipe\<close>

lemma upd_file_upd_me: "upd_file f g (upd_me h s) = upd_me h (upd_file f g s)"
  by (simp add: upd_me_def upd_file_def)

lemma upd_file_swap: "f \<noteq> f' \<Longrightarrow> upd_file f g (upd_file f' g' s) = upd_file f' g' (upd_file f g s)"
  by (simp add: upd_file_def fun_upd_twist)

text \<open>The two files and descriptors of a pipe.\<close>

lemma pipe_taken:
  assumes "files_ok s" "f \<noteq> g" "d \<noteq> e" "f < NR_FILE" "g < NR_FILE" "d < NR_OPEN" "e < NR_OPEN"
    and "t_filp (me s) d = None" "t_filp (me s) e = None" "f_count (file_table s f) = 0" "f_count (file_table s g) = 0"
  defines "t \<equiv> set_filp e (Some g) (set_filp d (Some f) (set_count2 f g 1 s))"
  shows "files_ok t" "filp_at t (current (sch t)) d = Some f" "filp_at t (current (sch t)) e = Some g"
    "f_count (file_table t f) = 1" "f_count (file_table t g) = 1"
proof -
  let ?u = "upd_file f (\<lambda>x. x\<lparr>f_count := 1\<rparr>) (set_filp d (Some f) s)"
  have t: "t = upd_file g (\<lambda>x. x\<lparr>f_count := 1\<rparr>) (set_filp e (Some g) ?u)"
    by (simp add: t_def set_count2_def set_filp_def upd_file_upd_me)
  have run: "running s"
    using assms(1) by (simp add: files_ok_def)
  have cur: "current (sch ?u) = current (sch s)"
    by (simp add: upd_file_def set_filp_def)
  have u: "files_ok ?u"
    using assms running_upd(2) [OF run] by (intro files_ok_open) auto
  have none: "filp_at ?u (current (sch ?u)) e = None"
    using assms run running_upd(2) [OF run] by (simp add: cur filp_at_set_filp)
  show "files_ok t"
    unfolding t by (rule files_ok_open [OF u none assms(7,5)]) (use assms in \<open>simp add: upd_file_def set_filp_def\<close>)
  have "current (sch t) = current (sch s)"
    unfolding t by (simp add: upd_file_def set_filp_def)
  then show "filp_at t (current (sch t)) d = Some f" "filp_at t (current (sch t)) e = Some g"
    unfolding t using run assms(3) cur by (simp_all add: filp_at_set_filp)
  show "f_count (file_table t f) = 1" "f_count (file_table t g) = 1"
    unfolding t using assms(2) by (simp_all add: upd_file_def set_filp_def)
qed

lemma pipe_dropped:
  assumes "files_ok t" "f \<noteq> g" "d \<noteq> e" "d < NR_OPEN" "e < NR_OPEN"
    and "filp_at t (current (sch t)) d = Some f" "filp_at t (current (sch t)) e = Some g"
    and "f_count (file_table t f) = 1" "f_count (file_table t g) = 1"
  shows "files_ok (set_count2 f g 0 (set_filp d None (set_filp e None t)))"
proof -
  let ?u = "upd_file g (\<lambda>x. x\<lparr>f_count := 0\<rparr>) (set_filp e None t)"
  have run: "running t"
    using assms(1) by (simp add: files_ok_def)
  have u: "files_ok ?u"
    by (rule files_ok_close(1) [OF assms(1,7,5)]) (use assms(9) in simp)
  have cur: "current (sch ?u) = current (sch t)"
    by (simp add: upd_file_def set_filp_def)
  have some: "filp_at ?u (current (sch ?u)) d = Some f"
    using assms run by (simp add: cur filp_at_set_filp)
  have "files_ok (upd_file f (\<lambda>x. x\<lparr>f_count := 0\<rparr>) (set_filp d None ?u))"
    by (rule files_ok_close(1) [OF u some assms(4)]) (use assms in \<open>simp add: upd_file_def set_filp_def\<close>)
  moreover have "set_count2 f g 0 (set_filp d None (set_filp e None t)) = upd_file f (\<lambda>x. x\<lparr>f_count := 0\<rparr>) (set_filp d None ?u)"
    using upd_file_swap [OF assms(2)] by (simp add: set_count2_def set_filp_def upd_file_upd_me)
  ultimately show ?thesis
    by simp
qed

lemma first_two:
  assumes "filter P [0..<n] = x # y # zs"
  shows "P x" "P y" "x < n" "y < n" "x \<noteq> y"
proof -
  have "set (x # y # zs) = {i. i < n \<and> P i}" "distinct (x # y # zs)"
    unfolding assms [symmetric] by auto
  then show "P x" "P y" "x < n" "y < n" "x \<noteq> y"
    by auto
qed

lemma sys_pipe_files:
  assumes "files_ok s"
  shows "okK (\<lambda>_. files_ok) (sys_pipe fildes s)"
proof (cases "\<exists>f g fs. free_files s = f # g # fs")
  case False
  then show ?thesis
    using assms by (auto simp: sys_pipe_def kwp split: list.split)
next
  case True
  then obtain f g fs where ff: "free_files s = f # g # fs"
    by blast
  let ?s = "set_count2 f g 1 s"
  note f = first_two [OF ff [unfolded free_files_def]]
  have undo: "files_ok (set_count2 f g 0 ?s)"
    by (rule files_ok_same [OF _ assms])
      (use f in \<open>simp add: same_files_def file_count_def fun_eq_iff set_count2_def upd_file_def\<close>)
  show ?thesis
  proof (cases "\<exists>d e ds. free_fds ?s = d # e # ds")
    case False
    then show ?thesis
      using undo by (auto simp: sys_pipe_def ff Let_def kwp split: list.split)
  next
    case True
    then obtain d e ds where dd: "free_fds ?s = d # e # ds"
      by blast
    note d = first_two [OF dd [unfolded free_fds_def]]
    have me: "me ?s = me s"
      by (simp add: set_count2_def upd_file_def me_def)
    let ?t = "set_filp e (Some g) (set_filp d (Some f) ?s)"
    note t = pipe_taken [OF assms f(5) d(5) f(3,4) d(3,4) d(1,2) [unfolded me] f(1,2)]
    have "okK (\<lambda>_. same_files ?t) (get_pipe_inode ?t)"
      by (rule fr) simp
    moreover have "okK (\<lambda>_. files_ok) (case r of
          None \<Rightarrow> ret (- 1) (set_count2 f g 0 (set_filp d None (set_filp e None u)))
        | Some i \<Rightarrow>
            let s = upd_file f (\<lambda>f. f\<lparr>f_inode := Some i, f_pos := 0, f_mode := 1\<rparr>) u;
                s = upd_file g (\<lambda>f. f\<lparr>f_inode := Some i, f_pos := 0, f_mode := 2\<rparr>) s;
                s = s\<lparr>umem := put_fs_long (of_nat d) fildes (umem s)\<rparr>;
                s = s\<lparr>umem := put_fs_long (of_nat e) (fildes + 4) (umem s)\<rparr>
            in ret 0 s)" if "same_files ?t u" for r u
    proof (cases r)
      case None
      have "files_ok (set_count2 f g 0 (set_filp d None (set_filp e None u)))"
        using t same_files_filp [OF that] same_files_count [OF that] that
        by (intro pipe_dropped files_ok_same [OF that] f d) (simp_all add: same_files_def)
      then show ?thesis
        using None by (simp add: kwp)
    next
      case (Some i)
      have "files_ok u"
        using files_ok_same [OF that t(1)] .
      then show ?thesis
        unfolding Some Let_def option.case okK_ret
        by (rule files_ok_same [rotated]) (auto intro!: same_files_upd_file same_files_other)
    qed
    ultimately show ?thesis
      unfolding sys_pipe_def ff list.case Let_def dd okK_bindK by (elim okK_mono) blast
  qed
qed

section \<open>fork\<close>

text \<open>The loop of \<open>copy_process\<close> over the descriptors of the child.\<close>

lemma count_files_fold:
  "file_count (fold (\<lambda>i s. case r i of None \<Rightarrow> s | Some f \<Rightarrow> upd_file f (\<lambda>x. x\<lparr>f_count := f_count x + 1\<rparr>) s) [0..<n] s) f
      = (file_count s f + card {i. i < n \<and> r i = Some f}) mod 65536
   \<and> sch (fold (\<lambda>i s. case r i of None \<Rightarrow> s | Some f \<Rightarrow> upd_file f (\<lambda>x. x\<lparr>f_count := f_count x + 1\<rparr>) s) [0..<n] s) = sch s"
proof (induction n)
  case 0
  have "unat (f_count (file_table s f)) < 2 ^ LENGTH(16)"
    by (rule unsigned_less)
  then show ?case
    by (simp add: file_count_def)
next
  case (Suc n)
  have set: "{i. i < Suc n \<and> r i = Some f} = (if r n = Some f then insert n {i. i < n \<and> r i = Some f} else {i. i < n \<and> r i = Some f})"
    by (auto simp: less_Suc_eq)
  show ?case
    using Suc by (auto simp: set upd_file_def file_count_def unat_word_ariths mod_Suc_eq split: option.split)
qed

lemma same_files_copy_mem:
  assumes "same_files s0 s"
  shows "okK (\<lambda>_. same_files s0) (copy_mem nr s)"
proof -
  have upd: "same_files s (s\<lparr>sch := upd_task nr (\<lambda>p. p\<lparr>t_start_code := b, t_ldt := l p\<rparr>) (sch s)\<rparr>)" for b l
    by (auto simp: same_files_def file_count_def fun_eq_iff upd_task_def same_task_def rel_option_iff split: option.splits)
  show ?thesis
    unfolding copy_mem_def Let_def using assms same_files_trans [OF assms upd] by (auto intro!: fr)
qed

text \<open>The state while the child is made: it has the descriptors \<open>p\<close> of its parent, which are not counted yet.\<close>

definition forking :: "kstate \<Rightarrow> nat \<Rightarrow> task_struct \<Rightarrow> (nat \<Rightarrow> u32) \<Rightarrow> kstate \<Rightarrow> bool" where
  "forking s nr p tp t \<longleftrightarrow>
    files_ok s \<and> nr < NR_TASKS \<and> task (sch s) nr = None \<and> t_filp p = t_filp (me s)
    \<and> same_files (s\<lparr>sch := (sch s)\<lparr>task := (task (sch s))(nr := Some p), task_page := tp\<rparr>\<rparr>) t"

lemma fork_other:
  assumes "forking s nr p tp t" "i \<noteq> nr"
  shows "rel_option same_task (task (sch s) i) (task (sch t) i)"
  using assms by (auto simp: forking_def same_files_def dest!: spec [of _ i])

lemma fork_undone:
  assumes "forking s nr p tp t"
  shows "same_files s (t\<lparr>sch := (sch t)\<lparr>task := (task (sch t))(nr := None)\<rparr>\<rparr>)"
  using assms fork_other [OF assms] by (auto simp: forking_def same_files_def file_count_def fun_eq_iff)

lemma fork_child:
  assumes "forking s nr p tp t"
  shows "\<exists>q. task (sch t) nr = Some q \<and> t_filp q = t_filp (me s)"
proof -
  have "rel_option same_task (Some p) (task (sch t) nr)"
    using assms by (auto simp: forking_def same_files_def dest!: spec [of _ nr])
  then show ?thesis
    using assms by cases (auto simp: forking_def same_task_def)
qed

lemma fork_filp:
  assumes "forking s nr p tp t"
  shows "filp_at t = (filp_at s)(nr := filp_at s (current (sch s)))"
proof -
  have "filp_at t = filp_at (s\<lparr>sch := (sch s)\<lparr>task := (task (sch s))(nr := Some p), task_page := tp\<rparr>\<rparr>)"
    by (rule same_files_filp) (use assms in \<open>simp add: forking_def\<close>)
  moreover have "t_filp (me s) = filp_at s (current (sch s))"
    using assms running_upd(2) by (simp add: forking_def files_ok_def)
  ultimately show ?thesis
    using assms by (auto simp: forking_def filp_at_def fun_eq_iff)
qed

lemma fork_counted:
  assumes fk: "forking s nr p tp t" and u: "sch u = sch t"
    "\<And>f. file_count u f = (file_count t f + card {i. i < NR_OPEN \<and> t_filp (the_task (sch t) nr) i = Some f}) mod 65536"
  shows "files_ok (u\<lparr>sch := upd_task nr (\<lambda>p. p\<lparr>t_state := TASK_RUNNING\<rparr>) (sch u)\<rparr>)"
proof -
  let ?v = "u\<lparr>sch := upd_task nr (\<lambda>p. p\<lparr>t_state := TASK_RUNNING\<rparr>) (sch u)\<rparr>" and ?c = "current (sch s)"
  have run: "running s" and ok: "refs_ok (file_count s) (filp_at s)" and z: "zombies_closed s"
    and nr: "nr < NR_TASKS" "task (sch s) nr = None"
    using fk by (auto simp: forking_def files_ok_def files_counted_def)
  have c: "?c < NR_TASKS" "?c \<noteq> nr" "current (sch t) = ?c" "file_count t = file_count s"
    using run nr fk by (auto simp: running_def forking_def same_files_def file_count_def fun_eq_iff)
  obtain q where q: "task (sch t) nr = Some q" "t_filp q = t_filp (me s)"
    using fork_child [OF fk] by blast
  then have child: "t_filp (the_task (sch t) nr) = filp_at s ?c"
    using running_upd(2) [OF run] by (simp add: the_task_def)
  have none: "filp_at s nr fd = None" for fd
    using nr by (simp add: filp_at_def)
  have "filp_at ?v = filp_at t"
    using u(1) by (auto simp: filp_at_def upd_task_def fun_eq_iff split: option.splits)
  then have filp: "filp_at ?v = (filp_at s)(nr := filp_at s ?c)"
    by (simp add: fork_filp [OF fk])
  note rf = refs_ok_fork [OF ok c(1) nr(1) c(2) none order_refl]
  have "file_count ?v f = file_count s f + card {fd. fd < NR_OPEN \<and> filp_at s ?c fd = Some f}" if "f < NR_FILE" for f
    using refs_bound [OF rf that] u(2) [of f] by (simp add: child c(4) file_count_def)
  then have "refs_ok (file_count ?v) (filp_at ?v)"
    by (intro refs_ok_cong [OF rf]) (auto simp: filp)
  moreover have "zombies_closed ?v"
    unfolding zombies_closed_def
  proof (intro allI impI)
    fix i x fd
    assume *: "task (sch ?v) i = Some x" "t_state x = TASK_ZOMBIE" "fd < NR_OPEN"
    then have i: "i \<noteq> nr" "task (sch t) i = Some x"
      using u(1) by (auto simp: upd_task_def TASK_RUNNING_def TASK_ZOMBIE_def split: if_splits)
    show "t_filp x fd = None"
      using fork_other [OF fk i(1)] i(2) * z by cases (auto simp: same_task_def zombies_closed_def)
  qed
  moreover have "running ?v"
    using fork_other [OF fk c(2)] run c u(1) by cases (auto simp: running_def upd_task_def same_task_def)
  ultimately show ?thesis
    by (simp add: files_ok_def files_counted_def)
qed

lemma fork_fold:
  "sch s = sc \<Longrightarrow> fold (\<lambda>i s. case t_filp (the_task (sch s) nr) i of
        None \<Rightarrow> s | Some f \<Rightarrow> upd_file f (\<lambda>x. x\<lparr>f_count := f_count x + 1\<rparr>) s) xs s
    = fold (\<lambda>i s. case t_filp (the_task sc nr) i of
        None \<Rightarrow> s | Some f \<Rightarrow> upd_file f (\<lambda>x. x\<lparr>f_count := f_count x + 1\<rparr>) s) xs s"
  by (induction xs arbitrary: s) (auto simp: upd_file_def split: option.split)

lemma count_inode_simps [simp]:
  "sch (count_inode i s) = sch s" "file_count (count_inode i s) = file_count s"
  by (simp_all add: count_inode_def upd_inode_def file_count_def fun_eq_iff split: option.split)

lemma copy_process_files:
  assumes "files_ok s" "nr < NR_TASKS" "task (sch s) nr = None"
  shows "okK (\<lambda>_. files_ok) (copy_process fpu nr r s)"
proof -
  obtain page m where pg: "get_free_page (mm s) = (page, m)"
    by fastforce
  let ?s = "s\<lparr>mm := m\<rparr>"
  have same: "same_files s ?s"
    by (simp add: same_files_def file_count_def fun_eq_iff)
  have ok: "files_ok ?s"
    by (rule files_ok_same [OF same assms(1)])
  define p where "p = (if last_task_used_math (sch ?s) = Some (current (sch ?s))
      then (child_task nr page r (sch ?s))\<lparr>t_tss := (t_tss (child_task nr page r (sch ?s)))\<lparr>tss_i387 := fpu\<rparr>\<rparr>
      else child_task nr page r (sch ?s))"
  have p: "t_filp p = t_filp (me ?s)"
    by (simp add: p_def child_task_def Let_def me_def)
  let ?tp = "(task_page (sch ?s))(nr := page)"
  let ?u = "?s\<lparr>sch := (sch ?s)\<lparr>task := (task (sch ?s))(nr := Some p), task_page := ?tp\<rparr>\<rparr>"
  have fk: "forking ?s nr p ?tp t" if "same_files ?u t" for t
    using that assms ok p by (simp add: forking_def)
  have rest: "okK (\<lambda>_. files_ok) (if e \<noteq> 0 then
               bindK (lift_mm (free_page page) (t\<lparr>sch := (sch t)\<lparr>task := (task (sch t))(nr := None)\<rparr>\<rparr>)) (\<lambda>_ s.
               ret (- EAGAIN) s)
             else ret (last_pid (sch (v t)))
               (v t\<lparr>sch := upd_task nr (\<lambda>p. p\<lparr>t_state := TASK_RUNNING\<rparr>) (sch (v t))\<rparr>))"
    if t: "same_files ?u t" and v: "v t = count_inode (a t) (count_inode (b t) (count_inode (c t)
        (fold (\<lambda>i s. case t_filp (the_task (sch s) nr) i of
                 None \<Rightarrow> s | Some f \<Rightarrow> upd_file f (\<lambda>x. x\<lparr>f_count := f_count x + 1\<rparr>) s) [0..<NR_OPEN] t)))" for e t v a b c
  proof (cases "e = 0")
    case False
    have "okK (\<lambda>_. same_files ?s) (lift_mm (free_page page) (t\<lparr>sch := (sch t)\<lparr>task := (task (sch t))(nr := None)\<rparr>\<rparr>))"
      by (rule fr) (rule fork_undone [OF fk [OF t]])
    then show ?thesis
      using False files_ok_same [OF _ ok] by (auto simp: kwp elim!: okK_mono)
  next
    case True
    have "files_ok (v t\<lparr>sch := upd_task nr (\<lambda>p. p\<lparr>t_state := TASK_RUNNING\<rparr>) (sch (v t))\<rparr>)"
      by (rule fork_counted [OF fk [OF t]]; unfold v fork_fold [OF refl] count_inode_simps) (simp_all add: count_files_fold)
    then show ?thesis
      using True by (simp add: kwp)
  qed
  have "okK (\<lambda>_. same_files ?u) (copy_mem nr ?u)"
    by (rule same_files_copy_mem) simp
  then have run: "okK (\<lambda>e t. okK (\<lambda>_. files_ok) (if e \<noteq> 0 then
               bindK (lift_mm (free_page page) (t\<lparr>sch := (sch t)\<lparr>task := (task (sch t))(nr := None)\<rparr>\<rparr>)) (\<lambda>_ s.
               ret (- EAGAIN) s)
             else
               let s = fold (\<lambda>i s. case t_filp (the_task (sch s) nr) i of
                                None \<Rightarrow> s | Some f \<Rightarrow> upd_file f (\<lambda>x. x\<lparr>f_count := f_count x + 1\<rparr>) s) [0..<NR_OPEN] t;
                   s = count_inode (t_executable (me s)) (count_inode (t_root (me s)) (count_inode (t_pwd (me s)) s))
               in ret (last_pid (sch s)) (s\<lparr>sch := upd_task nr (\<lambda>p. p\<lparr>t_state := TASK_RUNNING\<rparr>) (sch s)\<rparr>))) (copy_mem nr ?u)"
    unfolding Let_def by (rule okK_mono) (rule rest, auto)
  have "okK (\<lambda>_. files_ok) (ret (- EAGAIN) ?s)"
    using ok by (simp add: kwp)
  then show ?thesis
    unfolding copy_process_def pg Let_def prod.case p_def [symmetric]
    using run [unfolded Let_def okK_bindK [symmetric]] by (simp only: if_split simp_thms)
qed

section \<open>exit\<close>

text \<open>No descriptors below \<open>n\<close>.\<close>

definition closed_below :: "nat \<Rightarrow> kstate \<Rightarrow> bool" where
  "closed_below n s \<longleftrightarrow> files_ok s \<and> (\<forall>fd < n. filp_at s (current (sch s)) fd = None)"

lemma closed_below_same: "same_files s t \<Longrightarrow> closed_below n s \<Longrightarrow> closed_below n t"
  using files_ok_same [of s t] same_files_filp [of s t] by (auto simp: closed_below_def same_files_def)

lemma close_all:
  assumes "files_ok s" "n \<le> NR_OPEN"
  shows "okK (\<lambda>_. closed_below n) (forK [0..<n] (\<lambda>i s.
      if t_filp (me s) i \<noteq> None then bindK (sys_close (of_nat i) s) (\<lambda>_ s. ret () s) else ret () s) s)"
  using assms(2)
proof (induction n)
  case 0
  then show ?case
    using assms by (simp add: closed_below_def kwp)
next
  case (Suc n)
  have "okK (\<lambda>_. closed_below (Suc n)) (if t_filp (me t) n \<noteq> None then bindK (sys_close (of_nat n) t) (\<lambda>_ s. ret () s) else ret () t)"
    if t: "closed_below n t" for t
  proof (cases "t_filp (me t) n")
    case None
    then show ?thesis
      using t running_upd(2) by (auto simp: closed_below_def files_ok_def kwp less_Suc_eq)
  next
    case (Some f)
    have "unat (of_nat n :: u32) = n"
      using Suc.prems by (simp add: unsigned_of_nat take_bit_nat_eq_self NR_OPEN_def)
    then show ?thesis
      using t Some Suc.prems sys_close_result [of t "of_nat n"]
      by (auto simp: closed_below_def kwp less_Suc_eq elim!: okK_mono)
  qed
  then show ?case
    using Suc by (simp add: forK_append kwp okK_mono)
qed

lemma rel_same_task_trans:
  "rel_option same_task x y \<Longrightarrow> rel_option same_task y z \<Longrightarrow> rel_option same_task x z"
  by (cases x; cases y; cases z) (auto simp: same_task_def)

lemma same_task_recount: "same_task p (recount p)" "same_task p (check_alarm j p)"
  by (auto simp: same_task_def recount_def check_alarm_def Let_def TASK_RUNNING_def TASK_ZOMBIE_def TASK_INTERRUPTIBLE_def)

lemma for_tasks_same: "(\<And>p. same_task p (f p)) \<Longrightarrow> rel_option same_task (ts i) (for_tasks f ts i)"
  by (cases "ts i") (auto simp: for_tasks_eq)

lemma sched_loop_same:
  assumes "sched_loop ts = Some r"
  shows "rel_option same_task (ts i) (fst r i)"
proof (rule sched_loop.raw_induct [OF _ assms])
  fix f ts r
  assume IH: "\<And>ts r. f ts = Some r \<Longrightarrow> rel_option same_task (ts i) (fst r i)"
    and eq: "(if fst (pick ts) \<noteq> 0 then Some (ts, snd (pick ts)) else f (for_tasks recount ts)) = Some r"
  show "rel_option same_task (ts i) (fst r i)"
  proof (cases "fst (pick ts) = 0")
    case True
    then show ?thesis
      using eq IH [of "for_tasks recount ts" r] for_tasks_same [of recount ts i] same_task_recount rel_same_task_trans by auto
  qed (use eq in auto)
qed

lemma yield_files:
  assumes "same_files s0 s"
  shows "okK (\<lambda>_. same_files s0) (yield s)"
proof (cases "schedule (sch s)")
  case None
  then show ?thesis
    by (simp add: yield_def blocked_def kwp)
next
  case (Some sc)
  then obtain ts n where r: "sched_loop (for_tasks (check_alarm (jiffies (sch s))) (task (sch s))) = Some (ts, n)"
    "sc = switch_to n ((sch s)\<lparr>task := ts\<rparr>)"
    by (auto simp: schedule_def split: option.splits)
  have "rel_option same_task (task (sch s) i) (task sc i)" for i
    using sched_loop_same [OF r(1), of i] for_tasks_same [of "check_alarm (jiffies (sch s))" "task (sch s)" i]
      same_task_recount rel_same_task_trans r(2) by auto
  then have "same_files s (s\<lparr>sch := sc\<rparr>)" if "current sc = current (sch s)"
    using that by (simp add: same_files_def file_count_def fun_eq_iff)
  then show ?thesis
    using assms Some same_files_trans by (auto simp: yield_def blocked_def kwp)
qed

lemma same_files_sch:
  assumes "\<And>i. rel_option same_task (task (sch s) i) (task sc i)" "current sc = current (sch s)"
  shows "same_files s (s\<lparr>sch := sc\<rparr>)"
  using assms by (simp add: same_files_def file_count_def fun_eq_iff)

lemma same_files_upd_task:
  assumes "same_files s0 s" "\<And>p. same_task p (g p)"
  shows "same_files s0 (s\<lparr>sch := upd_task i g (sch s)\<rparr>)"
  using assms(1)
proof (rule same_files_trans)
  have "rel_option same_task (task (sch s) j) (task (upd_task i g (sch s)) j)" for j
    using assms(2) by (auto simp: upd_task_def option.rel_map option.rel_refl)
  then show "same_files s (s\<lparr>sch := upd_task i g (sch s)\<rparr>)"
    by (rule same_files_sch) (simp add: upd_task_def)
qed

lemma send_sig_files: "same_files s0 s \<Longrightarrow> same_files s0 (snd (send_sig sig p priv s))"
  by (auto simp: send_sig_def split: option.split intro!: same_files_upd_task) (auto simp: same_task_def)

lemma give_child_files: "same_files s0 s \<Longrightarrow> same_files s0 (give_child i s)"
  unfolding give_child_def Let_def
  by (auto split: option.split intro!: same_files_upd_task send_sig_files) (auto simp: same_task_def)

lemma fold_files: "same_files s0 s \<Longrightarrow> (\<And>i t. same_files s0 t \<Longrightarrow> same_files s0 (g i t)) \<Longrightarrow> same_files s0 (fold g xs s)"
  by (induction xs arbitrary: s) auto

lemma kill_session_files: "same_files s0 s \<Longrightarrow> same_files s0 (kill_session s)"
  unfolding kill_session_def by (rule fold_files) (auto intro!: same_files_upd_task simp: same_task_def)

text \<open>A task without descriptors may become a zombie, and may be taken from the table.\<close>

lemma zombie_counted:
  assumes "closed_below NR_OPEN s"
  shows "files_counted (upd_me (\<lambda>p. p\<lparr>t_state := TASK_ZOMBIE, t_exit_code := code\<rparr>) s)" (is "files_counted ?t")
proof -
  have run: "running s" and ok: "refs_ok (file_count s) (filp_at s)" and z: "zombies_closed s"
    using assms by (auto simp: closed_below_def files_ok_def files_counted_def)
  have filp: "filp_at ?t = filp_at s"
    by (auto simp: fun_eq_iff filp_at_def split: option.split)
  have "zombies_closed ?t"
    unfolding zombies_closed_def
  proof (intro allI impI)
    fix i p fd
    assume *: "task (sch ?t) i = Some p" "t_state p = TASK_ZOMBIE" "fd < NR_OPEN"
    show "t_filp p fd = None"
    proof (cases "i = current (sch s)")
      case True
      then have "t_filp p fd = filp_at ?t i fd"
        using *(1) by (auto simp: filp_at_def)
      then show ?thesis
        using assms True *(3) filp by (simp add: closed_below_def)
    next
      case False
      then show ?thesis
        using * z by (auto simp: zombies_closed_def)
    qed
  qed
  then show ?thesis
    using ok filp by (simp add: files_counted_def file_count_def [abs_def] upd_me_def)
qed

lemma release_counted:
  assumes "files_counted s" "\<And>fd. fd < NR_OPEN \<Longrightarrow> filp_at s p fd = None"
  shows "okK (\<lambda>_ t. files_counted t \<and> current (sch t) = current (sch s)
      \<and> (\<forall>i. i \<noteq> p \<longrightarrow> rel_option same_task (task (sch s) i) (task (sch t) i))) (release_task p s)"
proof -
  let ?s = "s\<lparr>sch := (sch s)\<lparr>task := (task (sch s))(p := None)\<rparr>\<rparr>"
  have "refs_ok (file_count s) (filp_at ?s)"
    by (rule refs_ok_cong [of "file_count s" "filp_at s"]) (use assms in \<open>auto simp: files_counted_def filp_at_def\<close>)
  then have ok: "files_counted ?s"
    using assms(1) by (auto simp: files_counted_def zombies_closed_def file_count_def [abs_def])
  have after: "files_counted t \<and> current (sch t) = current (sch s)
      \<and> (\<forall>i. i \<noteq> p \<longrightarrow> rel_option same_task (task (sch s) i) (task (sch t) i))" if t: "same_files ?s t" for t
  proof (intro conjI allI impI)
    show "files_counted t"
      by (rule files_counted_same [OF t ok])
    have rel: "rel_option same_task (task (sch ?s) i) (task (sch t) i)" for i
      using t by (simp add: same_files_def)
    show "rel_option same_task (task (sch s) i) (task (sch t) i)" if "i \<noteq> p" for i
      using rel [of i] that by simp
    show "current (sch t) = current (sch s)"
      using t by (simp add: same_files_def)
  qed
  have "okK (\<lambda>_. same_files ?s) (bindK (lift_mm (free_page (task_page (sch s) p)) ?s) (\<lambda>_ s. yield s))"
    by (auto intro!: fr yield_files)
  then have "okK (\<lambda>_ t. files_counted t \<and> current (sch t) = current (sch s)
      \<and> (\<forall>i. i \<noteq> p \<longrightarrow> rel_option same_task (task (sch s) i) (task (sch t) i)))
      (bindK (lift_mm (free_page (task_page (sch s) p)) ?s) (\<lambda>_ s. yield s))"
    by (rule okK_mono) (rule after)
  then show ?thesis
    unfolding release_task_def by (simp add: okK_panic)
qed

lemma tell_father_counted:
  assumes "files_counted s" "\<And>fd. fd < NR_OPEN \<Longrightarrow> filp_at s (current (sch s)) fd = None"
  shows "okK (\<lambda>_. files_counted) (tell_father pid s)"
proof -
  have "files_counted (s\<lparr>sch := upd_task i (\<lambda>t. t\<lparr>t_signal := t_signal t OR sigbit SIGCHLD\<rparr>) (sch s)\<rparr>)" for i
    by (rule files_counted_same [OF same_files_upd_task assms(1)]) (simp_all add: same_task_def)
  moreover have "okK (\<lambda>_. files_counted) (release_task (current (sch s)) s)"
    by (rule okK_mono [OF release_counted [OF assms]]) auto
  ultimately show ?thesis
    unfolding tell_father_def by (auto simp: okK_ret split: option.split)
qed

interpretation closed: fs_invariant "closed_below n" for n
proof
  fix s q
  assume c: "closed_below n s"
  show "closed_below n (s\<lparr>sch := snd (Sched.wake_up q (sch s))\<rparr>)"
    by (rule closed_below_same [OF same_files_wake c])
  show "closed_below n (s\<lparr>buf := b\<rparr>)" "closed_below n (s\<lparr>hash_table := h\<rparr>)" "closed_below n (s\<lparr>free_list := k\<rparr>)"
    "closed_below n (s\<lparr>buffer_wait := w\<rparr>)" "closed_below n (s\<lparr>null_b_prev := w\<rparr>)" "closed_below n (s\<lparr>disk := d\<rparr>)"
    "closed_below n (s\<lparr>inode_table := inodes\<rparr>)" "closed_below n (s\<lparr>last_inode := k\<rparr>)" "closed_below n (s\<lparr>mm := m\<rparr>)"
    "closed_below n (upd_super i f s)" for b h k w d inodes m i f
    by (rule closed_below_same [OF _ c], simp add: same_files_def file_count_def fun_eq_iff upd_super_def)+
qed

lemma closed_below_upd_me:
  "closed_below n s \<Longrightarrow> (\<And>p. same_task p (g p)) \<Longrightarrow> closed_below n (upd_me g s)"
  by (rule closed_below_same [OF same_files_upd_me]) (auto simp: same_task_def)

lemma same_files_math:
  "same_files s0 s \<Longrightarrow> same_files s0 (s\<lparr>sch := (sch s)\<lparr>last_task_used_math := x\<rparr>\<rparr>)"
  by (erule same_files_trans) (rule same_files_sch, simp_all)

lemma closed_below_exit:
  "closed_below n s \<Longrightarrow> closed_below n (kill_session s)"
  "closed_below n s \<Longrightarrow> closed_below n (s\<lparr>sch := (sch s)\<lparr>last_task_used_math := x\<rparr>\<rparr>)"
  "closed_below n s \<Longrightarrow> closed_below n (upd_tty d h s)"
  by (erule closed_below_same [rotated], simp add: kill_session_files same_files_math)+

lemma do_exit_files:
  assumes "files_ok s"
  shows "okK (\<lambda>_. files_counted) (do_exit code s)"
proof -
  have tail: "okK (\<lambda>_. files_counted) (tell_father pid (upd_me (\<lambda>p. p\<lparr>t_state := TASK_ZOMBIE, t_exit_code := code\<rparr>) t))"
    if t: "closed_below NR_OPEN t" for t pid
  proof (rule tell_father_counted [OF zombie_counted [OF t]])
    fix fd
    assume "fd < NR_OPEN"
    then show "filp_at (upd_me (\<lambda>p. p\<lparr>t_state := TASK_ZOMBIE, t_exit_code := code\<rparr>) t) (current (sch (upd_me (\<lambda>p. p\<lparr>t_state := TASK_ZOMBIE, t_exit_code := code\<rparr>) t))) fd = None"
      using t by (auto simp: closed_below_def filp_at_def split: option.split)
  qed
  show ?thesis
    unfolding do_exit_def Let_def
    apply (rule okK_seq [where I = "same_files s"], rule fr, simp)
    apply (rule okK_seq [where I = "same_files s"], rule fr, simp)
    apply (rule okK_seq [OF close_all], erule files_ok_same [OF fold_files assms], erule give_child_files, simp)
    apply (rule okK_seq [where I = "closed_below NR_OPEN"], rule fr, simp)
    apply (rule okK_seq [where I = "closed_below NR_OPEN"], rule fr, rule closed_below_upd_me, simp, simp add: same_task_def)
    apply (rule okK_seq [where I = "closed_below NR_OPEN"], rule fr, rule closed_below_upd_me, simp, simp add: same_task_def)
    apply (rule tail)
    apply (auto intro!: closed_below_exit closed_below_upd_me simp: same_task_def)
    done
qed

section \<open>waitpid\<close>

lemma running_same:
  assumes "running s" "current (sch t) = current (sch s)"
    and "rel_option same_task (task (sch s) (current (sch s))) (task (sch t) (current (sch s)))"
  shows "running t"
  using assms(3,1,2) by cases (auto simp: running_def same_task_def)

lemma release_child_files:
  assumes "files_ok s" "i \<noteq> current (sch s)" "task (sch s) i = Some p" "t_state p = TASK_ZOMBIE"
  shows "okK (\<lambda>_. files_ok) (release_task i s)"
proof -
  have "files_counted s" "running s" "filp_at s i fd = None" if "fd < NR_OPEN" for fd
    using assms that by (auto simp: files_ok_def files_counted_def zombies_closed_def filp_at_def)
  then have "okK (\<lambda>_ t. files_counted t \<and> current (sch t) = current (sch s)
      \<and> (\<forall>j. j \<noteq> i \<longrightarrow> rel_option same_task (task (sch s) j) (task (sch t) j))) (release_task i s)"
    using assms(1) by (intro release_counted) (auto simp: files_ok_def)
  then show ?thesis
    by (rule okK_mono) (use assms running_same [of s] in \<open>auto simp: files_ok_def\<close>)
qed

lemma files_ok_umem: "files_ok s \<Longrightarrow> files_ok (s\<lparr>umem := m\<rparr>)"
  by (rule files_ok_same [of s]) (simp_all add: same_files_def file_count_def fun_eq_iff)

lemma wait_loop_files:
  "files_ok s \<Longrightarrow> okK (\<lambda>_. files_ok) (wait_loop is pid addr opt flag s)"
proof (induction "is" arbitrary: flag s)
  case Nil
  then show ?case by (simp add: kwp)
next
  case (Cons i rest)
  show ?case
  proof (cases "\<exists>t. task (sch s) i = Some t \<and> i \<noteq> current (sch s) \<and> waits_for pid (me s) t \<and> t_state t = TASK_ZOMBIE")
    case True
    then obtain t where t: "task (sch s) i = Some t" "i \<noteq> current (sch s)" "waits_for pid (me s) t" "t_state t = TASK_ZOMBIE"
      by blast
    let ?s = "upd_me (\<lambda>p. p\<lparr>t_cutime := s32 (t_cutime p + t_utime t), t_cstime := s32 (t_cstime p + t_stime t)\<rparr>) s"
    have "files_ok ?s"
      by (rule files_ok_same [OF same_files_upd_me Cons.prems]) auto
    then have "okK (\<lambda>_. files_ok) (release_task i ?s)"
      by (rule release_child_files) (use t in auto)
    then show ?thesis
      using t files_ok_umem by (auto simp: TASK_STOPPED_def TASK_ZOMBIE_def Let_def kwp elim!: okK_mono)
  next
    case False
    then show ?thesis
      using Cons files_ok_umem by (auto simp: kwp Let_def split: option.split)
  qed
qed

lemma sys_waitpid_files:
  assumes "files_ok s"
  shows "okK (\<lambda>_. files_ok) (sys_waitpid pid addr opt s)"
  unfolding sys_waitpid_def
proof (rule okK_seq [where I = files_ok])
  have "okK (\<lambda>_. same_files s) (verify_area addr 4 s)"
    by (rule okK_mono [OF okK_verify_area]) (auto simp: same_files_def file_count_def fun_eq_iff)
  then show "okK (\<lambda>_. files_ok) (verify_area addr 4 s)"
    by (rule okK_mono) (rule files_ok_same [OF _ assms])
  fix t
  assume t: "files_ok t"
  show "okK (\<lambda>_. files_ok) (bindK (wait_loop (rev [1..<NR_TASKS]) pid addr opt False t) (\<lambda>(r, flag) s.
      case r of
        Some x \<Rightarrow> ret x s
      | None \<Rightarrow>
          if flag then
            (if opt AND WNOHANG \<noteq> 0 then ret 0 s
             else blocked (upd_me (\<lambda>p. p\<lparr>t_state := TASK_INTERRUPTIBLE\<rparr>) s))
          else ret (- ECHILD) s))"
    by (rule okK_seq [OF wait_loop_files [OF t]]) (auto simp: kwp blocked_def split: prod.split option.split)
qed

section \<open>exec\<close>

interpretation counted: fs_invariant files_ok
proof
  fix s q
  assume c: "files_ok s"
  show "files_ok (s\<lparr>sch := snd (Sched.wake_up q (sch s))\<rparr>)"
    by (rule files_ok_same [OF same_files_wake c])
  show "files_ok (s\<lparr>buf := b\<rparr>)" "files_ok (s\<lparr>hash_table := h\<rparr>)" "files_ok (s\<lparr>free_list := k\<rparr>)"
    "files_ok (s\<lparr>buffer_wait := w\<rparr>)" "files_ok (s\<lparr>null_b_prev := w\<rparr>)" "files_ok (s\<lparr>disk := d\<rparr>)"
    "files_ok (s\<lparr>inode_table := inodes\<rparr>)" "files_ok (s\<lparr>last_inode := k\<rparr>)" "files_ok (s\<lparr>mm := m\<rparr>)"
    "files_ok (upd_super i f s)" for b h k w d inodes m i f
    by (rule files_ok_same [OF _ c], simp add: same_files_def file_count_def fun_eq_iff upd_super_def)+
qed

lemma files_ok_upd_me: "files_ok s \<Longrightarrow> (\<And>p. same_task p (g p)) \<Longrightarrow> files_ok (upd_me g s)"
  by (rule files_ok_same [OF same_files_upd_me]) (auto simp: same_task_def)

lemma push_string_files: "files_ok s \<Longrightarrow> okK (\<lambda>_. files_ok) (push_string n m str a s)"
  by (induction n arbitrary: a s) (auto intro!: fr simp: push_byte_def enter_page_def Let_def split: prod.split)

lemma push_strings_files: "files_ok s \<Longrightarrow> okK (\<lambda>_. files_ok) (push_strings m ptr k a s)"
  by (induction k arbitrary: a s) (auto intro!: fr push_string_files split: option.split)

lemma copy_args_files: "files_ok s \<Longrightarrow> okK (\<lambda>_. files_ok) (copy_args m ptr n x s)"
  unfolding copy_args_def copy_strings_def by (auto intro!: fr push_strings_files split: prod.split)

lemma exec_error_files: "files_ok s \<Longrightarrow> okK (\<lambda>_. files_ok) (exec_error e i x r s)"
  unfolding exec_error_def by (auto intro!: fr)

lemma exec_open_files: "files_ok s \<Longrightarrow> okK (\<lambda>_. files_ok) (exec_open i s)"
  unfolding exec_open_def Let_def by (auto intro!: fr split: option.split)

lemma splice_args_files: "files_ok s \<Longrightarrow> okK (\<lambda>_. files_ok) (splice_args filename argv envp envc w x s)"
  unfolding splice_args_def Let_def by (auto intro!: fr copy_args_files split: prod.split option.split)

lemma namei_kernel_files: "files_ok s \<Longrightarrow> okK (\<lambda>_. files_ok) (namei_kernel m name s)"
  unfolding namei_kernel_def Let_def by (auto intro!: fr files_ok_umem)

lemma close_marked_files: "files_ok s \<Longrightarrow> okK (\<lambda>_. files_ok) (close_marked s)"
  unfolding close_marked_def by (auto intro!: fr sys_close_files)

lemma reset_task_files: "files_ok s \<Longrightarrow> okK (\<lambda>_. files_ok) (reset_task i s)"
  unfolding reset_task_def Let_def
  by (auto intro!: fr close_marked_files files_ok_upd_me simp: same_task_def split: option.split)

lemma files_ok_math: "files_ok s \<Longrightarrow> files_ok (s\<lparr>sch := (sch s)\<lparr>last_task_used_math := x\<rparr>\<rparr>)"
  by (rule files_ok_same [OF same_files_math]) simp_all

lemma drop_memory_files: "files_ok s \<Longrightarrow> okK (\<lambda>_. files_ok) (drop_memory s)"
  unfolding drop_memory_def Let_def
  by (auto intro!: fr files_ok_upd_me files_ok_math simp: same_task_def)

lemma change_ldt_files: "files_ok s \<Longrightarrow> files_ok (snd (change_ldt text page s))"
  unfolding change_ldt_def Let_def split_beta
  by (auto intro!: files_ok_upd_me files_ok_umem counted.I_mm simp: same_task_def)

lemma start_program_files: "files_ok s \<Longrightarrow> okK (\<lambda>_. files_ok) (start_program i ex ids envc x s)"
  unfolding start_program_def Let_def
proof (rule okK_seq [OF reset_task_files], assumption, rule okK_seq [OF drop_memory_files], assumption)
  fix t
  assume t: "files_ok t"
  obtain limit u where u: "change_ldt (a_text ex) (ea_page x) t = (limit, u)"
    by fastforce
  then have "files_ok u"
    using change_ldt_files [OF t] by (metis snd_conv)
  then show "okK (\<lambda>_. files_ok) (case change_ldt (a_text ex) (ea_page x) t of
      (limit, s) \<Rightarrow>
        (case create_tables (ea_p x + limit - of_nat (MAX_ARG_PAGES * PAGE_SIZE)) (nat (ea_argc x)) (nat envc) (umem s) of
           None \<Rightarrow> blocked s
         | Some (p, m) \<Rightarrow>
             ret (0, Some (a_entry ex, p))
               (upd_me (\<lambda>t. t\<lparr>t_end_code := a_text ex, t_end_data := a_data ex + a_text ex,
                      t_brk := a_bss ex + (a_data ex + a_text ex), t_start_stack := p AND 0xfffff000,
                      t_euid := fst ids, t_egid := snd ids\<rparr>) (s\<lparr>umem := clear_bss (a_text ex + a_data ex) m\<rparr>))))"
    unfolding u by (auto intro!: fr files_ok_upd_me files_ok_umem simp: same_task_def split: option.split)
qed

lemma exec_binary_files: "files_ok s \<Longrightarrow> okK (\<lambda>_. files_ok) (exec_binary c argv envp envc i ids bh x s)"
  unfolding exec_binary_def Let_def by (auto intro!: fr exec_error_files copy_args_files start_program_files)

lemma do_execve_files: "files_ok s \<Longrightarrow> okK (\<lambda>_. files_ok) (do_execve cs filename argv envp s)"
  unfolding do_execve_def exec_script_def exec_interpreter_def Let_def
  by (auto intro!: fr exec_open_files exec_binary_files exec_error_files splice_args_files namei_kernel_files
      split: option.split sum.split prod.split)

section \<open>The system calls\<close>

lemma sys_fcntl_files: "files_ok s \<Longrightarrow> okK (\<lambda>_. files_ok) (sys_fcntl fd cmd arg s)"
  unfolding sys_fcntl_def
  by (auto intro!: dupfd_files files_ok_cloexec files_ok_same [OF same_files_upd_file] simp: kwp split: option.split)

lemma sys_dup2_files: "files_ok s \<Longrightarrow> okK (\<lambda>_. files_ok) (sys_dup2 fd arg s)"
  unfolding sys_dup2_def by (rule okK_seq [OF sys_close_files]) (auto intro: dupfd_files)

text \<open>\<open>dup\<close> gives the lowest free descriptor.\<close>

definition lowest_free :: "kstate \<Rightarrow> nat \<Rightarrow> bool" where
  "lowest_free s i \<longleftrightarrow> i < NR_OPEN \<and> t_filp (me s) i = None \<and> (\<forall>j < i. t_filp (me s) j \<noteq> None)"

lemma dup_lowest:
  assumes "files_ok s" "unat fd < NR_OPEN" "t_filp (me s) (unat fd) = Some f" "lowest_free s i"
  shows "totK (\<lambda>r t. r = int i \<and> filp_at t (current (sch t)) i = Some f \<and> file_count t f = file_count s f + 1) (sys_dup fd s)"
proof -
  let ?s = "upd_me (\<lambda>p. p\<lparr>t_close_on_exec := t_close_on_exec p AND NOT (fd_bit i)\<rparr>) s"
  let ?t = "upd_file f (\<lambda>x. x\<lparr>f_count := f_count x + 1\<rparr>) (set_filp i (Some f) ?s)"
  have find: "find (\<lambda>i. t_filp (me s) i = None) [0..<NR_OPEN] = Some i"
    unfolding find_Some_iff by (rule exI [of _ i]) (use assms(4) in \<open>auto simp: lowest_free_def\<close>)
  have run: "running s" "running ?s"
    using assms(1) files_ok_cloexec [OF assms(1)] by (auto simp: files_ok_def)
  have "f < NR_FILE" "refs_ok (file_count s) (filp_at s)"
    using assms run running_upd(2) [OF run(1)] by (auto simp: files_ok_def files_counted_def refs_ok_def running_def)
  then have "file_count s f \<le> 1280"
    by (rule refs_bound [rotated])
  then have "unat (f_count (file_table s f) + 1) = file_count s f + 1"
    by (simp add: file_count_def unat_word_ariths)
  moreover have "current (sch ?t) = current (sch ?s)"
    by (simp add: upd_file_def set_filp_def)
  ultimately have "filp_at ?t (current (sch ?t)) i = Some f \<and> file_count ?t f = file_count s f + 1"
    using run(2) by (simp add: filp_at_set_filp) (simp add: upd_file_def set_filp_def file_count_def)
  then show ?thesis
    using assms(2,3) find by (simp add: sys_dup_def dupfd_def kwp Let_def NR_OPEN_def)
qed

text \<open>C5. The count of an open file is the number of descriptors of all processes that refer to it. Every system
  call that makes or drops descriptors keeps this: \<open>open\<close>, \<open>creat\<close>, \<open>close\<close>, \<open>dup\<close>, \<open>dup2\<close>, \<open>fcntl\<close>, \<open>pipe\<close>, \<open>execve\<close>
  and \<open>waitpid\<close>, on all their ways out; \<open>fork\<close>, whose child shares the files of its parent; and \<open>exit\<close>, after
  which no zombie holds a file. So a file that a descriptor refers to is never counted as free, and \<open>close\<close> never
  comes to its panic.\<close>

theorem descriptors_counted:
  assumes "files_ok s"
  shows "okK (\<lambda>_. files_ok) (sys_open filename flag mode s) \<and> okK (\<lambda>_. files_ok) (sys_creat filename mode s)
    \<and> okK (\<lambda>_. files_ok) (sys_close fd s) \<and> okK (\<lambda>_. files_ok) (sys_dup fd s) \<and> okK (\<lambda>_. files_ok) (sys_dup2 fd arg s)
    \<and> okK (\<lambda>_. files_ok) (sys_fcntl fd cmd arg s) \<and> okK (\<lambda>_. files_ok) (sys_pipe fildes s)
    \<and> okK (\<lambda>_. files_ok) (do_execve cs filename argv envp s) \<and> okK (\<lambda>_. files_ok) (sys_waitpid pid addr opt s)
    \<and> (nr < NR_TASKS \<longrightarrow> task (sch s) nr = None \<longrightarrow> okK (\<lambda>_. files_ok) (copy_process fpu nr r s))
    \<and> okK (\<lambda>_. files_counted) (do_exit code s)
    \<and> (d < NR_OPEN \<longrightarrow> t_filp (me s) d = Some f \<longrightarrow> f_count (file_table s f) \<noteq> 0)"
proof -
  have "f_count (file_table s f) \<noteq> 0" if "d < NR_OPEN" "t_filp (me s) d = Some f"
    using files_ok_close(2) [OF assms _ that(1), of f "\<lambda>x. x\<lparr>f_count := f_count x - 1\<rparr>"] that running_upd(2) assms
    by (simp add: files_ok_def)
  then show ?thesis
    using assms sys_open_files sys_close_files dupfd_files sys_dup2_files sys_fcntl_files sys_pipe_files do_execve_files
      sys_waitpid_files copy_process_files do_exit_files
    by (simp add: sys_creat_def sys_dup_def)
qed

text \<open>A process with one open file, which it duplicates.\<close>

definition one_file :: kstate where
  "one_file = upd_file 3 (\<lambda>x. x\<lparr>f_count := 1\<rparr>) (set_filp 0 (Some 3) demo_kernel)"

lemma one_file_ok: "files_ok one_file"
proof -
  have t: "task (sch demo_kernel) i = (if i = 0 then Some (INIT_TASK 0) else if i = 1 then Some user_task else None)" for i
    by (simp add: demo_kernel_def)
  have run: "running demo_kernel"
    by (simp add: running_def NR_TASKS_def user_task_def INIT_TASK_def TASK_ZOMBIE_def)
  have none: "filp_at demo_kernel i fd = None" for i fd
    by (simp add: filp_at_def t user_task_def INIT_TASK_def)
  then have "refs_ok (file_count demo_kernel) (filp_at demo_kernel)"
    by (simp add: refs_ok_def refs_def file_count_def demo_kernel_def)
  moreover have "zombies_closed demo_kernel"
    by (simp add: zombies_closed_def t user_task_def INIT_TASK_def)
  ultimately have "files_ok demo_kernel"
    using run by (simp add: files_ok_def files_counted_def)
  then show ?thesis
    unfolding one_file_def by (rule files_ok_open [OF _ none]) (simp_all add: NR_OPEN_def NR_FILE_def demo_kernel_def)
qed

theorem descriptors_counted_witness:
  "\<exists>t. sys_dup 0 one_file = Inr (1, t) \<and> files_ok t \<and> file_count t 3 = 2"
proof -
  have me: "t_filp (me one_file) = (\<lambda>_. None)(0 := Some 3)" "file_count one_file 3 = 1"
    by (simp_all add: one_file_def file_count_def set_filp_def upd_file_def upd_me_def me_def cur_def the_task_def
        upd_cur_def upd_task_def demo_kernel_def user_task_def INIT_TASK_def fun_eq_iff)
  have "totK (\<lambda>r t. r = int 1 \<and> filp_at t (current (sch t)) 1 = Some 3 \<and> file_count t 3 = file_count one_file 3 + 1) (sys_dup 0 one_file)"
    by (rule dup_lowest [OF one_file_ok]) (auto simp: me lowest_free_def NR_OPEN_def)
  then obtain t where t: "sys_dup 0 one_file = Inr (1, t)" "file_count t 3 = 2"
    using me(2) by (auto simp: totK_iff)
  moreover have "okK (\<lambda>_. files_ok) (sys_dup 0 one_file)"
    using descriptors_counted [OF one_file_ok] by blast
  ultimately show ?thesis
    by (auto simp: okK_def)
qed

end
