(* ===== verification/Links.thy ===== *)
theory Links
  imports Prelude
begin

text \<open>
  Doubly linked lists in fields of structures, as the buffer cache has them: \<open>nx\<close> and \<open>pv\<close> are the fields, as
  functions of the structure, and a list of structures says what they link. A chain ends at a null pointer, a
  ring goes back to its first element.
\<close>

section \<open>Segments\<close>

text \<open>From the pointer \<open>x\<close>, whose predecessor is \<open>p\<close>, the structures \<open>as\<close> lead to the pointer \<open>y\<close>, whose
  predecessor is \<open>q\<close>.\<close>

primrec dseg ::
  "('a \<Rightarrow> 'a option) \<Rightarrow> ('a \<Rightarrow> 'a option) \<Rightarrow> 'a option \<Rightarrow> 'a option \<Rightarrow> 'a list \<Rightarrow> 'a option \<Rightarrow> 'a option \<Rightarrow> bool" where
  "dseg nx pv p x [] q y \<longleftrightarrow> p = q \<and> x = y"
| "dseg nx pv p x (a # as) q y \<longleftrightarrow> x = Some a \<and> pv a = p \<and> dseg nx pv (Some a) (nx a) as q y"

lemma dseg_append:
  "dseg nx pv p x (as @ bs) q y \<longleftrightarrow> (\<exists>r z. dseg nx pv p x as r z \<and> dseg nx pv r z bs q y)"
  by (induction as arbitrary: p x) auto

lemma dseg_cong:
  "dseg nx pv p x as q y \<Longrightarrow> (\<And>a. a \<in> set as \<Longrightarrow> nx' a = nx a \<and> pv' a = pv a) \<Longrightarrow> dseg nx' pv' p x as q y"
  by (induction as arbitrary: p x) auto

lemma dseg_start: "dseg nx pv p x as q y \<Longrightarrow> as \<noteq> [] \<Longrightarrow> x = Some (hd as) \<and> pv (hd as) = p"
  by (cases as) auto

lemma dseg_last: "dseg nx pv p x as q y \<Longrightarrow> as \<noteq> [] \<Longrightarrow> q = Some (last as) \<and> nx (last as) = y"
  by (induction as arbitrary: p x) (auto split: if_splits)

text \<open>A segment keeps its inside when its ends are linked to something else.\<close>

lemma dseg_new_start:
  "dseg nx pv p x as q y \<Longrightarrow> as \<noteq> [] \<Longrightarrow> distinct as \<Longrightarrow> dseg nx (pv(hd as := p')) p' x as q y"
  by (cases as) (auto elim!: dseg_cong)

lemma dseg_new_end:
  assumes "dseg nx pv p x as q y" "as \<noteq> []" "distinct as"
  shows "dseg (nx(last as := y')) pv p x as q y'"
proof -
  obtain bs b where as: "as = bs @ [b]"
    using assms(2) by (metis append_butlast_last_id)
  then show ?thesis
    using assms by (auto simp: dseg_append elim!: dseg_cong)
qed

section \<open>Chains\<close>

definition dchain :: "('a \<Rightarrow> 'a option) \<Rightarrow> ('a \<Rightarrow> 'a option) \<Rightarrow> 'a option \<Rightarrow> 'a list \<Rightarrow> bool" where
  "dchain nx pv x as \<longleftrightarrow> (\<exists>q. dseg nx pv None x as q None) \<and> distinct as"

lemma dchain_distinct: "dchain nx pv x as \<Longrightarrow> distinct as"
  by (simp add: dchain_def)

lemma dchain_start: "dchain nx pv x as \<Longrightarrow> x = (if as = [] then None else Some (hd as))"
  by (cases as) (auto simp: dchain_def)

lemma dchain_cong: "dchain nx pv x as \<Longrightarrow> (\<And>a. a \<in> set as \<Longrightarrow> nx' a = nx a \<and> pv' a = pv a) \<Longrightarrow> dchain nx' pv' x as"
  unfolding dchain_def using dseg_cong by metis

lemma dchain_push:
  assumes "dchain nx pv x as" "b \<notin> set as" "nx' b = x" "pv' b = None"
    "\<And>a. a \<in> set as \<Longrightarrow> nx' a = nx a" "\<And>a. a \<in> set as \<Longrightarrow> pv' a = (if a = hd as then Some b else pv a)"
  shows "dchain nx' pv' (Some b) (b # as)"
proof (cases as)
  case Nil
  then show ?thesis
    using assms by (auto simp: dchain_def)
next
  case (Cons a cs)
  obtain q where q: "dseg nx pv None x as q None" "distinct as"
    using assms(1) by (auto simp: dchain_def)
  have "dseg nx (pv(hd as := Some b)) (Some b) x as q None"
    using Cons by (intro dseg_new_start [OF q(1) _ q(2)]) simp
  then have "dseg nx' pv' (Some b) x as q None"
    by (rule dseg_cong) (use assms(5,6) in auto)
  then show ?thesis
    using assms(2,3,4) q(2) by (auto simp: dchain_def)
qed

lemma dchain_neighbours:
  assumes "dchain nx pv x (as @ b # cs)"
  shows "pv b = Some a \<Longrightarrow> a \<in> set as" "nx b = Some a \<Longrightarrow> a \<in> set cs"
proof -
  obtain q where s: "dseg nx pv None x as (pv b) (Some b)" "dseg nx pv (Some b) (nx b) cs q None"
    using assms by (auto simp: dchain_def dseg_append)
  show "a \<in> set as" if "pv b = Some a"
    using dseg_last [OF s(1)] s(1) that by (cases "as = []") auto
  show "a \<in> set cs" if "nx b = Some a"
    using s(2) that by (cases cs) auto
qed

text \<open>An element is unlinked: its neighbours, where it has them, are linked to each other.\<close>

lemma dchain_unlink:
  assumes "dchain nx pv x (as @ b # cs)"
    and nx': "\<And>a. a \<noteq> b \<Longrightarrow> nx' a = (if pv b = Some a then nx b else nx a)"
    and pv': "\<And>a. a \<noteq> b \<Longrightarrow> pv' a = (if nx b = Some a then pv b else pv a)"
  shows "dchain nx' pv' (if x = Some b then nx b else x) (as @ cs)"
proof -
  have d: "distinct (as @ b # cs)"
    using assms(1) by (simp add: dchain_def)
  obtain q where s: "dseg nx pv None x as (pv b) (Some b)" "dseg nx pv (Some b) (nx b) cs q None"
    using assms(1) by (auto simp: dchain_def dseg_append)
  have prev: "pv b = (if as = [] then None else Some (last as))"
    using dseg_last [OF s(1)] s(1) by (cases as) auto
  have after: "nx b = (case cs of [] \<Rightarrow> None | c # _ \<Rightarrow> Some c)"
    using s(2) by (cases cs) auto
  have as: "dseg nx' pv' None (if x = Some b then nx b else x) as (pv b) (nx b)"
  proof (cases "as = []")
    case True
    then show ?thesis using s(1) prev by simp
  next
    case False
    then have "x \<noteq> Some b"
      using dseg_start [OF s(1)] d by (cases as) auto
    moreover have "dseg (nx(last as := nx b)) pv None x as (pv b) (nx b)"
      using False d by (intro dseg_new_end [OF s(1)]) simp_all
    then have "dseg nx' pv' None x as (pv b) (nx b)"
    proof (rule dseg_cong)
      fix a
      assume a: "a \<in> set as"
      then have "a \<noteq> b" "nx b \<noteq> Some a"
        using d after by (auto split: list.splits)
      then show "nx' a = (nx(last as := nx b)) a \<and> pv' a = pv a"
        using nx' [of a] pv' [of a] prev False by auto
    qed
    ultimately show ?thesis by simp
  qed
  have "\<exists>q. dseg nx' pv' (pv b) (nx b) cs q None"
  proof (cases "cs = []")
    case True
    then show ?thesis using after by simp
  next
    case False
    then have "dseg nx (pv(hd cs := pv b)) (pv b) (nx b) cs q None"
      using d by (intro dseg_new_start [OF s(2)]) simp_all
    then have "dseg nx' pv' (pv b) (nx b) cs q None"
    proof (rule dseg_cong)
      fix a
      assume a: "a \<in> set cs"
      then have "a \<noteq> b" "pv b \<noteq> Some a"
        using d a dchain_neighbours(1) [OF assms(1), of a] by auto
      then show "nx' a = nx a \<and> pv' a = (pv(hd cs := pv b)) a"
        using nx' [of a] pv' [of a] after False by (auto split: list.splits)
    qed
    then show ?thesis by blast
  qed
  then show ?thesis
    using as d by (auto simp: dchain_def dseg_append)
qed

section \<open>Rings\<close>

definition dring :: "('a \<Rightarrow> 'a option) \<Rightarrow> ('a \<Rightarrow> 'a option) \<Rightarrow> 'a list \<Rightarrow> bool" where
  "dring nx pv as \<longleftrightarrow>
    as \<noteq> [] \<and> distinct as \<and> dseg nx pv (Some (last as)) (Some (hd as)) as (Some (last as)) (Some (hd as))"

lemma dringD: "dring nx pv as \<Longrightarrow> as \<noteq> []" "dring nx pv as \<Longrightarrow> distinct as"
  by (simp_all add: dring_def)

lemma dring_rotate: "dring nx pv (as @ bs) \<Longrightarrow> dring nx pv (bs @ as)"
proof (cases "as = [] \<or> bs = []")
  case False
  assume r: "dring nx pv (as @ bs)"
  then obtain q y where s: "dseg nx pv (Some (last bs)) (Some (hd as)) as q y" "dseg nx pv q y bs (Some (last bs)) (Some (hd as))"
    using False by (auto simp: dring_def dseg_append)
  have "q = Some (last as)" "y = Some (hd bs)"
    using dseg_last [OF s(1)] dseg_start [OF s(2)] False by auto
  then show ?thesis
    using r s False by (auto simp: dring_def dseg_append)
qed auto

lemma dring_cong: "dring nx pv as \<Longrightarrow> (\<And>a. a \<in> set as \<Longrightarrow> nx' a = nx a \<and> pv' a = pv a) \<Longrightarrow> dring nx' pv' as"
  unfolding dring_def using dseg_cong [of nx pv _ _ as _ _ nx' pv'] by blast

text \<open>A segment whose ends are linked to each other is a ring.\<close>

lemma dring_close:
  assumes "dseg nx pv p x as q y" "as \<noteq> []" "distinct as"
  shows "dring (nx(last as := Some (hd as))) (pv(hd as := Some (last as))) as"
proof -
  have "q = Some (last as)" "x = Some (hd as)"
    using dseg_last [OF assms(1,2)] dseg_start [OF assms(1,2)] by auto
  then have "dseg nx (pv(hd as := Some (last as))) (Some (last as)) (Some (hd as)) as (Some (last as)) y"
    using dseg_new_start [OF assms, of "Some (last as)"] by simp
  from dseg_new_end [OF this assms(2,3)] show ?thesis
    using assms(2,3) by (simp add: dring_def)
qed

lemma dring_unlink:
  assumes "dring nx pv (as @ b # cs)" "as @ cs \<noteq> []" "pv b = Some p" "nx b = Some n"
  shows "dring (nx(p := Some n)) (pv(n := Some p)) (as @ cs)" "n = hd (cs @ as)" "p = last (cs @ as)"
proof -
  have r: "dring nx pv ([b] @ (cs @ as))"
    using dring_rotate [OF assms(1)] by simp
  then have s: "dseg nx pv (Some b) (Some n) (cs @ as) (Some p) (Some b)" "distinct (cs @ as)" "cs @ as \<noteq> []"
    using assms(2,3,4) by (auto simp: dring_def)
  show n: "n = hd (cs @ as)" "p = last (cs @ as)"
    using dseg_start [OF s(1,3)] dseg_last [OF s(1,3)] by simp_all
  then have "dring (nx(p := Some n)) (pv(n := Some p)) (cs @ as)"
    using dring_close [OF s(1,3,2)] by simp
  then show "dring (nx(p := Some n)) (pv(n := Some p)) (as @ cs)"
    by (rule dring_rotate)
qed

lemma dring_insert:
  assumes r: "dring nx pv as" and b: "b \<notin> set as"
    and nx': "nx' b = Some (hd as)" "nx' (last as) = Some b" "\<And>a. a \<in> set as \<Longrightarrow> a \<noteq> last as \<Longrightarrow> nx' a = nx a"
    and pv': "pv' b = Some (last as)" "pv' (hd as) = Some b" "\<And>a. a \<in> set as \<Longrightarrow> a \<noteq> hd as \<Longrightarrow> pv' a = pv a"
  shows "dring nx' pv' (as @ [b])"
proof -
  have as: "as \<noteq> []" "distinct as" "dseg nx pv (Some (last as)) (Some (hd as)) as (Some (last as)) (Some (hd as))"
    using r by (auto simp: dring_def)
  have "dseg nx (pv(hd as := Some b)) (Some b) (Some (hd as)) as (Some (last as)) (Some (hd as))"
    by (rule dseg_new_start [OF as(3,1,2)])
  from dseg_new_end [OF this as(1,2), of "Some b"]
  have "dseg nx' pv' (Some b) (Some (hd as)) as (Some (last as)) (Some b)"
    by (rule dseg_cong) (use nx' pv' in auto)
  then show ?thesis
    using as b nx'(1) pv'(1) by (auto simp: dring_def dseg_append)
qed

lemma dring_ends: "dring nx pv as \<Longrightarrow> pv (hd as) = Some (last as) \<and> nx (last as) = Some (hd as)"
  unfolding dring_def using dseg_start [of nx pv _ _ as] dseg_last [of nx pv _ _ as] by blast

lemma dring_links:
  assumes "dring nx pv as" "a \<in> set as"
  shows "\<exists>n \<in> set as. nx a = Some n" "\<exists>p \<in> set as. pv a = Some p"
proof -
  obtain bs cs where "as = bs @ a # cs"
    using assms(2) by (auto simp: in_set_conv_decomp)
  then have r: "dring nx pv (a # (cs @ bs))" "dring nx pv ((cs @ bs) @ [a])" "set as = set (a # (cs @ bs))"
    using dring_rotate [of nx pv bs "a # cs"] dring_rotate [of nx pv "[a]" "cs @ bs"] assms(1) by auto
  have "last (a # (cs @ bs)) \<in> set (a # (cs @ bs))" "hd ((cs @ bs) @ [a]) \<in> set (a # (cs @ bs))"
    using last_in_set [of "a # (cs @ bs)"] hd_in_set [of "(cs @ bs) @ [a]"] by auto
  then show "\<exists>p \<in> set as. pv a = Some p" "\<exists>n \<in> set as. nx a = Some n"
    unfolding r(3) using dring_ends [OF r(1)] dring_ends [OF r(2)] by (simp_all only: list.sel last_snoc bex_simps) blast+
qed

end
