(* ===== verification/Cache.thy ===== *)
theory Cache
  imports Frame Links
begin

text \<open>
  The structure of the buffer cache: every buffer that belongs to a device is in the chain of its hash value and in
  no other, no two buffers hold the same block, and all buffers are in the ring of the free list. Taking a buffer out
  of its queues and putting it into those of another block keeps this.
\<close>

unbundle bit_operations_syntax

section \<open>The links\<close>

definition key_hash :: "kstate \<Rightarrow> nat \<Rightarrow> nat" where
  "key_hash s b = hashfn (b_dev (buf s b)) (b_blocknr (buf s b))"

definition holds :: "kstate \<Rightarrow> nat \<Rightarrow> u16 \<Rightarrow> u32 \<Rightarrow> bool" where
  "holds s b dev block \<longleftrightarrow> b_dev (buf s b) = dev \<and> b_blocknr (buf s b) = block"

lemma hash_less [simp]: "hashfn dev block < NR_HASH" "key_hash s b < NR_HASH"
  by (simp_all add: hashfn_def key_hash_def NR_HASH_def)

definition bucket :: "(nat \<Rightarrow> nat option) \<Rightarrow> nat \<Rightarrow> nat option" where
  "bucket table h = (if h < NR_HASH then table h else None)"

lemma bucket_hash: "bucket table (hashfn dev block) = table (hashfn dev block)" "bucket table (key_hash s b) = table (key_hash s b)"
  by (simp_all add: bucket_def)

text \<open>The buffers \<open>B\<close> are hooked up: \<open>C h\<close> is the chain of the hash value \<open>h\<close>, \<open>F\<close> the free list.\<close>

definition chains_on :: "nat set \<Rightarrow> kstate \<Rightarrow> (nat \<Rightarrow> nat list) \<Rightarrow> bool" where
  "chains_on B s C \<longleftrightarrow>
    (\<forall>h. dchain (\<lambda>b. b_next (buf s b)) (\<lambda>b. b_prev (buf s b)) (bucket (hash_table s) h) (C h))
    \<and> (\<forall>h. set (C h) = {b \<in> B. b_dev (buf s b) \<noteq> 0 \<and> key_hash s b = h})
    \<and> (\<forall>b \<in> B. b_dev (buf s b) = 0 \<longrightarrow> b_next (buf s b) = None \<and> b_prev (buf s b) = None)
    \<and> (\<forall>b \<in> B. \<forall>c \<in> B. b_dev (buf s b) \<noteq> 0 \<longrightarrow> holds s c (b_dev (buf s b)) (b_blocknr (buf s b)) \<longrightarrow> b = c)"

definition ring_on :: "nat set \<Rightarrow> kstate \<Rightarrow> nat list \<Rightarrow> bool" where
  "ring_on B s F \<longleftrightarrow>
    dring (\<lambda>b. b_next_free (buf s b)) (\<lambda>b. b_prev_free (buf s b)) F \<and> hd F = free_list s \<and> set F = B"

definition cache_on :: "nat set \<Rightarrow> kstate \<Rightarrow> bool" where
  "cache_on B s \<longleftrightarrow> (\<exists>C. chains_on B s C) \<and> (\<exists>F. ring_on B s F)"

definition cache_ok :: "kstate \<Rightarrow> bool" where
  "cache_ok s \<longleftrightarrow> cache_on {..<NR_BUFFERS s} s \<and> 2 \<le> NR_BUFFERS s"

text \<open>What the structure depends on, and what a change of the links leaves alone.\<close>

definition same_links :: "kstate \<Rightarrow> kstate \<Rightarrow> bool" where
  "same_links s t \<longleftrightarrow>
    hash_table t = hash_table s \<and> free_list t = free_list s \<and> NR_BUFFERS t = NR_BUFFERS s
    \<and> (\<forall>b. b_dev (buf t b) = b_dev (buf s b) \<and> b_blocknr (buf t b) = b_blocknr (buf s b)
           \<and> b_next (buf t b) = b_next (buf s b) \<and> b_prev (buf t b) = b_prev (buf s b)
           \<and> b_next_free (buf t b) = b_next_free (buf s b) \<and> b_prev_free (buf t b) = b_prev_free (buf s b))"

definition same_contents :: "kstate \<Rightarrow> kstate \<Rightarrow> bool" where
  "same_contents s t \<longleftrightarrow>
    NR_BUFFERS t = NR_BUFFERS s \<and> disk t = disk s \<and> blk_fn t = blk_fn s \<and> inode_table t = inode_table s \<and> super_table t = super_table s
    \<and> (\<forall>b. b_dev (buf t b) = b_dev (buf s b) \<and> b_blocknr (buf t b) = b_blocknr (buf s b)
           \<and> b_data (buf t b) = b_data (buf s b) \<and> b_uptodate (buf t b) = b_uptodate (buf s b)
           \<and> b_dirt (buf t b) = b_dirt (buf s b) \<and> b_count (buf t b) = b_count (buf s b)
           \<and> b_lock (buf t b) = b_lock (buf s b))"

lemma same_contents_trans: "same_contents s t \<Longrightarrow> same_contents t u \<Longrightarrow> same_contents s u"
  by (simp add: same_contents_def)

lemma same_links_refl [simp]: "same_links s s"
  by (simp add: same_links_def)

lemma same_links_trans: "same_links s t \<Longrightarrow> same_links t u \<Longrightarrow> same_links s u"
  by (simp add: same_links_def)

lemma cache_on_same: "cache_on B s \<Longrightarrow> same_links s t \<Longrightarrow> cache_on B t"
  by (simp add: cache_on_def chains_on_def ring_on_def same_links_def key_hash_def holds_def)

lemma cache_ok_same: "cache_ok s \<Longrightarrow> same_links s t \<Longrightarrow> cache_ok t"
  unfolding cache_ok_def using cache_on_same same_links_def by metis

lemma same_links_upd [simp]:
  "(\<And>b. b_dev (f b) = b_dev b \<and> b_blocknr (f b) = b_blocknr b \<and> b_next (f b) = b_next b \<and> b_prev (f b) = b_prev b
        \<and> b_next_free (f b) = b_next_free b \<and> b_prev_free (f b) = b_prev_free b) \<Longrightarrow> same_links s (upd_buf i f s)"
  by (simp add: same_links_def upd_buf_def)

section \<open>remove_from_queues\<close>

text \<open>Its two halves.\<close>

definition unlink_hash :: "nat \<Rightarrow> kstate \<Rightarrow> kstate" where
  "unlink_hash bh s =
    (let s = (case b_next (buf s bh) of
                None \<Rightarrow> s
              | Some n \<Rightarrow> upd_buf n (\<lambda>b. b\<lparr>b_prev := b_prev (buf s bh)\<rparr>) s);
         s = (case b_prev (buf s bh) of
                None \<Rightarrow> s
              | Some p \<Rightarrow> upd_buf p (\<lambda>b. b\<lparr>b_next := b_next (buf s bh)\<rparr>) s);
         h = hashfn (b_dev (buf s bh)) (b_blocknr (buf s bh))
     in if hash_table s h = Some bh then set_hash h (b_next (buf s bh)) s else s)"

definition unlink_free :: "nat \<Rightarrow> unit kop" where
  "unlink_free bh s =
    (case (b_prev_free (buf s bh), b_next_free (buf s bh)) of
       (Some p, Some n) \<Rightarrow>
         let s = upd_buf p (\<lambda>b. b\<lparr>b_next_free := Some n\<rparr>) s;
             s = upd_buf n (\<lambda>b. b\<lparr>b_prev_free := b_prev_free (buf s bh)\<rparr>) s
         in ret () (if free_list s = bh
                    then s\<lparr>free_list := (case b_next_free (buf s bh) of Some n \<Rightarrow> n | None \<Rightarrow> free_list s)\<rparr>
                    else s)
     | _ \<Rightarrow> panic ''Free block list corrupted'')"

lemma remove_halves: "remove_from_queues bh s = unlink_free bh (unlink_hash bh s)"
  by (simp add: remove_from_queues_def unlink_free_def unlink_hash_def Let_def)

lemma unlink_hash_fields:
  assumes "b_next (buf s bh) \<noteq> Some bh" "b_prev (buf s bh) \<noteq> Some bh"
  defines "t \<equiv> unlink_hash bh s"
  shows "b_next (buf t a) = (if b_prev (buf s bh) = Some a then b_next (buf s bh) else b_next (buf s a))"
    and "b_prev (buf t a) = (if b_next (buf s bh) = Some a then b_prev (buf s bh) else b_prev (buf s a))"
    and "bucket (hash_table t) h = (if h = key_hash s bh \<and> bucket (hash_table s) h = Some bh then b_next (buf s bh) else bucket (hash_table s) h)"
    and "b_next_free (buf t a) = b_next_free (buf s a)" "b_prev_free (buf t a) = b_prev_free (buf s a)"
    and "free_list t = free_list s" "same_contents s t"
  using assms(1,2)
  by (auto simp: t_def unlink_hash_def Let_def upd_buf_def set_hash_def key_hash_def same_contents_def bucket_def split: option.split)

lemma same_contents_keys:
  "same_contents s t \<Longrightarrow> key_hash t b = key_hash s b \<and> holds t b d k = holds s b d k \<and> b_dev (buf t b) = b_dev (buf s b)"
  by (simp add: same_contents_def key_hash_def holds_def)

lemma neighbour:
  assumes C: "chains_on B s C" and bh: "bh \<in> B" and a: "b_next (buf s bh) = Some a \<or> b_prev (buf s bh) = Some a"
  shows "a \<noteq> bh \<and> a \<in> B \<and> b_dev (buf s a) \<noteq> 0 \<and> key_hash s a = key_hash s bh"
proof -
  let ?h = "key_hash s bh"
  have "b_dev (buf s bh) \<noteq> 0"
    using C bh a by (auto simp: chains_on_def)
  then have "bh \<in> set (C ?h)"
    using C bh by (simp add: chains_on_def)
  then obtain as cs where split: "C ?h = as @ bh # cs"
    by (meson split_list)
  moreover have "dchain (\<lambda>b. b_next (buf s b)) (\<lambda>b. b_prev (buf s b)) (bucket (hash_table s) ?h) (C ?h)"
    using C by (simp add: chains_on_def)
  ultimately have c: "dchain (\<lambda>b. b_next (buf s b)) (\<lambda>b. b_prev (buf s b)) (bucket (hash_table s) ?h) (as @ bh # cs)"
    by simp
  have "a \<noteq> bh \<and> a \<in> set (C ?h)"
    using a dchain_neighbours [OF c, of a] dchain_distinct [OF c] split by auto
  then show ?thesis
    using C by (simp add: chains_on_def)
qed

lemma not_own_neighbour:
  "chains_on B s C \<Longrightarrow> bh \<in> B \<Longrightarrow> b_next (buf s bh) \<noteq> Some bh"
  "chains_on B s C \<Longrightarrow> bh \<in> B \<Longrightarrow> b_prev (buf s bh) \<noteq> Some bh"
  using neighbour by blast+

lemma chains_onD:
  assumes "chains_on B s C"
  shows "dchain (\<lambda>b. b_next (buf s b)) (\<lambda>b. b_prev (buf s b)) (bucket (hash_table s) h) (C h)"
    "set (C h) = {b \<in> B. b_dev (buf s b) \<noteq> 0 \<and> key_hash s b = h}"
    "bucket (hash_table s) h = Some a \<Longrightarrow> a \<in> set (C h)"
proof -
  show ch: "dchain (\<lambda>b. b_next (buf s b)) (\<lambda>b. b_prev (buf s b)) (bucket (hash_table s) h) (C h)"
    using assms by (simp add: chains_on_def)
  show "set (C h) = {b \<in> B. b_dev (buf s b) \<noteq> 0 \<and> key_hash s b = h}"
    using assms by (simp add: chains_on_def)
  show "a \<in> set (C h)" if "bucket (hash_table s) h = Some a"
    using ch that by (cases "C h") (auto simp: dchain_def)
qed

lemma unlink_hash_bucket:
  assumes C: "chains_on B s C" and bh: "bh \<in> B"
  shows "dchain (\<lambda>b. b_next (buf (unlink_hash bh s) b)) (\<lambda>b. b_prev (buf (unlink_hash bh s) b))
      (bucket (hash_table (unlink_hash bh s)) h) (removeAll bh (C h))"
proof -
  let ?t = "unlink_hash bh s" and ?h = "key_hash s bh"
  note fields = unlink_hash_fields [OF not_own_neighbour [OF C bh]] and ch = chains_onD(1) [OF C] and setC = chains_onD(2) [OF C]
  show ?thesis
  proof (cases "b_dev (buf s bh) = 0")
    case True
    then have none: "b_next (buf s bh) = None" "b_prev (buf s bh) = None" "bh \<notin> set (C h)" "bh \<notin> set (C ?h)"
      using C bh by (simp_all add: chains_on_def)
    then have "bucket (hash_table s) ?h \<noteq> Some bh"
      using ch [of ?h] by (cases "C ?h") (auto simp: dchain_def)
    then show ?thesis
      using none ch [of h] by (auto simp: fields(1,2,3))
  next
    case False
    then have "bh \<in> set (C ?h)"
      using bh by (simp add: setC)
    then obtain as cs where split: "C ?h = as @ bh # cs"
      by (meson split_list)
    have c: "dchain (\<lambda>b. b_next (buf s b)) (\<lambda>b. b_prev (buf s b)) (bucket (hash_table s) ?h) (as @ bh # cs)"
      using ch [of ?h] split by simp
    show ?thesis
    proof (cases "h = ?h")
      case True
      have "dchain (\<lambda>b. b_next (buf ?t b)) (\<lambda>b. b_prev (buf ?t b))
          (if bucket (hash_table s) ?h = Some bh then b_next (buf s bh) else bucket (hash_table s) ?h) (as @ cs)"
        by (rule dchain_unlink [OF c]) (simp_all only: fields(1,2))
      then show ?thesis
        using True split dchain_distinct [OF c] by (simp add: fields(3))
    next
      case other: False
      then have "bh \<notin> set (C h)"
        by (simp add: setC)
      moreover have "b_prev (buf s bh) \<noteq> Some a \<and> b_next (buf s bh) \<noteq> Some a" if "a \<in> set (C h)" for a
        using neighbour [OF C bh, of a] that other setC [of h] by auto
      then have "dchain (\<lambda>b. b_next (buf ?t b)) (\<lambda>b. b_prev (buf ?t b)) (bucket (hash_table s) h) (C h)"
        by (intro dchain_cong [OF ch]) (simp add: fields(1,2))
      ultimately show ?thesis
        using other by (simp add: fields(3))
    qed
  qed
qed

lemma unlink_hash_chains:
  assumes C: "chains_on B s C" and bh: "bh \<in> B"
  shows "\<exists>C'. chains_on (B - {bh}) (unlink_hash bh s) C'"
proof -
  note fields = unlink_hash_fields [OF not_own_neighbour [OF C bh]]
  let ?t = "unlink_hash bh s" and ?h = "key_hash s bh"
  note same = same_contents_keys [OF fields(7)]
  note setC = chains_onD(2) [OF C]
  have "chains_on (B - {bh}) ?t (\<lambda>h. removeAll bh (C h))"
    unfolding chains_on_def
  proof (intro conjI allI ballI impI unlink_hash_bucket [OF C bh])
    show "set (removeAll bh (C h)) = {b \<in> B - {bh}. b_dev (buf ?t b) \<noteq> 0 \<and> key_hash ?t b = h}" for h
      using setC [of h] same by auto
    fix b
    assume b: "b \<in> B - {bh}"
    show "b = c" if "c \<in> B - {bh}" "b_dev (buf ?t b) \<noteq> 0" "holds ?t c (b_dev (buf ?t b)) (b_blocknr (buf ?t b))" for c
      using C b that fields(7) by (auto simp: chains_on_def same_contents_def holds_def)
    assume "b_dev (buf ?t b) = 0"
    then have "b_next (buf s b) = None \<and> b_prev (buf s b) = None" "b_dev (buf s b) = 0"
      using C b same by (auto simp: chains_on_def)
    moreover have "b_prev (buf s bh) \<noteq> Some b \<and> b_next (buf s bh) \<noteq> Some b"
      using neighbour [OF C bh, of b] \<open>b_dev (buf s b) = 0\<close> by auto
    ultimately show "b_next (buf ?t b) = None" "b_prev (buf ?t b) = None"
      by (simp_all add: fields(1,2))
  qed
  then show ?thesis
    by blast
qed

text \<open>What the free list does not touch, and what the chains do not.\<close>

definition same_chains :: "kstate \<Rightarrow> kstate \<Rightarrow> bool" where
  "same_chains s t \<longleftrightarrow>
    hash_table t = hash_table s \<and> (\<forall>b. b_next (buf t b) = b_next (buf s b) \<and> b_prev (buf t b) = b_prev (buf s b))"

definition same_ring :: "kstate \<Rightarrow> kstate \<Rightarrow> bool" where
  "same_ring s t \<longleftrightarrow>
    free_list t = free_list s
    \<and> (\<forall>b. b_next_free (buf t b) = b_next_free (buf s b) \<and> b_prev_free (buf t b) = b_prev_free (buf s b))"

lemma ring_on_same: "ring_on B s F \<Longrightarrow> same_ring s t \<Longrightarrow> ring_on B t F"
  by (simp add: ring_on_def same_ring_def)

lemma chains_on_same: "chains_on B s C \<Longrightarrow> same_chains s t \<Longrightarrow> same_contents s t \<Longrightarrow> chains_on B t C"
  by (simp add: chains_on_def same_chains_def same_contents_def key_hash_def holds_def)

lemma unlink_free_ring:
  assumes F: "ring_on B s F" and bh: "bh \<in> B" "B \<noteq> {bh}"
  shows "totK (\<lambda>_ t. (\<exists>F'. ring_on (B - {bh}) t F') \<and> same_chains s t \<and> same_contents s t) (unlink_free bh s)"
proof -
  have F': "dring (\<lambda>b. b_next_free (buf s b)) (\<lambda>b. b_prev_free (buf s b)) F" "hd F = free_list s" "set F = B" "distinct F"
    using F dringD(2) by (auto simp: ring_on_def)
  then obtain as cs where split: "F = as @ bh # cs"
    using bh(1) by (metis split_list)
  obtain n p where np: "b_next_free (buf s bh) = Some n" "b_prev_free (buf s bh) = Some p"
    using dring_links [OF F'(1)] bh(1) F'(3) by blast
  have rest: "as @ cs \<noteq> []"
    using split F'(3) bh(2) by auto
  have r: "dring (\<lambda>b. b_next_free (buf s b)) (\<lambda>b. b_prev_free (buf s b)) (as @ bh # cs)"
    using F'(1) split by simp
  note un = dring_unlink [OF r rest np(2,1)]
  have other: "n \<noteq> bh" "p \<noteq> bh"
    using un(2,3) rest split F'(4) hd_in_set [of "cs @ as"] last_in_set [of "cs @ as"] by auto
  let ?t0 = "upd_buf n (\<lambda>b. b\<lparr>b_prev_free := Some p\<rparr>) (upd_buf p (\<lambda>b. b\<lparr>b_next_free := Some n\<rparr>) s)"
  define t where "t = (if free_list s = bh then ?t0\<lparr>free_list := n\<rparr> else ?t0)"
  have run: "unlink_free bh s = ret () t"
    using np other by (simp add: unlink_free_def t_def Let_def upd_buf_def)
  have "dring (\<lambda>b. b_next_free (buf t b)) (\<lambda>b. b_prev_free (buf t b)) (as @ cs)"
    by (rule dring_cong [OF un(1)]) (simp add: t_def upd_buf_def)
  moreover have "hd (as @ cs) = free_list t"
    using un(2) split F'(2,4) rest by (cases as) (auto simp: t_def upd_buf_def)
  moreover have "set (as @ cs) = B - {bh}"
    using split F'(3,4) by auto
  ultimately have "ring_on (B - {bh}) t (as @ cs)"
    by (simp add: ring_on_def)
  moreover have "same_chains s t" "same_contents s t"
    by (simp_all add: t_def same_chains_def same_contents_def upd_buf_def)
  ultimately show ?thesis
    by (auto simp: run kwp)
qed

lemma remove_from_queues_cache:
  assumes "cache_on B s" "bh \<in> B" "B \<noteq> {bh}"
  shows "totK (\<lambda>_ t. cache_on (B - {bh}) t \<and> same_contents s t) (remove_from_queues bh s)"
proof -
  obtain C F where C: "chains_on B s C" and F: "ring_on B s F"
    using assms(1) by (auto simp: cache_on_def)
  let ?u = "unlink_hash bh s"
  note fields = unlink_hash_fields [OF not_own_neighbour [OF C assms(2)]]
  obtain C' where C': "chains_on (B - {bh}) ?u C'"
    using unlink_hash_chains [OF C assms(2)] by blast
  have "ring_on B ?u F"
    using F by (rule ring_on_same) (simp add: same_ring_def fields)
  from unlink_free_ring [OF this assms(2,3)] show ?thesis
    unfolding remove_halves
  proof (rule totK_mono)
    fix x t
    assume t: "(\<exists>F'. ring_on (B - {bh}) t F') \<and> same_chains ?u t \<and> same_contents ?u t"
    then have "chains_on (B - {bh}) t C'"
      using C' chains_on_same by blast
    then show "cache_on (B - {bh}) t \<and> same_contents s t"
      using t same_contents_trans [OF fields(7)] by (auto simp: cache_on_def)
  qed
qed

section \<open>insert_into_queues\<close>

definition link_free :: "nat \<Rightarrow> unit kop" where
  "link_free bh s =
    (let s = upd_buf bh (\<lambda>b. b\<lparr>b_next_free := Some (free_list s)\<rparr>) s;
         s = upd_buf bh (\<lambda>b. b\<lparr>b_prev_free := b_prev_free (buf s (free_list s))\<rparr>) s
     in case b_prev_free (buf s (free_list s)) of
          None \<Rightarrow> fault s
        | Some p \<Rightarrow>
            let s = upd_buf p (\<lambda>b. b\<lparr>b_next_free := Some bh\<rparr>) s
            in ret () (upd_buf (free_list s) (\<lambda>b. b\<lparr>b_prev_free := Some bh\<rparr>) s))"

definition link_hash :: "nat \<Rightarrow> kstate \<Rightarrow> kstate" where
  "link_hash bh s =
    (let s = upd_buf bh (\<lambda>b. b\<lparr>b_prev := None, b_next := None\<rparr>) s
     in if b_dev (buf s bh) = 0 then s
        else
          let h = hashfn (b_dev (buf s bh)) (b_blocknr (buf s bh));
              s = upd_buf bh (\<lambda>b. b\<lparr>b_next := hash_table s h\<rparr>) s;
              s = set_hash h (Some bh) s
          in (case b_next (buf s bh) of
                None \<Rightarrow> s\<lparr>null_b_prev := Some bh\<rparr>
              | Some n \<Rightarrow> upd_buf n (\<lambda>b. b\<lparr>b_prev := Some bh\<rparr>) s))"

lemma insert_halves: "insert_into_queues bh s = bindK (link_free bh s) (\<lambda>_ s. ret () (link_hash bh s))"
  by (simp add: insert_into_queues_def link_free_def link_hash_def Let_def bindK_def ret_def fault_def split: option.split)

lemma link_free_ring:
  assumes F: "ring_on B s F" and bh: "bh \<notin> B"
  shows "totK (\<lambda>_ t. ring_on (insert bh B) t (F @ [bh]) \<and> same_chains s t \<and> same_contents s t) (link_free bh s)"
proof -
  have F': "dring (\<lambda>b. b_next_free (buf s b)) (\<lambda>b. b_prev_free (buf s b)) F" "hd F = free_list s" "set F = B" "F \<noteq> []"
    using F dringD(1) by (auto simp: ring_on_def)
  then have ends: "b_prev_free (buf s (free_list s)) = Some (last F)" "free_list s \<noteq> bh" "last F \<noteq> bh"
    using dring_ends [OF F'(1)] bh hd_in_set [OF F'(4)] last_in_set [OF F'(4)] by auto
  define t where "t = upd_buf (free_list s) (\<lambda>b. b\<lparr>b_prev_free := Some bh\<rparr>) (upd_buf (last F) (\<lambda>b. b\<lparr>b_next_free := Some bh\<rparr>)
    (upd_buf bh (\<lambda>b. b\<lparr>b_next_free := Some (free_list s), b_prev_free := Some (last F)\<rparr>) s))"
  have run: "link_free bh s = ret () t"
    using ends by (simp add: link_free_def t_def Let_def upd_buf_def)
  have "dring (\<lambda>b. b_next_free (buf t b)) (\<lambda>b. b_prev_free (buf t b)) (F @ [bh])"
    by (rule dring_insert [OF F'(1)]) (use bh ends F'(2,3) in \<open>auto simp: t_def upd_buf_def\<close>)
  then have "ring_on (insert bh B) t (F @ [bh])"
    using F' by (simp add: ring_on_def t_def upd_buf_def)
  moreover have "same_chains s t" "same_contents s t"
    by (simp_all add: t_def same_chains_def same_contents_def upd_buf_def)
  ultimately show ?thesis
    by (simp add: run kwp)
qed

lemma link_hash_fields:
  assumes "bucket (hash_table s) (key_hash s bh) \<noteq> Some bh"
  defines "t \<equiv> link_hash bh s"
  shows "b_next (buf t a) = (if a = bh then (if b_dev (buf s bh) = 0 then None else bucket (hash_table s) (key_hash s bh)) else b_next (buf s a))"
    and "b_prev (buf t a) = (if a = bh then None
           else if b_dev (buf s bh) \<noteq> 0 \<and> bucket (hash_table s) (key_hash s bh) = Some a then Some bh else b_prev (buf s a))"
    and "bucket (hash_table t) h = (if b_dev (buf s bh) \<noteq> 0 \<and> h = key_hash s bh then Some bh else bucket (hash_table s) h)"
    and "same_ring s t" "same_contents s t"
  using assms(1)
  by (auto simp: t_def link_hash_def Let_def upd_buf_def set_hash_def key_hash_def same_contents_def same_ring_def bucket_def split: option.split)

lemma link_hash_bucket:
  assumes C: "chains_on B s C" and bh: "bh \<notin> B"
  shows "dchain (\<lambda>b. b_next (buf (link_hash bh s) b)) (\<lambda>b. b_prev (buf (link_hash bh s) b))
      (bucket (hash_table (link_hash bh s)) h) (if b_dev (buf s bh) \<noteq> 0 \<and> h = key_hash s bh then bh # C h else C h)"
proof -
  let ?t = "link_hash bh s" and ?h = "key_hash s bh"
  note ch = chains_onD(1) [OF C] and setC = chains_onD(2) [OF C]
  have bhC: "bh \<notin> set (C h)" for h
    using bh setC [of h] by auto
  then have "bucket (hash_table s) ?h \<noteq> Some bh"
    using chains_onD(3) [OF C] by blast
  note fields = link_hash_fields [OF this]
  show ?thesis
  proof (cases "b_dev (buf s bh) \<noteq> 0 \<and> h = ?h")
    case True
    have "dchain (\<lambda>b. b_next (buf ?t b)) (\<lambda>b. b_prev (buf ?t b)) (Some bh) (bh # C h)"
    proof (rule dchain_push [OF ch bhC])
      show "b_next (buf ?t bh) = bucket (hash_table s) h" "b_prev (buf ?t bh) = None"
        using True by (simp_all add: fields(1,2))
      fix a
      assume a: "a \<in> set (C h)"
      then have "a \<noteq> bh" "bucket (hash_table s) h = Some (hd (C h))"
        using bhC dchain_start [OF ch [of h]] by auto
      then show "b_next (buf ?t a) = b_next (buf s a)"
        "b_prev (buf ?t a) = (if a = hd (C h) then Some bh else b_prev (buf s a))"
        using True by (auto simp: fields(1,2))
    qed
    then show ?thesis
      using True by (simp add: fields(3))
  next
    case False
    have "dchain (\<lambda>b. b_next (buf ?t b)) (\<lambda>b. b_prev (buf ?t b)) (bucket (hash_table s) h) (C h)"
    proof (rule dchain_cong [OF ch])
      fix a
      assume a: "a \<in> set (C h)"
      then have "b_dev (buf s bh) \<noteq> 0 \<longrightarrow> bucket (hash_table s) ?h \<noteq> Some a"
        using False chains_onD(3) [OF C, of ?h a] setC [of h] setC [of ?h] by auto
      then show "b_next (buf ?t a) = b_next (buf s a) \<and> b_prev (buf ?t a) = b_prev (buf s a)"
        using a bhC by (auto simp: fields(1,2))
    qed
    then show ?thesis
      using False by (auto simp: fields(3))
  qed
qed

lemma link_hash_chains:
  assumes C: "chains_on B s C" and bh: "bh \<notin> B"
    and alone: "b_dev (buf s bh) \<noteq> 0 \<Longrightarrow> \<forall>b \<in> B. \<not> holds s b (b_dev (buf s bh)) (b_blocknr (buf s bh))"
  shows "\<exists>C'. chains_on (insert bh B) (link_hash bh s) C'" "same_ring s (link_hash bh s)" "same_contents s (link_hash bh s)"
proof -
  let ?t = "link_hash bh s" and ?h = "key_hash s bh"
  note setC = chains_onD(2) [OF C]
  have "bucket (hash_table s) ?h \<noteq> Some bh"
    using bh chains_onD(2,3) [OF C, of ?h] by fastforce
  note fields = link_hash_fields [OF this]
  show "same_ring s ?t" "same_contents s ?t"
    by (rule fields(4), rule fields(5))
  note same = same_contents_keys [OF fields(5)]
  have "chains_on (insert bh B) ?t (\<lambda>h. if b_dev (buf s bh) \<noteq> 0 \<and> h = ?h then bh # C h else C h)"
    unfolding chains_on_def
  proof (intro conjI allI ballI impI link_hash_bucket [OF C bh])
    show "set (if b_dev (buf s bh) \<noteq> 0 \<and> h = ?h then bh # C h else C h)
        = {b \<in> insert bh B. b_dev (buf ?t b) \<noteq> 0 \<and> key_hash ?t b = h}" for h
      using setC [of h] same by auto
    fix b
    assume b: "b \<in> insert bh B"
    show "b = c" if "c \<in> insert bh B" "b_dev (buf ?t b) \<noteq> 0" "holds ?t c (b_dev (buf ?t b)) (b_blocknr (buf ?t b))" for c
      using C b that fields(5) alone by (auto simp: chains_on_def same_contents_def holds_def)
    assume dev: "b_dev (buf ?t b) = 0"
    have "b_dev (buf s bh) \<noteq> 0 \<longrightarrow> bucket (hash_table s) ?h \<noteq> Some b"
      using chains_onD(2,3) [OF C, of ?h] dev same by auto
    then show "b_next (buf ?t b) = None" "b_prev (buf ?t b) = None"
      using C b dev same by (auto simp: chains_on_def fields(1,2))
  qed
  then show "\<exists>C'. chains_on (insert bh B) ?t C'"
    by blast
qed

lemma insert_into_queues_cache:
  assumes "cache_on B s" "bh \<notin> B"
    and alone: "b_dev (buf s bh) \<noteq> 0 \<Longrightarrow> \<forall>b \<in> B. \<not> holds s b (b_dev (buf s bh)) (b_blocknr (buf s bh))"
  shows "totK (\<lambda>_ t. cache_on (insert bh B) t \<and> same_contents s t) (insert_into_queues bh s)"
proof -
  obtain C F where C: "chains_on B s C" and F: "ring_on B s F"
    using assms(1) by (auto simp: cache_on_def)
  show ?thesis
    unfolding insert_halves totK_bindK totK_ret
  proof (rule totK_mono [OF link_free_ring [OF F assms(2)]])
    fix x t
    assume t: "ring_on (insert bh B) t (F @ [bh]) \<and> same_chains s t \<and> same_contents s t"
    then have "chains_on B t C"
      using C chains_on_same by blast
    moreover have "b_dev (buf t bh) \<noteq> 0 \<Longrightarrow> \<forall>b \<in> B. \<not> holds t b (b_dev (buf t bh)) (b_blocknr (buf t bh))"
      using alone t by (simp add: same_contents_def holds_def)
    ultimately show "cache_on (insert bh B) (link_hash bh t) \<and> same_contents s (link_hash bh t)"
      using link_hash_chains [of B t C bh] assms(2) t ring_on_same same_contents_trans unfolding cache_on_def by blast
  qed
qed

end
