(* ===== verification/Get_Block.thy ===== *)
theory Get_Block
  imports Cache
begin

text \<open>
  Looking blocks up and taking buffers: \<open>find_buffer\<close> is a search through all the buffers, \<open>getblk\<close> gives the one
  buffer that holds the block, and \<open>bread\<close> delivers what the disk holds. The structure of the cache is an
  invariant of the routines of the file system.
\<close>

unbundle bit_operations_syntax

section \<open>Looking a block up\<close>

lemma find_in_chain_search:
  "dseg (\<lambda>b. b_next (buf s b)) pv p x as q None \<Longrightarrow> length as \<le> k \<Longrightarrow>
    find_in_chain k x dev block s = ret (find (\<lambda>b. holds s b dev block) as) s"
proof (induction as arbitrary: p x k)
  case (Cons a as)
  then show ?case by (cases k) (auto simp: holds_def)
qed simp

text \<open>The plain search through all the buffers.\<close>

definition cached :: "kstate \<Rightarrow> u16 \<Rightarrow> u32 \<Rightarrow> nat option" where
  "cached s dev block = find (\<lambda>b. dev \<noteq> 0 \<and> holds s b dev block) [0..<NR_BUFFERS s]"

lemma cached_Some: "cached s dev block = Some b \<Longrightarrow> dev \<noteq> 0 \<and> b < NR_BUFFERS s \<and> holds s b dev block"
  by (auto simp: cached_def find_Some_iff)

lemma cached_None: "cached s dev block = None \<longleftrightarrow> (dev \<noteq> 0 \<longrightarrow> (\<forall>b < NR_BUFFERS s. \<not> holds s b dev block))"
  by (auto simp: cached_def find_None_iff)

lemma find_unique:
  assumes "\<And>b. b \<in> set as \<and> P b \<longleftrightarrow> b \<in> set bs \<and> Q b" "\<And>b c. b \<in> set bs \<Longrightarrow> c \<in> set bs \<Longrightarrow> Q b \<Longrightarrow> Q c \<Longrightarrow> b = c"
  shows "find P as = find Q bs"
proof (cases "find P as")
  case None
  then have "find Q bs = None"
    using assms(1) by (auto simp: find_None_iff)
  then show ?thesis using None by simp
next
  case (Some b)
  then have b: "b \<in> set bs" "Q b"
    using assms(1) [of b] by (auto simp: find_Some_iff)
  show ?thesis
  proof (cases "find Q bs")
    case None
    then show ?thesis using b by (auto simp: find_None_iff)
  next
    case (Some c)
    then have "b = c"
      using b assms(2) [of b c] by (auto simp: find_Some_iff)
    then show ?thesis
      using \<open>find P as = Some b\<close> Some by simp
  qed
qed

lemma cache_ok_unique:
  assumes "cache_ok s" "dev \<noteq> 0" "b < NR_BUFFERS s" "c < NR_BUFFERS s" "holds s b dev block" "holds s c dev block"
  shows "b = c"
proof -
  obtain C where "chains_on {..<NR_BUFFERS s} s C"
    using assms(1) by (auto simp: cache_ok_def cache_on_def)
  then have "\<forall>b \<in> {..<NR_BUFFERS s}. \<forall>c \<in> {..<NR_BUFFERS s}. b_dev (buf s b) \<noteq> 0 \<longrightarrow>
      holds s c (b_dev (buf s b)) (b_blocknr (buf s b)) \<longrightarrow> b = c"
    by (simp add: chains_on_def)
  moreover have "b_dev (buf s b) = dev" "b_blocknr (buf s b) = block"
    using assms(5) by (simp_all add: holds_def)
  ultimately show "b = c"
    using assms(2,3,4,6) by auto
qed

lemma cached_eq:
  assumes "cache_ok s" "dev \<noteq> 0" "b < NR_BUFFERS s" "holds s b dev block"
  shows "cached s dev block = Some b"
proof (cases "cached s dev block")
  case None
  then show ?thesis using assms by (auto simp: cached_None)
next
  case (Some c)
  then show ?thesis
    using cached_Some [OF Some] cache_ok_unique [OF assms(1,2)] assms(3,4) by auto
qed

lemma find_buffer_cached:
  assumes ok: "cache_ok s"
  shows "find_buffer dev block s = ret (cached s dev block) s"
proof -
  obtain C where C: "chains_on {..<NR_BUFFERS s} s C"
    using ok by (auto simp: cache_ok_def cache_on_def)
  let ?h = "hashfn dev block"
  have setC: "set (C ?h) = {b \<in> {..<NR_BUFFERS s}. b_dev (buf s b) \<noteq> 0 \<and> key_hash s b = ?h}"
    using C by (simp add: chains_on_def)
  obtain q where q: "dseg (\<lambda>b. b_next (buf s b)) (\<lambda>b. b_prev (buf s b)) None (bucket (hash_table s) ?h) (C ?h) q None" "distinct (C ?h)"
    using C unfolding chains_on_def dchain_def by blast
  have "length (C ?h) = card (set (C ?h))"
    using q(2) by (simp add: distinct_card)
  also have "\<dots> \<le> card {..<NR_BUFFERS s}"
    by (rule card_mono) (auto simp: setC)
  finally have "find_buffer dev block s = ret (find (\<lambda>b. holds s b dev block) (C ?h)) s"
    unfolding find_buffer_def
    by (intro find_in_chain_search [OF q(1) [unfolded bucket_hash]]) simp
  moreover have "find (\<lambda>b. holds s b dev block) (C ?h) = cached s dev block"
    unfolding cached_def
    by (rule find_unique) (use setC cache_ok_unique [OF ok, of dev] in \<open>auto simp: holds_def key_hash_def\<close>)
  ultimately show ?thesis
    by simp
qed

section \<open>getblk\<close>

text \<open>What is done to the buffer that is taken.\<close>

definition taken :: "kstate \<Rightarrow> nat \<Rightarrow> u16 \<Rightarrow> u32 \<Rightarrow> kstate \<Rightarrow> bool" where
  "taken s bh dev block t \<longleftrightarrow>
    cache_ok t \<and> same_contents (upd_buf bh (\<lambda>b. b\<lparr>b_count := 1, b_dirt := 0, b_uptodate := 0, b_dev := dev, b_blocknr := block\<rparr>) s) t"

lemma cache_on_other:
  assumes "cache_on B s" "bh \<notin> B" and f: "\<And>b. b_next (f b) = b_next b \<and> b_prev (f b) = b_prev b
      \<and> b_next_free (f b) = b_next_free b \<and> b_prev_free (f b) = b_prev_free b"
  shows "cache_on B (upd_buf bh f s)"
proof -
  obtain C F where C: "chains_on B s C" and F: "ring_on B s F"
    using assms(1) by (auto simp: cache_on_def)
  have same: "buf (upd_buf bh f s) b = buf s b" if "b \<in> B" for b
    using that assms(2) by (auto simp: upd_buf_def)
  have "chains_on B (upd_buf bh f s) C"
    unfolding chains_on_def
  proof (intro conjI allI ballI impI)
    fix h
    show "dchain (\<lambda>b. b_next (buf (upd_buf bh f s) b)) (\<lambda>b. b_prev (buf (upd_buf bh f s) b)) (bucket (hash_table (upd_buf bh f s)) h) (C h)"
      by (rule dchain_cong [of "\<lambda>b. b_next (buf s b)" "\<lambda>b. b_prev (buf s b)"])
        (use C f in \<open>simp_all add: chains_on_def upd_buf_def\<close>)
    show "set (C h) = {b \<in> B. b_dev (buf (upd_buf bh f s) b) \<noteq> 0 \<and> key_hash (upd_buf bh f s) b = h}"
      using C same by (auto simp: chains_on_def key_hash_def)
    fix b c
    assume "b \<in> B" "c \<in> B" "b_dev (buf (upd_buf bh f s) b) \<noteq> 0"
      "holds (upd_buf bh f s) c (b_dev (buf (upd_buf bh f s) b)) (b_blocknr (buf (upd_buf bh f s) b))"
    then show "b = c"
      using C same unfolding chains_on_def holds_def by metis
  qed (use C same in \<open>simp_all add: chains_on_def\<close>)
  moreover have "ring_on B (upd_buf bh f s) F"
    by (rule ring_on_same [OF F]) (simp add: same_ring_def upd_buf_def f)
  ultimately show ?thesis
    by (auto simp: cache_on_def)
qed

lemma take_buffer_cache:
  assumes ok: "cache_ok s" and bh: "bh < NR_BUFFERS s" and none: "cached s dev block = None"
  shows "totK (\<lambda>r t. r = bh \<and> taken s bh dev block t) (take_buffer dev block bh s)"
proof -
  let ?B = "{..<NR_BUFFERS s}"
  let ?s = "upd_buf bh (\<lambda>b. b\<lparr>b_count := 1, b_dirt := 0, b_uptodate := 0\<rparr>) s"
  have c: "cache_on ?B ?s"
    using ok by (auto simp: cache_ok_def intro: cache_on_same)
  have two: "?B \<noteq> {bh}"
    using ok lessThan_iff [of 0 "NR_BUFFERS s"] lessThan_iff [of 1 "NR_BUFFERS s"] unfolding cache_ok_def
    by (metis One_nat_def Suc_1 Suc_le_lessD lessI less_trans one_neq_zero singletonD zero_less_one)
  have "totK (\<lambda>_ t. cache_on (?B - {bh}) t \<and> same_contents ?s t) (remove_from_queues bh ?s)"
    using bh two by (intro remove_from_queues_cache [OF c]) simp_all
  then show ?thesis
    unfolding take_buffer_def totK_bindK totK_ret
  proof (rule totK_mono)
    fix x t
    assume t: "cache_on (?B - {bh}) t \<and> same_contents ?s t"
    let ?t = "upd_buf bh (\<lambda>b. b\<lparr>b_dev := dev, b_blocknr := block\<rparr>) t"
    have "cache_on (?B - {bh}) ?t"
      using t by (intro cache_on_other) simp_all
    moreover have "b_dev (buf ?t bh) \<noteq> 0 \<Longrightarrow> \<forall>b \<in> ?B - {bh}. \<not> holds ?t b (b_dev (buf ?t bh)) (b_blocknr (buf ?t bh))"
      using none t by (auto simp: cached_None holds_def same_contents_def upd_buf_def)
    ultimately have "totK (\<lambda>_ u. cache_on (insert bh (?B - {bh})) u \<and> same_contents ?t u) (insert_into_queues bh ?t)"
      by (intro insert_into_queues_cache) simp_all
    then show "totK (\<lambda>_ u. bh = bh \<and> taken s bh dev block u) (insert_into_queues bh ?t)"
    proof (rule totK_mono)
      fix y u
      assume u: "cache_on (insert bh (?B - {bh})) u \<and> same_contents ?t u"
      have "insert bh (?B - {bh}) = {..<NR_BUFFERS u}"
        using bh t u by (auto simp: same_contents_def upd_buf_def)
      then have "cache_ok u"
        using ok t u by (auto simp: cache_ok_def same_contents_def upd_buf_def)
      moreover have "same_contents (upd_buf bh (\<lambda>b. b\<lparr>b_count := 1, b_dirt := 0, b_uptodate := 0, b_dev := dev, b_blocknr := block\<rparr>) s) u"
        using t u by (auto simp: same_contents_def upd_buf_def)
      ultimately show "bh = bh \<and> taken s bh dev block u"
        by (simp add: taken_def)
    qed
  qed
qed

text \<open>The scan of the free list.\<close>

lemma next_free_less:
  assumes "cache_ok s" "b < NR_BUFFERS s"
  shows "\<exists>n < NR_BUFFERS s. b_next_free (buf s b) = Some n"
proof -
  obtain F where "ring_on {..<NR_BUFFERS s} s F"
    using assms(1) by (auto simp: cache_ok_def cache_on_def)
  then show ?thesis
    using dring_links(1) [of "\<lambda>b. b_next_free (buf s b)" "\<lambda>b. b_prev_free (buf s b)" F b] assms(2)
    by (auto simp: ring_on_def)
qed

lemma free_list_less:
  assumes "cache_ok s"
  shows "free_list s < NR_BUFFERS s"
proof -
  obtain F where "ring_on {..<NR_BUFFERS s} s F"
    using assms by (auto simp: cache_ok_def cache_on_def)
  then show ?thesis
    using dringD(1) [of "\<lambda>b. b_next_free (buf s b)" "\<lambda>b. b_prev_free (buf s b)" F] hd_in_set [of F]
    by (auto simp: ring_on_def)
qed

lemma scan_free_less:
  assumes "cache_ok s"
  shows "tmp < NR_BUFFERS s \<Longrightarrow> (\<And>b. bh = Some b \<Longrightarrow> b < NR_BUFFERS s) \<Longrightarrow>
    okK (\<lambda>r t. t = s \<and> (\<forall>b. r = Some b \<longrightarrow> b < NR_BUFFERS s)) (scan_free k bh tmp s)"
proof (induction k arbitrary: bh tmp)
  case 0
  then show ?case by (simp add: blocked_def kwp)
next
  case (Suc k)
  obtain n where n: "n < NR_BUFFERS s" "b_next_free (buf s tmp) = Some n"
    using next_free_less [OF assms Suc.prems(1)] by blast
  have "okK (\<lambda>r t. t = s \<and> (\<forall>b. r = Some b \<longrightarrow> b < NR_BUFFERS s)) (scan_free k bh' n s)"
    if "bh' = Some tmp \<or> bh' = bh" for bh'
    using that Suc.prems by (intro Suc.IH [OF n(1)]) auto
  then show ?case
    using Suc.prems n(2) by (auto simp: Let_def kwp)
qed

text \<open>A free and clean buffer is found when there is one.\<close>

definition idle :: "kstate \<Rightarrow> nat \<Rightarrow> bool" where
  "idle s b \<longleftrightarrow> b_count (buf s b) = 0 \<and> b_dirt (buf s b) = 0 \<and> b_lock (buf s b) = 0"

lemma idle_BADNESS: "idle s b \<longleftrightarrow> b_count (buf s b) = 0 \<and> BADNESS (buf s b) = 0"
  by (auto simp: idle_def BADNESS_def unsigned_eq_0_iff)

lemma scan_free_idle:
  "dseg (\<lambda>b. b_next_free (buf s b)) pv p (Some tmp) as q (Some (free_list s)) \<Longrightarrow> free_list s \<notin> set (tl as) \<Longrightarrow>
    length as \<le> k \<Longrightarrow> \<exists>b \<in> set as. idle s b \<Longrightarrow> (\<And>b. bh = Some b \<Longrightarrow> BADNESS (buf s b) \<noteq> 0) \<Longrightarrow>
    \<exists>b \<in> set as. idle s b \<and> scan_free k bh tmp s = ret (Some b) s"
proof (induction as arbitrary: p tmp k bh)
  case (Cons a as)
  then obtain k' where k: "k = Suc k'" "length as \<le> k'"
    by (cases k) auto
  have a: "a = tmp"
    using Cons.prems(1) by simp
  show ?case
  proof (cases "idle s tmp")
    case True
    then have "b_count (buf s tmp) = 0" "BADNESS (buf s tmp) = 0"
      by (simp_all add: idle_BADNESS)
    then have "scan_free k bh tmp s = ret (Some tmp) s"
      using k(1) Cons.prems(5) by (cases bh) auto
    then show ?thesis
      using True a by auto
  next
    case False
    let ?better = "b_count (buf s tmp) = 0 \<and> (case bh of None \<Rightarrow> True | Some b \<Rightarrow> BADNESS (buf s tmp) < BADNESS (buf s b))"
    let ?bh = "if ?better then Some tmp else bh"
    obtain b where b: "b \<in> set as" "idle s b"
      using Cons.prems(4) False a by auto
    then obtain c cs where cs: "as = c # cs"
      by (cases as) auto
    then have nx: "b_next_free (buf s tmp) = Some c" "c \<noteq> free_list s"
      using Cons.prems(1,2) by auto
    have "\<exists>b \<in> set as. idle s b \<and> scan_free k' ?bh c s = ret (Some b) s"
    proof (rule Cons.IH)
      show "dseg (\<lambda>b. b_next_free (buf s b)) pv (Some a) (Some c) as q (Some (free_list s))"
        using Cons.prems(1) nx(1) a by simp
      show "free_list s \<notin> set (tl as)" "\<exists>b \<in> set as. idle s b" "length as \<le> k'"
        using Cons.prems(2) cs b k(2) by auto
      show "BADNESS (buf s b) \<noteq> 0" if "?bh = Some b" for b
        using that False Cons.prems(5) by (auto simp: idle_BADNESS split: if_splits)
    qed
    moreover have "scan_free k bh tmp s = scan_free k' ?bh c s"
      using False nx k(1) by (auto simp: Let_def idle_BADNESS)
    ultimately show ?thesis
      by auto
  qed
qed simp

lemma scan_free_finds:
  assumes ok: "cache_ok s" and "\<exists>b < NR_BUFFERS s. idle s b"
  shows "\<exists>b < NR_BUFFERS s. idle s b \<and> scan_free (Suc (NR_BUFFERS s)) None (free_list s) s = ret (Some b) s"
proof -
  obtain F where F: "dring (\<lambda>b. b_next_free (buf s b)) (\<lambda>b. b_prev_free (buf s b)) F" "hd F = free_list s" "set F = {..<NR_BUFFERS s}"
    using ok by (auto simp: cache_ok_def cache_on_def ring_on_def)
  have "length F = NR_BUFFERS s"
    using dringD(2) [OF F(1)] F(3) distinct_card [of F] by simp
  moreover have "free_list s \<notin> set (tl F)"
    using dringD [OF F(1)] F(2) by (cases F) auto
  ultimately have "\<exists>b \<in> set F. idle s b \<and> scan_free (Suc (NR_BUFFERS s)) None (free_list s) s = ret (Some b) s"
    using F(1,2,3) assms(2)
    by (intro scan_free_idle [of s "\<lambda>b. b_prev_free (buf s b)" "Some (last F)" "free_list s" F "Some (last F)"])
      (auto simp: dring_def)
  then show ?thesis
    using F(3) by auto
qed

section \<open>The cache as an invariant\<close>

definition cache_of :: "nat \<Rightarrow> kstate \<Rightarrow> bool" where
  "cache_of n s \<longleftrightarrow> cache_ok s \<and> NR_BUFFERS s = n"

lemma cache_of_same: "cache_of n s \<Longrightarrow> same_links s t \<Longrightarrow> cache_of n t"
  using cache_ok_same by (auto simp: cache_of_def same_links_def)

interpretation cache: fs_data "cache_of n" for n
proof
  fix s f i w d inodes k m q g
  assume c: "cache_of n s"
  show "keeps_links f \<Longrightarrow> cache_of n (upd_buf i f s)"
    by (rule cache_of_same [OF c]) simp
  show "cache_of n (s\<lparr>buffer_wait := w\<rparr>)" "cache_of n (s\<lparr>disk := d\<rparr>)" "cache_of n (s\<lparr>inode_table := inodes\<rparr>)"
    "cache_of n (s\<lparr>last_inode := k\<rparr>)" "cache_of n (s\<lparr>mm := m\<rparr>)" "cache_of n (s\<lparr>sch := snd (Sched.wake_up q (sch s))\<rparr>)"
    "cache_of n (upd_super i g s)"
    by (rule cache_of_same [OF c], simp add: same_links_def upd_super_def)+
qed

text \<open>The result of \<open>getblk\<close>: a buffer with the block that was asked for.\<close>

definition got :: "nat \<Rightarrow> u16 \<Rightarrow> u32 \<Rightarrow> nat \<Rightarrow> kstate \<Rightarrow> bool" where
  "got n dev block bh t \<longleftrightarrow> cache_of n t \<and> bh < n \<and> holds t bh dev block"

lemma taken_got: "taken s bh dev block t \<Longrightarrow> cache_of n s \<Longrightarrow> bh < n \<Longrightarrow> got n dev block bh t"
  by (auto simp: taken_def got_def cache_of_def same_contents_def holds_def upd_buf_def)

lemma take_buffer_got:
  assumes "cache_of n s" "b < n" "cached s dev block = None"
  shows "okK (got n dev block) (take_buffer dev block b s)"
proof -
  have "totK (\<lambda>r t. r = b \<and> taken s b dev block t) (take_buffer dev block b s)"
    using assms by (intro take_buffer_cache) (simp_all add: cache_of_def)
  then show ?thesis
    by (rule okK_mono [OF totK_okK]) (use assms taken_got in blast)
qed

lemma getblk_with_got:
  assumes sync: "\<And>dev s. cache_of n s \<Longrightarrow> okK (\<lambda>_. cache_of n) (sync dev s)"
  shows "cache_of n s \<Longrightarrow> okK (got n dev block) (getblk_with sync k dev block s)"
proof (induction k arbitrary: s)
  case 0
  then show ?case by (simp add: blocked_def kwp)
next
  case (Suc k)
  have ok: "cache_ok s" "NR_BUFFERS s = n"
    using Suc.prems by (simp_all add: cache_of_def)
  have again: "okK (got n dev block) (getblk_with sync k dev block t)" if "cache_of n t" for t
    by (rule Suc.IH [OF that])
  show ?case
  proof (cases "cached s dev block")
    case (Some b)
    then have b: "b < n" "holds s b dev block"
      using cached_Some [OF Some] ok by simp_all
    have "cache_of n (upd_buf b (\<lambda>x. x\<lparr>b_count := b_count x + 1\<rparr>) s)"
      by (rule cache_of_same [OF Suc.prems]) simp
    then have "got n dev block b (upd_buf b (\<lambda>x. x\<lparr>b_count := b_count x + 1\<rparr>) s)"
      using b by (auto simp: got_def holds_def upd_buf_def)
    then show ?thesis
      using Some ok by (auto simp: get_hash_table_def find_buffer_cached wait_on_buffer_def blocked_def kwp)
  next
    case None
    have scan: "okK (\<lambda>r t. t = s \<and> (\<forall>b. r = Some b \<longrightarrow> b < n)) (scan_free (Suc (NR_BUFFERS s)) None (free_list s) s)"
      using scan_free_less [OF ok(1), of "free_list s" None "Suc (NR_BUFFERS s)"] free_list_less [OF ok(1)] ok(2) by simp
    define finish where "finish b s = bindK (clean_buffer sync k b s) (\<lambda>again s.
        if again then getblk_with sync k dev block s
        else bindK (find_buffer dev block s) (\<lambda>r s.
          if r \<noteq> None then getblk_with sync k dev block s else take_buffer dev block b s))" for b s
    have rest: "okK (got n dev block) (finish b s)" if b: "b < n" for b
      unfolding finish_def okK_bindK
    proof (rule okK_mono [OF cache.clean_buffer_fr [OF sync Suc.prems]])
      fix x t
      assume t: "cache_of n t"
      then have t': "cache_ok t" "NR_BUFFERS t = n"
        by (simp_all add: cache_of_def)
      note take = take_buffer_got [OF t b]
      show "okK (got n dev block) (if x then getblk_with sync k dev block t
        else bindK (find_buffer dev block t) (\<lambda>r s.
          if r \<noteq> None then getblk_with sync k dev block s else take_buffer dev block b s))"
        using again [OF t] t'(1) take by (simp add: find_buffer_cached kwp)
    qed
    show ?thesis
      unfolding getblk_with.simps finish_def [symmetric]
      using None ok(1) scan again [OF Suc.prems] rest
      by (auto simp: get_hash_table_def find_buffer_cached wait_on_buffer_def blocked_def kwp simp del: scan_free.simps
          elim!: okK_mono split: option.split)
  qed
qed

interpretation cache: fs_base "cache_of n" for n
proof
  fix sync :: "u16 \<Rightarrow> unit kop" and k dev blk s
  assume "\<And>dev s. cache_of n s \<Longrightarrow> okK (\<lambda>_. cache_of n) (sync dev s)" "cache_of n s"
  then show "okK (\<lambda>_. cache_of n) (getblk_with sync k dev blk s)"
    by (rule okK_mono [OF getblk_with_got]) (simp_all add: got_def)
qed

interpretation got: fs_data "got n dev block bh" for n dev block bh
proof
  fix s f i w d inodes k m q g
  assume c: "got n dev block bh s"
  show "keeps_links f \<Longrightarrow> got n dev block bh (upd_buf i f s)"
    using c cache.I_data [of n s f i] by (auto simp: got_def holds_def upd_buf_def)
  show "got n dev block bh (s\<lparr>buffer_wait := w\<rparr>)" "got n dev block bh (s\<lparr>disk := d\<rparr>)" "got n dev block bh (s\<lparr>inode_table := inodes\<rparr>)"
    "got n dev block bh (s\<lparr>last_inode := k\<rparr>)" "got n dev block bh (s\<lparr>mm := m\<rparr>)"
    "got n dev block bh (s\<lparr>sch := snd (Sched.wake_up q (sch s))\<rparr>)"
    "(\<And>b. s_dev (g b) = s_dev b \<and> s_imount (g b) = s_imount b \<and> s_isup (g b) = s_isup b) \<Longrightarrow> got n dev block bh (upd_super i g s)"
    using c cache.I_super [of n s g i] by (simp_all add: got_def holds_def upd_super_def)
qed

lemma getblk_got: "cache_of n s \<Longrightarrow> okK (got n dev block) (getblk dev block s)"
  unfolding getblk_def by (rule getblk_with_got) (auto intro: cache.sync_dev_fr)

lemma bread_got:
  assumes "cache_of n s"
  shows "okK (\<lambda>r t. cache_of n t \<and> (\<forall>bh. r = Some bh \<longrightarrow> got n dev block bh t \<and> b_uptodate (buf t bh) \<noteq> 0)) (bread dev block s)"
  unfolding bread_def bread_with_def getblk_def [symmetric] okK_bindK
proof (rule okK_mono [OF getblk_got [OF assms]])
  fix bh t
  assume t: "got n dev block bh t"
  let ?Q = "\<lambda>r t. cache_of n t \<and> (\<forall>bh. r = Some bh \<longrightarrow> got n dev block bh t \<and> b_uptodate (buf t bh) \<noteq> 0)"
  have "okK (\<lambda>_ u. okK ?Q (bindK (wait_on_buffer bh u) (\<lambda>_ s.
        if b_uptodate (buf s bh) \<noteq> 0 then ret (Some bh) s else bindK (brelse (Some bh) s) (\<lambda>_ s. ret None s))))
      (ll_rw_block READ bh t)"
  proof (rule okK_mono [OF got.ll_rw_block_fr [OF t]])
    fix u
    assume u: "got n dev block bh u"
    then have "okK (\<lambda>_. cache_of n) (brelse (Some bh) u)"
      by (intro cache.brelse_fr) (simp add: got_def)
    then show "okK ?Q (bindK (wait_on_buffer bh u) (\<lambda>_ s.
        if b_uptodate (buf s bh) \<noteq> 0 then ret (Some bh) s else bindK (brelse (Some bh) s) (\<lambda>_ s. ret None s)))"
      using u by (auto simp: wait_on_buffer_def blocked_def got_def kwp elim!: okK_mono)
  qed
  then show "okK ?Q (if b_uptodate (buf t bh) \<noteq> 0 then ret (Some bh) t
      else bindK (ll_rw_block READ bh t) (\<lambda>_ s. bindK (wait_on_buffer bh s) (\<lambda>_ s.
        if b_uptodate (buf s bh) \<noteq> 0 then ret (Some bh) s else bindK (brelse (Some bh) s) (\<lambda>_ s. ret None s))))"
    using t by (simp add: kwp got_def)
qed

lemma dring_upto:
  assumes "0 < n" "\<And>i. i < n \<Longrightarrow> nx i = Some (if i = n - 1 then 0 else i + 1)" "\<And>i. i < n \<Longrightarrow> pv i = Some (if i = 0 then n - 1 else i - 1)"
  shows "dring nx pv [0..<n]"
proof -
  have "dseg nx pv (pv 0) (Some 0) [0..<k] (if k = 0 then pv 0 else Some (k - 1)) (Some (if k = n then 0 else k))" if "k \<le> n" for k
    using that
  proof (induction k)
    case (Suc k)
    then show ?case
      using assms(2) [of k] assms(3) [of k] by (auto simp: dseg_append)
  qed (use assms(1) in simp)
  from this [of n] show ?thesis
    using assms(1) assms(3) [of 0] by (simp add: dring_def)
qed

lemma buffer_init_cache:
  assumes "2 \<le> n"
  shows "cache_ok (buffer_init n s)"
proof -
  let ?s = "buffer_init n s"
  have "chains_on {..<n} ?s (\<lambda>_. [])"
    by (auto simp: chains_on_def dchain_def bucket_def buffer_init_def)
  moreover have "ring_on {..<n} ?s [0..<n]"
    unfolding ring_on_def using assms by (auto simp: buffer_init_def intro!: dring_upto)
  ultimately show ?thesis
    using assms by (auto simp: cache_ok_def cache_on_def buffer_init_def)
qed

section \<open>The guarantees\<close>

lemma cache_of_self: "cache_ok s \<Longrightarrow> cache_of (NR_BUFFERS s) s"
  by (simp add: cache_of_def)

lemma cache_okK: "okK (\<lambda>_. cache_of n) m \<Longrightarrow> okK (\<lambda>_. cache_ok) m"
  by (erule okK_mono) (simp add: cache_of_def)

text \<open>
  C6. The buffer cache stays consistent: \<open>buffer_init\<close> makes it so, \<open>getblk\<close> gives the one buffer that holds the
  block, \<open>bread\<close> gives it up to date or gives none, and these and the routines of the file system that are built
  on them keep every buffer of a device in the chain of its hash value, every block in at most one buffer,
  and all buffers in the ring of the free list.
\<close>

theorem buffer_cache_consistent:
  assumes ok: "cache_ok s"
  shows "okK (\<lambda>bh t. cache_ok t \<and> NR_BUFFERS t = NR_BUFFERS s \<and> bh < NR_BUFFERS s \<and> holds t bh dev block
          \<and> (\<forall>b < NR_BUFFERS s. dev \<noteq> 0 \<and> holds t b dev block \<longrightarrow> b = bh)) (getblk dev block s)
    \<and> okK (\<lambda>r t. cache_ok t \<and> (\<forall>bh. r = Some bh \<longrightarrow> holds t bh dev block \<and> b_uptodate (buf t bh) \<noteq> 0)) (bread dev block s)
    \<and> okK (\<lambda>_. cache_ok) (brelse b s) \<and> okK (\<lambda>_. cache_ok) (sync_dev dev s) \<and> okK (\<lambda>_. cache_ok) (new_block dev s)
    \<and> okK (\<lambda>_. cache_ok) (free_block dev zone s) \<and> okK (\<lambda>_. cache_ok) (truncate i s) \<and> okK (\<lambda>_. cache_ok) (iget dev nr s)
    \<and> okK (\<lambda>_. cache_ok) (iput j s) \<and> okK (\<lambda>_. cache_ok) (namei path s) \<and> okK (\<lambda>_. cache_ok) (open_namei path flag mode s)
    \<and> (2 \<le> n \<longrightarrow> cache_ok (buffer_init n s))"
proof (intro conjI impI)
  note c = cache_of_self [OF ok]
  show "okK (\<lambda>bh t. cache_ok t \<and> NR_BUFFERS t = NR_BUFFERS s \<and> bh < NR_BUFFERS s \<and> holds t bh dev block
      \<and> (\<forall>b < NR_BUFFERS s. dev \<noteq> 0 \<and> holds t b dev block \<longrightarrow> b = bh)) (getblk dev block s)"
    by (rule okK_mono [OF getblk_got [OF c]]) (auto simp: got_def cache_of_def intro: cache_ok_unique)
  show "okK (\<lambda>r t. cache_ok t \<and> (\<forall>bh. r = Some bh \<longrightarrow> holds t bh dev block \<and> b_uptodate (buf t bh) \<noteq> 0)) (bread dev block s)"
    by (rule okK_mono [OF bread_got [OF c]]) (auto simp: got_def cache_of_def)
  show "okK (\<lambda>_. cache_ok) (brelse b s)" "okK (\<lambda>_. cache_ok) (sync_dev dev s)" "okK (\<lambda>_. cache_ok) (new_block dev s)"
    "okK (\<lambda>_. cache_ok) (free_block dev zone s)" "okK (\<lambda>_. cache_ok) (truncate i s)" "okK (\<lambda>_. cache_ok) (iget dev nr s)"
    "okK (\<lambda>_. cache_ok) (iput j s)" "okK (\<lambda>_. cache_ok) (namei path s)" "okK (\<lambda>_. cache_ok) (open_namei path flag mode s)"
    using c by (auto intro!: cache_okK cache.brelse_fr cache.sync_dev_fr cache.new_block_fr cache.free_block_fr cache.truncate_fr
        cache.iget_fr cache.iput_fr cache.namei_fr cache.open_namei_fr)
qed (rule buffer_init_cache)

text \<open>The cache of a machine with four buffers.\<close>

definition small_cache :: kstate where
  "small_cache = (buffer_init 4 demo_kernel)\<lparr>blk_fn := (\<lambda>m. m = 3), disk := (\<lambda>_ _. Some (\<lambda>_. 7))\<rparr>"

lemma small_cache_ok: "cache_ok small_cache"
  using buffer_init_cache [of 4 demo_kernel] by (rule cache_ok_same) (simp_all add: small_cache_def same_links_def)

theorem buffer_cache_consistent_witness:
  "okK (\<lambda>bh t. cache_ok t \<and> holds t bh 0x301 1) (getblk 0x301 1 small_cache) \<and> cache_ok (buffer_init 2 small_cache)"
proof -
  have "okK (\<lambda>bh t. cache_ok t \<and> holds t bh 0x301 1) (getblk 0x301 1 small_cache)"
    by (rule okK_mono [OF buffer_cache_consistent [OF small_cache_ok, THEN conjunct1]]) simp
  then show ?thesis
    by (simp add: buffer_init_cache)
qed

text \<open>The request of \<open>bread\<close> for a buffer that nobody uses.\<close>

lemma read_fresh_buffer:
  assumes "b_lock (buf s bh) = 0" "b_uptodate (buf s bh) = 0" "holds s bh dev block"
    "MAJOR dev < NR_BLK_DEV" "blk_fn s (MAJOR dev)" "disk s dev block = Some d"
  shows "totK (\<lambda>_ t. same_links s t \<and> b_lock (buf t bh) = 0 \<and> b_uptodate (buf t bh) = 1 \<and> b_data (buf t bh) = d
    \<and> b_count (buf t bh) = b_count (buf s bh) \<and> disk t = disk s \<and> blk_fn t = blk_fn s \<and> inode_table t = inode_table s
    \<and> super_table t = super_table s \<and> (\<forall>b. b \<noteq> bh \<longrightarrow> buf t b = buf s b)) (ll_rw_block READ bh s)"
  using assms
  by (simp add: ll_rw_block_def make_request_def wait_on_buffer_def holds_def device_request_def unlock_buffer_def
      split_beta Let_def upd_buf_def same_links_def kwp)

lemma getblk_Suc: "getblk = getblk_with sync_dev (Suc 99)"
  by (simp add: getblk_def REPEAT_FUEL_def)

lemma getblk_hit:
  assumes "cache_ok s" "cached s dev block = Some b" "b_lock (buf s b) = 0"
  shows "getblk dev block s = ret b (upd_buf b (\<lambda>x. x\<lparr>b_count := b_count x + 1\<rparr>) s)"
  unfolding getblk_Suc getblk_with.simps
  using assms by (simp add: get_hash_table_def find_buffer_cached wait_on_buffer_def upd_buf_def)

lemma getblk_miss:
  assumes ok: "cache_ok s" "cached s dev block = None" and free: "\<exists>b < NR_BUFFERS s. idle s b"
  shows "totK (\<lambda>bh t. bh < NR_BUFFERS s \<and> idle s bh \<and> taken s bh dev block t) (getblk dev block s)"
proof -
  obtain b where b: "b < NR_BUFFERS s" "idle s b" "scan_free (Suc (NR_BUFFERS s)) None (free_list s) s = ret (Some b) s"
    using scan_free_finds [OF ok(1) free] by blast
  have "clean_buffer sync_dev 99 b s = ret False s"
    using b(2) by (simp add: idle_def numeral_eq_Suc)
  then have "getblk dev block s = take_buffer dev block b s"
    unfolding getblk_Suc getblk_with.simps
    using ok b by (simp add: get_hash_table_def find_buffer_cached wait_on_buffer_def idle_def del: scan_free.simps)
  then show ?thesis
    using take_buffer_cache [OF ok(1) b(1) ok(2)] b by (auto elim!: totK_mono)
qed

text \<open>\<open>bh\<close> is a buffer with the block and the bytes \<open>d\<close>; nothing else has changed since \<open>s\<close>.\<close>

definition fetched :: "kstate \<Rightarrow> u16 \<Rightarrow> u32 \<Rightarrow> block_data \<Rightarrow> nat \<Rightarrow> kstate \<Rightarrow> bool" where
  "fetched s dev block d bh t \<longleftrightarrow> cache_ok t \<and> bh < NR_BUFFERS s \<and> cached t dev block = Some bh
    \<and> b_uptodate (buf t bh) \<noteq> 0 \<and> b_lock (buf t bh) = 0 \<and> b_data (buf t bh) = d
    \<and> NR_BUFFERS t = NR_BUFFERS s \<and> disk t = disk s \<and> blk_fn t = blk_fn s \<and> inode_table t = inode_table s
    \<and> super_table t = super_table s
    \<and> (\<forall>b. b \<noteq> bh \<longrightarrow> b_dev (buf t b) = b_dev (buf s b) \<and> b_blocknr (buf t b) = b_blocknr (buf s b)
             \<and> b_data (buf t b) = b_data (buf s b) \<and> b_uptodate (buf t b) = b_uptodate (buf s b)
             \<and> b_dirt (buf t b) = b_dirt (buf s b) \<and> b_count (buf t b) = b_count (buf s b))"

lemma bread_miss:
  assumes ok: "cache_ok s" and dev: "dev \<noteq> 0" "MAJOR dev < NR_BLK_DEV" "blk_fn s (MAJOR dev)" and d: "disk s dev block = Some d"
    and None: "cached s dev block = None" and free: "\<exists>b < NR_BUFFERS s. idle s b"
  shows "totK (\<lambda>r t. \<exists>bh. r = Some bh \<and> fetched s dev block d bh t \<and> idle s bh \<and> b_count (buf t bh) = 1) (bread dev block s)"
  unfolding bread_def bread_with_def getblk_def [symmetric] totK_bindK
proof (rule totK_mono [OF getblk_miss [OF ok None free]])
  fix bh t
  assume bh: "bh < NR_BUFFERS s \<and> idle s bh \<and> taken s bh dev block t"
  then have t: "cache_ok t" "NR_BUFFERS t = NR_BUFFERS s" "b_lock (buf t bh) = 0" "b_uptodate (buf t bh) = 0" "b_count (buf t bh) = 1"
    "holds t bh dev block" "blk_fn t = blk_fn s" "disk t = disk s" "inode_table t = inode_table s" "super_table t = super_table s"
    by (simp_all add: taken_def same_contents_def upd_buf_def holds_def idle_def)
  have same: "b_dev (buf t b) = b_dev (buf s b)" "b_blocknr (buf t b) = b_blocknr (buf s b)" "b_data (buf t b) = b_data (buf s b)"
    "b_uptodate (buf t b) = b_uptodate (buf s b)" "b_dirt (buf t b) = b_dirt (buf s b)" "b_count (buf t b) = b_count (buf s b)"
    if "b \<noteq> bh" for b
    using bh that by (simp_all add: taken_def same_contents_def upd_buf_def)
  have read: "totK (\<lambda>_ u. same_links t u \<and> b_lock (buf u bh) = 0 \<and> b_uptodate (buf u bh) = 1 \<and> b_data (buf u bh) = d
      \<and> b_count (buf u bh) = b_count (buf t bh) \<and> disk u = disk t \<and> blk_fn u = blk_fn t \<and> inode_table u = inode_table t
      \<and> super_table u = super_table t \<and> (\<forall>b. b \<noteq> bh \<longrightarrow> buf u b = buf t b)) (ll_rw_block READ bh t)"
    using t dev d by (intro read_fresh_buffer) simp_all
  have "fetched s dev block d bh u \<and> idle s bh \<and> b_count (buf u bh) = 1 \<and> b_lock (buf u bh) = 0 \<and> b_uptodate (buf u bh) = 1"
    if u: "same_links t u \<and> b_lock (buf u bh) = 0 \<and> b_uptodate (buf u bh) = 1 \<and> b_data (buf u bh) = d
      \<and> b_count (buf u bh) = b_count (buf t bh) \<and> disk u = disk t \<and> blk_fn u = blk_fn t \<and> inode_table u = inode_table t
      \<and> super_table u = super_table t \<and> (\<forall>b. b \<noteq> bh \<longrightarrow> buf u b = buf t b)" for u
  proof -
    have "cache_ok u"
      by (rule cache_ok_same [OF t(1)]) (use u in blast)
    moreover from this have "cached u dev block = Some bh"
      using u t(2,6) bh dev(1) by (intro cached_eq) (auto simp: same_links_def holds_def)
    moreover have "NR_BUFFERS u = NR_BUFFERS s"
      using u t(2) by (simp add: same_links_def)
    ultimately show ?thesis
      using u t bh same by (simp add: fetched_def)
  qed
  then show "totK (\<lambda>r t. \<exists>bh. r = Some bh \<and> fetched s dev block d bh t \<and> idle s bh \<and> b_count (buf t bh) = 1)
    (if b_uptodate (buf t bh) \<noteq> 0 then ret (Some bh) t
     else bindK (ll_rw_block READ bh t) (\<lambda>_ s. bindK (wait_on_buffer bh s) (\<lambda>_ s.
       if b_uptodate (buf s bh) \<noteq> 0 then ret (Some bh) s else bindK (brelse (Some bh) s) (\<lambda>_ s. ret None s))))"
    using t(4) totK_mono [OF read] by (simp add: totK_bindK wait_on_buffer_def totK_ret)
qed

lemma bread_hit:
  assumes ok: "cache_ok s" and dev: "dev \<noteq> 0" and b: "cached s dev block = Some b" "b_lock (buf s b) = 0" "b_uptodate (buf s b) \<noteq> 0"
  shows "\<exists>t. bread dev block s = ret (Some b) t \<and> fetched s dev block (b_data (buf s b)) b t \<and> b_count (buf t b) = b_count (buf s b) + 1"
proof -
  have h: "b < NR_BUFFERS s" "holds s b dev block"
    using cached_Some [OF b(1)] by auto
  let ?t = "upd_buf b (\<lambda>x. x\<lparr>b_count := b_count x + 1\<rparr>) s"
  have "bread dev block s = ret (Some b) ?t"
    using getblk_hit [OF ok b(1,2)] b(3) by (simp add: bread_def bread_with_def getblk_def upd_buf_def bindK_ret)
  moreover have t: "cache_ok ?t"
    by (rule cache_ok_same [OF ok]) simp
  moreover have "cached ?t dev block = Some b"
    using h dev by (intro cached_eq [OF t]) (simp_all add: holds_def upd_buf_def)
  ultimately show ?thesis
    using b h by (intro exI [of _ ?t]) (simp add: fetched_def upd_buf_def)
qed

text \<open>
  C7. Reading through the cache. With a working driver, \<open>bread\<close> of a readable block succeeds when the block is
  cached up to date and not locked, or is not cached and some buffer is idle: it gives a buffer that holds the
  block, with the bytes of the cached buffer, or those of the disk. The buffer is counted once more, an idle one
  once; the disk and the contents of all the other buffers stay as they are.
\<close>

theorem bread_delivers:
  assumes ok: "cache_ok s" and dev: "dev \<noteq> 0" "MAJOR dev < NR_BLK_DEV" "blk_fn s (MAJOR dev)" and d: "disk s dev block = Some d"
    and buffer: "case cached s dev block of Some b \<Rightarrow> b_lock (buf s b) = 0 \<and> b_uptodate (buf s b) \<noteq> 0
      | None \<Rightarrow> \<exists>b < NR_BUFFERS s. idle s b"
  shows "totK (\<lambda>r t. cache_ok t \<and> disk t = disk s \<and> (\<exists>bh < NR_BUFFERS s. r = Some bh \<and> cached t dev block = Some bh
      \<and> b_uptodate (buf t bh) \<noteq> 0
      \<and> (case cached s dev block of
           Some b \<Rightarrow> bh = b \<and> b_data (buf t bh) = b_data (buf s b) \<and> b_count (buf t bh) = b_count (buf s b) + 1
         | None \<Rightarrow> idle s bh \<and> b_data (buf t bh) = d \<and> b_count (buf t bh) = 1)
      \<and> (\<forall>b. b \<noteq> bh \<longrightarrow> b_dev (buf t b) = b_dev (buf s b) \<and> b_blocknr (buf t b) = b_blocknr (buf s b)
               \<and> b_data (buf t b) = b_data (buf s b) \<and> b_uptodate (buf t b) = b_uptodate (buf s b)
               \<and> b_dirt (buf t b) = b_dirt (buf s b) \<and> b_count (buf t b) = b_count (buf s b)))) (bread dev block s)"
proof (cases "cached s dev block")
  case (Some b)
  then show ?thesis
    using bread_hit [OF ok dev(1) Some] buffer by (auto simp: fetched_def totK_ret)
next
  case None
  then show ?thesis
    using buffer by (intro totK_mono [OF bread_miss [OF ok dev d None]]) (auto simp: fetched_def)
qed

theorem bread_delivers_witness:
  "\<exists>bh t. bread 0x301 1 small_cache = Inr (Some bh, t) \<and> b_data (buf t bh) = (\<lambda>_. 7) \<and> cached t 0x301 1 = Some bh"
proof -
  have c: "cached small_cache 0x301 1 = None"
    by (simp add: cached_None holds_def small_cache_def buffer_init_def)
  have "idle small_cache 0" "0 < NR_BUFFERS small_cache"
    by (simp_all add: idle_def small_cache_def buffer_init_def)
  then have "\<exists>b < NR_BUFFERS small_cache. idle small_cache b"
    by blast
  then have "totK (\<lambda>r t. \<exists>bh. r = Some bh \<and> b_data (buf t bh) = (\<lambda>_. 7) \<and> cached t 0x301 1 = Some bh) (bread 0x301 1 small_cache)"
    using bread_delivers [OF small_cache_ok, of "0x301" 1 "\<lambda>_. 7"] c
    by (auto simp: small_cache_def MAJOR_def NR_BLK_DEV_def elim!: totK_mono)
  then show ?thesis
    by (auto simp: totK_def split: sum.splits)
qed

end
