(* ===== verification/Inode_Disk.thy ===== *)
theory Inode_Disk
  imports Get_Block
begin

text \<open>
  \<open>write_inode\<close> and \<open>read_inode\<close> of \<open>fs/inode.c\<close> through the buffer cache: where on the device an inode goes, in
  which bytes, and that what was written is read back.
\<close>

unbundle bit_operations_syntax

section \<open>The inode of the disk\<close>

text \<open>The layout of \<open>struct d_inode\<close>: the inode is in the 32 bytes from \<open>k\<close> on.\<close>

definition d_inode_at :: "block_data \<Rightarrow> nat \<Rightarrow> m_inode \<Rightarrow> bool" where
  "d_inode_at d k n \<longleftrightarrow> get_u16 d k = i_mode n \<and> get_u16 d (k + 2) = i_uid n \<and> get_u32 d (k + 4) = i_size n
    \<and> get_u32 d (k + 8) = i_mtime n \<and> d (k + 12) = i_gid n \<and> d (k + 13) = i_nlinks n
    \<and> (\<forall>z<9. get_u16 d (k + 14 + 2 * z) = i_zone n z)"

text \<open>The fields that an inode in memory shares with the one on the disk.\<close>

definition same_d_inode :: "m_inode \<Rightarrow> m_inode \<Rightarrow> bool" where
  "same_d_inode n m \<longleftrightarrow> i_mode m = i_mode n \<and> i_uid m = i_uid n \<and> i_size m = i_size n \<and> i_mtime m = i_mtime n
    \<and> i_gid m = i_gid n \<and> i_nlinks m = i_nlinks n \<and> (\<forall>z<9. i_zone m z = i_zone n z)"

lemma store_d_inode_at: "d_inode_at (store_d_inode n k d) k n"
proof -
  have "k + 32 \<notin> {k..<k + 32}"
    by simp
  from load_store_d_inode [OF this, of n d zero_inode]
  have l: "load_d_inode (store_d_inode n k d) k zero_inode = zero_inode\<lparr>i_mode := i_mode n, i_uid := i_uid n, i_size := i_size n,
      i_mtime := i_mtime n, i_gid := i_gid n, i_nlinks := i_nlinks n,
      i_zone := (\<lambda>z. if z < 9 then i_zone n z else i_zone zero_inode z)\<rparr>"
    by blast
  have "get_u16 (store_d_inode n k d) (k + 14 + 2 * z) = i_zone n z" if "z < 9" for z
    using fun_cong [OF arg_cong [OF l, of i_zone], of z] that by (simp add: load_d_inode_def)
  then show ?thesis
    unfolding d_inode_at_def
    using arg_cong [OF l, of i_mode] arg_cong [OF l, of i_uid] arg_cong [OF l, of i_size] arg_cong [OF l, of i_mtime]
      arg_cong [OF l, of i_gid] arg_cong [OF l, of i_nlinks]
    by (simp add: load_d_inode_def)
qed

lemma store_d_inode_other: "j \<notin> {k..<k + 32} \<Longrightarrow> store_d_inode n k d j = d j"
  using load_store_d_inode [of j k n d] by blast

lemma load_d_inode_same: "d_inode_at d k n \<Longrightarrow> same_d_inode n (load_d_inode d k m)"
  by (simp add: d_inode_at_def same_d_inode_def load_d_inode_def)

text \<open>The block and the place in it: the inodes follow the boot block, the super block and the two bitmaps.\<close>

lemma inode_block_eq:
  assumes "num \<noteq> 0"
  shows "inode_block sb num = of_nat (2 + unat (s_imap_blocks sb) + unat (s_zmap_blocks sb) + (unat num - 1) div 32)"
    "inode_offset num = (unat num - 1) mod 32 * 32"
proof -
  have "1 \<le> unat num"
    using assms by (simp add: Suc_le_eq unat_gt_0)
  then have num: "(ucast num - 1 :: u32) = of_nat (unat num - 1)"
    by (simp add: of_nat_diff)
  have "unat num < 65536"
    using unsigned_less [of num] by simp
  then have "unat num - 1 < 2 ^ 32"
    by simp
  then have small: "unat (of_nat (unat num - 1) :: u32) = unat num - 1"
    by (simp add: unat_of_nat take_bit_nat_eq_self_iff)
  have small': "unat (of_nat ((unat num - 1) div 32) :: u32) = (unat num - 1) div 32"
    using \<open>unat num < 65536\<close> by (simp add: unat_of_nat take_bit_nat_eq_self_iff less_imp_diff_less div_le_dividend [THEN le_less_trans])
  have "(of_nat (unat num - 1) :: u32) div 32 = of_nat ((unat num - 1) div 32)"
    unfolding word_unat_eq_iff small' unat_div small by simp
  then show "inode_block sb num = of_nat (2 + unat (s_imap_blocks sb) + unat (s_zmap_blocks sb) + (unat num - 1) div 32)"
    unfolding inode_block_def num by simp
  show "inode_offset num = (unat num - 1) mod 32 * 32"
    unfolding inode_offset_def num unat_mod small by simp
qed

section \<open>Reading and releasing a block\<close>

text \<open>The block can be read at once, and has the bytes \<open>d\<close>.\<close>

definition readable :: "kstate \<Rightarrow> u16 \<Rightarrow> u32 \<Rightarrow> block_data \<Rightarrow> bool" where
  "readable s dev block d \<longleftrightarrow> cache_ok s \<and> dev \<noteq> 0 \<and> MAJOR dev < NR_BLK_DEV \<and> blk_fn s (MAJOR dev)
    \<and> (case cached s dev block of
         Some b \<Rightarrow> b_lock (buf s b) = 0 \<and> b_uptodate (buf s b) \<noteq> 0 \<and> b_count (buf s b) + 1 \<noteq> 0 \<and> b_data (buf s b) = d
       | None \<Rightarrow> (\<exists>b < NR_BUFFERS s. idle s b) \<and> disk s dev block = Some d)"

lemma bread_readable:
  assumes "readable s dev block d"
  shows "totK (\<lambda>r t. \<exists>bh. r = Some bh \<and> fetched s dev block d bh t \<and> b_count (buf t bh) \<noteq> 0) (bread dev block s)"
proof (cases "cached s dev block")
  case (Some b)
  then show ?thesis
    using assms bread_hit [of s dev block b] by (auto simp: readable_def totK_ret)
next
  case None
  then show ?thesis
    using assms by (intro totK_mono [OF bread_miss]) (auto simp: readable_def)
qed

lemma brelse_used:
  assumes "b_lock (buf s bh) = 0" "b_count (buf s bh) \<noteq> 0"
  shows "\<exists>t. brelse (Some bh) s = ret () t \<and> same_links s t \<and> disk t = disk s \<and> blk_fn t = blk_fn s \<and> inode_table t = inode_table s
    \<and> super_table t = super_table s \<and> buf t = (buf s)(bh := (buf s bh)\<lparr>b_count := b_count (buf s bh) - 1\<rparr>)"
  using assms
  by (simp add: brelse_def wait_on_buffer_def wake_buffer_wait_def case_prod_beta upd_buf_def same_links_def Let_def bindK_ret)

lemma cached_same: "same_links s t \<Longrightarrow> cached t dev block = cached s dev block"
  by (simp add: cached_def same_links_def holds_def)

lemma readable_same:
  assumes "readable s dev block d" "buf t = buf s" "NR_BUFFERS t = NR_BUFFERS s" "hash_table t = hash_table s"
    "free_list t = free_list s" "disk t = disk s" "blk_fn t = blk_fn s"
  shows "readable t dev block d"
proof -
  have "same_links s t"
    using assms(2-5) by (simp add: same_links_def)
  then show ?thesis
    using assms cached_same [of s t] cache_ok_same [of s t] by (simp add: readable_def idle_def split: option.splits)
qed

lemma get_super_found:
  assumes "dev \<noteq> 0" "find (\<lambda>i. s_dev (super_table s i) = dev) [0..<NR_SUPER] = Some sb" "s_lock (super_table s sb) = 0"
  shows "get_super dev s = ret (Some sb) s"
  using assms by (simp add: get_super_def wait_on_super_def bindK_ret)

text \<open>A block that was fetched and released can be read again.\<close>

lemma released_readable:
  assumes "fetched s dev block d bh u" "b_count (buf u bh) \<noteq> 0" "readable s dev block d0"
    and t: "same_links u t" "blk_fn t = blk_fn u" "b_lock (buf t bh) = b_lock (buf u bh)"
      "b_uptodate (buf t bh) = b_uptodate (buf u bh)" "b_count (buf t bh) = b_count (buf u bh) - 1"
  shows "readable t dev block (b_data (buf t bh)) \<and> cached t dev block = Some bh"
proof -
  have "cache_ok t"
    using assms(1) t(1) by (auto simp: fetched_def intro: cache_ok_same)
  moreover have "cached t dev block = Some bh"
    using cached_same [OF t(1)] assms(1) by (simp add: fetched_def)
  ultimately show ?thesis
    using assms by (simp add: readable_def fetched_def)
qed

section \<open>Writing and reading\<close>

text \<open>The inode \<open>i\<close> can be written to the device or read from it: the super block of its device is there, nobody has
  locked either, and the block with the inode can be read at once.\<close>

definition inode_place :: "kstate \<Rightarrow> u16 \<Rightarrow> u16 \<Rightarrow> u32 \<Rightarrow> nat \<Rightarrow> bool" where
  "inode_place s dev num block k \<longleftrightarrow> num \<noteq> 0 \<and> (\<exists>sb. find (\<lambda>i. s_dev (super_table s i) = dev) [0..<NR_SUPER] = Some sb
    \<and> s_lock (super_table s sb) = 0
    \<and> block = of_nat (2 + unat (s_imap_blocks (super_table s sb)) + unat (s_zmap_blocks (super_table s sb)) + (unat num - 1) div 32))
    \<and> k = (unat num - 1) mod 32 * 32"

lemma write_inode_writes:
  assumes n: "n = inode_table s i" "i_lock n = 0" "i_dirt n \<noteq> 0"
    and place: "inode_place s (i_dev n) (i_num n) block k" and block: "readable s (i_dev n) block old"
  shows "totK (\<lambda>_ t. readable t (i_dev n) block (store_d_inode n k old)
      \<and> (\<exists>bh. cached t (i_dev n) block = Some bh \<and> b_dirt (buf t bh) = 1)
      \<and> super_table t = super_table s \<and> (\<exists>w. inode_table t = (inode_table s)(i := n\<lparr>i_dirt := 0, i_lock := 0, i_wait := w\<rparr>)))
    (write_inode i s)" (is "totK ?Q _")
proof -
  let ?l = "upd_inode i (\<lambda>n. n\<lparr>i_lock := 1\<rparr>) s"
  obtain sb where sb: "find (\<lambda>i. s_dev (super_table s i) = i_dev n) [0..<NR_SUPER] = Some sb" "s_lock (super_table s sb) = 0"
    "inode_block (super_table s sb) (i_num n) = block" "inode_offset (i_num n) = k"
    using place inode_block_eq [of "i_num n"] by (auto simp: inode_place_def)
  have l: "inode_table ?l i = n\<lparr>i_lock := 1\<rparr>" "super_table ?l = super_table s"
    by (simp_all add: upd_inode_def n(1))
  have dev: "i_dev n \<noteq> 0"
    using block by (simp add: readable_def)
  have super: "get_super (i_dev n) ?l = ret (Some sb) ?l"
    using sb dev by (intro get_super_found) (simp_all add: l(2))
  have block': "readable ?l (i_dev n) block old"
    by (rule readable_same [OF block]) (simp_all add: upd_inode_def)
  define fin where "fin bh s = (let s = upd_buf bh (\<lambda>b. b\<lparr>b_data := store_d_inode (inode_table s i) k (b_data b), b_dirt := 1\<rparr>) s;
      s = upd_inode i (\<lambda>n. n\<lparr>i_dirt := 0\<rparr>) s in bindK (brelse (Some bh) s) (\<lambda>_ s. ret () (unlock_inode i s)))" for bh s
  have "write_inode i s = bindK (bread (i_dev n) block ?l)
      (\<lambda>r s. case r of None \<Rightarrow> panic ''unable to read i-node block'' | Some bh \<Rightarrow> fin bh s)"
    unfolding write_inode_def write_inode_with_def bread_def [symmetric] lock_inode_def wait_on_inode_def
    using n(2,3) dev super l sb(3,4) by (simp add: bindK_ret n(1) [symmetric] Let_def fin_def cong: option.case_cong)
  moreover have "totK ?Q (fin bh u)" if u: "fetched ?l (i_dev n) block old bh u" "b_count (buf u bh) \<noteq> 0" for bh u
  proof -
    define v where "v = upd_inode i (\<lambda>n. n\<lparr>i_dirt := 0\<rparr>)
      (upd_buf bh (\<lambda>b. b\<lparr>b_data := store_d_inode (inode_table u i) k (b_data b), b_dirt := 1\<rparr>) u)"
    have tabs: "inode_table u = (inode_table s)(i := n\<lparr>i_lock := 1\<rparr>)" "super_table u = super_table s" "b_lock (buf u bh) = 0"
      "b_data (buf u bh) = old"
      using u(1) by (simp_all add: fetched_def upd_inode_def n(1))
    have v: "same_links u v" "b_lock (buf v bh) = 0" "b_count (buf v bh) \<noteq> 0" "b_uptodate (buf v bh) = b_uptodate (buf u bh)"
      "b_data (buf v bh) = store_d_inode n k old" "b_dirt (buf v bh) = 1" "blk_fn v = blk_fn u" "super_table v = super_table s"
      "inode_table v = (inode_table s)(i := n\<lparr>i_lock := 1, i_dirt := 0\<rparr>)"
      using tabs u(2) by (simp_all add: v_def upd_inode_def upd_buf_def same_links_def store_d_inode_def)
    obtain t where t: "brelse (Some bh) v = ret () t" "same_links v t" "blk_fn t = blk_fn v" "inode_table t = inode_table v"
      "super_table t = super_table v" "buf t = (buf v)(bh := (buf v bh)\<lparr>b_count := b_count (buf v bh) - 1\<rparr>)"
      using brelse_used [OF v(2,3)] by blast
    have "fin bh u = ret () (unlock_inode i t)"
      by (simp add: fin_def Let_def v_def [symmetric] t(1) bindK_ret)
    moreover have "readable t (i_dev n) block (store_d_inode n k old) \<and> cached t (i_dev n) block = Some bh"
      using released_readable [OF u block', of t] same_links_trans [OF v(1) t(2)] t(3,6) v tabs(3) by (simp add: v_def upd_inode_def upd_buf_def)
    moreover have "same_links t (unlock_inode i t)" "b_dirt (buf (unlock_inode i t) bh) = 1" "super_table (unlock_inode i t) = super_table s"
      "inode_table (unlock_inode i t) = (inode_table s)(i := n\<lparr>i_dirt := 0, i_lock := 0, i_wait := fst (Sched.wake_up (i_wait n) (sch t))\<rparr>)"
      using t(4-6) v(6,8,9) by (simp_all add: unlock_inode_def wake_inode_def upd_inode_def case_prod_beta same_links_def)
    moreover have "readable (unlock_inode i t) dev block d" if "readable t dev block d" for dev d
      using that by (rule readable_same) (simp_all add: unlock_inode_def wake_inode_def upd_inode_def case_prod_beta)
    ultimately show ?thesis
      using cached_same by (auto simp: totK_ret)
  qed
  ultimately show ?thesis
    by (auto simp: totK_bindK intro!: totK_mono [OF bread_readable [OF block']])
qed

lemma read_inode_reads:
  assumes m: "m = inode_table s j" "i_lock m = 0"
    and place: "inode_place s (i_dev m) (i_num m) block k" and block: "readable s (i_dev m) block d"
  shows "totK (\<lambda>_ t. inode_table t j = (load_d_inode d k m)\<lparr>i_lock := 0, i_wait := i_wait (inode_table t j)\<rparr>
      \<and> (\<forall>i. i \<noteq> j \<longrightarrow> inode_table t i = inode_table s i)) (read_inode j s)" (is "totK ?Q _")
proof -
  let ?l = "upd_inode j (\<lambda>n. n\<lparr>i_lock := 1\<rparr>) s"
  obtain sb where sb: "find (\<lambda>i. s_dev (super_table s i) = i_dev m) [0..<NR_SUPER] = Some sb" "s_lock (super_table s sb) = 0"
    "inode_block (super_table s sb) (i_num m) = block" "inode_offset (i_num m) = k"
    using place inode_block_eq [of "i_num m"] by (auto simp: inode_place_def)
  have l: "inode_table ?l j = m\<lparr>i_lock := 1\<rparr>" "super_table ?l = super_table s"
    by (simp_all add: upd_inode_def m(1))
  have "i_dev m \<noteq> 0"
    using block by (simp add: readable_def)
  then have super: "get_super (i_dev m) ?l = ret (Some sb) ?l"
    using sb by (intro get_super_found) (simp_all add: l(2))
  have block': "readable ?l (i_dev m) block d"
    by (rule readable_same [OF block]) (simp_all add: upd_inode_def)
  define fin where "fin bh s = (let s = upd_inode j (load_d_inode (b_data (buf s bh)) k) s
      in bindK (brelse (Some bh) s) (\<lambda>_ s. ret () (unlock_inode j s)))" for bh s
  have "read_inode j s = bindK (bread (i_dev m) block ?l)
      (\<lambda>r s. case r of None \<Rightarrow> panic ''unable to read i-node block'' | Some bh \<Rightarrow> fin bh s)"
    unfolding read_inode_def lock_inode_def wait_on_inode_def
    using m(2) super l sb(3,4) by (simp add: bindK_ret m(1) [symmetric] Let_def fin_def cong: option.case_cong)
  moreover have "totK ?Q (fin bh u)" if u: "fetched ?l (i_dev m) block d bh u" "b_count (buf u bh) \<noteq> 0" for bh u
  proof -
    define v where "v = upd_inode j (load_d_inode d k) u"
    have v: "b_lock (buf v bh) = 0" "b_count (buf v bh) \<noteq> 0" "b_data (buf u bh) = d"
      "inode_table v = (inode_table s)(j := load_d_inode d k (m\<lparr>i_lock := 1\<rparr>))"
      using u by (simp_all add: v_def fetched_def upd_inode_def m(1))
    obtain t where t: "brelse (Some bh) v = ret () t" "inode_table t = inode_table v"
      using brelse_used [OF v(1,2)] by blast
    have "fin bh u = ret () (unlock_inode j t)"
      by (simp add: fin_def Let_def v(3) v_def [symmetric] t(1) bindK_ret)
    then show ?thesis
      using t(2) v(4) by (simp add: totK_ret unlock_inode_def wake_inode_def upd_inode_def case_prod_beta load_d_inode_def cong: if_cong)
  qed
  ultimately show ?thesis
    by (auto simp: totK_bindK intro!: totK_mono [OF bread_readable [OF block']])
qed

text \<open>
  C23. An inode goes to the disk and comes back. \<open>write_inode\<close> of a changed inode leaves it clean and unlocked, and the
  buffer of its block marked for writing: the block is the one that follows the boot block, the super block and the bitmaps
  at 32 inodes to the block, the inode is in its 32 bytes there in the layout of the disk, and the other bytes of the block
  are as before. \<open>read_inode\<close> into any inode of the table that has been given the device and the number, as \<open>iget\<close> does, then
  yields all the fields that the disk holds.
\<close>

theorem inode_written_read_back:
  assumes n: "n = inode_table s i" "i_lock n = 0" "i_dirt n \<noteq> 0" "i_num n \<noteq> 0"
    and super: "find (\<lambda>i. s_dev (super_table s i) = i_dev n) [0..<NR_SUPER] = Some sb" "s_lock (super_table s sb) = 0"
    and place: "block = of_nat (2 + unat (s_imap_blocks (super_table s sb)) + unat (s_zmap_blocks (super_table s sb))
        + (unat (i_num n) - 1) div 32)" "k = (unat (i_num n) - 1) mod 32 * 32"
    and block: "readable s (i_dev n) block old" and j: "i_lock (inode_table s j) = 0"
  shows "totK (\<lambda>_ t. i_dirt (inode_table t i) = 0 \<and> i_lock (inode_table t i) = 0 \<and> same_d_inode n (inode_table t i)
      \<and> (\<forall>x. x \<noteq> i \<longrightarrow> inode_table t x = inode_table s x)
      \<and> (\<exists>bh. cached t (i_dev n) block = Some bh \<and> b_uptodate (buf t bh) \<noteq> 0 \<and> b_dirt (buf t bh) = 1
           \<and> d_inode_at (b_data (buf t bh)) k n \<and> (\<forall>q. q \<notin> {k..<k + 32} \<longrightarrow> b_data (buf t bh) q = old q))
      \<and> totK (\<lambda>_ u. same_d_inode n (inode_table u j) \<and> i_lock (inode_table u j) = 0 \<and> i_dev (inode_table u j) = i_dev n
             \<and> i_num (inode_table u j) = i_num n)
           (read_inode j (upd_inode j (\<lambda>m. m\<lparr>i_dev := i_dev n, i_num := i_num n\<rparr>) t)))
    (write_inode i s)"
proof (rule totK_mono [OF write_inode_writes [OF n(1-3) _ block]])
  show at: "inode_place s (i_dev n) (i_num n) block k"
    using n(4) super place by (simp add: inode_place_def)
  fix x t
  assume t: "readable t (i_dev n) block (store_d_inode n k old) \<and> (\<exists>bh. cached t (i_dev n) block = Some bh \<and> b_dirt (buf t bh) = 1)
    \<and> super_table t = super_table s \<and> (\<exists>w. inode_table t = (inode_table s)(i := n\<lparr>i_dirt := 0, i_lock := 0, i_wait := w\<rparr>))"
  let ?t = "upd_inode j (\<lambda>m. m\<lparr>i_dev := i_dev n, i_num := i_num n\<rparr>) t" and ?d = "store_d_inode n k old"
  let ?m = "inode_table ?t j"
  have m: "i_lock ?m = 0" "i_dev ?m = i_dev n" "i_num ?m = i_num n" "super_table ?t = super_table s"
    using t j n(2) by (auto simp: upd_inode_def)
  have read: "totK (\<lambda>_ u. inode_table u j = (load_d_inode ?d k ?m)\<lparr>i_lock := 0, i_wait := i_wait (inode_table u j)\<rparr>
      \<and> (\<forall>i. i \<noteq> j \<longrightarrow> inode_table u i = inode_table ?t i)) (read_inode j ?t)"
  proof (rule read_inode_reads [OF refl m(1)])
    show "inode_place ?t (i_dev ?m) (i_num ?m) block k"
      using at by (simp add: inode_place_def m)
    show "readable ?t (i_dev ?m) block ?d"
      unfolding m(2) by (rule readable_same [OF conjunct1 [OF t]]) (simp_all add: upd_inode_def)
  qed
  have same: "same_d_inode n w \<and> i_lock w = 0 \<and> i_dev w = i_dev n \<and> i_num w = i_num n"
    if "w = (load_d_inode ?d k ?m)\<lparr>i_lock := 0, i_wait := q\<rparr>" for w q
    using load_d_inode_same [OF store_d_inode_at, of n k old ?m] m(2,3) by (simp add: that same_d_inode_def load_d_inode_def)
  have "totK (\<lambda>_ u. same_d_inode n (inode_table u j) \<and> i_lock (inode_table u j) = 0 \<and> i_dev (inode_table u j) = i_dev n
      \<and> i_num (inode_table u j) = i_num n) (read_inode j ?t)"
    by (rule totK_mono [OF read]) (rule same, erule conjunct1)
  moreover obtain bh where "cached t (i_dev n) block = Some bh" "b_dirt (buf t bh) = 1" "b_uptodate (buf t bh) \<noteq> 0" "b_data (buf t bh) = ?d"
    using t by (auto simp: readable_def)
  then have "\<exists>bh. cached t (i_dev n) block = Some bh \<and> b_uptodate (buf t bh) \<noteq> 0 \<and> b_dirt (buf t bh) = 1
      \<and> d_inode_at (b_data (buf t bh)) k n \<and> (\<forall>q. q \<notin> {k..<k + 32} \<longrightarrow> b_data (buf t bh) q = old q)"
    using store_d_inode_at store_d_inode_other by (intro exI [of _ bh]) simp
  moreover have "i_dirt (inode_table t i) = 0" "i_lock (inode_table t i) = 0" "same_d_inode n (inode_table t i)"
    "\<forall>x. x \<noteq> i \<longrightarrow> inode_table t x = inode_table s x"
    using t by (auto simp: same_d_inode_def)
  ultimately show "i_dirt (inode_table t i) = 0 \<and> i_lock (inode_table t i) = 0 \<and> same_d_inode n (inode_table t i)
      \<and> (\<forall>x. x \<noteq> i \<longrightarrow> inode_table t x = inode_table s x)
      \<and> (\<exists>bh. cached t (i_dev n) block = Some bh \<and> b_uptodate (buf t bh) \<noteq> 0 \<and> b_dirt (buf t bh) = 1
           \<and> d_inode_at (b_data (buf t bh)) k n \<and> (\<forall>q. q \<notin> {k..<k + 32} \<longrightarrow> b_data (buf t bh) q = old q))
      \<and> totK (\<lambda>_ u. same_d_inode n (inode_table u j) \<and> i_lock (inode_table u j) = 0 \<and> i_dev (inode_table u j) = i_dev n
             \<and> i_num (inode_table u j) = i_num n) (read_inode j ?t)"
    by blast
qed

text \<open>A disk with three blocks of each bitmap, and its inode 35 in the place 2 of the table, changed.\<close>

definition inode_kernel :: kstate where
  "inode_kernel = small_cache\<lparr>super_table := (\<lambda>_. null_super)(0 := null_super\<lparr>s_dev := 0x301, s_imap_blocks := 3, s_zmap_blocks := 3\<rparr>),
     inode_table := (\<lambda>_. zero_inode)(2 := zero_inode\<lparr>i_dev := 0x301, i_num := 35, i_size := 70000, i_dirt := 1\<rparr>)\<rparr>"

lemma inode_kernel_readable: "readable inode_kernel 0x301 9 (\<lambda>_. 7)"
proof -
  have "\<exists>b < NR_BUFFERS inode_kernel. idle inode_kernel b"
    by (rule exI [of _ 0]) (simp add: idle_def inode_kernel_def small_cache_def buffer_init_def)
  moreover have "cache_ok inode_kernel"
    by (rule cache_ok_same [OF small_cache_ok]) (simp add: inode_kernel_def same_links_def)
  moreover have "cached inode_kernel 0x301 9 = None"
    by (simp add: cached_None holds_def inode_kernel_def small_cache_def buffer_init_def)
  ultimately show ?thesis
    by (simp add: readable_def inode_kernel_def small_cache_def MAJOR_def NR_BLK_DEV_def)
qed

theorem inode_written_read_back_witness:
  "\<exists>t bh u. write_inode 2 inode_kernel = Inr ((), t) \<and> cached t 0x301 9 = Some bh \<and> b_dirt (buf t bh) = 1
    \<and> get_u32 (b_data (buf t bh)) 68 = 70000 \<and> b_data (buf t bh) 96 = 7
    \<and> read_inode 3 (upd_inode 3 (\<lambda>m. m\<lparr>i_dev := 0x301, i_num := 35\<rparr>) t) = Inr ((), u) \<and> i_size (inode_table u 3) = 70000"
proof -
  define n where "n = inode_table inode_kernel 2"
  have n: "i_lock n = 0" "i_dirt n \<noteq> 0" "i_num n = 35" "i_dev n = 0x301" "i_size n = 70000" "i_num n \<noteq> 0"
    "i_lock (inode_table inode_kernel 3) = 0"
    by (simp_all add: n_def inode_kernel_def zero_inode_def)
  have super: "find (\<lambda>i. s_dev (super_table inode_kernel i) = i_dev n) [0..<NR_SUPER] = Some 0" "s_lock (super_table inode_kernel 0) = 0"
    "9 = of_nat (2 + unat (s_imap_blocks (super_table inode_kernel 0)) + unat (s_zmap_blocks (super_table inode_kernel 0)) + (unat (i_num n) - 1) div 32)"
    "64 = (unat (i_num n) - 1) mod 32 * 32"
    by (simp_all add: inode_kernel_def null_super_def NR_SUPER_def upt_rec n(3,4))
  have readable: "readable inode_kernel (i_dev n) 9 (\<lambda>_. 7)"
    using inode_kernel_readable by (simp add: n(4))
  note * = inode_written_read_back [where s = inode_kernel and i = 2 and sb = 0 and block = 9 and k = 64 and old = "\<lambda>_. 7" and j = 3,
      OF n_def n(1,2,6) super readable n(7)]
  have "totK (\<lambda>_ t. \<exists>bh. cached t 0x301 9 = Some bh \<and> b_dirt (buf t bh) = 1 \<and> get_u32 (b_data (buf t bh)) 68 = 70000
      \<and> b_data (buf t bh) 96 = 7 \<and> totK (\<lambda>_ u. i_size (inode_table u 3) = 70000)
          (read_inode 3 (upd_inode 3 (\<lambda>m. m\<lparr>i_dev := 0x301, i_num := 35\<rparr>) t))) (write_inode 2 inode_kernel)"
  proof (rule totK_mono [OF *], elim conjE exE)
    fix t bh
    assume t: "cached t (i_dev n) 9 = Some bh" "b_dirt (buf t bh) = 1" "d_inode_at (b_data (buf t bh)) 64 n"
      "\<forall>q. q \<notin> {64..<64 + 32} \<longrightarrow> b_data (buf t bh) q = 7"
      and u: "totK (\<lambda>_ u. same_d_inode n (inode_table u 3) \<and> i_lock (inode_table u 3) = 0 \<and> i_dev (inode_table u 3) = i_dev n
        \<and> i_num (inode_table u 3) = i_num n) (read_inode 3 (upd_inode 3 (\<lambda>m. m\<lparr>i_dev := i_dev n, i_num := i_num n\<rparr>) t))"
    have "totK (\<lambda>_ u. i_size (inode_table u 3) = 70000) (read_inode 3 (upd_inode 3 (\<lambda>m. m\<lparr>i_dev := 0x301, i_num := 35\<rparr>) t))"
      using u by (auto simp: same_d_inode_def n elim!: totK_mono)
    moreover have "get_u32 (b_data (buf t bh)) 68 = 70000"
      using t(3) by (simp add: d_inode_at_def n(5))
    ultimately show "\<exists>bh. cached t 0x301 9 = Some bh \<and> b_dirt (buf t bh) = 1 \<and> get_u32 (b_data (buf t bh)) 68 = 70000
      \<and> b_data (buf t bh) 96 = 7 \<and> totK (\<lambda>_ u. i_size (inode_table u 3) = 70000)
          (read_inode 3 (upd_inode 3 (\<lambda>m. m\<lparr>i_dev := 0x301, i_num := 35\<rparr>) t))"
      using t(1,2,4) by (auto simp: n(4))
  qed
  then obtain t bh where t: "write_inode 2 inode_kernel = Inr ((), t)" "cached t 0x301 9 = Some bh" "b_dirt (buf t bh) = 1"
    "get_u32 (b_data (buf t bh)) 68 = 70000" "b_data (buf t bh) 96 = 7"
    "totK (\<lambda>_ u. i_size (inode_table u 3) = 70000) (read_inode 3 (upd_inode 3 (\<lambda>m. m\<lparr>i_dev := 0x301, i_num := 35\<rparr>) t))"
    using totK_iff [THEN iffD1] by fastforce
  then show ?thesis
    using totK_iff [THEN iffD1, OF t(6)] by auto
qed

end
