(* ===== verification/Mounts.thy ===== *)
theory Mounts
  imports Super Frame
begin

text \<open>
  Mounting: no device has two super blocks, a mounted super block keeps its device, and \<open>sys_mount\<close> and \<open>sys_umount\<close>
  change exactly one entry of the table of mounts, or none.
\<close>

unbundle bit_operations_syntax

section \<open>Reading the maps\<close>

context fs_base
begin

lemma read_map_fr:
  assumes "\<And>i bh b. s_dev (put i bh b) = s_dev b \<and> s_imount (put i bh b) = s_imount b \<and> s_isup (put i bh b) = s_isup b"
  shows "I s \<Longrightarrow> okK (\<lambda>_. I) (read_map put dev sb n i block s)"
proof (induction n arbitrary: i block s)
  case (Suc n)
  have "I t \<Longrightarrow> I (upd_super sb (put i bh) t)" for bh t
    by (rule I_super) (simp_all add: assms)
  then show ?case
    using Suc by (auto intro!: fr simp: Let_def)
qed (auto intro!: fr)

lemma set_map_fr [fr]:
  "I s \<Longrightarrow> okK (\<lambda>_. I) (read_map set_imap dev sb n i block s)"
  "I s \<Longrightarrow> okK (\<lambda>_. I) (read_map set_zmap dev sb n i block s)"
  by (rule read_map_fr; simp add: set_imap_def set_zmap_def)+

lemma release_maps_fr [fr]: "I s \<Longrightarrow> okK (\<lambda>_. I) (release_maps sb s)"
  unfolding release_maps_def by (auto intro!: fr)

lemma mark_first_fr [fr]: "I s \<Longrightarrow> okK (\<lambda>_. I) (mark_first b s)"
  unfolding mark_first_def by (auto intro!: fr split: option.split)

end

section \<open>The table of super blocks\<close>

text \<open>\<open>T i\<close> is where the super block \<open>i\<close> is mounted.\<close>

definition mounts :: "(nat \<Rightarrow> nat option) \<Rightarrow> kstate \<Rightarrow> bool" where
  "mounts T s \<longleftrightarrow>
    (\<forall>i < NR_SUPER. s_imount (super_table s i) = T i \<and> (T i \<noteq> None \<longrightarrow> s_dev (super_table s i) \<noteq> 0))
    \<and> (\<forall>i < NR_SUPER. \<forall>j < NR_SUPER. s_dev (super_table s i) = s_dev (super_table s j) \<longrightarrow> s_dev (super_table s i) \<noteq> 0 \<longrightarrow> i = j)"

definition mounts_at :: "(nat \<Rightarrow> nat option) \<Rightarrow> nat \<Rightarrow> u16 \<Rightarrow> kstate \<Rightarrow> bool" where
  "mounts_at T sb dev s \<longleftrightarrow> mounts T s \<and> s_dev (super_table s sb) = dev"

lemma mounts_same:
  "mounts T s \<Longrightarrow> (\<And>i. s_imount (super_table t i) = s_imount (super_table s i) \<and> s_dev (super_table t i) = s_dev (super_table s i))
    \<Longrightarrow> mounts T t"
  by (simp add: mounts_def)

interpretation mounts: fs_invariant "mounts T" for T
  by unfold_locales (erule mounts_same, simp add: upd_super_def)+

interpretation mounted: fs_invariant "mounts_at T sb dev" for T sb dev
  by unfold_locales (auto simp: mounts_at_def upd_super_def elim!: mounts_same)

text \<open>An unmounted super block gets or loses its device.\<close>

lemma mounts_drop: "mounts T s \<Longrightarrow> T sb = None \<Longrightarrow> s_dev (f (super_table s sb)) = 0 \<Longrightarrow>
    s_imount (f (super_table s sb)) = s_imount (super_table s sb) \<Longrightarrow> mounts T (upd_super sb f s)"
  by (auto simp: mounts_def upd_super_def)

lemma get_super_at:
  "okK (\<lambda>r t. t = s \<and> (\<forall>sb. r = Some sb \<longrightarrow> sb < NR_SUPER \<and> s_dev (super_table s sb) = dev \<and> dev \<noteq> 0)
      \<and> (r = None \<longrightarrow> dev \<noteq> 0 \<longrightarrow> (\<forall>i < NR_SUPER. s_dev (super_table s i) \<noteq> dev))) (get_super dev s)"
  by (auto simp: get_super_def wait_on_super_def blocked_def kwp find_Some_iff find_None_iff split: option.split)

lemma put_super_fr:
  assumes m: "mounts T s"
  shows "okK (\<lambda>_. mounts T) (put_super dev s)"
proof (cases "dev = ROOT_DEV s")
  case False
  have "okK (\<lambda>_. mounts T) (bindK (get_super dev s) (\<lambda>r s.
      case r of
        None \<Rightarrow> ret () s
      | Some sb \<Rightarrow>
          if s_imount (super_table s sb) \<noteq> None then ret () s
          else
            bindK (lock_super sb s) (\<lambda>_ s.
            let s = upd_super sb (\<lambda>b. b\<lparr>s_dev := 0\<rparr>) s
            in bindK (forK [0..<I_MAP_SLOTS] (\<lambda>i s. brelse (s_imap (super_table s sb) i) s) s) (\<lambda>_ s.
               bindK (forK [0..<Z_MAP_SLOTS] (\<lambda>i s. brelse (s_zmap (super_table s sb) i) s) s) (\<lambda>_ s.
               ret () (free_super sb s))))))"
    unfolding okK_bindK [of _ "get_super dev s"]
  proof (rule okK_mono [OF get_super_at])
    fix r t
    assume r: "t = s \<and> (\<forall>sb. r = Some sb \<longrightarrow> sb < NR_SUPER \<and> s_dev (super_table s sb) = dev \<and> dev \<noteq> 0)
      \<and> (r = None \<longrightarrow> dev \<noteq> 0 \<longrightarrow> (\<forall>i < NR_SUPER. s_dev (super_table s i) \<noteq> dev))"
    have drop: "mounts T (upd_super sb (\<lambda>b. b\<lparr>s_dev := 0\<rparr>) t)"
      if "mounts T t" "s_imount (super_table s sb) = None" "sb < NR_SUPER" for sb t
      using that m by (intro mounts_drop) (auto simp: mounts_def)
    show "okK (\<lambda>_. mounts T) (case r of
        None \<Rightarrow> ret () t
      | Some sb \<Rightarrow>
          if s_imount (super_table t sb) \<noteq> None then ret () t
          else
            bindK (lock_super sb t) (\<lambda>_ s.
            let s = upd_super sb (\<lambda>b. b\<lparr>s_dev := 0\<rparr>) s
            in bindK (forK [0..<I_MAP_SLOTS] (\<lambda>i s. brelse (s_imap (super_table s sb) i) s) s) (\<lambda>_ s.
               bindK (forK [0..<Z_MAP_SLOTS] (\<lambda>i s. brelse (s_zmap (super_table s sb) i) s) s) (\<lambda>_ s.
               ret () (free_super sb s)))))"
      using r m drop by (auto intro!: fr simp: Let_def split: option.split)
  qed
  then show ?thesis
    using False by (simp add: put_super_def)
qed (use m in \<open>simp add: put_super_def kwp\<close>)

lemma check_disk_change_fr: "mounts T s \<Longrightarrow> okK (\<lambda>_. mounts T) (check_disk_change dev s)"
  unfolding check_disk_change_def by (auto intro!: fr put_super_fr)

section \<open>read_super\<close>

text \<open>The result of \<open>read_super\<close>: no mount has changed, and the super block is that of the device.\<close>

definition super_read :: "(nat \<Rightarrow> nat option) \<Rightarrow> u16 \<Rightarrow> nat option \<Rightarrow> kstate \<Rightarrow> bool" where
  "super_read T dev r t \<longleftrightarrow> mounts T t \<and> (\<forall>sb. r = Some sb \<longrightarrow> sb < NR_SUPER \<and> dev \<noteq> 0 \<and> s_dev (super_table t sb) = dev)"

lemma mounts_drop_super: "mounts T s \<Longrightarrow> T sb = None \<Longrightarrow> mounts T (drop_super sb s)"
  unfolding drop_super_def by (intro mounts.I_free_super mounts_drop) simp_all

lemma super_read_drop: "mounts_at T sb dev s \<Longrightarrow> T sb = None \<Longrightarrow> super_read T dev None (drop_super sb s)"
  by (simp add: super_read_def mounts_at_def mounts_drop_super)

lemma super_read_free: "mounts_at T sb dev s \<Longrightarrow> sb < NR_SUPER \<Longrightarrow> dev \<noteq> 0 \<Longrightarrow> super_read T dev (Some sb) (free_super sb s)"
  using mounted.I_free_super [of T sb dev s sb] by (simp add: super_read_def mounts_at_def)

lemma read_maps_super:
  assumes "mounts_at T sb dev s" "T sb = None" "sb < NR_SUPER" "dev \<noteq> 0"
  shows "okK (super_read T dev) (read_maps dev sb s)"
proof -
  have up: "mounts_at T sb dev (upd_super sb (\<lambda>b. b\<lparr>s_imap := (\<lambda>i. if i < I_MAP_SLOTS then None else s_imap b i),
                                s_zmap := (\<lambda>i. if i < Z_MAP_SLOTS then None else s_zmap b i)\<rparr>) s)"
    using assms(1) by (rule mounted.I_super) simp
  show ?thesis
    unfolding read_maps_def Let_def
    using up assms(2,3,4)
    by (auto intro!: okK_seq [of "mounts_at T sb dev"] fr simp: okK_ret super_read_drop super_read_free)
qed

text \<open>What \<open>read_super\<close> does with the slot that it has found.\<close>

definition claim_slot :: "u16 \<Rightarrow> super_block \<Rightarrow> super_block" where
  "claim_slot dev b = b\<lparr>s_dev := dev, s_isup := None, s_imount := None, s_time := 0, s_rd_only := 0, s_dirt := 0\<rparr>"

text \<open>The slot that is taken for a new super block.\<close>

lemma mounts_new:
  assumes "mounts T s" "s_dev (super_table s sb) = 0" "sb < NR_SUPER" "\<forall>i < NR_SUPER. s_dev (super_table s i) \<noteq> dev"
  shows "T sb = None" "mounts_at T sb dev (upd_super sb (claim_slot dev) s)"
proof -
  show "T sb = None"
    using assms(1,2,3) by (auto simp: mounts_def)
  then show "mounts_at T sb dev (upd_super sb (claim_slot dev) s)"
    using assms by (auto simp: mounts_at_def mounts_def upd_super_def claim_slot_def)
qed

definition fill_super :: "u16 \<Rightarrow> nat \<Rightarrow> nat option kop" where
  "fill_super dev sb s =
    bindK (lock_super sb s) (\<lambda>_ s.
    bindK (bread dev 1 s) (\<lambda>r s.
    case r of
      None \<Rightarrow> ret None (drop_super sb s)
    | Some bh \<Rightarrow>
        let s = upd_super sb (load_d_super (b_data (buf s bh))) s
        in bindK (brelse (Some bh) s) (\<lambda>_ s.
           if s_magic (super_table s sb) \<noteq> SUPER_MAGIC then ret None (drop_super sb s)
           else read_maps dev sb s)))"

lemma read_super_parts:
  "read_super dev s =
    (if dev = 0 then ret None s
     else
       bindK (check_disk_change dev s) (\<lambda>_ s.
       bindK (get_super dev s) (\<lambda>r s.
       case r of
         Some sb \<Rightarrow> ret (Some sb) s
       | None \<Rightarrow>
           (case find (\<lambda>i. s_dev (super_table s i) = 0) [0..<NR_SUPER] of
              None \<Rightarrow> ret None s
            | Some sb \<Rightarrow> fill_super dev sb (upd_super sb (claim_slot dev) s)))))"
  unfolding read_super_def fill_super_def claim_slot_def Let_def by (rule refl)

lemma fill_super_read:
  assumes m: "mounts_at T sb dev s" and "T sb = None" "sb < NR_SUPER" "dev \<noteq> 0"
  shows "okK (super_read T dev) (fill_super dev sb s)"
proof -
  have load: "mounts_at T sb dev (upd_super sb (load_d_super d) t)" if "mounts_at T sb dev t" for d t
    using that by (rule mounted.I_super) (simp add: load_d_super_def)
  show ?thesis
    unfolding fill_super_def Let_def using assms
    by (auto intro!: okK_seq [of "mounts_at T sb dev"] fr read_maps_super load simp: okK_ret super_read_drop split: option.split)
qed

lemma read_super_read:
  assumes m: "mounts T s"
  shows "okK (super_read T dev) (read_super dev s)"
proof (cases "dev = 0")
  case True
  then show ?thesis
    using m by (simp add: read_super_def super_read_def kwp)
next
  case False
  have "okK (super_read T dev) (case r of
         Some sb \<Rightarrow> ret (Some sb) t
       | None \<Rightarrow>
           (case find (\<lambda>i. s_dev (super_table t i) = 0) [0..<NR_SUPER] of
              None \<Rightarrow> ret None t
            | Some sb \<Rightarrow> fill_super dev sb (upd_super sb (claim_slot dev) t)))"
    if t: "mounts T t" and some: "\<forall>sb. r = Some sb \<longrightarrow> sb < NR_SUPER \<and> s_dev (super_table t sb) = dev \<and> dev \<noteq> 0"
      and none: "r = None \<longrightarrow> dev \<noteq> 0 \<longrightarrow> (\<forall>i < NR_SUPER. s_dev (super_table t i) \<noteq> dev)" for r t
  proof (cases r)
    case (Some sb)
    then show ?thesis
      using some t by (simp add: kwp super_read_def)
  next
    case None
    show ?thesis
    proof (cases "find (\<lambda>i. s_dev (super_table t i) = 0) [0..<NR_SUPER]")
      case (Some sb)
      then have sb: "sb < NR_SUPER" "s_dev (super_table t sb) = 0"
        by (auto simp: find_Some_iff)
      note new = mounts_new [OF t sb(2,1)]
      show ?thesis
        using None Some none False fill_super_read [OF new(2,1) sb(1) False] by simp
    qed (use None t in \<open>simp add: kwp super_read_def\<close>)
  qed
  then have "okK (super_read T dev) (bindK (get_super dev t) (\<lambda>r s.
       case r of
         Some sb \<Rightarrow> ret (Some sb) s
       | None \<Rightarrow>
           (case find (\<lambda>i. s_dev (super_table s i) = 0) [0..<NR_SUPER] of
              None \<Rightarrow> ret None s
            | Some sb \<Rightarrow> fill_super dev sb (upd_super sb (claim_slot dev) s))))" if "mounts T t" for t
    unfolding okK_bindK using that by (intro okK_mono [OF get_super_at]) auto
  then show ?thesis
    unfolding read_super_parts using False m by (auto intro!: okK_seq [OF check_disk_change_fr])
qed

section \<open>mount and umount\<close>

text \<open>The device \<open>dev\<close> has been mounted on \<open>dir\<close>, and nothing else has been mounted or unmounted.\<close>

definition mounted_on :: "(nat \<Rightarrow> nat option) \<Rightarrow> u16 \<Rightarrow> nat \<Rightarrow> kstate \<Rightarrow> bool" where
  "mounted_on T dev dir t \<longleftrightarrow>
    (\<exists>sb < NR_SUPER. T sb = None \<and> mounts (T(sb := Some dir)) t \<and> dev \<noteq> 0 \<and> s_dev (super_table t sb) = dev)
    \<and> i_mount (inode_table t dir) = 1"

definition mount_result :: "(nat \<Rightarrow> nat option) \<Rightarrow> int \<Rightarrow> kstate \<Rightarrow> bool" where
  "mount_result T r t \<longleftrightarrow> (if r = 0 then \<exists>dev dir. mounted_on T dev dir t else mounts T t)"

lemma mount_failed: "mounts T t \<Longrightarrow> e \<noteq> 0 \<Longrightarrow> mount_result T e t"
  by (simp add: mount_result_def)

lemma mounts_set:
  assumes "mounts T s" "s_dev (super_table s sb) \<noteq> 0 \<or> v = None"
  shows "mounts (T(sb := v)) (upd_super sb (\<lambda>b. b\<lparr>s_imount := v\<rparr>) s)"
proof -
  let ?t = "upd_super sb (\<lambda>b. b\<lparr>s_imount := v\<rparr>) s"
  have new: "s_dev (super_table ?t i) = s_dev (super_table s i)"
    "s_imount (super_table ?t i) = (if i = sb then v else s_imount (super_table s i))" for i
    by (simp_all add: upd_super_def)
  show ?thesis
    unfolding mounts_def new
  proof (intro conjI)
    show "\<forall>i < NR_SUPER. (if i = sb then v else s_imount (super_table s i)) = (T(sb := v)) i
        \<and> ((T(sb := v)) i \<noteq> None \<longrightarrow> s_dev (super_table s i) \<noteq> 0)"
      using assms by (cases v) (simp_all add: mounts_def)
  qed (use assms(1) in \<open>simp add: mounts_def\<close>)
qed

lemma mounts_mount:
  assumes "mounts T s" "sb < NR_SUPER" "s_dev (super_table s sb) = dev" "dev \<noteq> 0" "s_imount (super_table s sb) = None"
  shows "mount_result T 0 (upd_inode dir (\<lambda>n. n\<lparr>i_mount := 1, i_dirt := 1\<rparr>) (upd_super sb (\<lambda>b. b\<lparr>s_imount := Some dir\<rparr>) s))"
proof -
  let ?t = "upd_inode dir (\<lambda>n. n\<lparr>i_mount := 1, i_dirt := 1\<rparr>) (upd_super sb (\<lambda>b. b\<lparr>s_imount := Some dir\<rparr>) s)"
  have "T sb = None"
    using assms by (auto simp: mounts_def)
  moreover have "mounts (T(sb := Some dir)) ?t"
    using assms by (intro mounts.I_upd mounts_set) simp_all
  moreover have "s_dev (super_table ?t sb) = dev" "i_mount (inode_table ?t dir) = 1"
    using assms by (simp_all add: upd_inode_def upd_super_def)
  ultimately show ?thesis
    using assms(2,4) by (auto simp: mount_result_def mounted_on_def)
qed

lemma errors [simp]: "EBUSY \<noteq> 0" "EPERM \<noteq> 0" "ENOENT \<noteq> 0" "ENOTBLK \<noteq> 0"
  by (simp_all add: EBUSY_def EPERM_def ENOENT_def ENOTBLK_def)

lemma mount_leave: "mounts T t \<Longrightarrow> e \<noteq> 0 \<Longrightarrow> okK (mount_result T) (leave [iput i] e t)"
  using mounts.iput_fr [of T t i] by (auto simp: kwp mount_failed elim!: okK_mono)

lemma mount_on_mounts:
  assumes "mounts T s"
  shows "okK (mount_result T) (mount_on dev dir s)"
proof -
  have "okK (mount_result T) (bindK (read_super dev s) (\<lambda>r t. case r of
         None \<Rightarrow> leave [iput (Some dir)] (- EBUSY) t
       | Some sb \<Rightarrow>
           if s_imount (super_table t sb) \<noteq> None then leave [iput (Some dir)] (- EBUSY) t
           else if i_mount (inode_table t dir) \<noteq> 0 then leave [iput (Some dir)] (- EPERM) t
           else ret 0 (upd_inode dir (\<lambda>n. n\<lparr>i_mount := 1, i_dirt := 1\<rparr>)
                        (upd_super sb (\<lambda>b. b\<lparr>s_imount := Some dir\<rparr>) t))))"
    unfolding okK_bindK
    by (rule okK_mono [OF read_super_read [OF assms]])
      (auto simp: super_read_def okK_ret simp del: leave.simps intro!: mount_leave mounts_mount split: option.split)
  then show ?thesis
    unfolding mount_on_def using mount_leave [OF assms] by simp
qed

lemma sys_mount_mounts:
  assumes "mounts T s"
  shows "okK (mount_result T) (sys_mount dev_name dir_name s)"
  unfolding sys_mount_def Let_def using assms
  by (auto intro!: okK_seq [of "mounts T"] fr mount_on_mounts mount_leave mount_failed simp: okK_ret simp del: leave.simps split: option.split)

text \<open>After \<open>umount\<close> one super block less is mounted.\<close>

definition umount_result :: "(nat \<Rightarrow> nat option) \<Rightarrow> int \<Rightarrow> kstate \<Rightarrow> bool" where
  "umount_result T r t \<longleftrightarrow> (if r = 0 then \<exists>sb < NR_SUPER. T sb \<noteq> None \<and> mounts (T(sb := None)) t else mounts T t)"

lemma umount_failed: "mounts T t \<Longrightarrow> e \<noteq> 0 \<Longrightarrow> umount_result T e t"
  by (simp add: umount_result_def)

lemma umounted: "sb < NR_SUPER \<Longrightarrow> T sb \<noteq> None \<Longrightarrow> mounts (T(sb := None)) t \<Longrightarrow> umount_result T 0 t"
  by (auto simp: umount_result_def)

lemma mounts_isup: "mounts T s \<Longrightarrow> mounts T (upd_super sb (\<lambda>b. b\<lparr>s_isup := v\<rparr>) s)"
  by (erule mounts_same) (simp add: upd_super_def)

lemma unmount_mounts:
  assumes "mounts T s" "sb < NR_SUPER" "T sb \<noteq> None"
  shows "okK (umount_result T) (bindK (iput (Some m) (upd_inode m (\<lambda>n. n\<lparr>i_mount := 0\<rparr>) s)) (\<lambda>_ s.
      let s = upd_super sb (\<lambda>b. b\<lparr>s_imount := None\<rparr>) s
      in bindK (iput (s_isup (super_table s sb)) s) (\<lambda>_ s.
         let s = upd_super sb (\<lambda>b. b\<lparr>s_isup := None\<rparr>) s
         in bindK (put_super dev s) (\<lambda>_ s.
            bindK (sync_dev dev s) (\<lambda>_ s. ret 0 s)))))"
proof (rule okK_seq [OF mounts.iput_fr])
  show "mounts T (upd_inode m (\<lambda>n. n\<lparr>i_mount := 0\<rparr>) s)"
    by (rule mounts.I_upd) (rule assms(1))
  fix t
  assume "mounts T t"
  then have t: "mounts (T(sb := None)) (upd_super sb (\<lambda>b. b\<lparr>s_imount := None\<rparr>) t)"
    by (intro mounts_set) simp_all
  show "okK (umount_result T) (let s = upd_super sb (\<lambda>b. b\<lparr>s_imount := None\<rparr>) t
      in bindK (iput (s_isup (super_table s sb)) s) (\<lambda>_ s.
         let s = upd_super sb (\<lambda>b. b\<lparr>s_isup := None\<rparr>) s
         in bindK (put_super dev s) (\<lambda>_ s.
            bindK (sync_dev dev s) (\<lambda>_ s. ret 0 s))))"
    unfolding Let_def using t assms(2,3)
    by (auto intro!: okK_seq [of "mounts (T(sb := None))"] fr mounts_isup put_super_fr umounted simp: okK_ret)
qed

lemma sys_umount_mounts:
  assumes m: "mounts T s"
  shows "okK (umount_result T) (sys_umount dev_name s)"
proof -
  have leave: "okK (umount_result T) (leave [iput i] (- ENOTBLK) t)" if "mounts T t" for i t
    using mounts.iput_fr [OF that, of i] by (auto simp: kwp umount_failed elim!: okK_mono)
  have rest: "okK (umount_result T) (bindK (get_super dev t) (\<lambda>r s.
       case r of
         None \<Rightarrow> ret (- ENOENT) s
       | Some sb \<Rightarrow>
           (case s_imount (super_table s sb) of
              None \<Rightarrow> ret (- ENOENT) s
            | Some m \<Rightarrow>
                if \<exists>i \<in> {0..<NR_INODE}. i_dev (inode_table s i) = dev \<and> i_count (inode_table s i) \<noteq> 0
                then ret (- EBUSY) s
                else
                  bindK (iput (Some m) (upd_inode m (\<lambda>n. n\<lparr>i_mount := 0\<rparr>) s)) (\<lambda>_ s.
                  let s = upd_super sb (\<lambda>b. b\<lparr>s_imount := None\<rparr>) s
                  in bindK (iput (s_isup (super_table s sb)) s) (\<lambda>_ s.
                     let s = upd_super sb (\<lambda>b. b\<lparr>s_isup := None\<rparr>) s
                     in bindK (put_super dev s) (\<lambda>_ s.
                        bindK (sync_dev dev s) (\<lambda>_ s. ret 0 s)))))))" if t: "mounts T t" for dev t
    unfolding okK_bindK [of _ "get_super dev t"]
  proof (rule okK_mono [OF get_super_at], elim conjE, hypsubst)
    fix r
    assume r: "\<forall>sb. r = Some sb \<longrightarrow> sb < NR_SUPER \<and> s_dev (super_table t sb) = dev \<and> dev \<noteq> 0"
    have "T sb \<noteq> None" if "r = Some sb" "s_imount (super_table t sb) = Some m" for sb m
      using t r that by (auto simp: mounts_def)
    then show "okK (umount_result T) (case r of
         None \<Rightarrow> ret (- ENOENT) t
       | Some sb \<Rightarrow>
           (case s_imount (super_table t sb) of
              None \<Rightarrow> ret (- ENOENT) t
            | Some m \<Rightarrow>
                if \<exists>i \<in> {0..<NR_INODE}. i_dev (inode_table t i) = dev \<and> i_count (inode_table t i) \<noteq> 0
                then ret (- EBUSY) t
                else
                  bindK (iput (Some m) (upd_inode m (\<lambda>n. n\<lparr>i_mount := 0\<rparr>) t)) (\<lambda>_ s.
                  let s = upd_super sb (\<lambda>b. b\<lparr>s_imount := None\<rparr>) s
                  in bindK (iput (s_isup (super_table s sb)) s) (\<lambda>_ s.
                     let s = upd_super sb (\<lambda>b. b\<lparr>s_isup := None\<rparr>) s
                     in bindK (put_super dev s) (\<lambda>_ s.
                        bindK (sync_dev dev s) (\<lambda>_ s. ret 0 s))))))"
      using t r unmount_mounts [OF t] umount_failed [OF t]
      by (simp add: okK_ret split: option.split)
  qed
  show ?thesis
    unfolding sys_umount_def Let_def [of "i_zone _ 0"] using m umount_failed
    by (auto intro!: okK_seq [of "mounts T"] fr rest leave simp: okK_ret simp del: leave.simps split: option.split)
qed

text \<open>
  C8. Mounting keeps the table of super blocks: a device has at most one super block, and a mounted one keeps its
  device. A \<open>mount\<close> that returns 0 has put one super block, not mounted before, on a directory, which is marked, and
  an \<open>umount\<close> that returns 0 has taken one off; on all other ways out, and by \<open>read_super\<close>, \<open>put_super\<close> and
  \<open>check_disk_change\<close>, no mount changes. \<open>read_super\<close> gives the super block of the device.
\<close>

theorem mounts_consistent:
  assumes "mounts T s"
  shows "okK (\<lambda>r t. if r = 0 then \<exists>dev dir. mounted_on T dev dir t else mounts T t) (sys_mount dev_name dir_name s)
    \<and> okK (\<lambda>r t. if r = 0 then \<exists>sb < NR_SUPER. T sb \<noteq> None \<and> mounts (T(sb := None)) t else mounts T t) (sys_umount dev_name s)
    \<and> okK (\<lambda>r t. mounts T t \<and> (\<forall>sb. r = Some sb \<longrightarrow> sb < NR_SUPER \<and> dev \<noteq> 0 \<and> s_dev (super_table t sb) = dev)) (read_super dev s)
    \<and> okK (\<lambda>_. mounts T) (put_super dev s) \<and> okK (\<lambda>_. mounts T) (check_disk_change dev s)"
  using sys_mount_mounts [OF assms, of dev_name dir_name] sys_umount_mounts [OF assms, of dev_name] read_super_read [OF assms, of dev]
    put_super_fr [OF assms, of dev] check_disk_change_fr [OF assms, of dev]
  by (simp add: mount_result_def [abs_def] umount_result_def [abs_def] super_read_def [abs_def])

text \<open>A kernel with one file system mounted.\<close>

definition one_mount :: kstate where
  "one_mount = upd_super 0 (\<lambda>b. b\<lparr>s_dev := 0x301, s_imount := Some 1\<rparr>) demo_kernel"

theorem mounts_consistent_witness:
  "mounts ((\<lambda>_. None)(0 := Some 1)) one_mount
    \<and> okK (\<lambda>r t. mounts ((\<lambda>_. None)(0 := Some 1)) t \<and> (\<forall>sb. r = Some sb \<longrightarrow> s_dev (super_table t sb) = 0x302)) (read_super 0x302 one_mount)"
proof -
  have m: "mounts ((\<lambda>_. None)(0 := Some 1)) one_mount"
    by (simp add: mounts_def one_mount_def upd_super_def demo_kernel_def null_super_def)
  have "okK (\<lambda>r t. mounts ((\<lambda>_. None)(0 := Some 1)) t \<and> (\<forall>sb. r = Some sb \<longrightarrow> s_dev (super_table t sb) = 0x302)) (read_super 0x302 one_mount)"
    by (rule okK_mono [OF mounts_consistent [OF m, THEN conjunct2, THEN conjunct2, THEN conjunct1]]) simp
  then show ?thesis
    using m by simp
qed

end
