(* ===== verification/Floppy.thy ===== *)
theory Floppy
  imports Block_Req Timer
begin

text \<open>
  \<open>kernel/blk_drv/floppy.c\<close>: the floppy driver. \<open>do_fd_request\<close> starts the request at the head of the queue and has the
  clock interrupt go on when the motor is up; then the interrupts of the controller carry it on, whose routine is
  in \<open>do_floppy\<close>. Each of them ends in \<open>do_fd_request\<close> again, which is the parameter \<open>again\<close> of the routines.
  \<open>fdc_status\<close> is what the successive reads of the status register yield, \<open>fdc_clock\<close> the number of them so far;
  \<open>fdc_data\<close> and \<open>fdc_reads\<close> are the same for the data register. What the controller itself does to the memory
  by direct memory access is not code of the kernel, and not modelled.
\<close>

unbundle bit_operations_syntax

section \<open>State\<close>

datatype fd_intr = RW_INTERRUPT | SEEK_INTERRUPT | RECAL_INTERRUPT | RESET_INTERRUPT

record floppy_struct =
  fl_size :: u32
  fl_sect :: u32
  fl_head :: u32
  fl_track :: u32
  fl_stretch :: u32
  fl_gap :: u8
  fl_rate :: u8
  fl_spec1 :: u8

text \<open>\<open>data_addr\<close> and \<open>tmp_area_addr\<close> are the addresses of the data of each buffer and of \<open>tmp_floppy_area\<close>;
  \<open>fd_beyond\<close> is what lies in the memory behind the table \<open>floppy_type\<close>, read with its index.\<close>

record fd_state =
  fb :: blk_state
  fd_timers :: timer_state
  fd_motor :: floppy_state
  fd_recalibrate :: bool
  fd_reset :: bool
  fd_seek :: bool
  cur_spec1 :: int
  cur_rate :: int
  fd_type :: nat
  fd_beyond :: "nat \<Rightarrow> floppy_struct"
  current_drive :: u8
  fd_sector :: u8
  fd_head :: u8
  fd_track :: u8
  seek_track :: u8
  current_track :: u8
  fd_command :: u8
  do_floppy :: "fd_intr option"
  reply_buffer :: "nat \<Rightarrow> u8"
  wait_on_floppy_select :: "nat option"
  tmp_floppy_area :: block_data
  tmp_area_addr :: u32
  data_addr :: "nat \<Rightarrow> u32"
  fdc_status :: "nat \<Rightarrow> u8"
  fdc_clock :: nat
  fdc_data :: "nat \<Rightarrow> u8"
  fdc_reads :: nat

type_synonym 'a fop = "fd_state \<Rightarrow> ('a, fd_state) kres"

definition FD_MAX_ERRORS :: int where "FD_MAX_ERRORS = 8"
definition MAX_REPLIES :: nat where "MAX_REPLIES = 7"
definition FD_STATUS :: nat where "FD_STATUS = 0x3f4"
definition FD_DATA :: nat where "FD_DATA = 0x3f5"
definition FD_DOR :: nat where "FD_DOR = 0x3f2"
definition FD_DIR :: nat where "FD_DIR = 0x3f7"
definition FD_DCR :: nat where "FD_DCR = 0x3f7"
definition STATUS_BUSY :: u8 where "STATUS_BUSY = 0x10"
definition STATUS_DIR :: u8 where "STATUS_DIR = 0x40"
definition STATUS_READY :: u8 where "STATUS_READY = 0x80"
definition FD_RECALIBRATE :: u8 where "FD_RECALIBRATE = 0x07"
definition FD_SEEK :: u8 where "FD_SEEK = 0x0F"
definition FD_READ :: u8 where "FD_READ = 0xE6"
definition FD_WRITE :: u8 where "FD_WRITE = 0xC5"
definition FD_SENSEI :: u8 where "FD_SENSEI = 0x08"
definition FD_SPECIFY :: u8 where "FD_SPECIFY = 0x03"
definition DMA_READ :: u8 where "DMA_READ = 0x46"
definition DMA_WRITE :: u8 where "DMA_WRITE = 0x4A"

text \<open>The names that the timer list has for the two functions the driver gives to \<open>add_timer\<close>.\<close>

definition TRANSFER :: nat where "TRANSFER = 0"
definition FLOPPY_ON_INTERRUPT :: nat where "FLOPPY_ON_INTERRUPT = 1"

definition floppy_type :: "floppy_struct list" where
  "floppy_type =
    [\<lparr>fl_size = 0, fl_sect = 0, fl_head = 0, fl_track = 0, fl_stretch = 0, fl_gap = 0x00, fl_rate = 0x00, fl_spec1 = 0x00\<rparr>,
     \<lparr>fl_size = 720, fl_sect = 9, fl_head = 2, fl_track = 40, fl_stretch = 0, fl_gap = 0x2A, fl_rate = 0x02, fl_spec1 = 0xDF\<rparr>,
     \<lparr>fl_size = 2400, fl_sect = 15, fl_head = 2, fl_track = 80, fl_stretch = 0, fl_gap = 0x1B, fl_rate = 0x00, fl_spec1 = 0xDF\<rparr>,
     \<lparr>fl_size = 720, fl_sect = 9, fl_head = 2, fl_track = 40, fl_stretch = 1, fl_gap = 0x2A, fl_rate = 0x02, fl_spec1 = 0xDF\<rparr>,
     \<lparr>fl_size = 1440, fl_sect = 9, fl_head = 2, fl_track = 80, fl_stretch = 0, fl_gap = 0x2A, fl_rate = 0x02, fl_spec1 = 0xDF\<rparr>,
     \<lparr>fl_size = 720, fl_sect = 9, fl_head = 2, fl_track = 40, fl_stretch = 1, fl_gap = 0x23, fl_rate = 0x01, fl_spec1 = 0xDF\<rparr>,
     \<lparr>fl_size = 1440, fl_sect = 9, fl_head = 2, fl_track = 80, fl_stretch = 0, fl_gap = 0x23, fl_rate = 0x01, fl_spec1 = 0xDF\<rparr>,
     \<lparr>fl_size = 2880, fl_sect = 18, fl_head = 2, fl_track = 80, fl_stretch = 0, fl_gap = 0x1B, fl_rate = 0x00, fl_spec1 = 0xCF\<rparr>]"

text \<open>\<open>*floppy\<close>.\<close>

definition floppy :: "fd_state \<Rightarrow> floppy_struct" where
  "floppy s = (if fd_type s < length floppy_type then floppy_type ! fd_type s else fd_beyond s (fd_type s))"

definition fd_outb :: "u8 \<Rightarrow> nat \<Rightarrow> fd_state \<Rightarrow> fd_state" where
  "fd_outb v port s = s\<lparr>fb := (fb s)\<lparr>bk := outb v port (bk (fb s))\<rparr>\<rparr>"

definition fd_out_dor :: "u8 \<Rightarrow> fd_state \<Rightarrow> fd_state" where
  "fd_out_dor v s = fd_outb v FD_DOR (s\<lparr>fd_motor := (fd_motor s)\<lparr>fd_dor_port := v\<rparr>\<rparr>)"

definition fd_current :: "fd_state \<Rightarrow> nat option" where "fd_current s = current_request (fb s) 2"

definition upd_fd_current :: "(blk_request \<Rightarrow> blk_request) \<Rightarrow> fd_state \<Rightarrow> fd_state" where
  "upd_fd_current f s = (case fd_current s of None \<Rightarrow> s | Some c \<Rightarrow> s\<lparr>fb := upd_request c f (fb s)\<rparr>)"

text \<open>The result of a routine on a part of the state, put back into the whole.\<close>

definition put_part :: "('b \<Rightarrow> 's) \<Rightarrow> ('a, 'b) kres \<Rightarrow> ('a, 's) kres" where
  "put_part f r =
    (case r of
       Inr (x, b) \<Rightarrow> ret x (f b)
     | Inl (Panic m) \<Rightarrow> Inl (Panic m)
     | Inl (Exit c b) \<Rightarrow> Inl (Exit c (f b))
     | Inl (Blocked b) \<Rightarrow> Inl (Blocked (f b))
     | Inl (Fault b) \<Rightarrow> Inl (Fault (f b)))"

text \<open>\<open>end_request\<close> with \<open>DEVICE_OFF\<close>: the motor goes off in three seconds.\<close>

definition fd_end_request :: "u8 \<Rightarrow> unit fop" where
  "fd_end_request up s =
    (let s = (case fd_current s of None \<Rightarrow> s
              | Some c \<Rightarrow> s\<lparr>fd_motor := floppy_off (nat (r_dev (request (fb s) c)) mod 4) (fd_motor s)\<rparr>)
     in put_part (\<lambda>b. s\<lparr>fb := b\<rparr>) (end_request (\<lambda>_ b. b) 2 up (fb s)))"

section \<open>Selecting a drive\<close>

definition floppy_deselect :: "nat \<Rightarrow> fd_state \<Rightarrow> fd_state" where
  "floppy_deselect nr s =
    (let k = bk (fb s); (w, sc) = Sched.wake_up (wait_on_floppy_select s) (sch k)
     in s\<lparr>fd_motor := (fd_motor s)\<lparr>fd_selected := 0\<rparr>, wait_on_floppy_select := w, fb := (fb s)\<lparr>bk := k\<lparr>sch := sc\<rparr>\<rparr>\<rparr>)"

text \<open>\<open>floppy_on\<close> of \<open>kernel/sched.c\<close>: the process sleeps until the motor is up.\<close>

definition floppy_on :: "nat \<Rightarrow> unit fop" where
  "floppy_on nr s =
    bindK (put_part (\<lambda>m. s\<lparr>fd_motor := m\<rparr>) (ticks_to_floppy_on nr (fd_motor s))) (\<lambda>ticks s.
      if ticks \<noteq> 0 then Inl (Blocked s) else ret () s)"

text \<open>\<open>goto repeat\<close> when another drive is selected by then.\<close>

primrec floppy_change :: "nat \<Rightarrow> nat \<Rightarrow> int fop" where
  "floppy_change 0 nr s = Inl (Blocked s)"
| "floppy_change (Suc k) nr s =
    bindK (floppy_on nr s) (\<lambda>_ s.
      if unat (current_DOR (fd_motor s) AND 3) \<noteq> nr then
        if fd_selected (fd_motor s) \<noteq> 0 then Inl (Blocked s) else floppy_change k nr s
      else
        let changed = port_in (bk (fb s)) FD_DIR AND 0x80 \<noteq> 0
        in ret (if changed then 1 else 0) (s\<lparr>fd_motor := floppy_off nr (fd_motor s)\<rparr>))"

section \<open>The controller\<close>

text \<open>The long at \<open>CURRENT->buffer\<close>; a buffer above 1 MB goes through \<open>tmp_floppy_area\<close>.\<close>

definition buffer_addr :: "fd_state \<Rightarrow> nat \<Rightarrow> nat \<Rightarrow> u32" where
  "buffer_addr s c bh = data_addr s bh + of_nat (r_buffer (request (fb s) c))"

definition copy_to_area :: "nat \<Rightarrow> nat \<Rightarrow> fd_state \<Rightarrow> fd_state" where
  "copy_to_area c bh s =
    (let data = b_data (buf (bk (fb s)) bh); o' = r_buffer (request (fb s) c)
     in s\<lparr>tmp_floppy_area := (\<lambda>i. if i < BLOCK_SIZE then data (o' + i) else tmp_floppy_area s i)\<rparr>)"

definition copy_from_area :: "nat \<Rightarrow> nat \<Rightarrow> fd_state \<Rightarrow> fd_state" where
  "copy_from_area c bh s =
    (let o' = r_buffer (request (fb s) c); area = tmp_floppy_area s
     in s\<lparr>fb := (fb s)\<lparr>bk := upd_buf bh (\<lambda>b. b\<lparr>b_data := (\<lambda>i.
          if o' \<le> i \<and> i < o' + BLOCK_SIZE then area (i - o') else b_data b i)\<rparr>) (bk (fb s))\<rparr>\<rparr>)"

text \<open>\<open>Fault\<close> when there is no request: \<open>CURRENT->buffer\<close> is then read through a null pointer, that is, from low memory.\<close>

definition setup_DMA :: "unit fop" where
  "setup_DMA s =
    (case fd_current s of
       None \<Rightarrow> Inl (Fault s)
     | Some c \<Rightarrow> (case r_bh (request (fb s) c) of
         None \<Rightarrow> Inl (Fault s)
       | Some bh \<Rightarrow>
           let addr = buffer_addr s c bh; high = sint addr \<ge> 0x100000;
               s = (if high \<and> fd_command s = FD_WRITE then copy_to_area c bh s else s);
               addr = (if high then tmp_area_addr s else addr);
               s = fd_outb (4 OR 2) 10 s;
               mode = (if fd_command s = FD_READ then DMA_READ else DMA_WRITE);
               s = fd_outb mode 12 s;
               s = fd_outb mode 11 s;
               s = fd_outb (ucast addr) 4 s;
               s = fd_outb (ucast (drop_bit 8 addr)) 4 s;
               s = fd_outb (ucast (drop_bit 16 addr)) 0x81 s;
               s = fd_outb 0xff 5 s;
               s = fd_outb 3 5 s
           in ret () (fd_outb (0 OR 2) 10 s)))"

definition read_fdc_status :: "fd_state \<Rightarrow> u8 \<times> fd_state" where
  "read_fdc_status s = (fdc_status s (fdc_clock s), s\<lparr>fdc_clock := fdc_clock s + 1\<rparr>)"

primrec output_loop :: "nat \<Rightarrow> u8 \<Rightarrow> fd_state \<Rightarrow> fd_state" where
  "output_loop 0 byte s = s\<lparr>fd_reset := True\<rparr>"
| "output_loop (Suc k) byte s =
    (let (st, s) = read_fdc_status s
     in if st AND (STATUS_READY OR STATUS_DIR) = STATUS_READY then fd_outb byte FD_DATA s else output_loop k byte s)"

definition output_byte :: "u8 \<Rightarrow> fd_state \<Rightarrow> fd_state" where
  "output_byte byte s = (if fd_reset s then s else output_loop 10000 byte s)"

definition output_bytes :: "u8 list \<Rightarrow> fd_state \<Rightarrow> fd_state" where
  "output_bytes = fold output_byte"

text \<open>The loop of \<open>result\<close> from the \<open>i\<close>-th reply on.\<close>

primrec result_loop :: "nat \<Rightarrow> nat \<Rightarrow> fd_state \<Rightarrow> int \<times> fd_state" where
  "result_loop 0 i s = (-1, s\<lparr>fd_reset := True\<rparr>)"
| "result_loop (Suc k) i s =
    (let (st, s) = read_fdc_status s; st = st AND (STATUS_DIR OR STATUS_READY OR STATUS_BUSY)
     in if st = STATUS_READY then (int i, s)
        else if st = STATUS_DIR OR STATUS_READY OR STATUS_BUSY then
          if i \<ge> MAX_REPLIES then (-1, s\<lparr>fd_reset := True\<rparr>)
          else result_loop k (i + 1)
                 (s\<lparr>reply_buffer := (reply_buffer s)(i := fdc_data s (fdc_reads s)), fdc_reads := fdc_reads s + 1\<rparr>)
        else result_loop k i s)"

definition fdc_result :: "fd_state \<Rightarrow> int \<times> fd_state" where
  "fdc_result s = (if fd_reset s then (-1, s) else result_loop 10000 0 s)"

definition ST0 :: "fd_state \<Rightarrow> u8" where "ST0 s = reply_buffer s 0"
definition ST1 :: "fd_state \<Rightarrow> u8" where "ST1 s = reply_buffer s 1"
definition ST2 :: "fd_state \<Rightarrow> u8" where "ST2 s = reply_buffer s 2"

section \<open>Interrupts\<close>

text \<open>After \<open>end_request\<close> the current request is the next one; \<open>CURRENT->errors\<close> of none is the long at address 8.\<close>

definition fd_errors :: "fd_state \<Rightarrow> int" where
  "fd_errors s =
    (case fd_current s of Some c \<Rightarrow> r_errors (request (fb s) c) | None \<Rightarrow> sint (pmem (mm (bk (fb s))) 8))"

definition bad_flp_intr :: "unit fop" where
  "bad_flp_intr s =
    (if fd_current s = None then Inl (Fault s) else
     let s = upd_fd_current (\<lambda>r. r\<lparr>r_errors := r_errors r + 1\<rparr>) s
     in bindK (if fd_errors s > FD_MAX_ERRORS then fd_end_request 0 (floppy_deselect (unat (current_drive s)) s) else ret () s)
        (\<lambda>_ s. ret () (if fd_errors s > FD_MAX_ERRORS div 2 then s\<lparr>fd_reset := True\<rparr> else s\<lparr>fd_recalibrate := True\<rparr>)))"

definition rw_interrupt :: "unit fop \<Rightarrow> unit fop" where
  "rw_interrupt again s =
    (let (n, s) = fdc_result s
     in if n \<noteq> 7 \<or> ST0 s AND 0xf8 \<noteq> 0 \<or> ST1 s AND 0xbf \<noteq> 0 \<or> ST2 s AND 0x73 \<noteq> 0 then
          bindK (if ST1 s AND 0x02 \<noteq> 0 then fd_end_request 0 (floppy_deselect (unat (current_drive s)) s) else bad_flp_intr s)
            (\<lambda>_ s. again s)
        else
          (case fd_current s of
             None \<Rightarrow> Inl (Fault s)
           | Some c \<Rightarrow> (case r_bh (request (fb s) c) of
               None \<Rightarrow> Inl (Fault s)
             | Some bh \<Rightarrow>
                 let s = (if fd_command s = FD_READ \<and> buffer_addr s c bh \<ge> 0x100000 then copy_from_area c bh s else s);
                     s = floppy_deselect (unat (current_drive s)) s
                 in bindK (fd_end_request 1 s) (\<lambda>_ s. again s))))"

definition setup_rw_floppy :: "unit fop \<Rightarrow> unit fop" where
  "setup_rw_floppy again s =
    bindK (setup_DMA s) (\<lambda>_ s.
      let s = s\<lparr>do_floppy := Some RW_INTERRUPT\<rparr>;
          s = output_bytes [fd_command s, push_bit 2 (fd_head s) OR current_drive s, fd_track s, fd_head s, fd_sector s, 2,
                ucast (fl_sect (floppy s)), fl_gap (floppy s), 0xFF] s
      in if fd_reset s then again s else ret () s)"

definition seek_interrupt :: "unit fop \<Rightarrow> unit fop" where
  "seek_interrupt again s =
    (let s = output_byte FD_SENSEI s; (n, s) = fdc_result s
     in if n \<noteq> 2 \<or> ST0 s AND 0xF8 \<noteq> 0x20 \<or> ST1 s \<noteq> seek_track s then bindK (bad_flp_intr s) (\<lambda>_ s. again s)
        else setup_rw_floppy again (s\<lparr>current_track := ST1 s\<rparr>))"

definition transfer :: "unit fop \<Rightarrow> unit fop" where
  "transfer again s =
    (let spec1 = fl_spec1 (floppy s); rate = fl_rate (floppy s);
         s = (if cur_spec1 s \<noteq> uint spec1 then output_bytes [FD_SPECIFY, spec1, 6] (s\<lparr>cur_spec1 := uint spec1\<rparr>) else s);
         s = (if cur_rate s \<noteq> uint rate then fd_outb rate FD_DCR (s\<lparr>cur_rate := uint rate\<rparr>) else s)
     in if fd_reset s then again s
        else if \<not> fd_seek s then setup_rw_floppy again s
        else
          let s = s\<lparr>do_floppy := Some SEEK_INTERRUPT\<rparr>; unit = push_bit 2 (fd_head s) OR current_drive s;
              s = (if seek_track s \<noteq> 0 then output_bytes [FD_SEEK, unit, seek_track s] s
                   else output_bytes [FD_RECALIBRATE, unit] s)
          in if fd_reset s then again s else ret () s)"

definition recal_interrupt :: "unit fop \<Rightarrow> unit fop" where
  "recal_interrupt again s =
    (let s = output_byte FD_SENSEI s; (n, s) = fdc_result s
     in again (if n \<noteq> 2 \<or> ST0 s AND 0xE0 = 0x60 then s\<lparr>fd_reset := True\<rparr> else s\<lparr>fd_recalibrate := False\<rparr>))"

definition unexpected_floppy_interrupt :: "fd_state \<Rightarrow> fd_state" where
  "unexpected_floppy_interrupt s =
    (let s = output_byte FD_SENSEI s; (n, s) = fdc_result s
     in if n \<noteq> 2 \<or> ST0 s AND 0xE0 = 0x60 then s\<lparr>fd_reset := True\<rparr> else s\<lparr>fd_recalibrate := True\<rparr>)"

definition recalibrate_floppy :: "unit fop \<Rightarrow> unit fop" where
  "recalibrate_floppy again s =
    (let s = s\<lparr>fd_recalibrate := False, current_track := 0, do_floppy := Some RECAL_INTERRUPT\<rparr>;
         s = output_bytes [FD_RECALIBRATE, push_bit 2 (fd_head s) OR current_drive s] s
     in if fd_reset s then again s else ret () s)"

definition reset_interrupt :: "unit fop \<Rightarrow> unit fop" where
  "reset_interrupt again s =
    (let (_, s) = fdc_result (output_byte FD_SENSEI s)
     in again (output_bytes [FD_SPECIFY, word_of_int (cur_spec1 s), 6] s))"

definition reset_floppy :: "fd_state \<Rightarrow> fd_state" where
  "reset_floppy s =
    (let s = s\<lparr>fd_reset := False, cur_spec1 := -1, cur_rate := -1, fd_recalibrate := True, do_floppy := Some RESET_INTERRUPT\<rparr>;
         s = fd_out_dor (current_DOR (fd_motor s) AND NOT 0x04) s
     in fd_out_dor (current_DOR (fd_motor s)) s)"

text \<open>The drive is selected without waiting; another one than before is given two ticks.\<close>

definition floppy_on_interrupt :: "unit fop \<Rightarrow> unit fop" where
  "floppy_on_interrupt again s =
    (let s = s\<lparr>fd_motor := (fd_motor s)\<lparr>fd_selected := 1\<rparr>\<rparr>; dor = current_DOR (fd_motor s)
     in if current_drive s \<noteq> dor AND 3 then
          let dor = (dor AND 0xFC) OR current_drive s;
              s = fd_out_dor dor (s\<lparr>fd_motor := (fd_motor s)\<lparr>current_DOR := dor\<rparr>\<rparr>)
          in case add_timer 2 (Some TRANSFER) (fd_timers s) of
               None \<Rightarrow> panic ''No more time requests free''
             | Some (_, t) \<Rightarrow> ret () (s\<lparr>fd_timers := t\<rparr>)
        else transfer again s)"

section \<open>Requests\<close>

text \<open>The place of a request on the disk; \<open>sector\<close> counts from 1. The code divides by zero for the first type.\<close>

definition fd_place :: "floppy_struct \<Rightarrow> u32 \<Rightarrow> u8 \<times> u8 \<times> u8" where
  "fd_place f block =
    (let sec = ucast (block mod fl_sect f); block = block div fl_sect f
     in (ucast (block div fl_head f), ucast (block mod fl_head f), sec + 1))"

definition set_place :: "u8 \<times> u8 \<times> u8 \<Rightarrow> fd_state \<Rightarrow> fd_state" where
  "set_place = (\<lambda>(track, head, sec) s.
    let s = s\<lparr>fd_sector := sec, fd_head := head, fd_track := track,
              seek_track := ucast (push_bit (unat (fl_stretch (floppy s))) (ucast track :: u32))\<rparr>
    in if seek_track s \<noteq> current_track s then s\<lparr>fd_seek := True\<rparr> else s)"

text \<open>The motor is switched on, and \<open>floppy_on_interrupt\<close> called when it is up, at once if it is running.\<close>

definition start_motor :: "unit fop \<Rightarrow> unit fop" where
  "start_motor again s =
    bindK (put_part (\<lambda>m. s\<lparr>fd_motor := m\<rparr>) (ticks_to_floppy_on (unat (current_drive s)) (fd_motor s))) (\<lambda>ticks s.
      case add_timer ticks (Some FLOPPY_ON_INTERRUPT) (fd_timers s) of
        None \<Rightarrow> panic ''No more time requests free''
      | Some (calls, t) \<Rightarrow>
          if calls = [] then ret () (s\<lparr>fd_timers := t\<rparr>) else floppy_on_interrupt again (s\<lparr>fd_timers := t\<rparr>))"

text \<open>The part of \<open>do_fd_request\<close> from \<open>INIT_REQUEST\<close> on. \<open>goto repeat\<close> takes a request off the queue, and keeps \<open>seek\<close>.\<close>

primrec fd_repeat :: "unit fop \<Rightarrow> nat \<Rightarrow> unit fop" where
  "fd_repeat again 0 s = Inl (Blocked s)"
| "fd_repeat again (Suc k) s =
    (case fd_current s of
       None \<Rightarrow> ret () s
     | Some c \<Rightarrow>
        (case init_request 2 c (fb s) of
           Some m \<Rightarrow> panic m
         | None \<Rightarrow>
            let r = request (fb s) c; dev = nat (r_dev r);
                s = s\<lparr>fd_type := dev mod 256 div 4\<rparr>;
                s = (if unat (current_drive s) \<noteq> dev mod 4 then s\<lparr>fd_seek := True\<rparr> else s);
                s = s\<lparr>current_drive := of_nat (dev mod 4)\<rparr>;
                block = r_sector r
            in if block + 2 > fl_size (floppy s) then bindK (fd_end_request 0 s) (\<lambda>_ s. fd_repeat again k s)
               else if fl_sect (floppy s) = 0 \<or> fl_head (floppy s) = 0 then Inl (Fault s)
               else
                 let s = set_place (fd_place (floppy s) block) s
                 in if r_cmd r = READ then start_motor again (s\<lparr>fd_command := FD_READ\<rparr>)
                    else if r_cmd r = WRITE then start_motor again (s\<lparr>fd_command := FD_WRITE\<rparr>)
                    else panic ''do_fd_request: unknown command''))"

text \<open>The calls nest: a routine that runs within \<open>do_fd_request\<close> calls it again when the controller does not take a
  byte, which has set \<open>reset\<close>. The first number bounds the nesting.\<close>

primrec do_fd_request :: "nat \<Rightarrow> unit fop" where
  "do_fd_request 0 s = Inl (Blocked s)"
| "do_fd_request (Suc k) s =
    (let s = s\<lparr>fd_seek := False\<rparr>
     in if fd_reset s then ret () (reset_floppy s)
        else if fd_recalibrate s then recalibrate_floppy (do_fd_request k) s
        else fd_repeat (do_fd_request k) (Suc NR_REQUEST) s)"

definition FD_FUEL :: nat where "FD_FUEL = 2"

text \<open>The interrupt of the controller: the assembly entry clears \<open>do_floppy\<close> and calls what it held. Then the functions
  that the clock interrupt calls.\<close>

definition floppy_interrupt :: "unit fop" where
  "floppy_interrupt s =
    (let s' = s\<lparr>do_floppy := None\<rparr>; again = do_fd_request FD_FUEL
     in case do_floppy s of
          None \<Rightarrow> ret () (unexpected_floppy_interrupt s')
        | Some RW_INTERRUPT \<Rightarrow> rw_interrupt again s'
        | Some SEEK_INTERRUPT \<Rightarrow> seek_interrupt again s'
        | Some RECAL_INTERRUPT \<Rightarrow> recal_interrupt again s'
        | Some RESET_INTERRUPT \<Rightarrow> reset_interrupt again s')"

definition fd_timeout :: "nat \<Rightarrow> unit fop" where
  "fd_timeout f s =
    (if f = TRANSFER then transfer (do_fd_request FD_FUEL) s
     else if f = FLOPPY_ON_INTERRUPT then floppy_on_interrupt (do_fd_request FD_FUEL) s else ret () s)"

definition floppy_init :: "fd_state \<Rightarrow> fd_state" where
  "floppy_init s =
    (let k = bk (fb s); k = k\<lparr>blk_fn := (blk_fn k)(2 := True)\<rparr>
     in s\<lparr>fb := (fb s)\<lparr>bk := outb (port_in k 0x21 AND NOT 0x40) 0x21 k\<rparr>\<rparr>)"


section \<open>The driver returns\<close>

text \<open>The requests of the queue. A request for a floppy disk can be served: it is for this driver and for a type of disk
  in the table (a request for the first, which has no sectors, is refused), it reads or writes, and its buffer is
  locked.\<close>

definition fd_queue :: "fd_state \<Rightarrow> nat list \<Rightarrow> bool" where
  "fd_queue s rs \<longleftrightarrow> Block_Req.chain (\<lambda>i. r_next (request (fb s) i)) (fd_current s) rs"

definition fd_request_ok :: "fd_state \<Rightarrow> nat \<Rightarrow> bool" where
  "fd_request_ok s c \<longleftrightarrow>
    (let r = request (fb s) c; dev = nat (r_dev r)
     in dev div 256 = 2 \<and> dev mod 256 div 4 < length floppy_type \<and> (dev mod 256 div 4 = 0 \<longrightarrow> r_sector r + 2 \<noteq> 0)
      \<and> (r_cmd r = READ \<or> r_cmd r = WRITE) \<and> (\<exists>bh. r_bh r = Some bh \<and> b_lock (buf (bk (fb s)) bh) \<noteq> 0))"

text \<open>A state between two interrupts: such requests, each for a buffer of its own, and a drive that there is.\<close>

definition fd_sound :: "fd_state \<Rightarrow> nat list \<Rightarrow> bool" where
  "fd_sound s rs \<longleftrightarrow> fd_queue s rs \<and> length rs \<le> NR_REQUEST \<and> distinct (map (\<lambda>c. r_bh (request (fb s) c)) rs)
    \<and> (\<forall>c\<in>set rs. fd_request_ok s c) \<and> unat (current_drive s) < 4"

text \<open>The next interrupt is that of a transfer, or of the seek before it: then it is for the first request of the queue.\<close>

definition transferring :: "fd_state \<Rightarrow> bool" where
  "transferring s \<longleftrightarrow> do_floppy s = Some RW_INTERRUPT \<or> do_floppy s = Some SEEK_INTERRUPT"

definition timer_room :: "timer_state \<Rightarrow> bool" where
  "timer_room t \<longleftrightarrow> (\<exists>xs. timers_ok t xs \<and> length xs < TIME_REQUESTS)"

text \<open>A routine returns: requests may have been taken off the front of the queue \<open>rs\<close>, those behind them are still there
  and can be served, and at most one timer was added to \<open>t0\<close>.\<close>

definition fd_returns :: "timer_state \<Rightarrow> nat list \<Rightarrow> (unit, fd_state) kres \<Rightarrow> bool" where
  "fd_returns t0 rs m \<longleftrightarrow> (\<exists>s' served rs'. m = ret () s' \<and> rs = served @ rs' \<and> fd_sound s' rs' \<and> timer_use t0 (fd_timers s')
    \<and> (transferring s' \<longrightarrow> rs' \<noteq> []))"

text \<open>The controller changes nothing of the requests.\<close>

definition same_requests :: "fd_state \<Rightarrow> fd_state \<Rightarrow> bool" where
  "same_requests s s' \<longleftrightarrow> request (fb s') = request (fb s) \<and> current_request (fb s') = current_request (fb s)"

lemma same_requests_refl [simp]: "same_requests s s"
  by (simp add: same_requests_def)

lemma same_requests_trans: "same_requests s t \<Longrightarrow> same_requests t u \<Longrightarrow> same_requests s u"
  by (simp add: same_requests_def)

text \<open>Nor of the locks of the buffers, the drive and the timers.\<close>

definition calm :: "fd_state \<Rightarrow> fd_state \<Rightarrow> bool" where
  "calm s s' \<longleftrightarrow> same_requests s s' \<and> (\<forall>b. b_lock (buf (bk (fb s')) b) = b_lock (buf (bk (fb s)) b))
    \<and> current_drive s' = current_drive s \<and> fd_timers s' = fd_timers s"

lemma calm_refl [simp]: "calm s s"
  by (simp add: calm_def same_requests_def)

lemma calm_trans [trans]: "calm s t \<Longrightarrow> calm t u \<Longrightarrow> calm s u"
  by (simp add: calm_def same_requests_def)

lemma calm_sound: "calm s t \<Longrightarrow> fd_sound s rs \<Longrightarrow> fd_sound t rs"
  by (simp add: calm_def same_requests_def fd_sound_def fd_queue_def fd_request_ok_def fd_current_def Let_def)

lemma calm_timers: "calm s t \<Longrightarrow> fd_timers t = fd_timers s"
  by (simp add: calm_def)

lemma calm_fd_outb [simp]: "calm s (fd_outb v p s)"
  by (simp add: calm_def same_requests_def fd_outb_def outb_def)

lemma calm_fd_out_dor [simp]: "calm s (fd_out_dor v s)"
  by (simp add: calm_def same_requests_def fd_out_dor_def fd_outb_def outb_def)

lemma output_loop_calm: "calm s (output_loop n b s) \<and> do_floppy (output_loop n b s) = do_floppy s"
  by (induction n arbitrary: s) (simp_all add: calm_def same_requests_def read_fdc_status_def fd_outb_def outb_def)

lemma calm_output_byte [simp]: "calm s (output_byte b s)" "do_floppy (output_byte b s) = do_floppy s"
  using output_loop_calm by (simp_all add: output_byte_def)

lemma calm_output_bytes [simp]: "calm s (output_bytes bs s)" "do_floppy (output_bytes bs s) = do_floppy s"
proof (induction bs arbitrary: s)
  case (Cons b bs)
  { case 1 show ?case
      using calm_trans [OF calm_output_byte(1) Cons.IH(1)] by (simp add: output_bytes_def) }
  { case 2 show ?case
      using Cons.IH(2) by (simp add: output_bytes_def) }
qed (simp_all add: output_bytes_def)

lemma calm_result: "calm s (snd (fdc_result s))" "do_floppy (snd (fdc_result s)) = do_floppy s"
proof -
  have "calm s (snd (result_loop n i s)) \<and> do_floppy (snd (result_loop n i s)) = do_floppy s" for n i
    by (induction n arbitrary: i s) (simp_all add: calm_def same_requests_def read_fdc_status_def Let_def)
  then show "calm s (snd (fdc_result s))" "do_floppy (snd (fdc_result s)) = do_floppy s"
    by (simp_all add: fdc_result_def)
qed

lemma calm_floppy_deselect [simp]: "calm s (floppy_deselect nr s)" "do_floppy (floppy_deselect nr s) = do_floppy s"
  by (simp_all add: floppy_deselect_def calm_def same_requests_def case_prod_beta Let_def)

text \<open>The result of \<open>output_byte\<close> and \<open>result\<close> after each other, as at the begin of an interrupt.\<close>

lemma calm_sense:
  assumes "fdc_result (output_byte b s) = (n, t)"
  shows "calm s t" "do_floppy t = do_floppy s"
  using calm_trans [OF calm_output_byte(1) calm_result(1), of s b] calm_result(2) [of "output_byte b s"] assms by simp_all

subsection \<open>Within \<open>do\_fd\_request\<close>\<close>

text \<open>The routines that may run within \<open>do_fd_request\<close> call it again only when a reset is due.\<close>

definition resets :: "unit fop \<Rightarrow> bool" where
  "resets again \<longleftrightarrow> (\<forall>s. fd_reset s \<longrightarrow> again s = ret () (reset_floppy (s\<lparr>fd_seek := False\<rparr>)))"

lemma resets_do_fd_request: "resets (do_fd_request (Suc k))"
  by (simp add: resets_def Let_def)

lemma fd_returns_ret:
  "fd_sound s rs \<Longrightarrow> timer_use t0 (fd_timers s) \<Longrightarrow> (transferring s \<Longrightarrow> rs \<noteq> []) \<Longrightarrow> fd_returns t0 rs (ret () s)"
  unfolding fd_returns_def by blast

lemma fd_returns_reset:
  assumes "resets again" "fd_reset s" "fd_sound s rs" "timer_use t0 (fd_timers s)"
  shows "fd_returns t0 rs (again s)"
proof -
  have "calm s (reset_floppy (s\<lparr>fd_seek := False\<rparr>))" "\<not> transferring (reset_floppy (s\<lparr>fd_seek := False\<rparr>))"
    by (simp_all add: reset_floppy_def Let_def calm_def same_requests_def fd_out_dor_def fd_outb_def outb_def transferring_def)
  then have "fd_returns t0 rs (ret () (reset_floppy (s\<lparr>fd_seek := False\<rparr>)))"
    using assms(3,4) calm_timers by (intro fd_returns_ret) (auto intro: calm_sound)
  then show ?thesis
    using assms(1,2) by (simp add: resets_def)
qed

lemma fd_returns_or_reset:
  assumes "resets again" "calm s t" "fd_sound s rs" "timer_use t0 (fd_timers s)" "transferring t \<Longrightarrow> rs \<noteq> []"
  shows "fd_returns t0 rs (if fd_reset t then again t else ret () t)"
  using assms calm_sound [OF assms(2,3)] calm_timers [OF assms(2)] by (simp add: fd_returns_reset fd_returns_ret)

lemma timer_use_refl [simp]: "timer_use t t"
  by (simp add: timer_use_def)

lemma fd_sound_head:
  assumes "fd_sound s (c # rs)"
  shows "fd_current s = Some c" "init_request 2 c (fb s) = None" "\<exists>bh. r_bh (request (fb s) c) = Some bh"
  using assms by (auto simp: fd_sound_def fd_queue_def fd_request_ok_def init_request_def Let_def)

lemma setup_DMA_calm:
  assumes "fd_sound s rs" "rs \<noteq> []"
  shows "\<exists>t. setup_DMA s = ret () t \<and> calm s t"
proof -
  obtain c bh where c: "fd_current s = Some c" "r_bh (request (fb s) c) = Some bh"
    using assms fd_sound_head [of s "hd rs" "tl rs"] by auto
  have "calm s (copy_to_area c bh s)"
    by (simp add: calm_def same_requests_def copy_to_area_def Let_def)
  moreover have out: "calm s t \<Longrightarrow> calm s (fd_outb v p t)" for t v p
    using calm_trans calm_fd_outb by blast
  ultimately show ?thesis
    using c by (auto simp: setup_DMA_def Let_def intro!: out)
qed

lemma setup_rw_floppy_returns:
  assumes "resets again" "fd_sound s rs" "rs \<noteq> []" "timer_use t0 (fd_timers s)"
  shows "fd_returns t0 rs (setup_rw_floppy again s)"
proof -
  obtain t where t: "setup_DMA s = ret () t" "calm s t"
    using setup_DMA_calm [OF assms(2,3)] by blast
  let ?u = "output_bytes bs (t\<lparr>do_floppy := Some RW_INTERRUPT\<rparr>)"
  have "calm t (t\<lparr>do_floppy := Some RW_INTERRUPT\<rparr>)"
    by (simp add: calm_def same_requests_def)
  then have "calm s (output_bytes bs (t\<lparr>do_floppy := Some RW_INTERRUPT\<rparr>))" for bs
    using t(2) calm_output_bytes(1) calm_trans by blast
  then show ?thesis
    unfolding setup_rw_floppy_def t(1) bindK_ret Let_def using assms by (intro fd_returns_or_reset) simp_all
qed

lemma transfer_returns:
  assumes "resets again" "fd_sound s rs" "rs \<noteq> []" "timer_use t0 (fd_timers s)"
  shows "fd_returns t0 rs (transfer again s)"
proof -
  define t where "t = (let spec1 = fl_spec1 (floppy s); rate = fl_rate (floppy s);
         s = (if cur_spec1 s \<noteq> uint spec1 then output_bytes [FD_SPECIFY, spec1, 6] (s\<lparr>cur_spec1 := uint spec1\<rparr>) else s)
     in if cur_rate s \<noteq> uint rate then fd_outb rate FD_DCR (s\<lparr>cur_rate := uint rate\<rparr>) else s)"
  have upd: "calm s (s\<lparr>cur_spec1 := n\<rparr>)" "calm s (s\<lparr>cur_rate := n\<rparr>)" "calm s (s\<lparr>do_floppy := i\<rparr>)" for s n i
    by (simp_all add: calm_def same_requests_def)
  have spec: "calm s (if b then output_bytes bs (s\<lparr>cur_spec1 := n\<rparr>) else s)" for b bs n
    using calm_trans [OF upd(1) calm_output_bytes(1)] by simp
  have rate: "calm u (if b then fd_outb r FD_DCR (u\<lparr>cur_rate := n\<rparr>) else u)" for b r n u
    using calm_trans [OF upd(2) calm_fd_outb] by simp
  have t: "calm s t"
    unfolding t_def Let_def by (rule calm_trans [OF spec rate])
  note s' = calm_sound [OF t assms(2)] calm_timers [OF t]
  define u where "u = (let s = t\<lparr>do_floppy := Some SEEK_INTERRUPT\<rparr>; unit = push_bit 2 (fd_head s) OR current_drive s
    in if seek_track s \<noteq> 0 then output_bytes [FD_SEEK, unit, seek_track s] s else output_bytes [FD_RECALIBRATE, unit] s)"
  have "calm t (output_bytes bs (t\<lparr>do_floppy := i\<rparr>))" for bs i
    using calm_trans [OF upd(3) calm_output_bytes(1)] .
  then have u: "calm t u"
    by (simp add: u_def Let_def del: calm_output_bytes)
  have "transfer again s = (if fd_reset t then again t else if \<not> fd_seek t then setup_rw_floppy again t
      else if fd_reset u then again u else ret () u)"
    by (simp add: transfer_def t_def u_def Let_def)
  then show ?thesis
    using fd_returns_reset [OF assms(1) _ s'(1)] setup_rw_floppy_returns [OF assms(1) s'(1) assms(3)]
      fd_returns_or_reset [OF assms(1) u s'(1)] assms(3,4) s'(2) by simp
qed

lemma timer_use_add:
  assumes "timer_room t" "0 < j"
  shows "\<exists>t'. add_timer j (Some f) t = Some ([], t') \<and> timer_use t t'"
  using assms add_timer_refines [of t _ j f] unfolding timer_room_def timer_use_def by blast

lemma floppy_on_interrupt_returns:
  assumes "resets again" "fd_sound s rs" "rs \<noteq> []" "timer_room (fd_timers s)"
  shows "fd_returns (fd_timers s) rs (floppy_on_interrupt again s)"
proof -
  define t where "t = s\<lparr>fd_motor := (fd_motor s)\<lparr>fd_selected := 1\<rparr>\<rparr>"
  define dor where "dor = (current_DOR (fd_motor t) AND 0xFC) OR current_drive t"
  define u where "u = fd_out_dor dor (t\<lparr>fd_motor := (fd_motor t)\<lparr>current_DOR := dor\<rparr>\<rparr>)"
  obtain ts where ts: "add_timer 2 (Some TRANSFER) (fd_timers u) = Some ([], ts)" "timer_use (fd_timers s) ts"
    using timer_use_add [OF assms(4), of 2 TRANSFER] by (auto simp: u_def t_def fd_out_dor_def fd_outb_def)
  have t: "calm s t"
    by (simp add: t_def calm_def same_requests_def)
  have "calm s (u\<lparr>fd_timers := fd_timers s\<rparr>)"
    by (simp add: u_def t_def calm_def same_requests_def fd_out_dor_def fd_outb_def outb_def)
  from calm_sound [OF this assms(2)] have u: "fd_sound (u\<lparr>fd_timers := ts\<rparr>) rs"
    by (simp add: fd_sound_def fd_queue_def fd_request_ok_def fd_current_def Let_def)
  have "floppy_on_interrupt again s = (if current_drive t \<noteq> current_DOR (fd_motor t) AND 3 then ret () (u\<lparr>fd_timers := ts\<rparr>) else transfer again t)"
    unfolding floppy_on_interrupt_def Let_def t_def [symmetric] dor_def [symmetric] u_def [symmetric] ts(1) by simp
  then show ?thesis
    using transfer_returns [OF assms(1) calm_sound [OF t assms(2)] assms(3)] fd_returns_ret [OF u] ts(2) assms(3) calm_timers [OF t] by simp
qed

lemma start_motor_returns:
  assumes "resets again" "fd_sound s rs" "rs \<noteq> []" "timer_room (fd_timers s)"
  shows "fd_returns (fd_timers s) rs (start_motor again s)"
proof -
  have "\<not> unat (current_drive s) > 3"
    using assms(2) by (simp add: fd_sound_def)
  then obtain ticks m where m: "ticks_to_floppy_on (unat (current_drive s)) (fd_motor s) = ret ticks m"
    by (simp add: ticks_to_floppy_on_def Let_def)
  let ?s = "s\<lparr>fd_motor := m\<rparr>"
  have s: "fd_sound (?s\<lparr>fd_timers := t\<rparr>) rs" for t
    using assms(2) by (simp add: fd_sound_def fd_queue_def fd_request_ok_def fd_current_def Let_def)
  have run: "start_motor again s = (case add_timer ticks (Some FLOPPY_ON_INTERRUPT) (fd_timers s) of
        None \<Rightarrow> panic ''No more time requests free''
      | Some (calls, t) \<Rightarrow>
          if calls = [] then ret () (?s\<lparr>fd_timers := t\<rparr>) else floppy_on_interrupt again (?s\<lparr>fd_timers := t\<rparr>))"
    by (simp add: start_motor_def m put_part_def bindK_ret ret_def)
  show ?thesis
  proof (cases "ticks \<le> 0")
    case True
    then have "start_motor again s = floppy_on_interrupt again (?s\<lparr>fd_timers := fd_timers s\<rparr>)"
      by (simp add: run add_timer_def)
    then show ?thesis
      using floppy_on_interrupt_returns [OF assms(1) s assms(3), of "fd_timers s"] assms(4) by simp
  next
    case False
    then obtain t where "add_timer ticks (Some FLOPPY_ON_INTERRUPT) (fd_timers s) = Some ([], t)" "timer_use (fd_timers s) t"
      using timer_use_add [OF assms(4), of ticks] by auto
    then show ?thesis
      using fd_returns_ret [OF s, of "fd_timers s" t] assms(3) by (simp add: run)
  qed
qed

lemma recalibrate_floppy_returns:
  assumes "resets again" "fd_sound s rs" "timer_use t0 (fd_timers s)"
  shows "fd_returns t0 rs (recalibrate_floppy again s)"
proof -
  let ?s = "s\<lparr>fd_recalibrate := False, current_track := 0, do_floppy := Some RECAL_INTERRUPT\<rparr>"
  have "calm s ?s"
    by (simp add: calm_def same_requests_def)
  then have "calm s (output_bytes bs ?s)" for bs
    using calm_trans calm_output_bytes(1) by blast
  then show ?thesis
    unfolding recalibrate_floppy_def Let_def using assms
    by (intro fd_returns_or_reset) (simp_all add: transferring_def)
qed

text \<open>The geometry of the types of disks, but the first.\<close>

lemma floppy_type_geometry:
  assumes "0 < n" "n < length floppy_type" "f = floppy_type ! n"
  shows "fl_head f = 2 \<and> 0 < unat (fl_sect f) \<and> unat (fl_sect f) \<le> 18 \<and> unat (fl_track f) \<le> 80
    \<and> unat (fl_size f) = unat (fl_track f) * 2 * unat (fl_sect f)"
proof -
  have "\<forall>n\<in>set [1..<8]. fl_head (floppy_type ! n) = 2 \<and> 0 < unat (fl_sect (floppy_type ! n))
    \<and> unat (fl_sect (floppy_type ! n)) \<le> 18 \<and> unat (fl_track (floppy_type ! n)) \<le> 80
    \<and> unat (fl_size (floppy_type ! n)) = unat (fl_track (floppy_type ! n)) * 2 * unat (fl_sect (floppy_type ! n))"
    by code_simp
  then show ?thesis
    using assms by (auto simp: floppy_type_def)
qed

text \<open>The first request is done: its buffer is unlocked, those of the others are not.\<close>

lemma end_request_effect:
  assumes "current_request b m = Some c" "r_bh (request b c) = Some bh"
  shows "\<exists>b'. end_request (\<lambda>_ b. b) m up b = ret () b' \<and> current_request b' m = r_next (request b c)
    \<and> (\<forall>i. r_next (request b' i) = r_next (request b i) \<and> r_bh (request b' i) = r_bh (request b i))
    \<and> (\<forall>i. i \<noteq> c \<longrightarrow> request b' i = request b i)
    \<and> (\<forall>x. b_lock (buf (bk b') x) = (if x = bh then 0 else b_lock (buf (bk b) x)))"
  using assms by (auto simp: end_request_def Let_def upd_request_def unlock_buffer_def upd_buf_def case_prod_beta)

lemma fd_end_request_sound:
  assumes "fd_sound s (c # rs)"
  shows "\<exists>t. fd_end_request up s = ret () t \<and> fd_sound t rs \<and> fd_timers t = fd_timers s \<and> do_floppy t = do_floppy s"
proof -
  have c: "fd_current s = Some c" "current_request (fb s) 2 = Some c"
    using fd_sound_head [OF assms] by (simp_all add: fd_current_def)
  obtain bh where bh: "r_bh (request (fb s) c) = Some bh"
    using fd_sound_head [OF assms] by blast
  obtain b where b: "end_request (\<lambda>_ b. b) 2 up (fb s) = ret () b" "current_request b 2 = r_next (request (fb s) c)"
    "\<forall>i. r_next (request b i) = r_next (request (fb s) i) \<and> r_bh (request b i) = r_bh (request (fb s) i)"
    "\<forall>i. i \<noteq> c \<longrightarrow> request b i = request (fb s) i"
    "\<forall>x. b_lock (buf (bk b) x) = (if x = bh then 0 else b_lock (buf (bk (fb s)) x))"
    using end_request_effect [OF c(2) bh] by blast
  define t where "t = s\<lparr>fd_motor := floppy_off (nat (r_dev (request (fb s) c)) mod 4) (fd_motor s), fb := b\<rparr>"
  have t: "fd_end_request up s = ret () t"
    by (simp add: t_def fd_end_request_def c(1) b(1) put_part_def ret_def)
  have same: "r_next (request (fb t) i) = r_next (request (fb s) i)" "r_bh (request (fb t) i) = r_bh (request (fb s) i)"
    "i \<noteq> c \<Longrightarrow> request (fb t) i = request (fb s) i" "b_lock (buf (bk (fb t)) x) = (if x = bh then 0 else b_lock (buf (bk (fb s)) x))" for i x
    using b(3-5) by (simp_all add: t_def)
  have cur: "fd_current t = r_next (request (fb s) c)" "fd_timers t = fd_timers s" "do_floppy t = do_floppy s" "current_drive t = current_drive s"
    using b(2) by (simp_all add: t_def fd_current_def)
  have "fd_request_ok t d" if d: "d \<in> set rs" for d
  proof -
    have "r_bh (request (fb s) d) \<noteq> Some bh" "fd_request_ok s d"
      using assms d bh by (auto simp: fd_sound_def image_iff)
    moreover from this have "d \<noteq> c"
      using bh by auto
    ultimately show ?thesis
      by (auto simp: fd_request_ok_def Let_def same)
  qed
  moreover have "fd_queue t rs"
    using assms by (simp add: fd_sound_def fd_queue_def same cur)
  ultimately have "fd_sound t rs"
    using assms by (simp add: fd_sound_def same cur)
  then show ?thesis
    using t cur by blast
qed

lemma fd_returns_behind: "fd_returns t0 rs m \<Longrightarrow> fd_returns t0 (c # rs) m"
  unfolding fd_returns_def by (metis append_Cons)

lemma fd_repeat_returns:
  assumes "resets again" "fd_sound s rs" "length rs < n" "timer_room (fd_timers s)" "\<not> transferring s"
  shows "fd_returns (fd_timers s) rs (fd_repeat again n s)"
  using assms(2-)
proof (induction rs arbitrary: n s)
  case Nil
  then have "fd_current s = None"
    by (simp add: fd_sound_def fd_queue_def)
  then show ?case
    using Nil by (cases n) (auto intro!: fd_returns_ret)
next
  case (Cons c rs)
  obtain k where k: "n = Suc k"
    using Cons.prems(2) by (cases n) auto
  note head = fd_sound_head [OF Cons.prems(1)]
  define r dev u where "r = request (fb s) c" and "dev = nat (r_dev r)"
    and "u = (let s = s\<lparr>fd_type := dev mod 256 div 4\<rparr>; s = (if unat (current_drive s) \<noteq> dev mod 4 then s\<lparr>fd_seek := True\<rparr> else s)
      in s\<lparr>current_drive := of_nat (dev mod 4)\<rparr>)"
  have drive: "unat (of_nat (dev mod 4) :: u8) < 4"
    by (simp add: unat_of_nat take_bit_eq_mod)
  have same: "fb u = fb s" "current_drive u = of_nat (dev mod 4)" "fd_timers u = fd_timers s" "do_floppy u = do_floppy s" "fd_type u = dev mod 256 div 4"
    by (simp_all add: u_def Let_def)
  then have u: "fd_sound u (c # rs)"
    using Cons.prems(1) drive by (simp add: fd_sound_def fd_queue_def fd_request_ok_def fd_current_def Let_def)
  have ok: "fd_request_ok s c"
    using Cons.prems(1) by (simp add: fd_sound_def)
  have step: "fd_repeat again n s = (if r_sector r + 2 > fl_size (floppy u) then bindK (fd_end_request 0 u) (\<lambda>_ s. fd_repeat again k s)
      else if fl_sect (floppy u) = 0 \<or> fl_head (floppy u) = 0 then Inl (Fault u)
      else start_motor again ((set_place (fd_place (floppy u) (r_sector r)) u)\<lparr>fd_command := if r_cmd r = READ then FD_READ else FD_WRITE\<rparr>))"
    using head ok by (auto simp: k u_def r_def dev_def Let_def fd_request_ok_def)
  show ?case
  proof (cases "r_sector r + 2 > fl_size (floppy u)")
    case True
    obtain v where v: "fd_end_request 0 u = ret () v" "fd_sound v rs" "fd_timers v = fd_timers u" "do_floppy v = do_floppy u"
      using fd_end_request_sound [OF u] by blast
    have "fd_returns (fd_timers v) rs (fd_repeat again k v)"
      using Cons.prems(2-) k v same by (intro Cons.IH) (simp_all add: transferring_def)
    then show ?thesis
      using True v same by (simp add: step bindK_ret fd_returns_behind del: fd_repeat.simps)
  next
    case False
    have type: "dev mod 256 div 4 < length floppy_type" "dev mod 256 div 4 = 0 \<longrightarrow> r_sector r + 2 \<noteq> 0"
      using ok by (simp_all add: fd_request_ok_def Let_def r_def dev_def)
    have "fl_size (floppy u) = 0" if "dev mod 256 div 4 = 0"
      using that same(5) by (simp add: floppy_def floppy_type_def)
    then have "dev mod 256 div 4 \<noteq> 0"
      using type(2) False by (metis word_gt_0)
    have "fl_sect (floppy u) \<noteq> 0 \<and> fl_head (floppy u) \<noteq> 0"
      using floppy_type_geometry [of "dev mod 256 div 4" "floppy u"] type(1) same(5) \<open>dev mod 256 div 4 \<noteq> 0\<close>
      by (auto simp: floppy_def)
    moreover define w where "w = (set_place (fd_place (floppy u) (r_sector r)) u)\<lparr>fd_command := if r_cmd r = READ then FD_READ else FD_WRITE\<rparr>"
    have "calm u w"
      by (simp add: w_def set_place_def case_prod_beta Let_def calm_def same_requests_def)
    then have "fd_sound w (c # rs)" "fd_timers w = fd_timers s"
      using u same calm_sound calm_timers by auto
    ultimately show ?thesis
      using start_motor_returns [OF assms(1), of w "c # rs"] Cons.prems(3) False by (simp add: step w_def [symmetric])
  qed
qed

lemma do_fd_request_returns:
  assumes "fd_sound s rs" "timer_room (fd_timers s)" "\<not> transferring s"
  shows "fd_returns (fd_timers s) rs (do_fd_request (Suc (Suc k)) s)"
proof -
  let ?s = "s\<lparr>fd_seek := False\<rparr>"
  have c: "calm s ?s"
    by (simp add: calm_def same_requests_def)
  note s = calm_sound [OF c assms(1)]
  have "fd_returns (fd_timers s) rs (fd_repeat (do_fd_request (Suc k)) (Suc NR_REQUEST) ?s)"
    using fd_repeat_returns [OF resets_do_fd_request s, of "Suc NR_REQUEST"] assms by (simp add: fd_sound_def transferring_def less_Suc_eq_le)
  moreover have "fd_returns (fd_timers s) rs (recalibrate_floppy (do_fd_request (Suc k)) ?s)"
    using recalibrate_floppy_returns [OF resets_do_fd_request s] by simp
  moreover have "fd_returns (fd_timers s) rs (ret () (reset_floppy ?s))" if "fd_reset s"
    using fd_returns_reset [OF resets_do_fd_request that assms(1), of "fd_timers s" 0] that by (simp add: Let_def)
  ultimately show ?thesis
    by (subst do_fd_request.simps(2)) (simp add: Let_def del: fd_repeat.simps do_fd_request.simps)
qed

subsection \<open>The interrupts\<close>

text \<open>What the routines of the interrupts do before they call \<open>do_fd_request\<close>: they may end the first request.\<close>

definition settles :: "timer_state \<Rightarrow> nat list \<Rightarrow> (unit, fd_state) kres \<Rightarrow> bool" where
  "settles t0 rs m \<longleftrightarrow> (\<exists>s served rs'. m = ret () s \<and> rs = served @ rs' \<and> fd_sound s rs' \<and> fd_timers s = t0 \<and> do_floppy s = None)"

lemma settles_again:
  assumes "settles t0 rs m" "timer_room t0"
  shows "fd_returns t0 rs (bindK m (\<lambda>_ s. do_fd_request FD_FUEL s))"
proof -
  obtain s served rs' where s: "m = ret () s" "rs = served @ rs'" "fd_sound s rs'" "fd_timers s = t0" "do_floppy s = None"
    using assms(1) by (auto simp: settles_def)
  have "fd_returns t0 rs' (do_fd_request FD_FUEL s)"
    using do_fd_request_returns [OF s(3), of 0] assms(2) s(4,5)
    by (simp add: FD_FUEL_def eval_nat_numeral transferring_def del: do_fd_request.simps)
  then show ?thesis
    unfolding s(1,2) bindK_ret fd_returns_def by (metis append.assoc)
qed

lemma settles_ret: "fd_sound s rs \<Longrightarrow> fd_timers s = t0 \<Longrightarrow> do_floppy s = None \<Longrightarrow> settles t0 rs (ret () s)"
  unfolding settles_def by blast

lemma settles_end:
  assumes "fd_sound s rs" "rs \<noteq> []" "fd_timers s = t0" "do_floppy s = None"
  shows "settles t0 rs (fd_end_request up s)"
proof -
  obtain c cs where rs: "rs = c # cs"
    using assms(2) by (cases rs) auto
  obtain t where "fd_end_request up s = ret () t" "fd_sound t cs" "fd_timers t = fd_timers s" "do_floppy t = do_floppy s"
    using fd_end_request_sound assms(1) unfolding rs by blast
  then show ?thesis
    using assms(3,4) unfolding settles_def rs by (metis append_Cons append_Nil)
qed

lemma settles_map:
  assumes "settles t0 rs m" "\<And>s. calm s (f s) \<and> do_floppy (f s) = do_floppy s"
  shows "settles t0 rs (bindK m (\<lambda>_ s. ret () (f s)))"
proof -
  obtain s served rs' where s: "m = ret () s" "rs = served @ rs'" "fd_sound s rs'" "fd_timers s = t0" "do_floppy s = None"
    using assms(1) by (auto simp: settles_def)
  then have "fd_sound (f s) rs'" "fd_timers (f s) = t0" "do_floppy (f s) = None"
    using assms(2) [of s] by (auto intro: calm_sound simp: calm_timers)
  then show ?thesis
    using s(1,2) unfolding settles_def by (auto simp: bindK_ret)
qed

lemma fd_sound_errors:
  assumes "fd_sound s rs"
  shows "fd_sound (upd_fd_current (\<lambda>r. r\<lparr>r_errors := r_errors r + 1\<rparr>) s) rs"
proof -
  let ?t = "upd_fd_current (\<lambda>r. r\<lparr>r_errors := r_errors r + 1\<rparr>) s"
  have "fd_request_ok ?t c = fd_request_ok s c" "r_next (request (fb ?t) c) = r_next (request (fb s) c)"
    "r_bh (request (fb ?t) c) = r_bh (request (fb s) c)" "fd_current ?t = fd_current s" "current_drive ?t = current_drive s" for c
    by (auto simp: fd_request_ok_def Let_def upd_fd_current_def upd_request_def fd_current_def split: option.split)
  then show ?thesis
    using assms by (simp add: fd_sound_def fd_queue_def)
qed

lemma settles_bad_flp_intr:
  assumes "fd_sound s rs" "rs \<noteq> []" "fd_timers s = t0" "do_floppy s = None"
  shows "settles t0 rs (bad_flp_intr s)"
proof -
  let ?s = "upd_fd_current (\<lambda>r. r\<lparr>r_errors := r_errors r + 1\<rparr>) s"
  have s: "fd_timers ?s = t0" "do_floppy ?s = None"
    using assms(3,4) by (simp_all add: upd_fd_current_def split: option.split)
  note ok = fd_sound_errors [OF assms(1)]
  have "fd_sound (floppy_deselect n ?s) rs" "fd_timers (floppy_deselect n ?s) = t0" for n
    using calm_sound [OF calm_floppy_deselect(1) ok] calm_timers [OF calm_floppy_deselect(1)] s by simp_all
  then have "settles t0 rs (if fd_errors ?s > FD_MAX_ERRORS then fd_end_request 0 (floppy_deselect (unat (current_drive ?s)) ?s) else ret () ?s)"
    using assms(2) ok s by (simp add: settles_ret settles_end)
  moreover have "fd_current s \<noteq> None"
    using assms(1,2) fd_sound_head [of s "hd rs" "tl rs"] by auto
  ultimately show ?thesis
    unfolding bad_flp_intr_def by (simp only: if_False Let_def) (rule settles_map, simp_all add: calm_def same_requests_def)
qed

lemma rw_interrupt_returns:
  assumes "fd_sound s rs" "rs \<noteq> []" "timer_room (fd_timers s)" "do_floppy s = None"
  shows "fd_returns (fd_timers s) rs (rw_interrupt (do_fd_request FD_FUEL) s)"
proof -
  obtain n t where r: "fdc_result s = (n, t)"
    by fastforce
  have t: "fd_sound t rs" "fd_timers t = fd_timers s" "do_floppy t = None"
    using calm_sound [OF calm_result(1) assms(1)] calm_timers [OF calm_result(1), of s] calm_result(2) [of s] assms(4) r by simp_all
  obtain c bh where c: "fd_current t = Some c" "r_bh (request (fb t) c) = Some bh"
    using t(1) assms(2) fd_sound_head [of t "hd rs" "tl rs"] by auto
  define u where "u = (if fd_command t = FD_READ \<and> buffer_addr t c bh \<ge> 0x100000 then copy_from_area c bh t else t)"
  have u: "calm t u" "do_floppy u = None"
    using t(3) by (simp_all add: u_def copy_from_area_def Let_def calm_def same_requests_def upd_buf_def)
  have sel: "fd_sound (floppy_deselect d v) rs" "fd_timers (floppy_deselect d v) = fd_timers s" "do_floppy (floppy_deselect d v) = None"
    if "v = t \<or> v = u" for d v
  proof -
    have "calm t (floppy_deselect d v)"
      using that u(1) calm_trans [OF _ calm_floppy_deselect(1)] by auto
    then show "fd_sound (floppy_deselect d v) rs" "fd_timers (floppy_deselect d v) = fd_timers s" "do_floppy (floppy_deselect d v) = None"
      using calm_sound [OF _ t(1)] calm_timers that t(2,3) u(2) by auto
  qed
  have bad: "settles (fd_timers s) rs (if ST1 t AND 0x02 \<noteq> 0 then fd_end_request 0 (floppy_deselect (unat (current_drive t)) t) else bad_flp_intr t)"
    using assms(2) sel t by (simp add: settles_end settles_bad_flp_intr)
  have good: "settles (fd_timers s) rs (fd_end_request 1 (floppy_deselect (unat (current_drive u)) u))"
    using assms(2) sel by (simp add: settles_end)
  have "rw_interrupt again s = bindK (if n \<noteq> 7 \<or> ST0 t AND 0xf8 \<noteq> 0 \<or> ST1 t AND 0xbf \<noteq> 0 \<or> ST2 t AND 0x73 \<noteq> 0
      then (if ST1 t AND 0x02 \<noteq> 0 then fd_end_request 0 (floppy_deselect (unat (current_drive t)) t) else bad_flp_intr t)
      else fd_end_request 1 (floppy_deselect (unat (current_drive u)) u)) (\<lambda>_ s. again s)" for again
    using c by (simp add: rw_interrupt_def r Let_def u_def)
  then show ?thesis
    using settles_again [OF bad assms(3)] settles_again [OF good assms(3)] by simp
qed

lemma seek_interrupt_returns:
  assumes "fd_sound s rs" "rs \<noteq> []" "timer_room (fd_timers s)" "do_floppy s = None"
  shows "fd_returns (fd_timers s) rs (seek_interrupt (do_fd_request FD_FUEL) s)"
proof -
  obtain n t where r: "fdc_result (output_byte FD_SENSEI s) = (n, t)"
    by fastforce
  have t: "fd_sound t rs" "fd_timers t = fd_timers s" "do_floppy t = None"
    using calm_sound [OF calm_sense(1) [OF r] assms(1)] calm_timers [OF calm_sense(1) [OF r]] calm_sense(2) [OF r] assms(4) by simp_all
  have "calm t (t\<lparr>current_track := ST1 t\<rparr>)"
    by (simp add: calm_def same_requests_def)
  from calm_sound [OF this t(1)] have "fd_returns (fd_timers s) rs (setup_rw_floppy (do_fd_request FD_FUEL) (t\<lparr>current_track := ST1 t\<rparr>))"
    using setup_rw_floppy_returns [OF resets_do_fd_request [of 1]] assms(2) t(2)
    by (simp add: FD_FUEL_def eval_nat_numeral del: do_fd_request.simps)
  then show ?thesis
    using settles_again [OF settles_bad_flp_intr [OF t(1) assms(2) t(2,3)] assms(3)]
    unfolding seek_interrupt_def Let_def r prod.case by (simp only: split: if_split) blast
qed

text \<open>The other interrupts only look at the controller before they go on.\<close>

lemma do_fd_request_after:
  assumes "fd_sound s rs" "timer_room (fd_timers s)" "do_floppy s = None" "calm s t" "do_floppy t = do_floppy s"
  shows "fd_returns (fd_timers s) rs (do_fd_request FD_FUEL t)"
  using do_fd_request_returns [OF calm_sound [OF assms(4,1)], of 0] calm_timers [OF assms(4)] assms(2,3,5)
  by (simp add: FD_FUEL_def eval_nat_numeral transferring_def del: do_fd_request.simps)

lemma recal_interrupt_returns:
  assumes "fd_sound s rs" "timer_room (fd_timers s)" "do_floppy s = None"
  shows "fd_returns (fd_timers s) rs (recal_interrupt (do_fd_request FD_FUEL) s)"
proof -
  obtain n t where r: "fdc_result (output_byte FD_SENSEI s) = (n, t)"
    by fastforce
  show ?thesis
    unfolding recal_interrupt_def Let_def r prod.case
    by (rule do_fd_request_after [OF assms]) (use calm_sense [OF r] in \<open>simp_all add: calm_def same_requests_def\<close>)
qed

lemma reset_interrupt_returns:
  assumes "fd_sound s rs" "timer_room (fd_timers s)" "do_floppy s = None"
  shows "fd_returns (fd_timers s) rs (reset_interrupt (do_fd_request FD_FUEL) s)"
proof -
  obtain n t where r: "fdc_result (output_byte FD_SENSEI s) = (n, t)"
    by fastforce
  show ?thesis
    unfolding reset_interrupt_def Let_def r prod.case
    using calm_sense [OF r] calm_trans [OF _ calm_output_bytes(1)] by (intro do_fd_request_after [OF assms]) auto
qed

lemma unexpected_interrupt_returns:
  assumes "fd_sound s rs" "do_floppy s = None"
  shows "fd_returns (fd_timers s) rs (ret () (unexpected_floppy_interrupt s))"
proof -
  obtain n t where r: "fdc_result (output_byte FD_SENSEI s) = (n, t)"
    by fastforce
  have u: "calm s (unexpected_floppy_interrupt s)" "\<not> transferring (unexpected_floppy_interrupt s)"
    using calm_sense [OF r] assms(2) by (simp_all add: unexpected_floppy_interrupt_def Let_def r calm_def same_requests_def transferring_def)
  then show ?thesis
    using calm_sound [OF u(1) assms(1)] calm_timers [OF u(1)] by (intro fd_returns_ret) simp_all
qed

text \<open>
  C36. The floppy driver returns from a request, from every interrupt and from its timer functions, whatever the controller
  answers or does not answer: it neither waits nor panics nor reads through a null pointer, as long as the requests of its
  queue can be served, there is a request when a transfer or a seek for it ends or its motor is up, and an entry of
  the timer table is free. Its routines call \<open>do_fd_request\<close>, which calls them, but a call within a call comes only from a byte
  that the controller has not taken, and this has set \<open>reset\<close>, so that the inner call ends by resetting the controller: two
  levels are enough. The loop of \<open>do_fd_request\<close> takes a request off the queue each time. Afterwards the requests behind
  those that were taken off are there and can still be served, an interrupt is awaited for a transfer only if there is a request
  for it, and at most one timer was added, for a later tick.
\<close>

theorem fd_driver_returns:
  assumes "fd_sound s rs" "timer_room (fd_timers s)"
  shows "(\<not> transferring s \<longrightarrow> fd_returns (fd_timers s) rs (do_fd_request FD_FUEL s))
    \<and> ((transferring s \<longrightarrow> rs \<noteq> []) \<longrightarrow> fd_returns (fd_timers s) rs (floppy_interrupt s))
    \<and> (rs \<noteq> [] \<longrightarrow> fd_returns (fd_timers s) rs (fd_timeout f s))"
proof (intro conjI impI)
  show "fd_returns (fd_timers s) rs (do_fd_request FD_FUEL s)" if "\<not> transferring s"
    using do_fd_request_returns [OF assms that, of 0] by (simp add: FD_FUEL_def eval_nat_numeral del: do_fd_request.simps)
next
  assume rs: "transferring s \<longrightarrow> rs \<noteq> []"
  let ?s = "s\<lparr>do_floppy := None\<rparr>"
  have c: "calm s ?s"
    by (simp add: calm_def same_requests_def)
  note s = calm_sound [OF c assms(1)]
  have "fd_returns (fd_timers ?s) rs (floppy_interrupt s)"
  proof (cases "do_floppy s")
    case None
    then show ?thesis
      using unexpected_interrupt_returns [OF s] by (simp add: floppy_interrupt_def)
  next
    case (Some i)
    then show ?thesis
      using rw_interrupt_returns [OF s] seek_interrupt_returns [OF s] recal_interrupt_returns [OF s] reset_interrupt_returns [OF s] rs assms(2)
      by (cases i) (simp_all add: floppy_interrupt_def transferring_def)
  qed
  then show "fd_returns (fd_timers s) rs (floppy_interrupt s)"
    by simp
next
  assume rs: "rs \<noteq> []"
  note resets_do_fd_request [of 1]
  then have again: "resets (do_fd_request FD_FUEL)"
    by (simp add: FD_FUEL_def eval_nat_numeral)
  show "fd_returns (fd_timers s) rs (fd_timeout f s)"
    unfolding fd_timeout_def using assms rs
    by (simp add: transfer_returns [OF again] floppy_on_interrupt_returns [OF again] fd_returns_ret)
qed


section \<open>The command for a request\<close>

text \<open>The controller takes every byte.\<close>

definition fdc_ready :: "fd_state \<Rightarrow> bool" where
  "fdc_ready s \<longleftrightarrow> (\<forall>n. fdc_status s n AND (STATUS_READY OR STATUS_DIR) = STATUS_READY) \<and> \<not> fd_reset s"

definition fd_ports :: "fd_state \<Rightarrow> (nat \<times> u8) list" where "fd_ports s = port_out (bk (fb s))"

lemma output_byte_ready:
  assumes "fdc_ready s"
  shows "output_byte b s = fd_outb b FD_DATA (s\<lparr>fdc_clock := fdc_clock s + 1\<rparr>)"
  using assms by (simp add: output_byte_def fdc_ready_def read_fdc_status_def eval_nat_numeral)

lemma output_bytes_ready:
  assumes "fdc_ready s"
  shows "\<exists>n. output_bytes bs s = s\<lparr>fdc_clock := n, fb := (fb s)\<lparr>bk := (bk (fb s))\<lparr>port_out :=
    rev (map (Pair FD_DATA) bs) @ fd_ports s\<rparr>\<rparr>\<rparr>"
  using assms
proof (induction bs arbitrary: s)
  case Nil
  show ?case
    by (rule exI [of _ "fdc_clock s"]) (simp add: output_bytes_def fd_ports_def)
next
  case (Cons b bs)
  let ?s = "fd_outb b FD_DATA (s\<lparr>fdc_clock := fdc_clock s + 1\<rparr>)"
  have "fdc_ready ?s"
    using Cons.prems by (simp add: fdc_ready_def fd_outb_def)
  from Cons.IH [OF this] show ?case
    by (simp add: output_bytes_def output_byte_ready [OF Cons.prems] fd_outb_def fd_ports_def outb_def)
qed

text \<open>The programming of the DMA controller for the address \<open>addr\<close>, and the nine bytes of the command.\<close>

definition dma_bytes :: "u8 \<Rightarrow> u32 \<Rightarrow> (nat \<times> u8) list" where
  "dma_bytes mode addr = [(10, 6), (12, mode), (11, mode), (4, ucast addr), (4, ucast (drop_bit 8 addr)),
    (0x81, ucast (drop_bit 16 addr)), (5, 0xff), (5, 3), (10, 2)]"

definition rw_bytes :: "u8 \<Rightarrow> u8 \<Rightarrow> u8 \<times> u8 \<times> u8 \<Rightarrow> floppy_struct \<Rightarrow> u8 list" where
  "rw_bytes cmd drive = (\<lambda>(track, head, sec) f.
    [cmd, push_bit 2 head OR drive, track, head, sec, 2, ucast (fl_sect f), fl_gap f, 0xff])"

text \<open>The address that the transfer goes to.\<close>

definition dma_addr :: "fd_state \<Rightarrow> nat \<Rightarrow> nat \<Rightarrow> u32" where
  "dma_addr s c bh = (if sint (buffer_addr s c bh) \<ge> 0x100000 then tmp_area_addr s else buffer_addr s c bh)"

lemma setup_DMA_ports:
  assumes "fd_current s = Some c" "r_bh (request (fb s) c) = Some bh"
  shows "\<exists>area. setup_DMA s = ret () (s\<lparr>tmp_floppy_area := area, fb := (fb s)\<lparr>bk := (bk (fb s))\<lparr>port_out :=
    rev (dma_bytes (if fd_command s = FD_READ then DMA_READ else DMA_WRITE) (dma_addr s c bh)) @ fd_ports s\<rparr>\<rparr>\<rparr>)"
proof (cases "sint (buffer_addr s c bh) \<ge> 0x100000 \<and> fd_command s = FD_WRITE")
  case True
  then show ?thesis
    using assms by (intro exI [of _ "tmp_floppy_area (copy_to_area c bh s)"])
      (simp add: setup_DMA_def Let_def copy_to_area_def fd_outb_def outb_def dma_bytes_def dma_addr_def fd_ports_def buffer_addr_def)
next
  case False
  then show ?thesis
    using assms by (intro exI [of _ "tmp_floppy_area s"])
      (simp only: setup_DMA_def Let_def if_False option.case, simp add: fd_outb_def outb_def dma_bytes_def dma_addr_def fd_ports_def)
qed

lemma floppy_same [simp]:
  "floppy (s\<lparr>tmp_floppy_area := a\<rparr>) = floppy s" "floppy (s\<lparr>fb := b\<rparr>) = floppy s" "floppy (s\<lparr>do_floppy := i\<rparr>) = floppy s"
  "floppy (s\<lparr>cur_spec1 := n\<rparr>) = floppy s" "floppy (s\<lparr>cur_rate := n\<rparr>) = floppy s" "floppy (s\<lparr>fdc_clock := k\<rparr>) = floppy s"
  "floppy (s\<lparr>fd_motor := m\<rparr>) = floppy s" "floppy (s\<lparr>fd_timers := l\<rparr>) = floppy s" "floppy (s\<lparr>fd_command := w\<rparr>) = floppy s"
  "floppy (s\<lparr>fd_seek := q\<rparr>) = floppy s" "floppy (s\<lparr>current_drive := w\<rparr>) = floppy s"
  by (simp_all add: floppy_def)

lemma setup_rw_floppy_ready:
  assumes "fd_current s = Some c" "r_bh (request (fb s) c) = Some bh" "fdc_ready s"
  shows "\<exists>s'. setup_rw_floppy again s = ret () s' \<and> do_floppy s' = Some RW_INTERRUPT \<and> same_requests s s'
    \<and> fd_ports s' = rev (map (Pair FD_DATA) (rw_bytes (fd_command s) (current_drive s) (fd_track s, fd_head s, fd_sector s) (floppy s)))
      @ rev (dma_bytes (if fd_command s = FD_READ then DMA_READ else DMA_WRITE) (dma_addr s c bh)) @ fd_ports s"
proof -
  define dma where "dma = rev (dma_bytes (if fd_command s = FD_READ then DMA_READ else DMA_WRITE) (dma_addr s c bh)) @ fd_ports s"
  obtain area where a: "setup_DMA s = ret () (s\<lparr>tmp_floppy_area := area, fb := (fb s)\<lparr>bk := (bk (fb s))\<lparr>port_out := dma\<rparr>\<rparr>\<rparr>)"
    using setup_DMA_ports [OF assms(1,2)] unfolding dma_def by blast
  define u where "u = s\<lparr>tmp_floppy_area := area, fb := (fb s)\<lparr>bk := (bk (fb s))\<lparr>port_out := dma\<rparr>\<rparr>, do_floppy := Some RW_INTERRUPT\<rparr>"
  define bs where "bs = rw_bytes (fd_command s) (current_drive s) (fd_track s, fd_head s, fd_sector s) (floppy s)"
  have u: "fdc_ready u" "fd_ports u = dma" "same_requests s u" "do_floppy u = Some RW_INTERRUPT" "\<not> fd_reset u"
    using assms(3) by (simp_all add: u_def fdc_ready_def fd_ports_def same_requests_def)
  define v where "v = output_bytes bs u"
  obtain n where n: "v = u\<lparr>fdc_clock := n, fb := (fb u)\<lparr>bk := (bk (fb u))\<lparr>port_out :=
      rev (map (Pair FD_DATA) bs) @ fd_ports u\<rparr>\<rparr>\<rparr>"
    using output_bytes_ready [OF u(1)] unfolding v_def by blast
  have "setup_rw_floppy again s = (if fd_reset v then again v else ret () v)"
    by (simp add: setup_rw_floppy_def a Let_def v_def u_def bs_def rw_bytes_def)
  moreover have v: "\<not> fd_reset v" "do_floppy v = Some RW_INTERRUPT" "same_requests s v" "fd_ports v = rev (map (Pair FD_DATA) bs) @ dma"
    using u by (simp_all add: n same_requests_def fd_ports_def)
  ultimately show ?thesis
    unfolding bs_def [symmetric] dma_def [symmetric] by (intro exI [of _ v]) simp
qed


text \<open>A state that differs from another in what the controller was told before, with the same request prepared.\<close>

definition fd_near :: "fd_state \<Rightarrow> fd_state \<Rightarrow> bool" where
  "fd_near s t \<longleftrightarrow> same_requests s t \<and> fdc_ready t \<and> floppy t = floppy s \<and> fd_command t = fd_command s
    \<and> current_drive t = current_drive s \<and> fd_track t = fd_track s \<and> fd_head t = fd_head s \<and> fd_sector t = fd_sector s
    \<and> seek_track t = seek_track s \<and> fd_seek t = fd_seek s \<and> data_addr t = data_addr s \<and> tmp_area_addr t = tmp_area_addr s"

lemma fd_near_trans: "fd_near s t \<Longrightarrow> fd_near t u \<Longrightarrow> fd_near s u"
  by (simp add: fd_near_def same_requests_def)

lemma fd_near_output:
  assumes "fdc_ready s"
  shows "fd_near s (output_bytes bs s)"
proof -
  obtain n where "output_bytes bs s = s\<lparr>fdc_clock := n, fb := (fb s)\<lparr>bk := (bk (fb s))\<lparr>port_out :=
      rev (map (Pair FD_DATA) bs) @ fd_ports s\<rparr>\<rparr>\<rparr>"
    using output_bytes_ready [OF assms] by blast
  then show ?thesis
    using assms by (simp add: fd_near_def same_requests_def fdc_ready_def)
qed

text \<open>The command for the prepared request, or that for the seek before it.\<close>

definition fd_issued :: "fd_state \<Rightarrow> nat \<Rightarrow> nat \<Rightarrow> fd_state \<Rightarrow> bool" where
  "fd_issued s c bh s' \<longleftrightarrow> same_requests s s' \<and> (\<exists>pre. if fd_seek s
     then do_floppy s' = Some SEEK_INTERRUPT \<and> fd_ports s' = rev (map (Pair FD_DATA)
       (if seek_track s \<noteq> 0 then [FD_SEEK, push_bit 2 (fd_head s) OR current_drive s, seek_track s]
        else [FD_RECALIBRATE, push_bit 2 (fd_head s) OR current_drive s])) @ pre
     else do_floppy s' = Some RW_INTERRUPT \<and>
       fd_ports s' = rev (map (Pair FD_DATA) (rw_bytes (fd_command s) (current_drive s) (fd_track s, fd_head s, fd_sector s) (floppy s)))
         @ rev (dma_bytes (if fd_command s = FD_READ then DMA_READ else DMA_WRITE) (dma_addr s c bh)) @ pre)"

lemma fd_near_issued:
  assumes "fd_near s t" "fd_issued t c bh s'"
  shows "fd_issued s c bh s'"
proof -
  have eqs: "dma_addr t c bh = dma_addr s c bh" "floppy t = floppy s" "fd_command t = fd_command s" "current_drive t = current_drive s"
    "fd_track t = fd_track s" "fd_head t = fd_head s" "fd_sector t = fd_sector s" "seek_track t = seek_track s" "fd_seek t = fd_seek s"
    using assms(1) by (simp_all add: fd_near_def dma_addr_def buffer_addr_def same_requests_def)
  have "same_requests s s'"
    using assms same_requests_trans by (auto simp: fd_near_def fd_issued_def)
  then show ?thesis
    using assms(2) unfolding fd_issued_def eqs by blast
qed

lemma setup_rw_floppy_issues:
  assumes "fd_current s = Some c" "r_bh (request (fb s) c) = Some bh" "fdc_ready s" "\<not> fd_seek s"
  shows "\<exists>s'. setup_rw_floppy again s = ret () s' \<and> fd_issued s c bh s'"
  using setup_rw_floppy_ready [OF assms(1-3), of again] assms(4) by (auto simp: fd_issued_def)

definition specified :: "fd_state \<Rightarrow> fd_state" where
  "specified s =
    (let spec1 = fl_spec1 (floppy s); rate = fl_rate (floppy s);
         s = (if cur_spec1 s \<noteq> uint spec1 then output_bytes [FD_SPECIFY, spec1, 6] (s\<lparr>cur_spec1 := uint spec1\<rparr>) else s)
     in if cur_rate s \<noteq> uint rate then fd_outb rate FD_DCR (s\<lparr>cur_rate := uint rate\<rparr>) else s)"

lemma fd_near_specified:
  assumes "fdc_ready s"
  shows "fd_near s (specified s)"
proof -
  define u where "u = (if cur_spec1 s \<noteq> uint (fl_spec1 (floppy s))
    then output_bytes [FD_SPECIFY, fl_spec1 (floppy s), 6] (s\<lparr>cur_spec1 := uint (fl_spec1 (floppy s))\<rparr>) else s)"
  have "fdc_ready (s\<lparr>cur_spec1 := n\<rparr>)" "fd_near s (s\<lparr>cur_spec1 := n\<rparr>)" for n
    using assms by (simp_all add: fdc_ready_def fd_near_def same_requests_def)
  then have "fd_near s (output_bytes bs (s\<lparr>cur_spec1 := n\<rparr>))" for bs n
    using fd_near_trans fd_near_output by blast
  then have u: "fd_near s u"
    using assms by (simp add: u_def) (simp add: fd_near_def)
  have "specified s = (if cur_rate u \<noteq> uint (fl_rate (floppy s))
    then fd_outb (fl_rate (floppy s)) FD_DCR (u\<lparr>cur_rate := uint (fl_rate (floppy s))\<rparr>) else u)"
    by (simp add: specified_def Let_def u_def)
  moreover have "fd_near u (fd_outb r FD_DCR (u\<lparr>cur_rate := n\<rparr>))" for r n
    using u by (simp add: fd_near_def same_requests_def fdc_ready_def fd_outb_def)
  ultimately show ?thesis
    using u fd_near_trans by auto
qed

lemma transfer_issues:
  assumes "fd_current s = Some c" "r_bh (request (fb s) c) = Some bh" "fdc_ready s"
  shows "\<exists>s'. transfer again s = ret () s' \<and> fd_issued s c bh s'"
proof -
  let ?t = "specified s"
  have near: "fd_near s ?t"
    by (rule fd_near_specified) (rule assms(3))
  then have t: "fd_current ?t = Some c" "r_bh (request (fb ?t) c) = Some bh" "fdc_ready ?t" "\<not> fd_reset ?t" "fd_seek ?t = fd_seek s"
    using assms(1,2) by (auto simp: fd_near_def same_requests_def fd_current_def fdc_ready_def)
  define u where "u = ?t\<lparr>do_floppy := Some SEEK_INTERRUPT\<rparr>"
  define bs where "bs = (if seek_track ?t \<noteq> 0 then [FD_SEEK, push_bit 2 (fd_head ?t) OR current_drive ?t, seek_track ?t]
    else [FD_RECALIBRATE, push_bit 2 (fd_head ?t) OR current_drive ?t])"
  have step: "transfer again s = (if \<not> fd_seek ?t then setup_rw_floppy again ?t
      else if fd_reset (output_bytes bs u) then again (output_bytes bs u) else ret () (output_bytes bs u))"
    using t(4) by (simp add: transfer_def specified_def Let_def u_def bs_def)
  show ?thesis
  proof (cases "fd_seek s")
    case False
    then show ?thesis
      using setup_rw_floppy_issues [OF t(1-3), of again] fd_near_issued [OF near] t(5) by (auto simp: step)
  next
    case True
    have u: "fdc_ready u"
      using t(3) by (simp add: u_def fdc_ready_def)
    obtain n where n: "output_bytes bs u = u\<lparr>fdc_clock := n, fb := (fb u)\<lparr>bk := (bk (fb u))\<lparr>port_out :=
        rev (map (Pair FD_DATA) bs) @ fd_ports u\<rparr>\<rparr>\<rparr>"
      using output_bytes_ready [OF u] by blast
    have "fd_issued ?t c bh (output_bytes bs u)"
      unfolding n fd_issued_def using True t(5) by (auto simp: u_def bs_def same_requests_def fd_ports_def)
    moreover have "\<not> fd_reset (output_bytes bs u)"
      using fd_near_output [OF u, of bs] by (simp add: fd_near_def fdc_ready_def)
    ultimately show ?thesis
      using fd_near_issued [OF near] True t(5) by (auto simp: step)
  qed
qed


text \<open>The motor of a drive runs, and the drive is the selected one.\<close>

definition motor_runs :: "floppy_state \<Rightarrow> u8 \<Rightarrow> bool" where
  "motor_runs m drive \<longleftrightarrow> unat drive < 4 \<and> mon_timer m (unat drive) = 0 \<and> bit (current_DOR m) (unat drive + 4)
    \<and> current_DOR m AND 3 = drive"

lemma motor_runs_mask:
  assumes "motor_runs m drive"
  shows "push_bit (unat drive) 0x10 OR current_DOR m = current_DOR m" "(current_DOR m AND 0xFC) OR drive = current_DOR m"
proof -
  have "(0x10 :: u8) = push_bit 4 1"
    by simp
  then have "push_bit (unat drive) (0x10 :: u8) = push_bit (unat drive + 4) 1"
    by (simp only: push_bit_push_bit)
  then show "push_bit (unat drive) 0x10 OR current_DOR m = current_DOR m"
    using assms by (intro bit_word_eqI) (auto simp: bit_or_iff bit_exp_iff motor_runs_def)
next
  have "(current_DOR m AND 0xFC) OR (current_DOR m AND 3) = current_DOR m AND (0xFC OR 3)"
    by (simp only: bit.conj_disj_distrib)
  also have "(0xFC OR 3 :: u8) = -1"
    by simp
  finally show "(current_DOR m AND 0xFC) OR drive = current_DOR m"
    using assms by (simp add: motor_runs_def)
qed

lemma ticks_running:
  assumes "motor_runs m drive"
  shows "ticks_to_floppy_on (unat drive) m = ret 0 (m\<lparr>moff_timer := (moff_timer m)(unat drive := 10000)\<rparr>)"
  using motor_runs_mask [OF assms] assms by (simp add: ticks_to_floppy_on_def motor_runs_def Let_def)

lemma start_motor_issues:
  assumes "fd_current s = Some c" "r_bh (request (fb s) c) = Some bh" "fdc_ready s" "motor_runs (fd_motor s) (current_drive s)"
  shows "\<exists>s'. start_motor again s = ret () s' \<and> fd_issued s c bh s'"
proof -
  define m where "m = (fd_motor s)\<lparr>moff_timer := (moff_timer (fd_motor s))(unat (current_drive s) := 10000), fd_selected := 1\<rparr>"
  have near: "fd_near s (s\<lparr>fd_motor := m\<rparr>)"
    using assms(3) by (simp add: fd_near_def same_requests_def fdc_ready_def)
  have "start_motor again s = transfer again (s\<lparr>fd_motor := m\<rparr>)"
    using assms(4) by (simp add: start_motor_def ticks_running put_part_def ret_def add_timer_def floppy_on_interrupt_def
        Let_def motor_runs_def m_def)
  moreover have "\<exists>s'. transfer again (s\<lparr>fd_motor := m\<rparr>) = ret () s' \<and> fd_issued (s\<lparr>fd_motor := m\<rparr>) c bh s'"
    using assms(1-3) by (intro transfer_issues) (simp_all add: fd_current_def fdc_ready_def)
  ultimately show ?thesis
    using fd_near_issued [OF near] by auto
qed

lemma unat_ucast_u8: "unat (ucast (w :: u32) :: u8) = unat w" if "unat w < 256"
  using that by (simp add: unsigned_ucast_eq take_bit_eq_mod)

lemma fd_place_names_sector:
  assumes "0 < n" "n < length floppy_type" "f = floppy_type ! n" "unat block < unat (fl_size f)" "fd_place f block = (track, head, sec)"
  shows "unat block = (unat track * 2 + unat head) * unat (fl_sect f) + (unat sec - 1)
    \<and> unat track < unat (fl_track f) \<and> unat head < 2 \<and> 1 \<le> unat sec \<and> unat sec \<le> unat (fl_sect f)"
proof -
  let ?S = "unat (fl_sect f)"
  note g = floppy_type_geometry [OF assms(1-3)]
  have sec_mod: "unat (block mod fl_sect f) = unat block mod ?S" "unat block mod ?S < ?S"
    using g by (simp_all add: unat_mod)
  have S: "unat (ucast (block mod fl_sect f) :: u8) = unat block mod ?S"
    using g sec_mod by (simp add: unat_ucast_u8)
  then have sec: "unat sec = unat block mod ?S + 1"
    using assms(5) g sec_mod(2) by (auto simp: fd_place_def Let_def unat_word_ariths(1))
  have "unat block div ?S div 2 = unat block div (?S * 2)"
    by (simp add: div_mult2_eq)
  also have "\<dots> < unat (fl_track f)"
    using assms(4) g by (simp add: less_mult_imp_div_less ac_simps)
  finally have tr: "unat block div ?S div 2 < unat (fl_track f)" .
  then have track: "unat track = unat block div ?S div 2" and head: "unat head = unat block div ?S mod 2"
    using assms(5) g by (auto simp: fd_place_def Let_def unat_ucast_u8 unat_div unat_mod)
  show ?thesis
    using tr g sec_mod(2) by (simp add: track head sec Suc_le_eq)
qed


text \<open>The state in which the driver switches the motor on for the request \<open>c\<close> with the place \<open>pl\<close>.\<close>

definition prepared :: "floppy_struct \<Rightarrow> u8 \<Rightarrow> blk_request \<Rightarrow> u8 \<times> u8 \<times> u8 \<Rightarrow> fd_state \<Rightarrow> fd_state" where
  "prepared f drive r = (\<lambda>(track, head, sec) s.
    let to = ucast (push_bit (unat (fl_stretch f)) (ucast track :: u32))
    in s\<lparr>fd_type := nat (r_dev r) mod 256 div 4, current_drive := drive, fd_sector := sec, fd_head := head, fd_track := track,
         seek_track := to, fd_seek := (current_drive s \<noteq> drive \<or> current_track s \<noteq> to),
         fd_command := (if r_cmd r = READ then FD_READ else FD_WRITE)\<rparr>)"

lemma set_place_prepared:
  assumes "nat (r_dev r) mod 256 div 4 < length floppy_type" "f = floppy_type ! (nat (r_dev r) mod 256 div 4)"
  shows "(set_place pl ((if current_drive s \<noteq> drive
        then s\<lparr>fd_seek := False, fd_type := nat (r_dev r) mod 256 div 4, fd_seek := True\<rparr>
        else s\<lparr>fd_seek := False, fd_type := nat (r_dev r) mod 256 div 4\<rparr>)\<lparr>current_drive := drive\<rparr>))
        \<lparr>fd_command := (if r_cmd r = READ then FD_READ else FD_WRITE)\<rparr>
      = prepared f drive r pl s"
proof -
  obtain track head sec where "pl = (track, head, sec)"
    by (metis prod_cases3)
  moreover define to where "to = (ucast (push_bit (unat (fl_stretch f)) (ucast track :: u32)) :: u8)"
  ultimately show ?thesis
    using assms unfolding set_place_def prepared_def Let_def
    by (cases "current_drive s = drive"; cases "current_track s = to") (simp_all add: floppy_def flip: to_def)
qed

lemma fd_repeat_prepares:
  assumes "fd_current s = Some c" "init_request 2 c (fb s) = None" "r = request (fb s) c" "r_cmd r = READ \<or> r_cmd r = WRITE"
    "dev = nat (r_dev r)" "n = dev mod 256 div 4" "0 < n" "n < length floppy_type" "f = floppy_type ! n"
    "\<not> r_sector r + 2 > fl_size f" "drive = of_nat (dev mod 4)"
  shows "fd_repeat again (Suc k) (s\<lparr>fd_seek := False\<rparr>) = start_motor again (prepared f drive r (fd_place f (r_sector r)) s)"
proof -
  have reqs: "request (fb s) c = r" "nat (r_dev r) = dev" "dev mod 256 div 4 = n" "of_nat (dev mod 4) = drive"
    using assms(3,5,6,11) by simp_all
  have drive: "unat drive = dev mod 4"
    using assms(11) by (simp add: unat_of_nat take_bit_eq_mod)
  then have moved: "(unat (current_drive s) \<noteq> dev mod 4) = (current_drive s \<noteq> drive)"
    by (simp add: word_unat_eq_iff)
  have fl: "floppy (x\<lparr>fd_type := n\<rparr>) = f" for x
    using assms(8,9) by (simp add: floppy_def)
  have geometry: "fl_sect f \<noteq> 0" "fl_head f \<noteq> 0"
    using floppy_type_geometry [OF assms(7-9)] by auto
  have cmd: "r_cmd r \<noteq> READ \<Longrightarrow> r_cmd r = WRITE"
    using assms(4) by blast
  have cur: "current_request (fb s) 2 = Some c"
    using assms(1) by (simp add: fd_current_def)
  have step: "fd_repeat again (Suc k) (s\<lparr>fd_seek := False\<rparr>) = start_motor again (set_place (fd_place f (r_sector r)) ((if current_drive s \<noteq> drive
      then s\<lparr>fd_seek := False, fd_type := n, fd_seek := True\<rparr> else s\<lparr>fd_seek := False, fd_type := n\<rparr>)\<lparr>current_drive := drive\<rparr>)
        \<lparr>fd_command := (if r_cmd r = READ then FD_READ else FD_WRITE)\<rparr>)"
    by (cases "current_drive s = drive"; cases "r_cmd r = READ")
      (simp_all add: fd_current_def Let_def cur assms(2) reqs drive moved fl assms(10) geometry cmd)
  have type: "nat (r_dev r) mod 256 div 4 = n"
    using reqs by simp
  show ?thesis
    unfolding step set_place_prepared [of r f "fd_place f (r_sector r)" drive s, unfolded type, OF assms(8,9)] ..
qed

lemma prepared_simps:
  assumes "n < length floppy_type" "f = floppy_type ! n" "nat (r_dev r) mod 256 div 4 = n"
  shows "floppy (prepared f drive r (track, head, sec) s) = f" "current_drive (prepared f drive r (track, head, sec) s) = drive"
    "fd_track (prepared f drive r (track, head, sec) s) = track" "fd_head (prepared f drive r (track, head, sec) s) = head"
    "fd_sector (prepared f drive r (track, head, sec) s) = sec"
    "seek_track (prepared f drive r (track, head, sec) s) = ucast (push_bit (unat (fl_stretch f)) (ucast track :: u32))"
    "fd_seek (prepared f drive r (track, head, sec) s) = (\<not> (current_drive s = drive
       \<and> current_track s = ucast (push_bit (unat (fl_stretch f)) (ucast track :: u32))))"
    "fd_command (prepared f drive r (track, head, sec) s) = (if r_cmd r = READ then FD_READ else FD_WRITE)"
    "dma_addr (prepared f drive r (track, head, sec) s) c bh = dma_addr s c bh"
    "fb (prepared f drive r (track, head, sec) s) = fb s" "fd_motor (prepared f drive r (track, head, sec) s) = fd_motor s"
    "fdc_ready (prepared f drive r (track, head, sec) s) = fdc_ready s"
    "fd_current (prepared f drive r (track, head, sec) s) = fd_current s"
  using assms by (simp_all add: prepared_def Let_def floppy_def dma_addr_def buffer_addr_def fdc_ready_def fd_current_def)

lemma READ_command [simp]: "((if r_cmd r = READ then FD_READ else FD_WRITE) = FD_READ) = (r_cmd r = READ)"
  by (simp add: FD_READ_def FD_WRITE_def)

text \<open>
  C37. The command for a request. With the motor running and a controller that takes its bytes, \<open>do_fd_request\<close> leaves
  the request at the head of the queue and sends the controller the track, head and sector that name the
  sector of the request, with the unit, the geometry of the disk in it and the address that the DMA controller is to
  use, and waits for the interrupt of the transfer. If the head is not on the track, or was on another drive, it sends
  the seek for that track, doubled for a disk of 40 tracks in a drive of 80, and waits for the interrupt of the seek.
\<close>

theorem fd_command_names_sector:
  assumes "fd_current s = Some c" "init_request 2 c (fb s) = None" "r = request (fb s) c" "r_cmd r = READ \<or> r_cmd r = WRITE"
    "r_bh r = Some bh" "\<not> fd_recalibrate s" "fdc_ready s" "dev = nat (r_dev r)" "n = dev mod 256 div 4" "0 < n"
    "n < length floppy_type" "f = floppy_type ! n" "unat (r_sector r) + 2 \<le> unat (fl_size f)"
    "drive = of_nat (dev mod 4)" "motor_runs (fd_motor s) drive"
  shows "\<exists>s' track head sec pre. do_fd_request FD_FUEL s = ret () s' \<and> fd_current s' = Some c \<and> request (fb s') = request (fb s)
    \<and> unat (r_sector r) = (unat track * 2 + unat head) * unat (fl_sect f) + (unat sec - 1)
    \<and> unat track < unat (fl_track f) \<and> unat head < 2 \<and> 1 \<le> unat sec \<and> unat sec \<le> unat (fl_sect f)
    \<and> (let to = ucast (push_bit (unat (fl_stretch f)) (ucast track :: u32)); unit = push_bit 2 head OR drive
       in if current_drive s = drive \<and> current_track s = to
          then do_floppy s' = Some RW_INTERRUPT
            \<and> fd_ports s' = rev (map (Pair 0x3f5) [if r_cmd r = READ then 0xE6 else 0xC5, unit, track, head, sec, 2,
                ucast (fl_sect f), fl_gap f, 0xff])
              @ rev (dma_bytes (if r_cmd r = READ then 0x46 else 0x4A) (dma_addr s c bh)) @ pre
          else do_floppy s' = Some SEEK_INTERRUPT
            \<and> fd_ports s' = rev (map (Pair 0x3f5) (if to \<noteq> 0 then [0x0F, unit, to] else [0x07, unit])) @ pre)"
proof -
  obtain track head sec where place: "fd_place f (r_sector r) = (track, head, sec)"
    by (metis prod_cases3)
  have sector: "unat (r_sector r) < unat (fl_size f)"
    using assms(13) by simp
  have size: "\<not> r_sector r + 2 > fl_size f"
    using assms(13) unsigned_less [of "fl_size f"] by (simp add: word_less_nat_alt unat_word_ariths(1))
  define u where "u = prepared f drive r (track, head, sec) s"
  have "nat (r_dev r) mod 256 div 4 = n"
    using assms(8,9) by simp
  note u = prepared_simps [OF assms(11,12) this, of drive track head sec s, folded u_def]
  have "do_fd_request FD_FUEL s = start_motor (do_fd_request 1) u"
    using fd_repeat_prepares [OF assms(1-4,8-12) size assms(14), unfolded place, folded u_def] assms(6,7)
    by (simp add: FD_FUEL_def numeral_2_eq_2 Let_def fdc_ready_def del: fd_repeat.simps)
  moreover obtain s' where s': "start_motor (do_fd_request 1) u = ret () s'" "fd_issued u c bh s'"
    using start_motor_issues [of u c bh "do_fd_request 1"] assms(1,3,5,7,15) by (auto simp: u)
  moreover have "fd_current s' = Some c" "request (fb s') = request (fb s)"
    using s'(2) assms(1) by (simp_all add: fd_issued_def same_requests_def fd_current_def u)
  moreover obtain pre where "if fd_seek u
      then do_floppy s' = Some SEEK_INTERRUPT \<and> fd_ports s' = rev (map (Pair FD_DATA)
        (if seek_track u \<noteq> 0 then [FD_SEEK, push_bit 2 (fd_head u) OR current_drive u, seek_track u]
         else [FD_RECALIBRATE, push_bit 2 (fd_head u) OR current_drive u])) @ pre
      else do_floppy s' = Some RW_INTERRUPT \<and>
        fd_ports s' = rev (map (Pair FD_DATA) (rw_bytes (fd_command u) (current_drive u) (fd_track u, fd_head u, fd_sector u) (floppy u)))
          @ rev (dma_bytes (if fd_command u = FD_READ then DMA_READ else DMA_WRITE) (dma_addr u c bh)) @ pre"
    using s'(2) unfolding fd_issued_def by blast
  ultimately show ?thesis
    using fd_place_names_sector [OF assms(10-12) sector place]
    by (intro exI [of _ s'] exI [of _ track] exI [of _ head] exI [of _ sec] exI [of _ pre])
      (simp add: u rw_bytes_def Let_def FD_DATA_def FD_READ_def FD_WRITE_def FD_SEEK_def FD_RECALIBRATE_def DMA_READ_def DMA_WRITE_def
        split: if_splits)
qed


section \<open>Examples\<close>

text \<open>A 1.44 MB disk in drive 1, which runs with its head on track 2, and a read from sector 100 for buffer 0.\<close>

definition demo_fd :: fd_state where
  "demo_fd =
    \<lparr>fb = demo_blk\<lparr>request := (\<lambda>_. (demo_request 0x21d 100 None)\<lparr>r_bh := Some 0\<rparr>), current_request := (\<lambda>_. Some 0),
        bk := demo_kernel\<lparr>buf := (\<lambda>_. null_buffer\<lparr>b_lock := 1\<rparr>)\<rparr>\<rparr>,
     fd_timers = \<lparr>timer_list = (\<lambda>_. \<lparr>tl_jiffies = 0, tl_fn = None, tl_next = None\<rparr>), next_timer = None\<rparr>,
     fd_motor = \<lparr>mon_timer = (\<lambda>_. 0), moff_timer = (\<lambda>_. 0), wait_motor = (\<lambda>_. None), current_DOR = 0x2D,
        fd_selected = 0, fd_dor_port = 0x2D\<rparr>,
     fd_recalibrate = False, fd_reset = False, fd_seek = False, cur_spec1 = -1, cur_rate = -1, fd_type = 0,
     fd_beyond = (\<lambda>_. floppy_type ! 0), current_drive = 1, fd_sector = 0, fd_head = 0, fd_track = 0, seek_track = 0,
     current_track = 2, fd_command = 0, do_floppy = None, reply_buffer = (\<lambda>_. 0), wait_on_floppy_select = None,
     tmp_floppy_area = (\<lambda>_. 0), tmp_area_addr = 0x5000, data_addr = (\<lambda>_. 0x200000), fdc_status = (\<lambda>_. 0x80), fdc_clock = 0,
     fdc_data = (\<lambda>_. 0), fdc_reads = 0\<rparr>"

lemma demo_fd_simps:
  "fd_current demo_fd = Some 0" "request (fb demo_fd) 0 = (demo_request 0x21d 100 None)\<lparr>r_bh := Some 0\<rparr>"
  "init_request 2 0 (fb demo_fd) = None" "fdc_ready demo_fd" "motor_runs (fd_motor demo_fd) 1" "\<not> fd_recalibrate demo_fd"
  "current_drive demo_fd = 1" "current_track demo_fd = 2"
  by (simp_all add: demo_fd_def fd_current_def demo_blk_def init_request_def demo_request_def fdc_ready_def STATUS_READY_def
      STATUS_DIR_def motor_runs_def)

theorem fd_driver_returns_witness:
  "fd_returns (fd_timers demo_fd) [0] (do_fd_request FD_FUEL demo_fd) \<and> fd_returns (fd_timers demo_fd) [0] (floppy_interrupt demo_fd)
    \<and> fd_returns (fd_timers demo_fd) [0] (fd_timeout TRANSFER demo_fd)"
proof -
  have "fd_sound demo_fd [0]"
    by (simp add: fd_sound_def fd_queue_def demo_fd_simps demo_request_def fd_request_ok_def Let_def NR_REQUEST_def floppy_type_def)
      (simp add: demo_fd_def)
  moreover have "timers_ok (fd_timers demo_fd) []"
    by (simp add: timers_ok_def demo_fd_def)
  then have "timer_room (fd_timers demo_fd)"
    unfolding timer_room_def by (intro exI [of _ "[]"]) (simp add: TIME_REQUESTS_def)
  moreover have "\<not> transferring demo_fd"
    by (simp add: transferring_def demo_fd_def)
  ultimately show ?thesis
    using fd_driver_returns [of demo_fd "[0]" TRANSFER] by simp
qed

theorem fd_command_names_sector_witness:
  "\<exists>s' track head sec. do_fd_request FD_FUEL demo_fd = ret () s' \<and> fd_current s' = Some 0
    \<and> (unat track * 2 + unat head) * 18 + (unat sec - 1) = 100 \<and> unat (track :: u8) < 80 \<and> unat (head :: u8) < 2
    \<and> unat (sec :: u8) \<le> 18"
proof -
  let ?r = "(demo_request 0x21d 100 None)\<lparr>r_bh := Some 0\<rparr>" and ?f = "floppy_type ! 7"
  have f: "unat (fl_sect ?f) = 18" "unat (fl_track ?f) = 80" "unat (fl_size ?f) = 2880"
    by (simp_all add: floppy_type_def)
  have r: "r_sector ?r = 100" "r_cmd ?r = READ" "r_bh ?r = Some 0" "r_dev ?r = 0x21d"
    by (simp_all add: demo_request_def)
  have n: "7 = nat (r_dev ?r) mod 256 div 4" "of_nat (nat (r_dev ?r) mod 4) = (1 :: u8)"
    by (simp_all add: r)
  show ?thesis
    using fd_command_names_sector [of demo_fd 0 ?r 0 "nat (r_dev ?r)" 7 ?f 1, OF demo_fd_simps(1,3) _ _ r(3) demo_fd_simps(6,4) refl n(1)
        _ _ refl _ n(2) [symmetric] demo_fd_simps(5)] demo_fd_simps(2)
    by (simp only: f r) (auto simp: floppy_type_def)
qed

end
