(* ===== verification/Boot.thy ===== *)
theory Boot
  imports Get_Block Fd_Count Mounts Con_Write Hd Floppy Mktime
begin

text \<open>
  \<open>init/main.c\<close>: what \<open>main\<close> does before it starts the first process. The clock is read from CMOS, the memory is divided
  between buffers, ram disk and pages, and the components are initialised in turn. The loop of \<open>buffer_init\<close> that lays
  the buffers out is here with its addresses.
\<close>

unbundle bit_operations_syntax

section \<open>The time\<close>

text \<open>The \<open>n\<close>-th access to CMOS reads \<open>cmos n addr\<close> from the register \<open>addr\<close>: \<open>CMOS_READ(addr)\<close> writes \<open>0x80 | addr\<close> to port
  0x70 and reads port 0x71, and the clock is taken to look at the number of the register alone.\<close>

type_synonym cmos_clock = "nat \<Rightarrow> nat \<Rightarrow> u8"

definition BCD_TO_BIN :: "int \<Rightarrow> int" where
  "BCD_TO_BIN val = val mod 16 + val div 16 * 10"

definition cmos_pass :: "cmos_clock \<Rightarrow> nat \<Rightarrow> tm" where
  "cmos_pass cmos n =
    (let r = \<lambda>k addr. uint (cmos (n + k) addr)
     in \<lparr>tm_sec = r 0 0, tm_min = r 1 2, tm_hour = r 2 4, tm_mday = r 3 7, tm_mon = r 4 8, tm_year = r 5 9\<rparr>)"

text \<open>\<open>do ... while (time.tm_sec != CMOS_READ(0))\<close>: seven reads each time.\<close>

partial_function (option) cmos_time :: "cmos_clock \<Rightarrow> nat \<Rightarrow> tm option" where
  "cmos_time cmos n =
    (let time = cmos_pass cmos n
     in if tm_sec time \<noteq> uint (cmos (n + 6) 0) then cmos_time cmos (n + 7) else Some time)"

definition time_init :: "cmos_clock \<Rightarrow> int option" where
  "time_init cmos =
    (case cmos_time cmos 0 of
       None \<Rightarrow> None
     | Some t \<Rightarrow>
         kernel_mktime \<lparr>tm_sec = BCD_TO_BIN (tm_sec t), tm_min = BCD_TO_BIN (tm_min t), tm_hour = BCD_TO_BIN (tm_hour t),
           tm_mday = BCD_TO_BIN (tm_mday t), tm_mon = BCD_TO_BIN (tm_mon t) - 1, tm_year = BCD_TO_BIN (tm_year t)\<rparr>)"

section \<open>The memory\<close>

record memory_plan =
  memory_end :: u32
  buffer_memory_end :: u32
  main_memory_start :: u32

text \<open>\<open>ext\<close> is \<open>EXT_MEM_K\<close>, \<open>ramdisk\<close> the compile-time size of the ram disk in KB, if there is one.\<close>

definition plan_memory :: "u16 \<Rightarrow> u32 option \<Rightarrow> memory_plan" where
  "plan_memory ext ramdisk =
    (let mem_end = (push_bit 20 1 + push_bit 10 (ucast ext)) AND 0xfffff000;
         mem_end = (if mem_end > 16 * 1024 * 1024 then 16 * 1024 * 1024 else mem_end);
         buf_end = (if mem_end > 12 * 1024 * 1024 then 4 * 1024 * 1024
                    else if mem_end > 6 * 1024 * 1024 then 2 * 1024 * 1024 else 1 * 1024 * 1024)
     in \<lparr>memory_end = mem_end, buffer_memory_end = buf_end,
         main_memory_start = (case ramdisk of None \<Rightarrow> buf_end | Some k \<Rightarrow> buf_end + k * 1024)\<rparr>)"

text \<open>The loop of \<open>buffer_init\<close>: the addresses of each head and of its data. A head has 36 bytes.\<close>

function buffer_places :: "int \<Rightarrow> int \<Rightarrow> (int \<times> int) list" where
  "buffer_places h b =
    (let b = b - 1024
     in if b \<ge> h + 36 then (h, b) # buffer_places (h + 36) (if b = 0x100000 then 0xA0000 else b) else [])"
  by pat_completeness auto
termination
  by (relation "measure (\<lambda>(h, b). nat (b - h))") (auto simp: Let_def)

text \<open>\<open>start_buffer\<close> is the address of the symbol \<open>end\<close> of the linker, behind the kernel.\<close>

definition buffer_layout :: "int \<Rightarrow> u32 \<Rightarrow> (int \<times> int) list" where
  "buffer_layout start_buffer buffer_end =
    buffer_places start_buffer (if buffer_end = push_bit 20 1 then 640 * 1024 else uint buffer_end)"

section \<open>main\<close>

definition sched_init :: "sched_state \<Rightarrow> sched_state" where
  "sched_init s = s\<lparr>task := (\<lambda>i. if 1 \<le> i \<and> i < NR_TASKS then None else task s i)\<rparr>"

definition LATCH :: u32 where "LATCH = 1193180 div 100"

definition sched_init_ports :: "kstate \<Rightarrow> kstate" where
  "sched_init_ports s =
    (let s = outb (ucast (drop_bit 8 LATCH)) 0x40 (outb (ucast (LATCH AND 0xff)) 0x40 (outb 0x36 0x43 s))
     in outb (port_in s 0x21 AND NOT 0x01) 0x21 s)"

record boot_params =
  bp_video :: boot_video
  ORIG_ROOT_DEV :: u16
  EXT_MEM_K :: u16
  bp_ramdisk :: "u32 option"
  bp_end :: int
  bp_cmos :: cmos_clock

text \<open>\<open>main\<close> up to \<open>sti\<close>; \<open>h\<close> and \<open>f\<close> have the static variables of the two drivers. \<open>None\<close> is a clock that never gives the same
  second twice, or a month that is none.\<close>

definition kernel_init :: "boot_params \<Rightarrow> hd_state \<Rightarrow> fd_state \<Rightarrow> blk_state \<Rightarrow> blk_state option" where
  "kernel_init p h f s =
    (let plan = plan_memory (EXT_MEM_K p) (bp_ramdisk p);
         upd = \<lambda>g s. s\<lparr>bk := g (bk s)\<rparr>;
         s = upd (\<lambda>k. k\<lparr>ROOT_DEV := ORIG_ROOT_DEV p\<rparr>) s;
         s = (case bp_ramdisk p of None \<Rightarrow> s | Some n \<Rightarrow> snd (rd_init (buffer_memory_end plan) (uint (n * 1024)) s));
         s = upd (\<lambda>k. k\<lparr>mm := mem_init (main_memory_start plan) (memory_end plan) (mm k)\<rparr>) s;
         s = blk_dev_init s;
         s = upd (tty_init (bp_video p)) s
     in case time_init (bp_cmos p) of
          None \<Rightarrow> None
        | Some t \<Rightarrow>
            let s = upd (\<lambda>k. sched_init_ports (k\<lparr>sch := sched_init ((sch k)\<lparr>startup_time := t\<rparr>)\<rparr>)) s;
                s = upd (buffer_init (length (buffer_layout (bp_end p) (buffer_memory_end plan)))) s;
                s = hb (hd_init (h\<lparr>hb := s\<rparr>))
            in Some (fb (floppy_init (f\<lparr>fb := s\<rparr>))))"


section \<open>The clock\<close>

definition bcd :: "int \<Rightarrow> u8" where
  "bcd x = of_int (x div 10 * 16 + x mod 10)"

lemma BCD_TO_BIN_bcd:
  assumes "0 \<le> x" "x < 100"
  shows "BCD_TO_BIN (uint (bcd x)) = x"
proof -
  have d: "0 \<le> x mod 10" "x mod 10 < 10" "0 \<le> x div 10" "x div 10 < 10"
    using assms by auto
  then have "x div 10 * 16 + x mod 10 < 256" "0 \<le> x div 10 * 16 + x mod 10"
    by linarith+
  then have "uint (bcd x) = x mod 10 + x div 10 * 16"
    by (simp only: bcd_def unsigned_of_int) (simp add: take_bit_eq_mod)
  moreover have "(x mod 10 + x div 10 * 16) mod 16 = x mod 10" "(x mod 10 + x div 10 * 16) div 16 = x div 10"
    using d by simp_all
  ultimately show ?thesis
    by (simp add: BCD_TO_BIN_def)
qed

text \<open>The reads of the pass from the \<open>n\<close>-th access on give the time \<open>t\<close>, with the same second before and after.\<close>

definition shows_time :: "cmos_clock \<Rightarrow> nat \<Rightarrow> tm \<Rightarrow> bool" where
  "shows_time cmos n t \<longleftrightarrow> cmos n 0 = bcd (tm_sec t) \<and> cmos (n + 1) 2 = bcd (tm_min t) \<and> cmos (n + 2) 4 = bcd (tm_hour t)
    \<and> cmos (n + 3) 7 = bcd (tm_mday t) \<and> cmos (n + 4) 8 = bcd (tm_mon t + 1) \<and> cmos (n + 5) 9 = bcd (tm_year t)
    \<and> cmos (n + 6) 0 = bcd (tm_sec t)"

lemma cmos_time_stable:
  assumes "\<And>i. i < m \<Longrightarrow> cmos (n + 7 * i) 0 \<noteq> cmos (n + 7 * i + 6) 0" "cmos (n + 7 * m) 0 = cmos (n + 7 * m + 6) 0"
  shows "cmos_time cmos n = Some (cmos_pass cmos (n + 7 * m))"
  using assms
proof (induction m arbitrary: n)
  case 0
  then show ?case
    by (subst cmos_time.simps) (simp add: cmos_pass_def)
next
  case (Suc m)
  have "cmos (n + 7 + 7 * i) 0 \<noteq> cmos (n + 7 + 7 * i + 6) 0" if "i < m" for i
    using Suc.prems(1) [of "Suc i"] that by (simp add: algebra_simps)
  moreover have "cmos (n + 7 + 7 * m) 0 = cmos (n + 7 + 7 * m + 6) 0"
    using Suc.prems(2) by (simp add: algebra_simps)
  ultimately have "cmos_time cmos (n + 7) = Some (cmos_pass cmos (n + 7 + 7 * m))"
    by (rule Suc.IH)
  moreover have "uint (cmos n 0) \<noteq> uint (cmos (n + 6) 0)"
    using Suc.prems(1) [of 0] by (simp add: word_uint_eq_iff)
  ultimately show ?case
    by (subst cmos_time.simps) (simp add: cmos_pass_def algebra_simps)
qed

text \<open>
  C24. The time of the start. The clock is read again as long as the second changes during the reading; the first reading
  in which it does not gives the seconds from 1970 to the time that the clock shows in it, in binary coded decimals.
\<close>

theorem time_init_reads_clock:
  assumes "\<And>i. i < m \<Longrightarrow> cmos (7 * i) 0 \<noteq> cmos (7 * i + 6) 0" "shows_time cmos (7 * m) t" "valid_tm t" "tm_year t < 100"
  shows "time_init cmos = Some (calendar_seconds t)"
proof -
  have "cmos (7 * m) 0 = cmos (7 * m + 6) 0"
    using assms(2) by (simp add: shows_time_def)
  then have time: "cmos_time cmos 0 = Some (cmos_pass cmos (7 * m))"
    using cmos_time_stable [of m cmos 0] assms(1) by simp
  have "0 \<le> tm_mon t + 1 \<and> tm_mon t + 1 < 100 \<and> 0 \<le> tm_sec t \<and> tm_sec t < 100 \<and> 0 \<le> tm_min t \<and> tm_min t < 100 \<and> 0 \<le> tm_hour t
    \<and> tm_hour t < 100 \<and> 0 \<le> tm_mday t \<and> tm_mday t < 100 \<and> 0 \<le> tm_year t \<and> tm_year t < 100"
    using assms(3,4) unfolding valid_tm_def by linarith
  then have "time_init cmos = kernel_mktime t"
    using assms(2) by (cases t) (simp add: time_init_def time cmos_pass_def shows_time_def BCD_TO_BIN_bcd Let_def)
  then show ?thesis
    using calendar_unwrapped [OF assms(3)] calendar_seconds_range [OF assms(3)] by simp
qed

section \<open>The layout of the buffers\<close>

declare buffer_places.simps [simp del]

text \<open>An area for data between \<open>lo\<close> and \<open>hi\<close> that leaves the memory of the adapters, from 640 KB to 1 MB, out.\<close>

definition usable :: "int \<Rightarrow> bool" where
  "usable d \<longleftrightarrow> d + 1024 \<le> 0xA0000 \<or> 0x100000 \<le> d"

definition next_place :: "int \<Rightarrow> int" where
  "next_place b = (if b - 1024 = 0x100000 then 0xA0000 else b - 1024)"

definition block_end :: "int \<Rightarrow> bool" where
  "block_end b \<longleftrightarrow> b mod 1024 = 0 \<and> (b \<le> 0xA0000 \<or> 0x100000 < b)"

lemma next_place:
  assumes "block_end b"
  shows "block_end (next_place b)" "next_place b \<le> b - 1024" "usable (b - 1024)"
proof -
  have d: "(b - 1024) mod 1024 = 0"
    using assms by (simp add: block_end_def mod_simps)
  obtain k where "b = 1024 * k"
    using assms by (auto simp: block_end_def elim: dvdE dest: mod_0_imp_dvd)
  then have above: "0x100000 < b \<Longrightarrow> 0x100000 \<le> b - 1024"
    by simp
  show "block_end (next_place b)"
    using assms d above by (auto simp: block_end_def next_place_def)
  show "next_place b \<le> b - 1024"
    by (simp add: next_place_def)
  show "usable (b - 1024)"
    using assms above by (auto simp: usable_def block_end_def)
qed

lemma buffer_places_step:
  "buffer_places h b = (if h + 36 \<le> b - 1024 then (h, b - 1024) # buffer_places (h + 36) (next_place b) else [])"
  by (subst buffer_places.simps) (simp add: Let_def next_place_def)

lemma buffer_places_induct [case_names step]:
  assumes "\<And>h b. (h + 36 \<le> b - 1024 \<Longrightarrow> P (h + 36) (next_place b)) \<Longrightarrow> P h b"
  shows "P h b"
proof (induction h b rule: buffer_places.induct)
  case (1 h b)
  show ?case
    by (rule assms) (use "1.IH" [OF refl] in \<open>simp add: next_place_def\<close>)
qed

lemma buffer_places_heads: "map fst (buffer_places h b) = map (\<lambda>i. h + 36 * int i) [0..<length (buffer_places h b)]"
proof (induction h b rule: buffer_places_induct)
  case (step h b)
  have shift: "map (\<lambda>i. h + 36 * int i) [0..<Suc n] = h # map (\<lambda>i. (h + 36) + 36 * int i) [0..<n]" for n
    by (simp add: upt_conv_Cons map_Suc_upt [symmetric] algebra_simps del: upt_Suc)
  show ?case
    unfolding buffer_places_step [of h b] using step by (simp add: shift del: upt_Suc)
qed

text \<open>All data lies below the end of the buffer memory in usable memory, and above all heads.\<close>

definition data_in :: "int \<Rightarrow> int \<Rightarrow> (int \<times> int) list \<Rightarrow> bool" where
  "data_in lo hi L \<longleftrightarrow> (\<forall>p\<in>set L. lo \<le> snd p \<and> snd p + 1024 \<le> hi \<and> usable (snd p))"

lemma data_in_mono: "data_in lo hi L \<Longrightarrow> hi \<le> hi' \<Longrightarrow> data_in lo hi' L"
  by (auto simp: data_in_def)

lemma buffer_places_data: "block_end b \<Longrightarrow> data_in (h + 36 * int (length (buffer_places h b))) b (buffer_places h b)"
proof (induction h b rule: buffer_places_induct)
  case (step h b)
  let ?L = "buffer_places (h + 36) (next_place b)"
  note nb = next_place [OF step.prems]
  show ?case
  proof (cases "h + 36 \<le> b - 1024")
    case True
    have rest: "data_in (h + 36 + 36 * int (length ?L)) (next_place b) ?L"
      by (rule step.IH [OF True nb(1)])
    have "h + 36 + 36 * int (length ?L) \<le> b - 1024"
    proof (cases ?L)
      case (Cons p ps)
      then show ?thesis
        using rest nb(2) unfolding Cons data_in_def by simp
    qed (use True in simp)
    moreover have "data_in (h + 36 + 36 * int (length ?L)) b ?L"
      by (rule data_in_mono [OF rest]) (use nb(2) in simp)
    ultimately show ?thesis
      unfolding buffer_places_step [of h b] using True nb(3) by (simp add: data_in_def algebra_simps)
  qed (simp add: buffer_places_step [of h b] data_in_def)
qed

definition apart :: "(int \<times> int) list \<Rightarrow> bool" where
  "apart L \<longleftrightarrow> sorted_wrt (\<lambda>p q. snd q + 1024 \<le> snd p) L"

lemma buffer_places_apart: "block_end b \<Longrightarrow> apart (buffer_places h b)"
proof (induction h b rule: buffer_places_induct)
  case (step h b)
  note nb = next_place [OF step.prems]
  show ?case
  proof (cases "h + 36 \<le> b - 1024")
    case True
    have "snd p + 1024 \<le> b - 1024" if "p \<in> set (buffer_places (h + 36) (next_place b))" for p
      using buffer_places_data [OF nb(1), of "h + 36"] nb(2) that by (force simp: data_in_def)
    then show ?thesis
      unfolding buffer_places_step [of h b] using True step.IH [OF True nb(1)] by (simp add: apart_def)
  qed (simp add: buffer_places_step [of h b] apart_def)
qed

lemma apart_length:
  assumes "apart L" "\<forall>p\<in>set L. lo \<le> snd p \<and> snd p + 1024 \<le> hi" "L \<noteq> []"
  shows "1024 * int (length L) \<le> hi - lo"
  using assms
proof (induction L arbitrary: hi)
  case (Cons p L)
  show ?case
  proof (cases "L = []")
    case False
    then have "1024 * int (length L) \<le> snd p - lo"
      using Cons.prems by (intro Cons.IH) (auto simp: apart_def)
    then show ?thesis
      using Cons.prems(2) by simp
  qed (use Cons.prems in auto)
qed simp


text \<open>With the kernel below 512 KB the heads stay below 640 KB.\<close>

lemma buffer_heads_low:
  assumes "block_end b" "b \<le> 0x400000" "0 \<le> h" "h \<le> 0x80000"
  shows "h + 36 * int (length (buffer_places h b)) \<le> 0xA0000"
proof -
  let ?L = "buffer_places h b"
  note data = buffer_places_data [OF assms(1), of h]
  consider (none) "?L = []" | (low) p where "p \<in> set ?L" "snd p + 1024 \<le> 0xA0000"
    | (high) "?L \<noteq> []" "\<forall>p\<in>set ?L. 0x100000 \<le> snd p"
    using data unfolding data_in_def usable_def by blast
  then show ?thesis
  proof cases
    case none
    then show ?thesis
      using assms(4) by simp
  next
    case low
    then have "h + 36 * int (length ?L) \<le> snd p"
      using data unfolding data_in_def by blast
    then show ?thesis
      using low(2) by linarith
  next
    case high
    then have "\<forall>p\<in>set ?L. 0x100000 \<le> snd p \<and> snd p + 1024 \<le> b"
      using data unfolding data_in_def by blast
    then have "1024 * int (length ?L) \<le> b - 0x100000"
      using apart_length [OF buffer_places_apart [OF assms(1)]] high(1) by blast
    then show ?thesis
      using assms(2,4) by linarith
  qed
qed

section \<open>The plan of the memory\<close>

lemma frame_div: "unat (frame x) = unat x div 4096 * 4096"
proof -
  have "frame x = push_bit 12 (drop_bit 12 x)"
    by (rule bit_eqI) (auto simp: bit_simps)
  then have "frame x = 4096 * (x div 4096)"
    by (simp add: push_bit_eq_mult drop_bit_eq_div)
  then have "unat (frame x) = 4096 * (unat x div 4096) mod 4294967296"
    by (simp add: unat_word_ariths unat_div mod_simps)
  moreover have "unat x < 4294967296"
    by (rule order_less_le_trans [OF unsigned_less]) simp
  then have "4096 * (unat x div 4096) < 4294967296"
    using times_div_less_eq_dividend [of 4096 "unat x"] by linarith
  ultimately show ?thesis
    by (simp only: mod_less mult.commute)
qed

lemma plan_memory_values:
  assumes "p = plan_memory ext ramdisk"
  shows "unat (memory_end p) = min 0x1000000 ((0x100000 + 1024 * unat ext) div 4096 * 4096)"
    "buffer_memory_end p = (if unat (memory_end p) > 0xC00000 then 0x400000 else if unat (memory_end p) > 0x600000 then 0x200000 else 0x100000)"
    "main_memory_start p = (case ramdisk of None \<Rightarrow> buffer_memory_end p | Some k \<Rightarrow> buffer_memory_end p + k * 1024)"
proof -
  have e: "unat ext < 65536"
    using unsigned_less [of ext] by simp
  then have "unat (push_bit 20 1 + push_bit 10 (ucast ext) :: u32) = 0x100000 + 1024 * unat ext"
    by (simp add: unat_word_ariths unsigned_push_bit_eq push_bit_eq_mult unsigned_ucast_eq take_bit_eq_mod)
  then have "unat (frame (push_bit 20 1 + push_bit 10 (ucast ext))) = (0x100000 + 1024 * unat ext) div 4096 * 4096"
    by (simp only: frame_div)
  then show "unat (memory_end p) = min 0x1000000 ((0x100000 + 1024 * unat ext) div 4096 * 4096)"
    by (simp add: assms plan_memory_def Let_def frame_def word_less_nat_alt min_def and.commute)
  show "buffer_memory_end p = (if unat (memory_end p) > 0xC00000 then 0x400000 else if unat (memory_end p) > 0x600000 then 0x200000 else 0x100000)"
    "main_memory_start p = (case ramdisk of None \<Rightarrow> buffer_memory_end p | Some k \<Rightarrow> buffer_memory_end p + k * 1024)"
    by (simp_all only: assms plan_memory_def Let_def memory_plan.simps) (simp_all add: word_less_nat_alt)
qed

lemma plan_start:
  assumes "case ramdisk of None \<Rightarrow> True | Some k \<Rightarrow> unat k \<le> 0x4000 \<and> unat k mod 4 = 0" "plan = plan_memory ext ramdisk"
  shows "unat (main_memory_start plan) mod 4096 = 0" "unat (buffer_memory_end plan) \<le> unat (main_memory_start plan)"
    "0x100000 \<le> unat (main_memory_start plan)" "unat (main_memory_start plan) < 0x80000000"
proof -
  note vals = plan_memory_values [OF assms(2)]
  have "unat (main_memory_start plan) mod 4096 = 0 \<and> unat (buffer_memory_end plan) \<le> unat (main_memory_start plan)
      \<and> 0x100000 \<le> unat (main_memory_start plan) \<and> unat (main_memory_start plan) < 0x80000000"
  proof (cases ramdisk)
    case None
    then show ?thesis
      unfolding vals(3) by (simp add: vals(2))
  next
    case (Some k)
    then obtain n where n: "unat k = 4 * n" "n \<le> 0x1000"
      using assms(1) by (auto elim: dvdE dest: mod_0_imp_dvd)
    then have "unat (buffer_memory_end plan + k * 1024) = unat (buffer_memory_end plan) + 4096 * n"
      by (simp add: vals(2) unat_word_ariths)
    then show ?thesis
      using n(2) unfolding vals(3) by (simp add: Some vals(2))
  qed
  then show "unat (main_memory_start plan) mod 4096 = 0" "unat (buffer_memory_end plan) \<le> unat (main_memory_start plan)"
    "0x100000 \<le> unat (main_memory_start plan)" "unat (main_memory_start plan) < 0x80000000"
    by simp_all
qed

lemma fold_set_count: "mem_map (fold (\<lambda>i. set_count i v) xs s) j = (if j \<in> set xs then v else mem_map s j)"
  by (induction xs arbitrary: s) (auto simp: set_count_def)

lemma fold_set_count_high [simp]: "HIGH_MEMORY (fold (\<lambda>i. set_count i v) xs s) = HIGH_MEMORY s"
  by (induction xs arbitrary: s) (auto simp: set_count_def)

text \<open>The pages that \<open>mem_init\<close> leaves free.\<close>

lemma mem_init_free:
  assumes "unat start mod 4096 = 0" "0x100000 \<le> unat start" "unat start < 0x80000000" "unat high \<le> 0x1000000" "i < PAGING_PAGES"
  shows "mem_map (mem_init start high s) i = 0 \<longleftrightarrow> unat start \<le> unat (page_at i) \<and> unat (page_at i) + 4096 \<le> unat high"
proof -
  obtain m where m: "unat start = 4096 * m"
    using assms(1) by (auto elim: dvdE dest: mod_0_imp_dvd)
  have "LOW_MEM \<le> start"
    using assms(2) by (simp add: word_le_nat_alt LOW_MEM_def)
  then have "unat (start - LOW_MEM) = unat start - 0x100000"
    by (simp add: unat_sub LOW_MEM_def)
  then have first: "MAP_NR start = m - 256"
    unfolding MAP_NR_def using m by (simp add: drop_bit_eq_div unat_div diff_mult_distrib2 [of 4096 m 256, simplified, symmetric])
  have count: "nat (sint (high - start) div 4096) = (unat high - unat start) div 4096"
  proof (cases "unat start \<le> unat high")
    case True
    then have "uint (high - start) = int (unat high - unat start)"
      by (simp only: uint_nat unat_sub word_le_nat_alt)
    then have "sint (high - start) = int (unat high - unat start)"
      using assms(4) by (simp add: sint_u32_cases)
    then show ?thesis
      by (simp add: nat_div_distrib)
  next
    case False
    have "uint (high - start) = (uint high - uint start + 4294967296) mod 4294967296"
      by (simp add: uint_word_ariths)
    also have "\<dots> = uint high - uint start + 4294967296"
      using False assms(3) uint_nat [of high] uint_nat [of start] by (intro mod_pos_pos_trivial) linarith+
    finally have u: "uint (high - start) = uint high - uint start + 4294967296" .
    have "uint high < uint start" "uint start < 2147483648" "0 \<le> uint high"
      using False assms(3) uint_nat [of high] uint_nat [of start] by linarith+
    then have "sint (high - start) < 0"
      unfolding sint_u32_cases u by (subst if_not_P) linarith+
    then show ?thesis
      using False by (simp add: div_neg_pos_less0 order_less_imp_le)
  qed
  have "mem_map (mem_init start high s) i = 0 \<longleftrightarrow> m - 256 \<le> i \<and> i < m - 256 + (unat high - unat start) div 4096"
    using assms(5) by (simp add: mem_init_def Let_def fold_set_count first count USED_def)
  then show ?thesis
    using assms(2) m by (simp add: unat_page_at [OF assms(5)]) arith
qed


text \<open>
  C18. Who owns which memory. With the kernel below 512 KB and a ram disk of whole pages, the initialisation gives the buffer
  heads the memory from the end of the kernel on, below 640 KB; each buffer 1 KB of its own above all heads and below the
  end of the buffer memory, none of it in the memory of the adapters between 640 KB and 1 MB; and the page allocator
  exactly the pages from the end of the buffer memory and the ram disk to the end of the memory, whatever the size of
  the memory. So no page is a buffer, and there are buffers.
\<close>

theorem memory_layout:
  assumes "0 \<le> start" "start \<le> 0x80000" "plan = plan_memory ext ramdisk" "L = buffer_layout start (buffer_memory_end plan)"
    "case ramdisk of None \<Rightarrow> True | Some k \<Rightarrow> unat k \<le> 0x4000 \<and> unat k mod 4 = 0"
  shows "2 \<le> length L \<and> map fst L = map (\<lambda>i. start + 36 * int i) [0..<length L] \<and> start + 36 * int (length L) \<le> 0xA0000
    \<and> (\<forall>p\<in>set L. start + 36 * int (length L) \<le> snd p \<and> snd p + 1024 \<le> int (unat (buffer_memory_end plan))
        \<and> (snd p + 1024 \<le> 0xA0000 \<or> 0x100000 \<le> snd p))
    \<and> sorted_wrt (\<lambda>p q. snd q + 1024 \<le> snd p) L
    \<and> unat (buffer_memory_end plan) \<le> unat (main_memory_start plan) \<and> unat (memory_end plan) \<le> 0x1000000
    \<and> (\<forall>i < PAGING_PAGES. mem_map (mem_init (main_memory_start plan) (memory_end plan) m) i = 0 \<longleftrightarrow>
        unat (main_memory_start plan) \<le> unat (page_at i) \<and> unat (page_at i) + 4096 \<le> unat (memory_end plan))"
proof -
  let ?b = "if buffer_memory_end plan = 0x100000 then 0xA0000 else uint (buffer_memory_end plan)"
  note vals = plan_memory_values [OF assms(3)]
  have L: "L = buffer_places start ?b"
    by (simp add: assms(4) buffer_layout_def)
  have b: "block_end ?b" "0xA0000 \<le> ?b" "?b \<le> 0x400000" "?b \<le> int (unat (buffer_memory_end plan))"
    unfolding vals(2) by (simp_all add: block_end_def)
  have two: "2 \<le> length L"
    unfolding L using assms(2) b(2)
    by (subst buffer_places_step, subst buffer_places_step) (auto simp: next_place_def)
  have data: "data_in (start + 36 * int (length L)) (int (unat (buffer_memory_end plan))) L"
    unfolding L by (rule data_in_mono [OF buffer_places_data [OF b(1)] b(4)])
  note start = plan_start [OF assms(5,3)]
  have "unat (memory_end plan) \<le> 0x1000000"
    unfolding vals(1) by simp
  then show ?thesis
    using two data start buffer_places_heads [of start ?b] buffer_places_apart [OF b(1), of start] buffer_heads_low [OF b(1,3) assms(1,2)]
      mem_init_free [of "main_memory_start plan" "memory_end plan" _ m]
    unfolding L [symmetric] data_in_def usable_def apart_def by auto
qed


section \<open>The start\<close>

lemma buffer_layout_length:
  assumes "start \<le> 0x80000"
  shows "2 \<le> length (buffer_layout start (buffer_memory_end (plan_memory ext ramdisk)))"
  unfolding buffer_layout_def using assms
  by (subst buffer_places_step, subst buffer_places_step) (auto simp: next_place_def plan_memory_values(2) [OF refl])

text \<open>The static data of the kernel image: the first task alone, no open file, no mount, no request.\<close>

definition static_data :: "blk_state \<Rightarrow> bool" where
  "static_data s \<longleftrightarrow>
    (\<exists>a. task (sch (bk s)) = (\<lambda>i. if i = 0 then Some (INIT_TASK a) else None)) \<and> current (sch (bk s)) = 0
    \<and> (\<forall>f < NR_FILE. f_count (file_table (bk s) f) = 0)
    \<and> (\<forall>i < NR_SUPER. s_dev (super_table (bk s) i) = 0 \<and> s_imount (super_table (bk s) i) = None)
    \<and> (\<forall>m. current_request s m = None) \<and> con_npar (con (bk s)) < NPAR"

lemma mem_init_pool:
  assumes "unat start mod 4096 = 0" "0x100000 \<le> unat start" "unat start < 0x80000000" "unat high \<le> 0x1000000"
  shows "pool_ok (mem_init start high s)"
proof -
  have "HIGH_MEMORY (mem_init start high s) = high"
    by (simp add: mem_init_def Let_def)
  then show ?thesis
    using mem_init_free [OF assms] by (fastforce simp: pool_ok_def word_less_nat_alt)
qed

text \<open>What the initialisation of the terminals and the ports leaves alone.\<close>

lemma outb_fields [simp]:
  "sch (outb c q k) = sch k" "mm (outb c q k) = mm k" "file_table (outb c q k) = file_table k"
  "super_table (outb c q k) = super_table k" "con (outb c q k) = con k" "buf (outb c q k) = buf k"
  "hash_table (outb c q k) = hash_table k" "free_list (outb c q k) = free_list k" "NR_BUFFERS (outb c q k) = NR_BUFFERS k"
  by (simp_all add: outb_def)

lemma tty_init_fields [simp]:
  "sch (tty_init b k) = sch k" "mm (tty_init b k) = mm k" "file_table (tty_init b k) = file_table k"
  "super_table (tty_init b k) = super_table k" "con (tty_init b k) = (con_init b ((con k)\<lparr>con_out := []\<rparr>))\<lparr>con_out := []\<rparr>"
  by (simp_all add: tty_init_def con_start_def on_console_def rs_init_def rs_init_port_def Let_def)

lemma buffer_init_fields [simp]:
  "sch (buffer_init n k) = sch k" "mm (buffer_init n k) = mm k" "file_table (buffer_init n k) = file_table k"
  "super_table (buffer_init n k) = super_table k" "con (buffer_init n k) = con k"
  by (simp_all add: buffer_init_def)

lemma sched_init_ports_fields [simp]:
  "sch (sched_init_ports k) = sch k" "mm (sched_init_ports k) = mm k" "file_table (sched_init_ports k) = file_table k"
  "super_table (sched_init_ports k) = super_table k" "con (sched_init_ports k) = con k"
  by (simp_all add: sched_init_ports_def Let_def)

text \<open>The two drivers.\<close>

definition drivers_init :: "hd_state \<Rightarrow> fd_state \<Rightarrow> blk_state \<Rightarrow> blk_state" where
  "drivers_init h f s = fb (floppy_init (f\<lparr>fb := hb (hd_init (h\<lparr>hb := s\<rparr>))\<rparr>))"

lemma drivers_init_fields [simp]:
  "sch (bk (drivers_init h f s)) = sch (bk s)" "mm (bk (drivers_init h f s)) = mm (bk s)"
  "file_table (bk (drivers_init h f s)) = file_table (bk s)" "super_table (bk (drivers_init h f s)) = super_table (bk s)"
  "con (bk (drivers_init h f s)) = con (bk s)" "current_request (drivers_init h f s) = current_request s"
  "request (drivers_init h f s) = request s" "same_links (bk s) (bk (drivers_init h f s))"
  "blk_fn (bk (drivers_init h f s)) 2" "blk_fn (bk (drivers_init h f s)) 3"
  by (simp_all add: drivers_init_def floppy_init_def hd_init_def Let_def same_links_def outb_def)

lemma blk_dev_init_bk [simp]: "blk_dev_init (s\<lparr>bk := k\<rparr>) = (blk_dev_init s)\<lparr>bk := k\<rparr>" "bk (blk_dev_init s) = bk s"
  by (simp_all add: blk_dev_init_def cong: if_cong)

lemma kernel_init_result:
  assumes "time_init (bp_cmos p) = Some t" "plan = plan_memory (EXT_MEM_K p) (bp_ramdisk p)"
  shows "\<exists>u m k. kernel_init p h f s = Some u \<and> sch (bk u) = sched_init ((sch (bk s))\<lparr>startup_time := t\<rparr>)
    \<and> mm (bk u) = mem_init (main_memory_start plan) (memory_end plan) m \<and> file_table (bk u) = file_table (bk s)
    \<and> super_table (bk u) = super_table (bk s) \<and> con (bk u) = (con_init (bp_video p) ((con (bk s))\<lparr>con_out := []\<rparr>))\<lparr>con_out := []\<rparr>
    \<and> same_links (buffer_init (length (buffer_layout (bp_end p) (buffer_memory_end plan))) k) (bk u)
    \<and> current_request u = current_request s \<and> (\<forall>i < NR_REQUEST. r_dev (request u i) = -1) \<and> blk_fn (bk u) 2 \<and> blk_fn (bk u) 3"
proof -
  let ?n = "length (buffer_layout (bp_end p) (buffer_memory_end plan))"
  define rd where "rd s = (case bp_ramdisk p of None \<Rightarrow> s | Some n \<Rightarrow> snd (rd_init (buffer_memory_end plan) (uint (n * 1024)) s))" for s
  define a where "a = rd (s\<lparr>bk := (bk s)\<lparr>ROOT_DEV := ORIG_ROOT_DEV p\<rparr>\<rparr>)"
  define k where "k = tty_init (bp_video p) ((bk a)\<lparr>mm := mem_init (main_memory_start plan) (memory_end plan) (mm (bk a))\<rparr>)"
  define k' where "k' = sched_init_ports (k\<lparr>sch := sched_init ((sch k)\<lparr>startup_time := t\<rparr>)\<rparr>)"
  define b where "b = (blk_dev_init a)\<lparr>bk := buffer_init ?n k'\<rparr>"
  have a: "sch (bk a) = sch (bk s)" "file_table (bk a) = file_table (bk s)" "super_table (bk a) = super_table (bk s)"
    "con (bk a) = con (bk s)" "current_request a = current_request s"
    by (simp_all add: a_def rd_def rd_init_def split: option.split)
  have "kernel_init p h f s = Some (drivers_init h f b)"
    by (simp add: kernel_init_def Let_def assms(1) flip: assms(2) rd_def)
      (simp add: b_def k'_def k_def drivers_init_def a_def)
  moreover have bk: "bk b = buffer_init ?n k'"
    by (simp add: b_def)
  moreover have "same_links (buffer_init ?n k') (bk (drivers_init h f b))"
    by (subst bk [symmetric]) simp
  moreover have "sch k' = sched_init ((sch (bk s))\<lparr>startup_time := t\<rparr>)" "file_table k' = file_table (bk s)"
    "mm k' = mem_init (main_memory_start plan) (memory_end plan) (mm (bk a))" "super_table k' = super_table (bk s)"
    "con k' = (con_init (bp_video p) ((con (bk s))\<lparr>con_out := []\<rparr>))\<lparr>con_out := []\<rparr>"
    by (simp_all add: k'_def k_def a)
  moreover have "current_request b = current_request s" "\<forall>i < NR_REQUEST. r_dev (request b i) = -1"
    by (simp_all add: b_def blk_dev_init_def a)
  ultimately show ?thesis
    by (intro exI [of _ "drivers_init h f b"] exI [of _ "mm (bk a)"] exI [of _ k']) simp
qed


lemma INIT_TASK_fields [simp]: "t_filp (INIT_TASK a) fd = None" "t_state (INIT_TASK a) = 0" "sched_ok (INIT_TASK a)"
  by (simp_all add: INIT_TASK_def sched_ok_def)

lemma sched_init_first:
  assumes "task s = (\<lambda>i. if i = 0 then Some (INIT_TASK a) else None)"
  shows "task (sched_init s) = (\<lambda>i. if i = 0 then Some (INIT_TASK a) else None)"
  using assms by (simp add: sched_init_def fun_eq_iff)

lemma first_files_ok:
  assumes "task (sch k) = (\<lambda>i. if i = 0 then Some (INIT_TASK a) else None)" "current (sch k) = 0"
    "\<forall>f < NR_FILE. f_count (file_table k f) = 0"
  shows "files_ok k"
proof -
  have none: "filp_at k i fd = None" for i fd
    using assms(1) by (simp add: filp_at_def)
  then have "refs_ok (file_count k) (filp_at k)"
    using assms(3) by (simp add: refs_ok_def refs_def file_count_def)
  then show ?thesis
    using assms(1,2) by (simp add: files_ok_def files_counted_def zombies_closed_def running_def NR_TASKS_def TASK_ZOMBIE_def)
qed

text \<open>
  C9. The kernel starts in a good state. From the static data of the image, whatever the machine has in memory and on its
  screen, \<open>main\<close> sets up everything that the components rely on before the first process runs: the page pool, the task
  table, the counts of the open files, the mounts, the buffer cache, the console, the request queues, and the time.
\<close>

theorem boot_establishes:
  assumes "static_data s" "time_init (bp_cmos p) = Some t" "0 \<le> bp_end p" "bp_end p \<le> 0x80000"
    "case bp_ramdisk p of None \<Rightarrow> True | Some k \<Rightarrow> unat k \<le> 0x4000 \<and> unat k mod 4 = 0"
    "8 \<le> unat (ORIG_VIDEO_COLS (bp_video p))" "50 * unat (ORIG_VIDEO_COLS (bp_video p)) \<le> 0x2000"
    "ORIG_X (bp_video p) \<le> ORIG_VIDEO_COLS (bp_video p)" "ORIG_Y (bp_video p) < 25"
  shows "\<exists>u. kernel_init p h f s = Some u \<and> pool_ok (mm (bk u)) \<and> sched_wf (sch (bk u)) \<and> startup_time (sch (bk u)) = t
    \<and> files_ok (bk u) \<and> mounts (\<lambda>_. None) (bk u) \<and> cache_ok (bk u) \<and> con_ok (con (bk u))
    \<and> (\<forall>m. current_request u m = None) \<and> (\<forall>i < NR_REQUEST. r_dev (request u i) = -1)"
proof -
  obtain a where static: "task (sch (bk s)) = (\<lambda>i. if i = 0 then Some (INIT_TASK a) else None)" "current (sch (bk s)) = 0"
    "\<forall>f < NR_FILE. f_count (file_table (bk s) f) = 0"
    "\<forall>i < NR_SUPER. s_dev (super_table (bk s) i) = 0 \<and> s_imount (super_table (bk s) i) = None"
    "\<forall>m. current_request s m = None" "con_npar (con (bk s)) < NPAR"
    using assms(1) unfolding static_data_def by blast
  define plan where "plan = plan_memory (EXT_MEM_K p) (bp_ramdisk p)"
  obtain u m k where u: "kernel_init p h f s = Some u" "sch (bk u) = sched_init ((sch (bk s))\<lparr>startup_time := t\<rparr>)"
    "mm (bk u) = mem_init (main_memory_start plan) (memory_end plan) m" "file_table (bk u) = file_table (bk s)"
    "super_table (bk u) = super_table (bk s)" "con (bk u) = (con_init (bp_video p) ((con (bk s))\<lparr>con_out := []\<rparr>))\<lparr>con_out := []\<rparr>"
    "same_links (buffer_init (length (buffer_layout (bp_end p) (buffer_memory_end plan))) k) (bk u)"
    "current_request u = current_request s" "\<forall>i < NR_REQUEST. r_dev (request u i) = -1"
    using kernel_init_result [OF assms(2) plan_def] by blast
  have task: "task (sch (bk u)) = (\<lambda>i. if i = 0 then Some (INIT_TASK a) else None)" "current (sch (bk u)) = 0"
    "startup_time (sch (bk u)) = t"
    unfolding u(2) using static(1,2) by (simp_all add: sched_init_first) (simp_all add: sched_init_def)
  have "pool_ok (mm (bk u))"
    unfolding u(3) using plan_start [OF assms(5) plan_def]
    by (intro mem_init_pool) (simp_all add: plan_memory_values(1) [OF plan_def])
  moreover have "sched_wf (sch (bk u))"
    using task by (simp add: sched_wf_def split: if_splits)
  moreover have "files_ok (bk u)"
    using task static(3) u(4) by (intro first_files_ok) simp_all
  moreover have "mounts (\<lambda>_. None) (bk u)"
    using static(4) by (simp add: mounts_def u(5))
  moreover have "cache_ok (bk u)"
    using buffer_init_cache [OF buffer_layout_length [OF assms(4)]] u(7) unfolding plan_def by (rule cache_ok_same)
  moreover have "con_ok (con (bk u))"
    using con_init_ok [of "bp_video p" "(con (bk s))\<lparr>con_out := []\<rparr>"] assms(6-9) static(6) by (simp add: u(6) con_ok_def)
  ultimately show ?thesis
    using u(1,8,9) task(3) static(5) by auto
qed


section \<open>Examples\<close>

text \<open>A machine with 8 MB and a ram disk of 512 KB, started on 15 March 1992 at 17:45:30; the first reading falls on the end of a
  second.\<close>

definition demo_cmos :: cmos_clock where
  "demo_cmos n addr =
    (if addr = 0 then if n = 0 then 0x29 else 0x30 else if addr = 2 then 0x45 else if addr = 4 then 0x17
     else if addr = 7 then 0x15 else if addr = 8 then 0x03 else 0x92)"

definition demo_params :: boot_params where
  "demo_params = \<lparr>bp_video = demo_boot, ORIG_ROOT_DEV = 0x101, EXT_MEM_K = 7168, bp_ramdisk = Some 512, bp_end = 0x20000,
    bp_cmos = demo_cmos\<rparr>"

definition demo_time :: tm where
  "demo_time = \<lparr>tm_sec = 30, tm_min = 45, tm_hour = 17, tm_mday = 15, tm_mon = 2, tm_year = 92\<rparr>"

lemma demo_shows: "shows_time demo_cmos 7 demo_time" "valid_tm demo_time" "demo_cmos 0 0 \<noteq> demo_cmos 6 0"
  by (simp_all add: demo_cmos_def shows_time_def demo_time_def valid_tm_def bcd_def)

lemma demo_clock: "time_init demo_cmos = Some (calendar_seconds demo_time)"
proof -
  have "cmos_time demo_cmos 0 = Some (cmos_pass demo_cmos 7)"
    using cmos_time_stable [of 1 demo_cmos 0] by (simp add: demo_cmos_def)
  then show ?thesis
    using calendar_unwrapped [OF demo_shows(2)] calendar_seconds_range [OF demo_shows(2)]
    by (simp add: time_init_def cmos_pass_def demo_cmos_def BCD_TO_BIN_def demo_time_def)
qed

theorem time_init_reads_clock_witness: "time_init demo_cmos = Some (calendar_seconds demo_time) \<and> demo_cmos 0 0 \<noteq> demo_cmos 6 0"
proof -
  have "time_init demo_cmos = Some (calendar_seconds demo_time)"
    by (rule time_init_reads_clock [where m = 1]) (use demo_shows in \<open>simp_all add: demo_time_def\<close>)
  then show ?thesis
    using demo_shows(3) by simp
qed

theorem memory_layout_witness:
  "let plan = plan_memory 7168 (Some 512); L = buffer_layout 0x20000 (buffer_memory_end plan)
   in 2 \<le> length L \<and> sorted_wrt (\<lambda>p q. snd q + 1024 \<le> snd p) L
     \<and> (\<forall>i < PAGING_PAGES. mem_map (mem_init (main_memory_start plan) (memory_end plan) demo_mm) i = 0 \<longleftrightarrow>
          unat (main_memory_start plan) \<le> unat (page_at i) \<and> unat (page_at i) + 4096 \<le> unat (memory_end plan))"
  using memory_layout [where start = "0x20000" and ext = 7168 and ramdisk = "Some 512" and m = demo_mm, OF _ _ refl refl] by (simp add: Let_def)


definition boot_image :: blk_state where
  "boot_image =
    demo_blk\<lparr>current_request := (\<lambda>_. None),
      bk := demo_kernel\<lparr>sch := (sch demo_kernel)\<lparr>task := [0 \<mapsto> INIT_TASK 0], current := 0\<rparr>\<rparr>\<rparr>"

theorem boot_establishes_witness:
  "\<exists>u. kernel_init demo_params demo_hd demo_fd boot_image = Some u \<and> startup_time (sch (bk u)) = calendar_seconds demo_time
    \<and> cache_ok (bk u) \<and> files_ok (bk u)"
proof -
  have static: "static_data boot_image"
    by (auto simp: static_data_def boot_image_def demo_kernel_def null_super_def blank_console_def NPAR_def fun_eq_iff)
  have time: "time_init (bp_cmos demo_params) = Some (calendar_seconds demo_time)"
    unfolding demo_params_def boot_params.simps by (rule demo_clock)
  show ?thesis
    using boot_establishes [OF static time, of demo_hd demo_fd] by (auto simp: demo_params_def demo_boot_def)
qed

end
