(* ===== verification/Spec2Isabelle.thy ===== *)
theory Spec2Isabelle
  imports Prelude Mktime Vsprintf Kernel_Types Sched Wait_Queue Timer Allocator Memory Console Con_Scroll Kstate Buffer Sync
    Bitmap Inode Namei Names File_Dev Ring Pipe Tty Con_Write Line_Edit Char_Dev Files Sys Process
    Phys_Bytes Block_Req Hd Super Setup Page_Fault Exec Exec_Args Exec_Tables Frame Fd_Count Links Cache Get_Block Inode_Disk Mounts Floppy Boot
begin

text \<open>
  A model of the kernel in \<open>boot/linux-handy\<close>, Linux 0.11 for the i386, and theorems about it. Paths below are relative to
  that directory. The rest of the repository (exercises, parser experiments, configuration, and a second copy of the
  same kernel under \<open>boot/archive\<close>) is not the subject.

  \<^bold>\<open>The program.\<close> The kernel runs processes, each with a slot in the array \<open>task\<close>. The clock interrupt counts their
  time, runs the kernel timers and calls the scheduler. A process enters the kernel by a system call. The calls on files
  go through descriptors (\<open>filp\<close>) to the open files (\<open>file_table\<close>), from there to the inodes (\<open>inode_table\<close>), and by the
  kind of the inode to regular files, block devices, terminals or pipes. Files and directories are blocks of a
  disk, found through the zones of the inode and handed out by the bitmaps of the super block; all blocks go
  through the buffer cache, and from it as requests to the queue of a driver: ram disk, hard disk, floppy. The
  drivers are state machines run by their interrupts and, for the floppy, by timers. Terminals are rings of characters
  between an interrupt routine, the line discipline and the processes; their output goes to the console, which
  interprets escape sequences, or to a serial line. Memory is handed out in counted pages, which the page tables of the
  processes share until one writes to them; \<open>execve\<close> builds a new stack out of such pages and leaves the program to be
  loaded by page faults.

  \<^bold>\<open>How routines are modelled.\<close> A routine is a function from its arguments and the state to a result \<open>('a, 's) kres\<close>
  (theory \<open>Prelude\<close>): a value and the new state, or one of the ways of not returning to the caller, \<open>Panic\<close> (the text
  given to \<open>panic\<close>), \<open>Exit\<close> (\<open>do_exit\<close> was called), \<open>Blocked\<close> (it would sleep) and \<open>Fault\<close> (an access through a null
  pointer, a division by zero, or the use of a negative index). \<open>bindK\<close> sequences routines, \<open>forK\<close> is a counted loop. \<open>okK P r\<close> says that \<open>P\<close> holds of the
  value and the state if \<open>r\<close> returns, \<open>totK P r\<close> that it returns and \<open>P\<close> holds; the rules of the collection \<open>kwp\<close>
  compute both. C integers keep their width: \<open>u8\<close>, \<open>u16\<close>, \<open>u32\<close> are words; an \<open>int\<close> is an \<^typ>\<open>int\<close>, with \<open>s32\<close> where
  it can wrap around. A pointer into a static table is the index in it, a null pointer is \<open>None\<close>. The message texts of
  \<open>printk\<close> and the instructions \<open>cli\<close> and \<open>sti\<close> have no counterpart. The system calls are run for one process at a time;
  interleaving is modelled where the code is about it, in \<open>Wait_Queue\<close>.

  \<^bold>\<open>The states.\<close> \<open>sched_state\<close> (\<open>Sched\<close>) has the task array, \<open>current\<close>, \<open>jiffies\<close> and \<open>last_pid\<close>; \<open>mm_state\<close> (\<open>Memory\<close>) the
  physical memory by aligned longs and \<open>mem_map\<close>; \<open>console\<close> the static variables of \<open>console.c\<close> and the cells of the video
  memory. \<open>kstate\<close> (\<open>Kstate\<close>) is the state of the file system and the terminals: it holds these three, the
  data segment of the process, the buffer cache (buffer heads, hash table, free list), the tables of inodes, super
  blocks, open files and terminals, the contents of the disks, and what was read from and written to I/O ports. In
  this state \<open>ll_rw_block\<close> carries a request out at once (\<open>device_request\<close>); \<open>blk_state\<close> (\<open>Block_Req\<close>) adds the
  request table, the queues and the ram disk, and a theorem shows that the ram disk driver does what
  \<open>device_request\<close> says. \<open>hd_state\<close> (\<open>Hd\<close>) and \<open>fd_state\<close> (\<open>Floppy\<close>) add the variables of a driver and its controller, which is
  a stream of the values its registers yield: the theorems hold for every controller, or for one whose answers
  the hypotheses name. \<open>clock_state\<close> (\<open>Timer\<close>) has what the clock interrupt works on. \<open>wait_system\<close> (\<open>Wait_Queue\<close>) is a queue
  with the tasks that are inside \<open>sleep_on\<close>.
\<close>

text \<open>
  \<^bold>\<open>Theories and sources.\<close> Definitions have the names of the functions they model; the part of a function that is a
  definition of its own (a loop, a step, a case) is named after what it does.

  \<^item> \<open>Prelude\<close>, \<open>Kernel_Types\<close> (\<open>include/linux/sched.h\<close>, \<open>head.h\<close>, \<open>signal.h\<close>), \<open>Kstate\<close> (\<open>include/linux/fs.h\<close>, \<open>tty.h\<close>): shared.
  \<^item> \<open>Mktime\<close> (\<open>kernel/mktime.c\<close>): equal to the calendar. \<open>Vsprintf\<close> (\<open>kernel/vsprintf.c\<close>): digits read back, widths.
  \<^item> \<open>Sched\<close> (\<open>kernel/sched.c\<close>): the choice of the next task, alarms, signals. \<open>Wait_Queue\<close>: \<open>sleep_on\<close> and \<open>wake_up\<close> as
    steps of a system (\<open>inductive\<close>) with the invariant that no sleeper is lost, and that one \<open>wake_up\<close> empties the queue. \<open>Timer\<close>:
    the timer list as a list of delays, the floppy motors, \<open>do_timer\<close>; the timer functions are a parameter, which may not
    return and may add timers.
  \<^item> \<open>Memory\<close>, \<open>Page_Fault\<close> (\<open>mm/memory.c\<close>): pages, page tables, copy-on-write, sharing, demand loading. \<open>Phys_Bytes\<close>:
    physical memory by bytes.
  \<^item> \<open>Process\<close> (\<open>kernel/fork.c\<close>, \<open>exit.c\<close>), \<open>Sys\<close> (\<open>kernel/sys.c\<close>, \<open>signal.c\<close>): processes, ids, signals.
  \<^item> \<open>Buffer\<close>, \<open>Sync\<close> (\<open>fs/buffer.c\<close>, the writing of inodes, \<open>put_super\<close>), \<open>Bitmap\<close> (\<open>fs/bitmap.c\<close>, \<open>truncate.c\<close>), \<open>Inode\<close>
    (\<open>fs/inode.c\<close>), \<open>Namei\<close> and \<open>Names\<close> (\<open>fs/namei.c\<close>), \<open>Super\<close> (\<open>fs/super.c\<close>), \<open>File_Dev\<close> (\<open>fs/file_dev.c\<close>,
    \<open>block_dev.c\<close>), \<open>Files\<close> (\<open>fs/open.c\<close>, \<open>fcntl.c\<close>, \<open>read_write.c\<close>, \<open>stat.c\<close>), \<open>Pipe\<close>, \<open>Char_Dev\<close>, \<open>Exec\<close>: the file system.
  \<^item> \<open>Tty\<close> (\<open>kernel/chr_drv/tty_io.c\<close>), \<open>Console\<close>, \<open>Con_Write\<close> (\<open>console.c\<close>, \<open>serial.c\<close>): terminals.
  \<^item> \<open>Block_Req\<close> (\<open>kernel/blk_drv/ll_rw_blk.c\<close>, \<open>blk.h\<close>, \<open>ramdisk.c\<close>), \<open>Hd\<close> and \<open>Setup\<close> (\<open>hd.c\<close>), \<open>Floppy\<close> (\<open>floppy.c\<close>): drivers.
  \<^item> \<open>Boot\<close> (\<open>init/main.c\<close>, the layout loop of \<open>buffer_init\<close>, \<open>sched_init\<close>): the clock, the division of the memory, and that the
    initialisation makes the invariants of all components true.
  \<^item> Proofs only: \<open>Frame\<close>, \<open>Fd_Count\<close>, \<open>Links\<close>, \<open>Cache\<close>, \<open>Get_Block\<close>, \<open>Inode_Disk\<close>, \<open>Mounts\<close>, \<open>Line_Edit\<close>, \<open>Con_Scroll\<close>, \<open>Exec_Args\<close>, \<open>Exec_Tables\<close>.

  \<^bold>\<open>Interfaces.\<close> \<open>counted_allocator\<close> (\<open>Allocator\<close>): what is handed out was unused, and giving it back in any order restores
  the counts; provided by the pages (\<open>pages\<close> in \<open>Memory\<close>) and the bitmaps (\<open>bits\<close> in \<open>Bitmap\<close>). \<open>bounded_fifo\<close> (\<open>Ring\<close>):
  bounded queues, provided by the terminals (\<open>tq\<close> in \<open>Tty\<close>). \<open>line_device\<close> (\<open>Line_Edit\<close>): what the line discipline needs of
  the routine \<open>tty->write\<close>, provided by the serial lines and the console. \<open>invariant_of\<close> \<open>\<subseteq>\<close> \<open>fs_data\<close> \<open>\<subseteq>\<close> \<open>fs_base\<close>, and
  \<open>fs_invariant\<close> (\<open>Frame\<close>): what an invariant must survive so that all the routines of the file system keep it, one
  lemma per routine, in the collection \<open>fr\<close>; \<open>fs_data\<close> leaves the buffer links out, so that the invariant may be about
  them, and \<open>fs_base\<close> asks for \<open>getblk\<close>. They are interpreted for the counts of open files (\<open>files\<close>, \<open>closed\<close>,
  \<open>counted\<close> in \<open>Fd_Count\<close>), the structure of the buffer cache (\<open>cache\<close>, \<open>got\<close> in \<open>Get_Block\<close>) and the mounts (\<open>mounts\<close>,
  \<open>mounted\<close> in \<open>Mounts\<close>).

  \<^bold>\<open>What is shown.\<close> Scheduling: the loop ends with the task of the largest counter, keeps the task table well-formed and
  delivers alarms and signals; whatever the interleaving, no sleeper is lost, and a \<open>wake_up\<close> ends the sleep of the whole queue.
  The functions of expired timers are called once each and in order, also when they add timers. Memory: pages are distinct and come back;
  after copy-on-write the page is private with the same contents. File system: \<open>getblk\<close> and \<open>bread\<close> keep the
  chains and the ring of the buffer cache and the uniqueness of cached blocks, and deliver the bytes of the block;
  bitmaps hand out distinct bits; \<open>write_inode\<close> puts an inode into its bytes of its block and \<open>read_inode\<close> reads it back; counts of open files equal the number of
  descriptors through all the calls that change either, on all their ways out; mounts stay consistent. Pipes and
  terminal queues are first-in first-out lists, the line discipline an editor of lists, and the console shows what
  is written, scrolls by rows and stays within its memory. \<open>execve\<close> gives the new program the strings of the
  caller. The start: buffers and pages have memory of their own, and all the invariants hold when the first process
  runs. Drivers: the elevator, the starvation bound, the sector that a command names, the completion of a read, the
  treatment of errors, and, for the floppy, that every request, interrupt and timer function returns and leaves the queue sound.
\<close>

text \<open>
  \<^bold>\<open>Bounds.\<close> Loops that the code does not bound have a number that does; at 0 the result is \<open>Blocked\<close> or \<open>None\<close>.

  \<^item> Chains and rings of buffers: \<open>NR_BUFFERS\<close> or its successor; a chain without repetition is no longer, and the
    invariant of \<open>Cache\<close> says that there is none. \<open>goto repeat\<close> of \<open>getblk\<close>, \<open>iget\<close> and \<open>get_empty_inode\<close>: \<open>REPEAT_FUEL\<close> = 100.
    The code goes back when a sleep has let another process take the buffer or inode. A sleep is \<open>Blocked\<close> here, and what the
    writing of a dirty buffer or inode in between takes it gives back, except for the block that is looked for, which the
    next round finds.
  \<^item> \<open>sync_dev\<close> calls itself through \<open>write_inode\<close>, \<open>bread\<close> and \<open>getblk\<close>, each time with one more inode locked: \<open>SYNC_FUEL\<close> = 33,
    the number of inodes and one.
  \<^item> Strings and arrays of the user, \<open>PATH_FUEL\<close>: the size of the segment (64 MB).
  \<^item> \<open>NR_REQUEST\<close> for the queues; \<open>HD_FUEL\<close> = 8 passes for each request and one, as each pass ends a request or adds one of the
    at most seven errors; \<open>FD_FUEL\<close> = 2 levels of calls, and \<open>fd_driver_returns\<close> shows that they are enough.
  \<^item> \<open>sift_timer\<close>: \<open>TIME_REQUESTS\<close> and one. \<open>next_pid\<close>: \<open>NR_TASKS\<close> and one, enough by \<open>find_empty_process_fresh\<close>. The queues of
    the terminals: \<open>TTY_BUF_SIZE\<close>. Controllers: the retries of the code.
  \<^item> \<open>sched_loop\<close> and \<open>expire_timers\<close> have no bound (\<open>partial_function\<close>); \<open>schedule_picks_best\<close> and \<open>expire_timers_due\<close>
    show that they end.

  \<^bold>\<open>Not modelled.\<close> The assembly parts: the boot code, the entries of traps, interrupts and system calls, \<open>mm/page.s\<close>,
  \<open>keyboard.S\<close>, \<open>rs_io.s\<close>; where a C routine is entered from them, the definition starts at the routine
  (\<open>hd_interrupt\<close> and \<open>floppy_interrupt\<close> add the choice of the routine by \<open>do_hd\<close> and \<open>do_floppy\<close>). The C of \<open>traps.c\<close>, \<open>panic.c\<close>,
  \<open>printk.c\<close> and \<open>math_emulate.c\<close> prints registers and stops; \<open>init\<close> of \<open>init/main.c\<close> is the program of the first
  process; \<open>tools/build.c\<close> runs on the host. The descriptors of interrupts and of the free task slots are not kept. The transfer of data by direct memory access is done by hardware.
  Two simplifications: the file system model does not interleave processes inside one call, and a page
  that \<open>execve\<close> fills is a page of \<open>mm_state\<close>, while the data segment \<open>umem\<close> of the process it is mapped into is kept
  beside it and not recomputed from the page tables.

  \<^bold>\<open>Where the definitions stop short of the machine.\<close> The width and the precision in \<open>number\<close> are unbounded, in the code they are
  \<open>int\<close>: the two differ for widths near \<open>2^31\<close> only. \<open>tolower\<close> and \<open>toupper\<close> leave a character from 128 on as it is; the macros
  of \<open>ctype.h\<close> look it up in front of their table, where the result depends on what the linker put there. The port write of
  \<open>CMOS_READ\<close> that selects a register is the argument of the clock, not a step of its own. A routine that follows a
  null pointer is \<open>Fault\<close>; the kernel maps address 0, so that the machine reads low memory and goes on. The one exception is
  the store of \<open>insert_into_queues\<close> through an empty hash chain, which happens all the time: it goes to a field of its own and
  the routine goes on.
\<close>

end
